(* ===== verification/Prelude.thy ===== *)
theory Prelude
  imports Main "HOL-Library.Product_Lexorder" "HOL-Library.Option_ord"
    "HOL-Library.List_Lexorder" "HOL-Library.Char_ord"
begin

text \<open>
  Shared vocabulary of the development: the error sum with its sequencing operators (a Python
  \<open>raise\<close> is \<open>Inl\<close>, a normal return is \<open>Inr\<close>), the loop \<open>foldE\<close> that stops at
  the first exception, the list operations that Django query sets reduce to (first row, ordered
  rows, update of one row by primary key, a fresh primary key), and the theorem collections the
  component theories fill:
  \<^item> \<open>frame\<close>: what an operation leaves unchanged;
  \<^item> \<open>run_defs\<close>: the definitions to unfold when a concrete run is evaluated.
\<close>

named_theorems frame "what an operation leaves unchanged"
named_theorems run_defs "definitions unfolded to evaluate a concrete run"

section \<open>Exceptions as sums\<close>

definition bindE :: "'e + 'a \<Rightarrow> ('a \<Rightarrow> 'e + 'b) \<Rightarrow> 'e + 'b" where
  "bindE m f = (case m of Inl e \<Rightarrow> Inl e | Inr x \<Rightarrow> f x)"

definition thenE :: "'e + unit \<Rightarrow> 'e + 'b \<Rightarrow> 'e + 'b" where
  "thenE m k = (case m of Inl e \<Rightarrow> Inl e | Inr _ \<Rightarrow> k)"

lemma bindE_simps [simp]: "bindE (Inl e) f = Inl e" "bindE (Inr x) f = f x"
  by (simp_all add: bindE_def)

lemma thenE_simps [simp]: "thenE (Inl e) k = Inl e" "thenE (Inr u) k = k"
  by (simp_all add: thenE_def)

lemma bindE_Inr: "bindE m f = Inr y \<longleftrightarrow> (\<exists>x. m = Inr x \<and> f x = Inr y)"
  by (cases m) auto

lemma bindE_Inl: "bindE m f = Inl e \<longleftrightarrow> m = Inl e \<or> (\<exists>x. m = Inr x \<and> f x = Inl e)"
  by (cases m) auto

lemma thenE_Inr: "thenE m k = Inr y \<longleftrightarrow> m = Inr () \<and> k = Inr y"
  by (cases m) auto

lemma thenE_Inl: "thenE m k = Inl e \<longleftrightarrow> m = Inl e \<or> (m = Inr () \<and> k = Inl e)"
  by (cases m) auto

lemma bindE_InrE:
  assumes "bindE m f = Inr y"
  obtains x where "m = Inr x" "f x = Inr y"
  using assms by (auto simp: bindE_Inr)

lemma bindE_cong [fundef_cong]:
  "m = m' \<Longrightarrow> (\<And>x. m' = Inr x \<Longrightarrow> f x = f' x) \<Longrightarrow> bindE m f = bindE m' f'"
  by (cases m') (auto simp: bindE_def)

text \<open>A \<open>for\<close> loop whose body may raise: the first exception ends it.\<close>

primrec foldE :: "('a \<Rightarrow> 's \<Rightarrow> 'e + 's) \<Rightarrow> 'a list \<Rightarrow> 's \<Rightarrow> 'e + 's" where
  "foldE f [] s = Inr s"
| "foldE f (x # xs) s = bindE (f x s) (foldE f xs)"

lemma foldE_append: "foldE f (xs @ ys) s = bindE (foldE f xs s) (foldE f ys)"
  by (induction xs arbitrary: s) (auto simp: bindE_def split: sum.splits)

text \<open>An invariant of the body is an invariant of the loop.\<close>

lemma foldE_invariant:
  assumes "foldE f xs s = Inr t" and "P s"
    and "\<And>x s s'. x \<in> set xs \<Longrightarrow> P s \<Longrightarrow> f x s = Inr s' \<Longrightarrow> P s'"
  shows "P t"
  using assms
proof (induction xs arbitrary: s)
  case Nil
  then show ?case by simp
next
  case (Cons x xs)
  from Cons.prems(1) obtain s' where "f x s = Inr s'" and "foldE f xs s' = Inr t"
    by (auto simp: bindE_Inr)
  with Cons.prems show ?case by (auto intro: Cons.IH)
qed

text \<open>A loop whose body never raises under an invariant returns, and keeps the invariant.\<close>

lemma foldE_total:
  assumes "P s"
    and "\<And>x s. x \<in> set xs \<Longrightarrow> P s \<Longrightarrow> \<exists>s'. f x s = Inr s' \<and> P s'"
  shows "\<exists>t. foldE f xs s = Inr t \<and> P t"
  using assms
proof (induction xs arbitrary: s)
  case Nil
  then show ?case by simp
next
  case (Cons x xs)
  then obtain s' where "f x s = Inr s'" "P s'" by fastforce
  with Cons show ?case by simp
qed

text \<open>
  A loop whose body establishes \<open>Q x\<close> for its element, where later rounds, related by \<open>R\<close>, keep it.
\<close>

lemma foldE_each:
  assumes "P s"
    and "\<And>x s. x \<in> set xs \<Longrightarrow> P s \<Longrightarrow> \<exists>s'. f x s = Inr s' \<and> P s' \<and> Q x s' \<and> R s s'"
    and "\<And>s. R s s" "\<And>a b c. R a b \<Longrightarrow> R b c \<Longrightarrow> R a c"
    and "\<And>x s s'. Q x s \<Longrightarrow> R s s' \<Longrightarrow> Q x s'"
  shows "\<exists>t. foldE f xs s = Inr t \<and> P t \<and> R s t \<and> (\<forall>x \<in> set xs. Q x t)"
  using assms(1,2)
proof (induction xs arbitrary: s)
  case Nil
  then show ?case using assms(3) by auto
next
  case (Cons x xs)
  obtain s1 where s1: "f x s = Inr s1" "P s1" "Q x s1" "R s s1"
    using Cons.prems(2) [of x s] Cons.prems(1) by auto
  obtain t where "foldE f xs s1 = Inr t" "P t" "R s1 t" "\<forall>x \<in> set xs. Q x t"
    using Cons.IH [OF s1(2)] Cons.prems(2) by auto
  with s1 assms(4,5) show ?case by auto
qed

text \<open>A loop that skips some elements and counts the others.\<close>

definition counted :: "('s \<Rightarrow> 'a \<Rightarrow> bool) \<Rightarrow> ('a \<Rightarrow> 's \<Rightarrow> 'e + 's) \<Rightarrow> 'a \<Rightarrow> nat \<times> 's \<Rightarrow> 'e + (nat \<times> 's)" where
  "counted skip f x acc = (let (n, s) = acc in
     if skip s x then Inr (n, s) else bindE (f x s) (\<lambda>s. Inr (n + 1, s)))"

lemma counted_pair [simp]:
  "counted skip f x (n, s) = (if skip s x then Inr (n, s) else bindE (f x s) (\<lambda>s. Inr (n + 1, s)))"
  by (simp add: counted_def)

lemma foldE_counted:
  assumes "P s" "\<And>x s s'. x \<in> set xs \<Longrightarrow> P s \<Longrightarrow> f x s = Inr s' \<Longrightarrow> P s'"
    and "\<And>x s. x \<in> set xs \<Longrightarrow> P s \<Longrightarrow> skip s x = c x"
  shows "foldE (counted skip f) xs (n, s) =
    bindE (foldE f (filter (\<lambda>x. \<not> c x) xs) s) (\<lambda>s. Inr (n + length (filter (\<lambda>x. \<not> c x) xs), s))"
  using assms
proof (induction xs arbitrary: n s)
  case Nil
  then show ?case by simp
next
  case (Cons x xs)
  have IH: "foldE (counted skip f) xs (m, u) = bindE (foldE f (filter (\<lambda>x. \<not> c x) xs) u)
      (\<lambda>s. Inr (m + length (filter (\<lambda>x. \<not> c x) xs), s))" if "P u" for m u
  proof (rule Cons.IH [OF that])
    show "P s'" if "y \<in> set xs" "P v" "f y v = Inr s'" for y v s'
      by (rule Cons.prems(2) [OF _ that(2,3)]) (simp add: that(1))
  qed (simp add: Cons.prems(3))
  have skip: "skip s x = c x" using Cons.prems(1,3) by simp
  show ?case
  proof (cases "f x s")
    case (Inl e)
    then show ?thesis using IH [OF Cons.prems(1)] skip by simp
  next
    case (Inr s')
    moreover have "P s'" by (rule Cons.prems(2) [OF _ Cons.prems(1) Inr]) simp
    ultimately show ?thesis using IH [OF Cons.prems(1)] IH skip by simp
  qed
qed

section \<open>Rows of a table\<close>

text \<open>\<open>QuerySet.first()\<close> on an already ordered list of rows.\<close>

definition first_row :: "'a list \<Rightarrow> 'a option" where
  "first_row xs = (case xs of [] \<Rightarrow> None | x # _ \<Rightarrow> Some x)"

lemma first_row_None [simp]: "first_row xs = None \<longleftrightarrow> xs = []"
  by (simp add: first_row_def split: list.splits)

lemma first_row_Some: "first_row xs = Some x \<Longrightarrow> x \<in> set xs"
  by (auto simp: first_row_def split: list.splits)

lemma first_row_simps [simp]: "first_row [] = None" "first_row (x # xs) = Some x"
  by (simp_all add: first_row_def)

lemma first_row_is_None_set: "first_row xs = None \<longleftrightarrow> set xs = {}"
  by simp

text \<open>\<open>order_by\<close>: a stable sort; rows that tie keep primary-key order.\<close>

definition order_by :: "('a \<Rightarrow> 'k::linorder) \<Rightarrow> 'a list \<Rightarrow> 'a list" where
  "order_by key xs = sort_key key xs"

definition order_by_desc :: "('a \<Rightarrow> int) \<Rightarrow> 'a list \<Rightarrow> 'a list" where
  "order_by_desc key xs = sort_key (\<lambda>x. - key x) xs"

lemma set_order_by [simp]: "set (order_by key xs) = set xs"
  by (simp add: order_by_def)

lemma set_order_by_desc [simp]: "set (order_by_desc key xs) = set xs"
  by (simp add: order_by_desc_def)

lemma length_order_by [simp]: "length (order_by key xs) = length xs"
  by (simp add: order_by_def)

lemma length_order_by_desc [simp]: "length (order_by_desc key xs) = length xs"
  by (simp add: order_by_desc_def)

lemma distinct_order_by [simp]: "distinct (order_by key xs) = distinct xs"
  by (simp add: order_by_def)

lemma distinct_order_by_desc [simp]: "distinct (order_by_desc key xs) = distinct xs"
  by (simp add: order_by_desc_def)

lemma order_by_Nil [simp]: "order_by key xs = [] \<longleftrightarrow> xs = []"
  by (metis length_0_conv length_order_by)

lemma order_by_desc_Nil [simp]: "order_by_desc key xs = [] \<longleftrightarrow> xs = []"
  by (metis length_0_conv length_order_by_desc)

lemma first_row_ex: "x \<in> set xs \<Longrightarrow> \<exists>y. first_row xs = Some y"
  by (cases xs) auto

text \<open>
  Automatic primary keys. PostgreSQL hands out a key no row of the table has; the model takes the
  successor of the largest key.
\<close>

definition fresh_pk :: "nat list \<Rightarrow> nat" where
  "fresh_pk ks = Suc (foldr max ks 0)"

lemma foldr_max_ge: "k \<in> set ks \<Longrightarrow> k \<le> foldr max ks (0::nat)"
  by (induction ks) auto

lemma fresh_pk_notin [simp]: "fresh_pk ks \<notin> set ks"
  by (metis fresh_pk_def foldr_max_ge not_less_eq_eq order_refl)

lemma fresh_pk_greater: "k \<in> set ks \<Longrightarrow> k < fresh_pk ks"
  by (simp add: fresh_pk_def foldr_max_ge less_Suc_eq_le)

text \<open>Writing one row back, found by its primary key.\<close>

definition update_row :: "('a \<Rightarrow> nat) \<Rightarrow> nat \<Rightarrow> ('a \<Rightarrow> 'a) \<Rightarrow> 'a list \<Rightarrow> 'a list" where
  "update_row key k f xs = map (\<lambda>x. if key x = k then f x else x) xs"

definition get_row :: "('a \<Rightarrow> nat) \<Rightarrow> nat \<Rightarrow> 'a list \<Rightarrow> 'a option" where
  "get_row key k xs = List.find (\<lambda>x. key x = k) xs"

lemma get_row_Some: "get_row key k xs = Some x \<Longrightarrow> x \<in> set xs \<and> key x = k"
  by (auto simp: get_row_def find_Some_iff)

lemma get_row_None: "get_row key k xs = None \<longleftrightarrow> (\<forall>x \<in> set xs. key x \<noteq> k)"
  by (auto simp: get_row_def find_None_iff)

lemma get_row_unique:
  "distinct (map key xs) \<Longrightarrow> x \<in> set xs \<Longrightarrow> get_row key (key x) xs = Some x"
proof (induction xs)
  case Nil
  then show ?case by simp
next
  case (Cons y xs)
  then show ?case by (auto simp: get_row_def image_iff)
qed

lemma set_update_row:
  "set (update_row key k f xs) = {x \<in> set xs. key x \<noteq> k} \<union> f ` {x \<in> set xs. key x = k}"
  by (auto simp: update_row_def image_iff)

lemma length_update_row [simp]: "length (update_row key k f xs) = length xs"
  by (simp add: update_row_def)

lemma keys_update_row:
  "(\<And>x. key (f x) = key x) \<Longrightarrow> map key (update_row key k f xs) = map key xs"
  by (simp add: update_row_def)

lemma get_row_update_row:
  assumes "\<And>x. key (f x) = key x"
  shows "get_row key j (update_row key k f xs) =
    (if j = k then map_option f (get_row key j xs) else get_row key j xs)"
  using assms by (induction xs) (auto simp: get_row_def update_row_def)

text \<open>Writing a batch of different rows changes each of them once.\<close>

lemma fold_update_row:
  assumes "distinct (map key rows)" "\<And>x. key (f x) = key x"
  shows "fold (\<lambda>n. update_row key (key n) f) rows xs
    = map (\<lambda>x. if key x \<in> key ` set rows then f x else x) xs"
  using assms(1)
proof (induction rows arbitrary: xs)
  case Nil
  then show ?case by simp
next
  case (Cons n rows)
  then show ?case by (auto simp: update_row_def assms(2))
qed

lemma update_row_same: "\<forall>x \<in> set xs. key x \<noteq> k \<Longrightarrow> update_row key k f xs = xs"
  by (simp add: update_row_def map_idI)

lemma update_row_const:
  assumes "distinct (map key xs)" "x \<in> set xs"
  shows "update_row key (key x) f xs = update_row key (key x) (\<lambda>_. f x) xs"
  using assms unfolding update_row_def by (auto simp: distinct_map inj_on_def)

lemma count_update_row:
  assumes "\<And>x. x \<in> set xs \<Longrightarrow> key x = k \<Longrightarrow> P (f x) = P x"
  shows "length (filter P (update_row key k f xs)) = length (filter P xs)"
  using assms by (induction xs) (auto simp: update_row_def)

section \<open>Comparisons with a column that may be NULL\<close>

text \<open>SQL drops a row when the compared column is NULL.\<close>

definition lte_null :: "int option \<Rightarrow> int \<Rightarrow> bool" where
  "lte_null d t = (case d of None \<Rightarrow> False | Some x \<Rightarrow> x \<le> t)"

definition null_or_gt :: "int option \<Rightarrow> int \<Rightarrow> bool" where
  "null_or_gt d t = (case d of None \<Rightarrow> True | Some x \<Rightarrow> t < x)"

lemma lte_null_simps [simp]: "lte_null None t = False" "lte_null (Some x) t = (x \<le> t)"
  by (simp_all add: lte_null_def)

lemma null_or_gt_simps [simp]: "null_or_gt None t = True" "null_or_gt (Some x) t = (t < x)"
  by (simp_all add: null_or_gt_def)

lemma lte_null_mono: "lte_null d t \<Longrightarrow> t \<le> t' \<Longrightarrow> lte_null d t'"
  by (cases d) auto

end
