(* ===== verification/PyVal.thy ===== *)
theory PyVal
  imports Prelude
begin

text \<open>
  What the code uses of Python's strings and of JSON-like values. A \<open>str\<close> is a list of
  characters, one per code point (the model's characters stop at 255, so \<open>strip\<close> and
  \<open>lower\<close> are Python's on that range). A payload, an audit \<open>changes\<close> dictionary or an
  operation result is a \<open>pyval\<close>; a \<open>dict\<close> is an association list in insertion order.
  Also: \<open>core/services/audit.py\<close>, function \<open>_scrub\<close>, the redaction every audit value
  passes through.
\<close>

section \<open>Strings\<close>

text \<open>\<open>str.isspace\<close> up to code point 255, and \<open>str.strip()\<close>.\<close>

definition py_space :: "char \<Rightarrow> bool" where
  "py_space c = (let n = (of_char c :: nat) in
     (9 \<le> n \<and> n \<le> 13) \<or> (28 \<le> n \<and> n \<le> 32) \<or> n = 133 \<or> n = 160)"

definition strip :: "string \<Rightarrow> string" where
  "strip s = rev (dropWhile py_space (rev (dropWhile py_space s)))"

definition lower_char :: "char \<Rightarrow> char" where
  "lower_char c = (let n = (of_char c :: nat) in
     if (65 \<le> n \<and> n \<le> 90) \<or> (192 \<le> n \<and> n \<le> 222 \<and> n \<noteq> 215) then char_of (n + 32) else c)"

definition lower :: "string \<Rightarrow> string" where
  "lower s = map lower_char s"

text \<open>\<open>fragment in text\<close>.\<close>

fun is_prefix :: "string \<Rightarrow> string \<Rightarrow> bool" where
  "is_prefix [] ys = True"
| "is_prefix (x # xs) [] = False"
| "is_prefix (x # xs) (y # ys) = (x = y \<and> is_prefix xs ys)"

fun contains :: "string \<Rightarrow> string \<Rightarrow> bool" where
  "contains pat [] = (pat = [])"
| "contains pat (c # cs) = (is_prefix pat (c # cs) \<or> contains pat cs)"

text \<open>\<open>str(n)\<close> for integers, and the zero-padded \<open>%0wd\<close>.\<close>

definition digit_char :: "nat \<Rightarrow> char" where
  "digit_char d = char_of (48 + d)"

fun show_nat :: "nat \<Rightarrow> string" where
  "show_nat n = (if n < 10 then [digit_char n] else show_nat (n div 10) @ [digit_char (n mod 10)])"

declare show_nat.simps [simp del]

definition show_int :: "int \<Rightarrow> string" where
  "show_int i = (if i < 0 then ''-'' @ show_nat (nat (- i)) else show_nat (nat i))"

definition pad0 :: "nat \<Rightarrow> int \<Rightarrow> string" where
  "pad0 w i = (let s = show_int i in replicate (w - length s) (CHR ''0'') @ s)"

text \<open>Stripping twice is stripping once; nothing outside the ends is touched.\<close>

lemma dropWhile_rev_dropWhile:
  "dropWhile P (rev (dropWhile P (rev (dropWhile P s)))) = rev (dropWhile P (rev (dropWhile P s)))"
proof (cases "dropWhile P s")
  case Nil
  show ?thesis unfolding Nil by simp
next
  case (Cons c cs)
  then have "\<not> P c" by (metis hd_dropWhile list.distinct(1) list.sel(1))
  then have "dropWhile P (rev (c # cs)) = dropWhile P (rev cs) @ [c]"
    by (cases "\<exists>x \<in> set (rev cs). \<not> P x") (auto simp: dropWhile_append)
  with Cons \<open>\<not> P c\<close> show ?thesis by simp
qed

lemma dropWhile_twice: "dropWhile P (dropWhile P s) = dropWhile P s"
  by (induction s) auto

lemma strip_strip [simp]: "strip (strip s) = strip s"
  by (simp add: strip_def dropWhile_rev_dropWhile dropWhile_twice)

lemma strip_Nil [simp]: "strip [] = []"
  by (simp add: strip_def)

lemma lower_char_idem [simp]: "lower_char (lower_char c) = lower_char c"
  by (cases "of_char c < (256 :: nat)") (auto simp: lower_char_def Let_def)

lemma lower_lower [simp]: "lower (lower s) = lower s"
  by (simp add: lower_def)

lemma show_nat_nonempty [simp]: "show_nat n \<noteq> []"
  by (subst show_nat.simps) simp

section \<open>JSON-like values\<close>

datatype pyval =
    PNone
  | PBool bool
  | PInt int
  | PStr string
  | PTime string \<comment> \<open>a date or datetime, by its \<open>isoformat()\<close> text\<close>
  | PList "pyval list"
  | PDict "(string \<times> pyval) list"

type_synonym dict = "(string \<times> pyval) list"

text \<open>\<open>d[k] = v\<close> keeps the position of a key that is already there.\<close>

primrec dict_set :: "string \<Rightarrow> pyval \<Rightarrow> dict \<Rightarrow> dict" where
  "dict_set k v [] = [(k, v)]"
| "dict_set k v (p # d) = (if fst p = k then (k, v) # d else p # dict_set k v d)"

text \<open>\<open>a | b\<close>.\<close>

definition dict_merge :: "dict \<Rightarrow> dict \<Rightarrow> dict" where
  "dict_merge a b = fold (\<lambda>(k, v) d. dict_set k v d) b a"

lemma map_of_dict_set: "map_of (dict_set k v d) = (map_of d)(k \<mapsto> v)"
  by (induction d) auto

definition opt_val :: "('a \<Rightarrow> pyval) \<Rightarrow> 'a option \<Rightarrow> pyval" where
  "opt_val f x = (case x of None \<Rightarrow> PNone | Some y \<Rightarrow> f y)"

definition PNat :: "nat \<Rightarrow> pyval" where
  "PNat n = PInt (int n)"

section \<open>Redaction (audit.py)\<close>

definition REDACT_KEYS :: "string list" where
  "REDACT_KEYS = [''password'', ''token'', ''secret'', ''otp'', ''apikey'', ''api_key'']"

definition redacted_key :: "string \<Rightarrow> bool" where
  "redacted_key k = list_ex (\<lambda>fragment. contains fragment (lower k)) REDACT_KEYS"

text \<open>
  \<open>_scrub(value, depth)\<close>: dates become text, lists and dictionaries are scrubbed inside, and
  everything below depth 4 is cut.
\<close>

fun scrub :: "nat \<Rightarrow> pyval \<Rightarrow> pyval" where
  "scrub depth (PDict d) = (if depth > 4 then PStr ''<truncated>'' else
     PDict (map (\<lambda>(key, item). (key, if redacted_key key then PStr ''<redacted>''
                                       else scrub (depth + 1) item)) d))"
| "scrub depth (PList vs) = (if depth > 4 then PStr ''<truncated>'' else
     PList (map (scrub (depth + 1)) vs))"
| "scrub depth (PTime t) = (if depth > 4 then PStr ''<truncated>'' else PStr t)"
| "scrub depth v = (if depth > 4 then PStr ''<truncated>'' else v)"

text \<open>A value with no secret: under every redacted key, at any depth, only the marker.\<close>

fun no_secrets :: "pyval \<Rightarrow> bool" where
  "no_secrets (PDict d) = list_all (\<lambda>(k, v). (redacted_key k \<longrightarrow> v = PStr ''<redacted>'') \<and> no_secrets v) d"
| "no_secrets (PList vs) = list_all no_secrets vs"
| "no_secrets _ = True"

text \<open>A JSON-serialisable value of bounded nesting.\<close>

fun json_depth :: "pyval \<Rightarrow> nat" where
  "json_depth (PDict d) = Suc (foldr (\<lambda>(k, v) m. max (json_depth v) m) d 0)"
| "json_depth (PList vs) = Suc (foldr (\<lambda>v m. max (json_depth v) m) vs 0)"
| "json_depth _ = 0"

fun plain_json :: "pyval \<Rightarrow> bool" where
  "plain_json (PDict d) = list_all (\<lambda>(k, v). plain_json v) d"
| "plain_json (PList vs) = list_all plain_json vs"
| "plain_json (PTime t) = False"
| "plain_json _ = True"

text \<open>What redaction yields, and what it leaves alone.\<close>

lemma json_depth_le [simp]:
  "foldr (\<lambda>(k, v). max (json_depth v)) d 0 \<le> n \<longleftrightarrow> (\<forall>(k, v) \<in> set d. json_depth v \<le> n)"
  by (induction d) auto

lemma json_depth_list_le [simp]:
  "foldr (\<lambda>v. max (json_depth v)) vs 0 \<le> n \<longleftrightarrow> (\<forall>v \<in> set vs. json_depth v \<le> n)"
  by (induction vs) auto

lemma scrub_plain: "plain_json (scrub depth v)"
  by (induction depth v rule: scrub.induct) (auto simp: list_all_iff)

lemma scrub_no_secrets: "no_secrets (scrub depth v)"
  by (induction depth v rule: scrub.induct) (auto simp: list_all_iff)

lemma scrub_depth: "json_depth (scrub depth v) \<le> 5 - depth"
proof (induction depth v rule: scrub.induct)
  case (1 depth d)
  show ?case
  proof (cases "depth > 4")
    case False
    then have "5 - depth = Suc (5 - (depth + 1))" by simp
    with 1 False show ?thesis by (fastforce split: prod.splits)
  qed simp
next
  case (2 depth vs)
  show ?case
  proof (cases "depth > 4")
    case False
    then have "5 - depth = Suc (5 - (depth + 1))" by simp
    with 2 False show ?thesis by simp
  qed simp
qed simp_all

lemma scrub_same: "plain_json v \<Longrightarrow> no_secrets v \<Longrightarrow> json_depth v + depth \<le> 4 \<Longrightarrow> scrub depth v = v"
proof (induction depth v rule: scrub.induct)
  case (1 depth d)
  have d: "\<not> depth > 4" "foldr (\<lambda>(k, v). max (json_depth v)) d 0 \<le> 3 - depth" using 1(4) by (simp_all add: le_diff_conv2 del: json_depth_le)
  have "(if redacted_key k then PStr ''<redacted>'' else scrub (depth + 1) v) = v" if "(k, v) \<in> set d" for k v
  proof (cases "redacted_key k")
    case False
    have "json_depth v \<le> 3 - depth" using d(2) that by auto
    then have "json_depth v + (depth + 1) \<le> 4" using 1(4) by (simp add: le_diff_conv2)
    with 1(1) [OF d(1) that refl False] 1(2,3) that False show ?thesis by (auto simp: list_all_iff)
  qed (use 1(3) that in \<open>auto simp: list_all_iff\<close>)
  then show ?case using d(1) by (auto intro!: map_idI split: prod.splits)
next
  case (2 depth vs)
  have d: "\<not> depth > 4" "foldr (\<lambda>v. max (json_depth v)) vs 0 \<le> 3 - depth" using 2(4) by (simp_all add: le_diff_conv2 del: json_depth_list_le)
  have "scrub (depth + 1) v = v" if "v \<in> set vs" for v
  proof -
    have "json_depth v \<le> 3 - depth" using d(2) that by simp
    then have "json_depth v + (depth + 1) \<le> 4" using 2(4) by (simp add: le_diff_conv2)
    with 2(1) [OF d(1) that] 2(2,3) that show ?thesis by (auto simp: list_all_iff)
  qed
  then show ?case using d(1) by (simp add: map_idI)
qed simp_all

end
