(* ===== verification/Slots.thy ===== *)
theory Slots
  imports PyVal
begin

text \<open>
  Time and slot geometry: \<open>core/services/slots.py\<close>, the local-time helpers of
  \<open>core/services/clock.py\<close> and the constants of \<open>roomreserve/settings/base.py\<close>.

  An aware \<open>datetime\<close> is an instant, here an \<open>int\<close>: microseconds since 1970-01-01 UTC.
  A \<open>date\<close> is an \<open>int\<close> too: days since 1970-01-01. Asia/Bangkok is UTC+7 with no
  daylight saving (the code relies on this in \<open>is_hour_aligned\<close> and in the
  \<open>booking_slot_hour_aligned\<close> constraint); the local mean time used before 1920 is left out,
  and so is the \<open>OverflowError\<close> outside the years 1 to 9999.
\<close>

type_synonym time = int
type_synonym date = int

definition us_second :: int where "us_second = 1000000"
definition us_minute :: int where "us_minute = 60 * us_second"
definition us_hour :: int where "us_hour = 60 * us_minute"
definition us_day :: int where "us_day = 24 * us_hour"

text \<open>\<open>BANGKOK = ZoneInfo("Asia/Bangkok")\<close>, as an offset.\<close>

definition BANGKOK :: int where "BANGKOK = 7 * us_hour"

lemmas us_defs = us_second_def us_minute_def us_hour_def us_day_def BANGKOK_def

definition SLOT_DELTA :: int where "SLOT_DELTA = 60 * us_minute"

lemma SLOT_DELTA_us_hour: "SLOT_DELTA = us_hour"
  by (simp add: SLOT_DELTA_def us_defs)

section \<open>Settings\<close>

record settings =
  HORIZON_DAYS :: int
  MAX_UPCOMING_HOURS :: int
  STAFF_BOOKING_HORIZON_DAYS :: int
  DAILY_QUOTA :: int
  CHECKIN_GRACE_MINUTES :: int
  STRIKE_WINDOW_DAYS :: int
  STRIKE_THRESHOLD :: int
  AUTO_SUSPENSION_DAYS :: int
  REMINDER_LEAD_MINUTES :: int
  SLOT_MINUTES :: int
  OPENING_SLOT_START_HOUR :: int
  LAST_SLOT_START_HOUR :: int
  INSTITUTION_EMAIL_DOMAIN :: string
  OUTBOX_ENABLED :: bool
  OUTBOX_MAX_ATTEMPTS :: nat
  OUTBOX_BACKOFF_MINUTES :: "int list"
  OUTBOX_LEASE_SECONDS :: int
  OUTBOX_BATCH_SIZE :: nat
  SCHEDULER_HEARTBEAT_STALE_SECONDS :: int
  OUTBOX_AGE_WARN_SECONDS :: int
  RECONCILE_BUDGET :: nat

definition default_settings :: settings where
  "default_settings = \<lparr>
     HORIZON_DAYS = 2, MAX_UPCOMING_HOURS = 4, STAFF_BOOKING_HORIZON_DAYS = 90, DAILY_QUOTA = 2,
     CHECKIN_GRACE_MINUTES = 15, STRIKE_WINDOW_DAYS = 30, STRIKE_THRESHOLD = 3,
     AUTO_SUSPENSION_DAYS = 7, REMINDER_LEAD_MINUTES = 30, SLOT_MINUTES = 60,
     OPENING_SLOT_START_HOUR = 8, LAST_SLOT_START_HOUR = 19,
     INSTITUTION_EMAIL_DOMAIN = ''student.chula.ac.th'',
     OUTBOX_ENABLED = True, OUTBOX_MAX_ATTEMPTS = 6, OUTBOX_BACKOFF_MINUTES = [1, 5, 30, 60, 240],
     OUTBOX_LEASE_SECONDS = 300, OUTBOX_BATCH_SIZE = 50, SCHEDULER_HEARTBEAT_STALE_SECONDS = 180,
     OUTBOX_AGE_WARN_SECONDS = 600, RECONCILE_BUDGET = 500\<rparr>"

section \<open>Local time (clock.py)\<close>

definition local_date :: "time \<Rightarrow> date" where
  "local_date moment = (moment + BANGKOK) div us_day"

text \<open>\<open>local_time(moment)\<close> is read through its \<open>hour\<close>, \<open>minute\<close>, \<open>second\<close>
  and \<open>microsecond\<close>.\<close>

definition local_hour :: "time \<Rightarrow> int" where
  "local_hour moment = ((moment + BANGKOK) mod us_day) div us_hour"

definition local_minute :: "time \<Rightarrow> int" where
  "local_minute moment = ((moment + BANGKOK) mod us_hour) div us_minute"

definition local_second :: "time \<Rightarrow> int" where
  "local_second moment = ((moment + BANGKOK) mod us_minute) div us_second"

definition local_microsecond :: "time \<Rightarrow> int" where
  "local_microsecond moment = (moment + BANGKOK) mod us_second"

text \<open>\<open>date.weekday()\<close>: Monday is 0; 1970-01-01 was a Thursday.\<close>

definition weekday :: "date \<Rightarrow> int" where
  "weekday d = (d + 3) mod 7"

section \<open>Calendar dates and text\<close>

text \<open>CPython's \<open>date.fromordinal\<close> (\<open>_ord2ymd\<close>), for the strings below.\<close>

definition days_before_month :: "int list" where
  "days_before_month = [0, 0, 31, 59, 90, 120, 151, 181, 212, 243, 273, 304, 334]"

definition days_in_month :: "int list" where
  "days_in_month = [0, 31, 28, 31, 30, 31, 30, 31, 31, 30, 31, 30, 31]"

definition ymd :: "date \<Rightarrow> int \<times> int \<times> int" where
  "ymd d = (let n = d + 719162;
      n400 = n div 146097; n = n mod 146097;
      n100 = n div 36524; n = n mod 36524;
      n4 = n div 1461; n = n mod 1461;
      n1 = n div 365; n = n mod 365;
      year = n400 * 400 + 1 + n100 * 100 + n4 * 4 + n1
    in if n1 = 4 \<or> n100 = 4 then (year - 1, 12, 31)
       else let leapyear = (n1 = 3 \<and> (n4 \<noteq> 24 \<or> n100 = 3));
          month = (n + 50) div 32;
          preceding = days_before_month ! nat month + (if month > 2 \<and> leapyear then 1 else 0)
        in if preceding > n
           then let month = month - 1;
              preceding = preceding - (days_in_month ! nat month + (if month = 2 \<and> leapyear then 1 else 0))
            in (year, month, n - preceding + 1)
           else (year, month, n - preceding + 1))"

text \<open>\<open>strftime("%Y%m%dT%H%M")\<close> of the local time (years of four digits).\<close>

definition encode_slot :: "time \<Rightarrow> string" where
  "encode_slot slot_start = (case ymd (local_date slot_start) of (y, m, d) \<Rightarrow>
     pad0 4 y @ pad0 2 m @ pad0 2 d @ ''T'' @ pad0 2 (local_hour slot_start) @ pad0 2 (local_minute slot_start))"

definition format_local :: "time \<Rightarrow> string" where
  "format_local moment = (case ymd (local_date moment) of (y, m, d) \<Rightarrow>
     pad0 2 d @ ''/'' @ pad0 2 m @ ''/'' @ pad0 4 y @ '' '' @
     pad0 2 (local_hour moment) @ '':'' @ pad0 2 (local_minute moment))"

text \<open>\<open>datetime.isoformat()\<close> of an instant in UTC, and \<open>date.isoformat()\<close>.\<close>

definition date_isoformat :: "date \<Rightarrow> string" where
  "date_isoformat d = (case ymd d of (y, m, dd) \<Rightarrow> pad0 4 y @ ''-'' @ pad0 2 m @ ''-'' @ pad0 2 dd)"

definition isoformat :: "time \<Rightarrow> string" where
  "isoformat t = date_isoformat (t div us_day) @ ''T'' @ pad0 2 ((t mod us_day) div us_hour) @ '':'' @
     pad0 2 ((t mod us_hour) div us_minute) @ '':'' @ pad0 2 ((t mod us_minute) div us_second) @
     (if t mod us_second = 0 then '''' else ''.'' @ pad0 6 (t mod us_second)) @ ''+00:00''"

definition PIso :: "time \<Rightarrow> pyval" where "PIso t = PTime (isoformat t)"

section \<open>Slots (slots.py)\<close>

definition slot_start_for :: "date \<Rightarrow> int \<Rightarrow> time" where
  "slot_start_for d hour = d * us_day + hour * us_hour - BANGKOK"

definition slot_end_for :: "time \<Rightarrow> time" where
  "slot_end_for slot_start = slot_start + SLOT_DELTA"

definition is_hour_aligned :: "time \<Rightarrow> bool" where
  "is_hour_aligned moment =
     (local_minute moment = 0 \<and> local_second moment = 0 \<and> local_microsecond moment = 0)"

text \<open>\<open>local.replace(minute=0, second=0, microsecond=0)\<close>.\<close>

definition floor_to_slot :: "time \<Rightarrow> time" where
  "floor_to_slot moment = moment - local_minute moment * us_minute
     - local_second moment * us_second - local_microsecond moment"

definition day_slot_starts :: "settings \<Rightarrow> date \<Rightarrow> int option \<Rightarrow> int option \<Rightarrow> time list" where
  "day_slot_starts cf d open_hour close_hour =
     (let op = (case open_hour of None \<Rightarrow> OPENING_SLOT_START_HOUR cf | Some h \<Rightarrow> h);
          cl = (case close_hour of None \<Rightarrow> LAST_SLOT_START_HOUR cf + 1 | Some h \<Rightarrow> h)
      in map (slot_start_for d) [op..cl - 1])"

definition default_opening_hours :: "settings \<Rightarrow> date \<Rightarrow> (int \<times> int) option" where
  "default_opening_hours cf d =
     (if weekday d \<ge> 5 then None
      else Some (OPENING_SLOT_START_HOUR cf, LAST_SLOT_START_HOUR cf + 1))"

definition dates_within_horizon :: "time \<Rightarrow> int \<Rightarrow> date list" where
  "dates_within_horizon now horizon_days =
     map (\<lambda>offset. local_date now + offset) [0..horizon_days]"

definition is_within_horizon :: "time \<Rightarrow> time \<Rightarrow> int \<Rightarrow> bool" where
  "is_within_horizon now slot_start horizon_days =
     (local_date slot_start \<le> local_date now + horizon_days)"

text \<open>\<open>int(seconds // 60)\<close> with \<open>seconds\<close> exact to the microsecond.\<close>

definition remaining_minutes :: "time \<Rightarrow> time \<Rightarrow> int" where
  "remaining_minutes now slot_end = max 0 ((slot_end - now) div us_minute)"

section \<open>Lemmas\<close>

text \<open>
  The units are kept folded: the proofs use only that they are positive multiples of each other.
\<close>

lemma us_pos [simp]: "0 < us_second" "0 < us_minute" "0 < us_hour" "0 < us_day" "0 < SLOT_DELTA"
  by (simp_all add: us_defs SLOT_DELTA_def)

lemma us_nonzero [simp]: "us_second \<noteq> 0" "us_minute \<noteq> 0" "us_hour \<noteq> 0" "us_day \<noteq> 0"
  by (simp_all add: us_defs)

lemma us_dvd [simp]: "us_second dvd us_minute" "us_minute dvd us_hour" "us_hour dvd us_day"
  by (simp_all add: us_minute_def us_hour_def us_day_def)

lemma div_mult_mod_dvd:
  "(m::int) dvd n \<Longrightarrow> (x mod n) div m * m + x mod m = x mod n"
  by (metis div_mult_mod_eq mod_mod_cancel)

lemma local_time_parts:
  "local_minute t * us_minute + local_second t * us_second + local_microsecond t
     = (t + BANGKOK) mod us_hour"
proof -
  have "local_second t * us_second + local_microsecond t = (t + BANGKOK) mod us_minute"
    unfolding local_second_def local_microsecond_def by (rule div_mult_mod_dvd) simp
  moreover have "local_minute t * us_minute + (t + BANGKOK) mod us_minute = (t + BANGKOK) mod us_hour"
    unfolding local_minute_def by (rule div_mult_mod_dvd) simp
  ultimately show ?thesis by linarith
qed

lemma local_parts_nonneg: "0 \<le> local_minute t" "0 \<le> local_second t" "0 \<le> local_microsecond t"
  by (simp_all add: local_minute_def local_second_def local_microsecond_def pos_imp_zdiv_nonneg_iff)

lemma floor_to_slot_mod: "floor_to_slot t = t - (t + BANGKOK) mod us_hour"
  unfolding floor_to_slot_def using local_time_parts [of t] by linarith

lemma is_hour_aligned_mod: "is_hour_aligned t \<longleftrightarrow> (t + BANGKOK) mod us_hour = 0"
proof
  assume "is_hour_aligned t"
  then show "(t + BANGKOK) mod us_hour = 0"
    unfolding is_hour_aligned_def using local_time_parts [of t] by simp
next
  assume "(t + BANGKOK) mod us_hour = 0"
  then have sum: "local_minute t * us_minute + local_second t * us_second + local_microsecond t = 0"
    by (simp add: local_time_parts)
  have "0 \<le> local_minute t * us_minute" "0 \<le> local_second t * us_second"
    by (simp_all add: local_parts_nonneg less_imp_le)
  with sum local_parts_nonneg(3) [of t]
  have "local_minute t * us_minute = 0 \<and> local_second t * us_second = 0 \<and> local_microsecond t = 0"
    by linarith
  then show "is_hour_aligned t" by (simp add: is_hour_aligned_def)
qed

lemma is_hour_aligned_dvd: "is_hour_aligned t \<longleftrightarrow> us_hour dvd t + BANGKOK"
  by (simp add: is_hour_aligned_mod dvd_eq_mod_eq_0)

lemma is_hour_aligned_step [simp]:
  "is_hour_aligned (t + SLOT_DELTA) = is_hour_aligned t"
  "is_hour_aligned (t - SLOT_DELTA) = is_hour_aligned t"
proof -
  have "(t + BANGKOK + us_hour) mod us_hour = (t + BANGKOK) mod us_hour"
    and "(t + BANGKOK - us_hour) mod us_hour = (t + BANGKOK) mod us_hour"
    by simp_all
  moreover have "t + SLOT_DELTA + BANGKOK = t + BANGKOK + us_hour"
    and "t - SLOT_DELTA + BANGKOK = t + BANGKOK - us_hour"
    unfolding SLOT_DELTA_us_hour by linarith+
  ultimately show "is_hour_aligned (t + SLOT_DELTA) = is_hour_aligned t"
    and "is_hour_aligned (t - SLOT_DELTA) = is_hour_aligned t"
    by (simp_all only: is_hour_aligned_mod)
qed

lemma slot_start_for_aligned [simp]: "is_hour_aligned (slot_start_for d h)"
  by (simp add: is_hour_aligned_dvd slot_start_for_def)

lemma floor_to_slot_aligned [simp]: "is_hour_aligned (floor_to_slot t)"
proof -
  have "floor_to_slot t + BANGKOK = (t + BANGKOK) - (t + BANGKOK) mod us_hour"
    unfolding floor_to_slot_mod by linarith
  then show ?thesis by (simp only: is_hour_aligned_dvd dvd_minus_mod)
qed

lemma floor_to_slot_le: "floor_to_slot t \<le> t"
  by (simp add: floor_to_slot_mod)

lemma floor_to_slot_gt: "t < slot_end_for (floor_to_slot t)"
  using pos_mod_bound [of us_hour "t + BANGKOK"]
  by (simp add: floor_to_slot_mod slot_end_for_def SLOT_DELTA_us_hour)

text \<open>Hour-aligned instants that are less than an hour apart are equal.\<close>

lemma aligned_close_eq:
  assumes "is_hour_aligned a" "is_hour_aligned b" "a < b + SLOT_DELTA" "b < a + SLOT_DELTA"
  shows "a = b"
proof -
  from assms(1,2) have "us_hour dvd (a + BANGKOK) - (b + BANGKOK)"
    unfolding is_hour_aligned_dvd by (rule dvd_diff)
  then have dvd: "us_hour dvd a - b" by simp
  show ?thesis
  proof (rule ccontr)
    assume "a \<noteq> b"
    with dvd have "us_hour \<le> \<bar>a - b\<bar>"
      by (metis dvd_imp_le_int eq_iff_diff_eq_0 us_pos(3) abs_of_pos)
    with assms(3,4) show False by (simp add: SLOT_DELTA_us_hour)
  qed
qed

lemma floor_to_slot_unique:
  assumes "is_hour_aligned s" "s \<le> t" "t < slot_end_for s"
  shows "floor_to_slot t = s"
  using assms floor_to_slot_le [of t] floor_to_slot_gt [of t]
  by (intro aligned_close_eq) (auto simp: slot_end_for_def)

lemma day_hour_range: "0 \<le> h \<Longrightarrow> h < 24 \<Longrightarrow> 0 \<le> h * us_hour \<and> h * us_hour < us_day"
  by (simp add: us_day_def less_imp_le)

lemma local_date_slot_start [simp]:
  assumes "0 \<le> h" "h < 24"
  shows "local_date (slot_start_for d h) = d"
proof -
  have "local_date (slot_start_for d h) = (h * us_hour + d * us_day) div us_day"
    by (simp add: local_date_def slot_start_for_def algebra_simps)
  then show ?thesis using day_hour_range [OF assms] by (simp add: div_pos_pos_trivial)
qed

lemma local_hour_slot_start [simp]:
  assumes "0 \<le> h" "h < 24"
  shows "local_hour (slot_start_for d h) = h"
proof -
  have "local_hour (slot_start_for d h) = ((h * us_hour + d * us_day) mod us_day) div us_hour"
    by (simp add: local_hour_def slot_start_for_def algebra_simps)
  then show ?thesis using day_hour_range [OF assms] by (simp add: mod_pos_pos_trivial)
qed

lemma slot_start_of_local:
  assumes "is_hour_aligned t"
  shows "slot_start_for (local_date t) (local_hour t) = t"
proof -
  let ?x = "t + BANGKOK"
  have "?x mod us_day div us_hour * us_hour + ?x mod us_hour = ?x mod us_day"
    by (rule div_mult_mod_dvd) simp
  moreover from assms have "?x mod us_hour = 0" by (simp add: is_hour_aligned_mod)
  moreover have "?x div us_day * us_day + ?x mod us_day = ?x" by simp
  ultimately show ?thesis
    unfolding slot_start_for_def local_date_def local_hour_def by linarith
qed

lemma int_div_less: 
  assumes "0 < (c::int)" "a < b * c"
  shows "a div c < b"
proof (rule ccontr)
  assume "\<not> a div c < b"
  with assms(1) have "b * c \<le> a div c * c" by simp
  also have "a div c * c \<le> a"
    using div_mult_mod_eq [of a c] pos_mod_sign [OF assms(1), of a] by linarith
  finally show False using assms(2) by simp
qed

lemma local_hour_range: "0 \<le> local_hour t" "local_hour t < 24"
proof -
  have "0 \<le> (t + BANGKOK) mod us_day" "(t + BANGKOK) mod us_day < 24 * us_hour"
    using pos_mod_bound [of us_day "t + BANGKOK"] by (simp_all add: us_day_def)
  then show "0 \<le> local_hour t" "local_hour t < 24"
    unfolding local_hour_def
    by (simp_all add: pos_imp_zdiv_nonneg_iff int_div_less)
qed

lemma slot_start_for_inject [simp]:
  "slot_start_for d h = slot_start_for d h' \<longleftrightarrow> h = h'"
  by (simp add: slot_start_for_def)

lemma slot_start_for_less [simp]:
  "slot_start_for d h < slot_start_for d h' \<longleftrightarrow> h < h'"
  "slot_start_for d h \<le> slot_start_for d h' \<longleftrightarrow> h \<le> h'"
  by (simp_all add: slot_start_for_def)

lemma slot_end_for_slot_start: "slot_end_for (slot_start_for d h) = slot_start_for d (h + 1)"
  by (simp add: slot_end_for_def slot_start_for_def SLOT_DELTA_us_hour algebra_simps)

lemma slot_end_for_gt [simp]: "t < slot_end_for t"
  by (simp add: slot_end_for_def)

lemma day_slot_starts_hours:
  "day_slot_starts cf d (Some a) (Some b) = map (slot_start_for d) [a..b - 1]"
  by (simp add: day_slot_starts_def)

lemma set_day_slot_starts:
  "set (day_slot_starts cf d (Some a) (Some b)) = {slot_start_for d h | h. a \<le> h \<and> h < b}"
  by (auto simp: day_slot_starts_hours)

lemma local_date_mono: "s \<le> t \<Longrightarrow> local_date s \<le> local_date t"
  by (simp add: local_date_def zdiv_mono1)

end
