(* ===== verification/Errors.thy ===== *)
theory Errors
  imports Slots
begin

text \<open>
  The outcome and error vocabulary of \<open>core/services/errors.py\<close>. A \<open>Code\<close> constant is a
  constructor of \<open>code\<close>, \<open>code_value\<close> its text. \<open>OperationRejected\<close> and the other
  exceptions a service body can let escape are the constructors of \<open>exn\<close>. The translated
  messages (\<open>_MESSAGES\<close>) are not modelled.
\<close>

section \<open>Codes\<close>

datatype code =
    Code_OK
  | Code_BUSY
  | Code_SLOT_TAKEN
  | Code_ADJACENCY_CONFLICT
  | Code_UPCOMING_LIMIT
  | Code_QUOTA_EXCEEDED
  | Code_OUTSIDE_HORIZON
  | Code_SLOT_IN_PAST
  | Code_SLOT_ELAPSED
  | Code_CLOSED
  | Code_CLASS_IN_SESSION
  | Code_APPROVAL_ROOM_NO_WALK_IN
  | Code_ROOM_NOT_FOR_INSTRUMENT
  | Code_INVALID_SLOT
  | Code_STALE_HOUR
  | Code_NO_SHOW_RECLAIM
  | Code_RANGE_TAKEN
  | Code_ROOM_MEMBERS_ONLY
  | Code_MEMBERS_ROOM_NO_WALK_IN
  | Code_RANGE_STARTED
  | Code_NOT_ELIGIBLE
  | Code_SUSPENDED
  | Code_PENDING_APPROVAL
  | Code_EMAIL_UNVERIFIED
  | Code_INACTIVE_ACCOUNT
  | Code_TEACHER_READ_ONLY
  | Code_NOT_OWNER
  | Code_WRONG_ROOM
  | Code_CHECK_IN_NOT_OPEN
  | Code_CHECK_IN_CLOSED
  | Code_ALREADY_CHECKED_IN
  | Code_TERMINAL_STATUS
  | Code_CANCEL_AFTER_START
  | Code_RESERVATION_HELD
  | Code_SAME_ROOM
  | Code_RECURRING_OCCURRENCE
  | Code_DUPLICATE_ACCOUNT
  | Code_INVALID_TOKEN
  | Code_TOKEN_EXPIRED
  | Code_TOKEN_USED
  | Code_DOMAIN_NOT_ALLOWED
  | Code_ROSTER_MISMATCH
  | Code_IDEMPOTENCY_PAYLOAD_MISMATCH
  | Code_INVALID_INPUT
  | Code_NOT_FOUND
  | Code_RATE_LIMITED

primrec code_value :: "code \<Rightarrow> string" where
  "code_value Code_OK = ''ok''"
| "code_value Code_BUSY = ''busy''"
| "code_value Code_SLOT_TAKEN = ''slot_taken''"
| "code_value Code_ADJACENCY_CONFLICT = ''adjacency_conflict''"
| "code_value Code_UPCOMING_LIMIT = ''upcoming_limit''"
| "code_value Code_QUOTA_EXCEEDED = ''quota_exceeded''"
| "code_value Code_OUTSIDE_HORIZON = ''outside_horizon''"
| "code_value Code_SLOT_IN_PAST = ''slot_in_past''"
| "code_value Code_SLOT_ELAPSED = ''slot_elapsed''"
| "code_value Code_CLOSED = ''closed''"
| "code_value Code_CLASS_IN_SESSION = ''class_in_session''"
| "code_value Code_APPROVAL_ROOM_NO_WALK_IN = ''approval_room_no_walk_in''"
| "code_value Code_ROOM_NOT_FOR_INSTRUMENT = ''room_not_for_instrument''"
| "code_value Code_INVALID_SLOT = ''invalid_slot''"
| "code_value Code_STALE_HOUR = ''stale_hour''"
| "code_value Code_NO_SHOW_RECLAIM = ''no_show_reclaim''"
| "code_value Code_RANGE_TAKEN = ''range_taken''"
| "code_value Code_ROOM_MEMBERS_ONLY = ''room_members_only''"
| "code_value Code_MEMBERS_ROOM_NO_WALK_IN = ''members_room_no_walk_in''"
| "code_value Code_RANGE_STARTED = ''range_started''"
| "code_value Code_NOT_ELIGIBLE = ''not_eligible''"
| "code_value Code_SUSPENDED = ''suspended''"
| "code_value Code_PENDING_APPROVAL = ''pending_approval''"
| "code_value Code_EMAIL_UNVERIFIED = ''email_unverified''"
| "code_value Code_INACTIVE_ACCOUNT = ''inactive_account''"
| "code_value Code_TEACHER_READ_ONLY = ''teacher_read_only''"
| "code_value Code_NOT_OWNER = ''not_owner''"
| "code_value Code_WRONG_ROOM = ''wrong_room''"
| "code_value Code_CHECK_IN_NOT_OPEN = ''check_in_not_open''"
| "code_value Code_CHECK_IN_CLOSED = ''check_in_closed''"
| "code_value Code_ALREADY_CHECKED_IN = ''already_checked_in''"
| "code_value Code_TERMINAL_STATUS = ''terminal_status''"
| "code_value Code_CANCEL_AFTER_START = ''cancel_after_start''"
| "code_value Code_RESERVATION_HELD = ''reservation_held''"
| "code_value Code_SAME_ROOM = ''same_room''"
| "code_value Code_RECURRING_OCCURRENCE = ''recurring_occurrence''"
| "code_value Code_DUPLICATE_ACCOUNT = ''duplicate_account''"
| "code_value Code_INVALID_TOKEN = ''invalid_token''"
| "code_value Code_TOKEN_EXPIRED = ''token_expired''"
| "code_value Code_TOKEN_USED = ''token_used''"
| "code_value Code_DOMAIN_NOT_ALLOWED = ''domain_not_allowed''"
| "code_value Code_ROSTER_MISMATCH = ''roster_mismatch''"
| "code_value Code_IDEMPOTENCY_PAYLOAD_MISMATCH = ''idempotency_payload_mismatch''"
| "code_value Code_INVALID_INPUT = ''invalid_input''"
| "code_value Code_NOT_FOUND = ''not_found''"
| "code_value Code_RATE_LIMITED = ''rate_limited''"

text \<open>\<open>_REJECTION_STATUS.get(code, default)\<close>.\<close>

definition status_for :: "code \<Rightarrow> int \<Rightarrow> int" where
  "status_for c dflt = (case c of
       Code_BUSY \<Rightarrow> 503
     | Code_RATE_LIMITED \<Rightarrow> 429
     | Code_IDEMPOTENCY_PAYLOAD_MISMATCH \<Rightarrow> 409
     | Code_SLOT_TAKEN \<Rightarrow> 409
     | Code_RANGE_TAKEN \<Rightarrow> 409
     | Code_RANGE_STARTED \<Rightarrow> 400
     | Code_ADJACENCY_CONFLICT \<Rightarrow> 409
     | Code_QUOTA_EXCEEDED \<Rightarrow> 409
     | Code_UPCOMING_LIMIT \<Rightarrow> 409
     | Code_ROOM_NOT_FOR_INSTRUMENT \<Rightarrow> 409
     | Code_ROOM_MEMBERS_ONLY \<Rightarrow> 409
     | Code_NOT_FOUND \<Rightarrow> 404
     | Code_INVALID_INPUT \<Rightarrow> 400
     | _ \<Rightarrow> dflt)"

section \<open>Outcomes\<close>

record outcome =
  ok :: bool
  code :: code
  data :: dict
  replayed :: bool

definition success :: "dict \<Rightarrow> outcome" where
  "success d = \<lparr>ok = True, code = Code_OK, data = d, replayed = False\<rparr>"

definition reject :: "code \<Rightarrow> dict \<Rightarrow> outcome" where
  "reject c d = \<lparr>ok = False, code = c, data = d, replayed = False\<rparr>"

text \<open>
  \<open>as_record\<close> is what the idempotency row stores, and \<open>replay\<close> reads it back. A stored
  result always has both keys, so the defaults of \<open>replay\<close> never apply.
\<close>

record op_record =
  rec_code :: code
  rec_data :: dict

definition as_record :: "outcome \<Rightarrow> op_record" where
  "as_record r = \<lparr>rec_code = code r, rec_data = data r\<rparr>"

definition replay :: "op_record \<Rightarrow> outcome" where
  "replay r = \<lparr>ok = True, code = rec_code r, data = rec_data r, replayed = True\<rparr>"

definition http_status :: "outcome \<Rightarrow> int" where
  "http_status r = status_for (code r) 200"

section \<open>Exceptions\<close>

datatype exn =
    OperationRejected outcome
  | IntegrityError string \<comment> \<open>the constraint the database names\<close>
  | DoesNotExist
  | DatabaseError
  | ValidationError
  | ValueError
  | ReconciliationBacklog
  | LockUnavailable
  | OperationalError "string option list" \<comment> \<open>the SQLSTATE along the chain of causes\<close>

definition rejected :: "code \<Rightarrow> dict \<Rightarrow> exn" where
  "rejected c d = OperationRejected (reject c d)"

lemma outcome_simps [simp]:
  "ok (success d) = True" "code (success d) = Code_OK" "data (success d) = d"
  "replayed (success d) = False"
  "ok (reject c d) = False" "code (reject c d) = c" "data (reject c d) = d"
  "replayed (reject c d) = False"
  "ok (replay r) = True" "code (replay r) = rec_code r" "data (replay r) = rec_data r"
  "replayed (replay r) = True"
  by (simp_all add: success_def reject_def replay_def)

lemma rejected_inject [simp]: "rejected c d = rejected c' d' \<longleftrightarrow> c = c' \<and> d = d'"
  by (auto simp: rejected_def reject_def)

lemma rejected_distinct [simp]:
  "rejected c d \<noteq> IntegrityError n" "rejected c d \<noteq> DoesNotExist" "rejected c d \<noteq> DatabaseError"
  "rejected c d \<noteq> ReconciliationBacklog" "rejected c d \<noteq> ValueError"
  "IntegrityError n \<noteq> rejected c d" "DoesNotExist \<noteq> rejected c d" "DatabaseError \<noteq> rejected c d"
  "ReconciliationBacklog \<noteq> rejected c d" "ValueError \<noteq> rejected c d"
  by (simp_all add: rejected_def)

text \<open>A body that raises nothing but \<open>OperationRejected\<close>.\<close>

definition clean :: "exn + 'a \<Rightarrow> bool" where
  "clean m \<longleftrightarrow> (\<forall>e. m = Inl e \<longrightarrow> (\<exists>c d. e = rejected c d))"

lemma clean_simps [simp]: "clean (Inr x)" "clean (Inl (rejected c d))"
  by (auto simp: clean_def)

lemma clean_bindE: "clean m \<Longrightarrow> (\<And>x. m = Inr x \<Longrightarrow> clean (f x)) \<Longrightarrow> clean (bindE m f)"
  by (cases m) (auto simp: clean_def)

lemma clean_thenE: "clean m \<Longrightarrow> (m = Inr () \<Longrightarrow> clean k) \<Longrightarrow> clean (thenE m k)"
  by (cases m) (auto simp: clean_def)

lemma clean_foldE:
  assumes "P s" "\<And>x s. x \<in> set xs \<Longrightarrow> P s \<Longrightarrow> clean (f x s)"
    and "\<And>x s s'. x \<in> set xs \<Longrightarrow> P s \<Longrightarrow> f x s = Inr s' \<Longrightarrow> P s'"
  shows "clean (foldE f xs s)"
  using assms
proof (induction xs arbitrary: s)
  case Nil
  then show ?case by simp
next
  case (Cons x xs)
  have "clean (f x s)" using Cons.prems(1,2) by simp
  moreover have "clean (foldE f xs s')" if "f x s = Inr s'" for s'
  proof (rule Cons.IH)
    show "P s'" by (rule Cons.prems(3) [OF _ Cons.prems(1) that]) simp
    show "clean (f y u)" if "y \<in> set xs" "P u" for y u using Cons.prems(2) that by simp
    show "P v" if "y \<in> set xs" "P u" "f y u = Inr v" for y u v
      by (rule Cons.prems(3) [OF _ that(2,3)]) (simp add: that(1))
  qed
  ultimately show ?case by (simp add: clean_bindE)
qed

end
