(* ===== verification/Schema.thy ===== *)
theory Schema
  imports Errors
begin

text \<open>
  The data model of \<open>core/models/\<close>: one record per table, one field per column the services
  read or write (a foreign key is the primary key it points to; \<open>NULL\<close> is \<open>None\<close>), the
  properties the models define, and the database itself, \<open>st\<close>: its tables as lists in
  primary-key order, the deployment settings and the readings of the two clocks. The
  \<open>CheckConstraint\<close>s and \<open>UniqueConstraint\<close>s of the booking table are part of the writes:
  a row that breaks one raises \<open>IntegrityError\<close> with the constraint's name.
\<close>

section \<open>Accounts and the roster\<close>

datatype category = PIANO | PERCUSSION | STRINGS | WOODWIND | BRASS | VOICE | GUITAR | HARP | OTHER | UNKNOWN

primrec category_value :: "category \<Rightarrow> string" where
  "category_value PIANO = ''PIANO''"
| "category_value PERCUSSION = ''PERCUSSION''"
| "category_value STRINGS = ''STRINGS''"
| "category_value WOODWIND = ''WOODWIND''"
| "category_value BRASS = ''BRASS''"
| "category_value VOICE = ''VOICE''"
| "category_value GUITAR = ''GUITAR''"
| "category_value HARP = ''HARP''"
| "category_value OTHER = ''OTHER''"
| "category_value UNKNOWN = ''UNKNOWN''"

datatype eligibility = PENDING | APPROVED | NOT_APPROVED

text \<open>\<open>declared_category\<close> is blank text or a category: \<open>None\<close> or \<open>Some\<close>.\<close>

record user =
  u_pk :: nat
  u_username :: string
  u_email :: string
  u_name_th :: string
  u_name_en :: string
  u_locale :: string
  u_email_verified_at :: "time option"
  u_eligibility :: eligibility
  u_eligibility_decided_at :: "time option"
  u_eligibility_decided_by :: "nat option"
  u_eligibility_reason :: string
  u_declared_category :: "category option"
  u_declared_category_confirmed :: bool
  u_is_operational_staff :: bool
  u_is_teacher :: bool
  u_is_active :: bool
  u_is_superuser :: bool
  u_password :: "string option" \<comment> \<open>\<open>None\<close>: no usable password\<close>

definition email_is_verified :: "user \<Rightarrow> bool" where
  "email_is_verified u = (u_email_verified_at u \<noteq> None)"

definition is_approved :: "user \<Rightarrow> bool" where
  "is_approved u = (u_eligibility u = APPROVED \<and> u_is_active u)"

text \<open>An actor is a signed-in user or nobody; \<open>actor_pk\<close> is \<open>getattr(actor, "pk", None)\<close>.\<close>

type_synonym actor = "user option"

definition actor_pk :: "actor \<Rightarrow> nat option" where
  "actor_pk a = map_option u_pk a"

record eligible_student =
  es_pk :: nat
  es_institutional_id :: string
  es_email :: string
  es_instrument_category :: category
  es_is_active :: bool
  es_account :: "nat option"
  es_name_th :: string
  es_name_en :: string
  es_program :: string
  es_instrument :: string
  es_year :: "int option"
  es_import_batch :: string
  es_updated_at :: time

datatype invitation_purpose = EMAIL_VERIFICATION | ACCOUNT_ACTIVATION | PASSWORD_RESET

primrec purpose_value :: "invitation_purpose \<Rightarrow> string" where
  "purpose_value EMAIL_VERIFICATION = ''EMAIL_VERIFICATION''"
| "purpose_value ACCOUNT_ACTIVATION = ''ACCOUNT_ACTIVATION''"
| "purpose_value PASSWORD_RESET = ''PASSWORD_RESET''"

record invitation =
  iv_pk :: nat
  iv_user :: nat
  iv_token_digest :: string
  iv_generation :: nat
  iv_purpose :: invitation_purpose
  iv_expires_at :: time
  iv_used_at :: "time option"
  iv_revoked_at :: "time option"
  iv_created_by :: "nat option"

section \<open>Rooms and the calendar\<close>

datatype reservation_scope = EVERYONE | LISTED

record room =
  r_pk :: nat
  r_number :: string
  r_label :: string
  r_capacity :: int
  r_equipment :: string
  r_requires_approval :: bool
  r_availability_only :: bool
  r_is_active :: bool
  r_position :: int
  r_reservation_scope :: reservation_scope
  r_members_only :: bool

definition room_str :: "room \<Rightarrow> string" where
  "room_str r = (if r_label r = '''' then ''Room '' @ r_number r else r_label r)"

definition is_restricted :: "room \<Rightarrow> bool" where
  "is_restricted r = (r_reservation_scope r = LISTED)"

record room_allowed_category =
  ac_room :: nat
  ac_category :: category

record room_member =
  rm_pk :: nat
  rm_room :: nat
  rm_email :: string
  rm_name :: string
  rm_added_by :: "nat option"

record room_administrator =
  ra_pk :: nat
  ra_room :: nat
  ra_user :: nat
  ra_granted_by :: "nat option"

record weekly_block =
  wb_pk :: nat
  wb_room :: nat
  wb_weekday :: int
  wb_start_hour :: int
  wb_end_hour :: int
  wb_reason :: string
  wb_valid_from :: "date option"
  wb_valid_until :: "date option"

record closure =
  c_pk :: nat
  c_room :: "nat option"
  c_starts_at :: time
  c_ends_at :: time
  c_reason :: string
  c_created_by :: "nat option"
  c_revoked_at :: "time option"
  c_revoked_by :: "nat option"
  c_revoked_reason :: string
  c_acknowledged_in_use :: bool

record calendar_override =
  co_pk :: nat
  co_local_date :: date
  co_is_open :: bool
  co_open_hour :: "int option"
  co_close_hour :: "int option"
  co_reason :: string
  co_created_by :: "nat option"

section \<open>Policy and incidents\<close>

record policy_version =
  pv_pk :: nat
  pv_version :: int
  pv_label :: string
  pv_snapshot :: dict
  pv_created_by :: "nat option"
  pv_note :: string

record service_incident =
  si_pk :: nat
  si_starts_at :: time
  si_ends_at :: time
  si_rooms :: "nat list"
  si_reason :: string
  si_created_by :: "nat option"

section \<open>Bookings\<close>

datatype status = PENDING_APPROVAL | SCHEDULED | IN_USE | COMPLETED | NO_SHOW | CANCELLED | REJECTED

datatype source = ADVANCE | WALK_IN

primrec status_value :: "status \<Rightarrow> string" where
  "status_value PENDING_APPROVAL = ''PENDING_APPROVAL''"
| "status_value SCHEDULED = ''SCHEDULED''"
| "status_value IN_USE = ''IN_USE''"
| "status_value COMPLETED = ''COMPLETED''"
| "status_value NO_SHOW = ''NO_SHOW''"
| "status_value CANCELLED = ''CANCELLED''"
| "status_value REJECTED = ''REJECTED''"

primrec source_value :: "source \<Rightarrow> string" where
  "source_value ADVANCE = ''ADVANCE''"
| "source_value WALK_IN = ''WALK_IN''"

definition BLOCKING_STATUSES :: "status list" where
  "BLOCKING_STATUSES = [PENDING_APPROVAL, SCHEDULED, IN_USE, COMPLETED]"

definition QUOTA_STATUSES :: "status list" where
  "QUOTA_STATUSES = [PENDING_APPROVAL, SCHEDULED, IN_USE, COMPLETED, NO_SHOW]"

record booking =
  b_pk :: nat
  b_user :: nat
  b_room :: nat
  b_slot_start :: time
  b_slot_end :: time
  b_slot_date :: date
  b_deadline :: "time option"
  b_status :: status
  b_source :: source
  b_recurrence :: "nat option"
  b_approved_at :: "time option"
  b_approved_by :: "nat option"
  b_approval_note :: string
  b_is_staff_booking :: bool
  b_title :: string
  b_purpose :: string
  b_participant_names :: string
  b_details_version :: int
  b_created_at :: time
  b_checked_in_at :: "time option"
  b_checked_in_by :: "nat option"
  b_cancelled_at :: "time option"
  b_cancelled_by :: "nat option"
  b_cancel_reason :: string
  b_late_cancel :: bool
  b_actual_end :: "time option"
  b_completion_reason :: string
  b_needs_review :: bool
  b_review_note :: string
  b_policy_version :: "nat option"
  b_original_no_show :: "nat option"
  b_incident :: "nat option"

definition is_terminal :: "booking \<Rightarrow> bool" where
  "is_terminal b = (b_status b \<in> {COMPLETED, NO_SHOW, CANCELLED, REJECTED})"

definition occupies_slot :: "booking \<Rightarrow> bool" where
  "occupies_slot b = (b_status b \<in> set BLOCKING_STATUSES)"

definition charges_quota :: "booking \<Rightarrow> bool" where
  "charges_quota b = (b_status b \<in> set QUOTA_STATUSES)"

definition effective_end :: "booking \<Rightarrow> time" where
  "effective_end b = (if b_status b = COMPLETED
     then (case b_actual_end b of None \<Rightarrow> b_slot_end b | Some t \<Rightarrow> t) else b_slot_end b)"

definition advance_deadline :: "time \<Rightarrow> int \<Rightarrow> time" where
  "advance_deadline slot_start grace_minutes = slot_start + grace_minutes * us_minute"

datatype series_status = ACTIVE | SERIES_CANCELLED

record recurring_reservation =
  rr_pk :: nat
  rr_user :: nat
  rr_room :: nat
  rr_status :: series_status
  rr_cancelled_at :: "time option"

section \<open>Sanctions\<close>

datatype violation_kind = NO_SHOW_KIND | MANUAL_KIND

record violation =
  v_pk :: nat
  v_user :: nat
  v_booking :: "nat option"
  v_kind :: violation_kind
  v_occurred_at :: time
  v_expires_at :: time
  v_counts_as_strike :: bool
  v_actor :: "nat option"
  v_note :: string
  v_voided_at :: "time option"
  v_voided_by :: "nat option"
  v_void_reason :: string
  v_consumed_by :: "nat option"
  v_incident :: "nat option"

definition is_eligible_strike :: "time \<Rightarrow> violation \<Rightarrow> bool" where
  "is_eligible_strike now v = (v_voided_at v = None \<and> v_counts_as_strike v \<and> v_consumed_by v = None
     \<and> v_occurred_at v \<le> now \<and> now < v_expires_at v)"

datatype suspension_source = AUTO | MANUAL

primrec suspension_source_value :: "suspension_source \<Rightarrow> string" where
  "suspension_source_value AUTO = ''AUTO''"
| "suspension_source_value MANUAL = ''MANUAL''"

record suspension =
  sp_pk :: nat
  sp_user :: nat
  sp_starts_at :: time
  sp_ends_at :: "time option"
  sp_lifted_at :: "time option"
  sp_lifted_by :: "nat option"
  sp_lift_reason :: string
  sp_reason :: string
  sp_source :: suspension_source
  sp_created_by :: "nat option"
  sp_start_notified_at :: "time option"
  sp_end_notified_at :: "time option"

text \<open>\<open>SuspensionQuerySet.active\<close>, and the model method it must agree with.\<close>

definition suspension_active :: "time \<Rightarrow> suspension \<Rightarrow> bool" where
  "suspension_active now sp = (sp_lifted_at sp = None \<and> sp_starts_at sp \<le> now \<and> null_or_gt (sp_ends_at sp) now)"

definition is_active_at :: "suspension \<Rightarrow> time \<Rightarrow> bool" where
  "is_active_at sp now = (if sp_lifted_at sp \<noteq> None \<or> sp_starts_at sp > now then False
     else (case sp_ends_at sp of None \<Rightarrow> True | Some e \<Rightarrow> now < e))"

section \<open>Audit trail, outbox, idempotency\<close>

record audit_event =
  ae_pk :: nat
  ae_actor :: "nat option"
  ae_actor_label :: string
  ae_action :: string
  ae_entity_type :: string
  ae_entity_id :: string
  ae_occurred_at :: time
  ae_changes :: pyval
  ae_reason :: string

datatype notification_status = N_PENDING | N_SENT | N_EXHAUSTED | N_CANCELLED

record notification =
  n_pk :: nat
  n_kind :: string
  n_recipient :: "nat option"
  n_recipient_email :: string
  n_language :: string
  n_payload :: dict
  n_dedupe_key :: string
  n_due_at :: time
  n_next_attempt_at :: time
  n_lease_until :: "time option"
  n_lease_token :: "nat option"
  n_attempts :: nat
  n_status :: notification_status
  n_sent_at :: "time option"
  n_last_error :: string

record operation_request =
  or_user :: nat
  or_operation :: string
  or_key :: string
  or_payload_fingerprint :: string
  or_result :: op_record
  or_created_at :: time

record job_heartbeat =
  jh_name :: string
  jh_last_run_at :: time
  jh_detail :: dict

section \<open>The database\<close>

text \<open>
  \<open>clock_now\<close> is what \<open>clock.now()\<close> and \<open>wall_now\<close> what \<open>timezone.now()\<close> answer
  while an operation runs (time does not move inside one transaction of the model).
\<close>

record st =
  conf :: settings
  clock_now :: time
  wall_now :: time
  users :: "user list"
  roster :: "eligible_student list"
  rooms :: "room list"
  room_categories :: "room_allowed_category list"
  room_members :: "room_member list"
  weekly_blocks :: "weekly_block list"
  closures :: "closure list"
  overrides :: "calendar_override list"
  policies :: "policy_version list"
  incidents :: "service_incident list"
  bookings :: "booking list"
  recurrings :: "recurring_reservation list"
  violations :: "violation list"
  suspensions :: "suspension list"
  audit_events :: "audit_event list"
  notifications :: "notification list"
  op_requests :: "operation_request list"
  heartbeats :: "job_heartbeat list"
  invitations :: "invitation list"
  room_admins :: "room_administrator list"

text \<open>
  Following a foreign key. The keys are \<open>PROTECT\<close>, so the row is there; the fallback rows stand
  for the row the database would not have let go.
\<close>

definition blank_room :: "nat \<Rightarrow> room" where
  "blank_room pk = \<lparr>r_pk = pk, r_number = '''', r_label = '''', r_capacity = 1, r_equipment = '''',
     r_requires_approval = False, r_availability_only = False, r_is_active = True, r_position = 0,
     r_reservation_scope = EVERYONE, r_members_only = False\<rparr>"

definition room_of :: "st \<Rightarrow> nat \<Rightarrow> room" where
  "room_of s pk = (case get_row r_pk pk (rooms s) of Some r \<Rightarrow> r | None \<Rightarrow> blank_room pk)"

definition blank_user :: "nat \<Rightarrow> user" where
  "blank_user pk = \<lparr>u_pk = pk, u_username = '''', u_email = '''', u_name_th = '''', u_name_en = '''',
     u_locale = ''th'', u_email_verified_at = None, u_eligibility = PENDING,
     u_eligibility_decided_at = None, u_eligibility_decided_by = None, u_eligibility_reason = '''',
     u_declared_category = None, u_declared_category_confirmed = False,
     u_is_operational_staff = False, u_is_teacher = False, u_is_active = True, u_is_superuser = False,
     u_password = None\<rparr>"

definition user_of :: "st \<Rightarrow> nat \<Rightarrow> user" where
  "user_of s pk = (case get_row u_pk pk (users s) of Some u \<Rightarrow> u | None \<Rightarrow> blank_user pk)"

lemma user_of_pk [simp]: "u_pk (user_of s pk) = pk"
  by (auto simp: user_of_def blank_user_def dest: get_row_Some split: option.splits)

lemma room_of_pk [simp]: "r_pk (room_of s pk) = pk"
  by (auto simp: room_of_def blank_room_def dest: get_row_Some split: option.splits)

text \<open>The row methods and the query set agree on when a suspension is in force.\<close>

lemma is_active_at_suspension_active: "is_active_at sp now = suspension_active now sp"
  by (auto simp: is_active_at_def suspension_active_def null_or_gt_def split: option.splits)

lemma blocking_simps [simp]:
  "PENDING_APPROVAL \<in> set BLOCKING_STATUSES" "SCHEDULED \<in> set BLOCKING_STATUSES"
  "IN_USE \<in> set BLOCKING_STATUSES" "COMPLETED \<in> set BLOCKING_STATUSES"
  "NO_SHOW \<notin> set BLOCKING_STATUSES" "CANCELLED \<notin> set BLOCKING_STATUSES"
  "REJECTED \<notin> set BLOCKING_STATUSES"
  by (simp_all add: BLOCKING_STATUSES_def)

lemma quota_simps [simp]:
  "PENDING_APPROVAL \<in> set QUOTA_STATUSES" "SCHEDULED \<in> set QUOTA_STATUSES"
  "IN_USE \<in> set QUOTA_STATUSES" "COMPLETED \<in> set QUOTA_STATUSES"
  "NO_SHOW \<in> set QUOTA_STATUSES" "CANCELLED \<notin> set QUOTA_STATUSES"
  "REJECTED \<notin> set QUOTA_STATUSES"
  by (simp_all add: QUOTA_STATUSES_def)

end
