(* ===== verification/Tables.thy ===== *)
theory Tables
  imports Schema
begin

text \<open>
  Writes to the booking table, with the constraints of \<open>core/models/booking.py\<close> as PostgreSQL
  enforces them: the check constraints of the row in the order of their names, then the two
  partial unique indexes against the other rows. \<open>create_booking\<close> is \<open>objects.create\<close>
  (with the \<open>slot_date\<close> that \<open>Booking.save\<close> derives), \<open>update_booking\<close> is
  \<open>save(update_fields=...)\<close> on the row with that key. Both keep \<open>bookings_ok\<close>: distinct
  keys and every constraint, in every state the services reach.
\<close>

section \<open>Constraints\<close>

definition booking_check_error :: "booking \<Rightarrow> string option" where
  "booking_check_error b =
    (if \<not> (b_cancel_reason b = '''' \<or> b_cancelled_at b \<noteq> None)
       then Some ''booking_cancel_reason_requires_cancellation''
     else if \<not> ((b_status b = CANCELLED \<and> b_cancelled_at b \<noteq> None)
               \<or> (b_status b \<noteq> CANCELLED \<and> b_cancelled_at b = None))
       then Some ''booking_cancellation_requires_metadata''
     else if \<not> (case b_checked_in_at b of None \<Rightarrow> True
               | Some t \<Rightarrow> b_slot_start b \<le> t \<and> t < b_slot_end b)
       then Some ''booking_checkin_within_slot''
     else if \<not> ((b_source b = ADVANCE \<and> b_deadline b \<noteq> None)
               \<or> (b_source b = WALK_IN \<and> b_deadline b = None))
       then Some ''booking_deadline_matches_source''
     else if \<not> (b_slot_start b mod us_hour div us_minute = 0 \<and> b_slot_start b mod us_minute div us_second = 0)
       then Some ''booking_slot_hour_aligned''
     else if \<not> (b_slot_end b = b_slot_start b + us_hour)
       then Some ''booking_slot_length_one_hour''
     else if \<not> (b_source b = ADVANCE \<or> b_status b \<noteq> SCHEDULED)
       then Some ''booking_walkin_never_scheduled''
     else None)"

definition same_room_slot :: "booking \<Rightarrow> booking \<Rightarrow> bool" where
  "same_room_slot a b = (occupies_slot a \<and> occupies_slot b
     \<and> b_room a = b_room b \<and> b_slot_start a = b_slot_start b)"

definition same_user_slot :: "booking \<Rightarrow> booking \<Rightarrow> bool" where
  "same_user_slot a b = (occupies_slot a \<and> occupies_slot b
     \<and> \<not> b_is_staff_booking a \<and> \<not> b_is_staff_booking b
     \<and> b_user a = b_user b \<and> b_slot_start a = b_slot_start b)"

definition booking_error :: "booking list \<Rightarrow> booking \<Rightarrow> string option" where
  "booking_error others b = (case booking_check_error b of Some n \<Rightarrow> Some n | None \<Rightarrow>
     (if list_ex (same_room_slot b) others then Some ''booking_room_slot_unique''
      else if list_ex (same_user_slot b) others then Some ''booking_user_slot_unique''
      else None))"

section \<open>Writes\<close>

text \<open>
  The callers have normalised the title to its column and hold the row of the room, so its width and the foreign key are
  not checked again; the check-in token is not part of a row here.
\<close>

definition create_booking :: "(nat \<Rightarrow> booking) \<Rightarrow> st \<Rightarrow> exn + (booking \<times> st)" where
  "create_booking mk s =
     (let b0 = mk (fresh_pk (map b_pk (bookings s)));
          b = b0\<lparr>b_pk := fresh_pk (map b_pk (bookings s)), b_slot_date := local_date (b_slot_start b0)\<rparr>
      in case booking_error (bookings s) b of
           Some n \<Rightarrow> Inl (IntegrityError n)
         | None \<Rightarrow> Inr (b, s\<lparr>bookings := bookings s @ [b]\<rparr>))"

definition update_booking :: "nat \<Rightarrow> (booking \<Rightarrow> booking) \<Rightarrow> st \<Rightarrow> exn + st" where
  "update_booking pk f s = (case get_row b_pk pk (bookings s) of
       None \<Rightarrow> Inl DatabaseError
     | Some b \<Rightarrow>
       (case booking_error (filter (\<lambda>x. b_pk x \<noteq> pk) (bookings s)) (f b) of
          Some n \<Rightarrow> Inl (IntegrityError n)
        | None \<Rightarrow> Inr (s\<lparr>bookings := update_row b_pk pk f (bookings s)\<rparr>)))"

text \<open>\<open>reload_for_update\<close> of a booking: the committed row, or \<open>DoesNotExist\<close>.\<close>

definition reload_booking :: "nat \<Rightarrow> st \<Rightarrow> exn + booking" where
  "reload_booking pk s = (case get_row b_pk pk (bookings s) of None \<Rightarrow> Inl DoesNotExist | Some b \<Rightarrow> Inr b)"

definition reload_row :: "('a \<Rightarrow> nat) \<Rightarrow> nat \<Rightarrow> 'a list \<Rightarrow> exn + 'a" where
  "reload_row key pk xs = (case get_row key pk xs of None \<Rightarrow> Inl DoesNotExist | Some b \<Rightarrow> Inr b)"

lemma reload_booking_Inr:
  "reload_booking pk s = Inr b \<longleftrightarrow> get_row b_pk pk (bookings s) = Some b"
  by (simp add: reload_booking_def split: option.splits)

lemma reload_booking_Inl: "reload_booking pk s = Inl e \<Longrightarrow> e = DoesNotExist"
  by (simp add: reload_booking_def split: option.splits)

lemma reload_booking_mem: "reload_booking pk s = Inr b \<Longrightarrow> b \<in> set (bookings s) \<and> b_pk b = pk"
  by (auto simp: reload_booking_Inr dest: get_row_Some)

section \<open>The table invariant\<close>

definition bookings_ok :: "st \<Rightarrow> bool" where
  "bookings_ok s \<longleftrightarrow> distinct (map b_pk (bookings s))
     \<and> (\<forall>b \<in> set (bookings s). booking_check_error b = None)
     \<and> (\<forall>a \<in> set (bookings s). \<forall>b \<in> set (bookings s). b_pk a \<noteq> b_pk b
           \<longrightarrow> \<not> same_room_slot a b \<and> \<not> same_user_slot a b)"

lemma booking_error_None:
  "booking_error others b = None \<longleftrightarrow> booking_check_error b = None
     \<and> (\<forall>o' \<in> set others. \<not> same_room_slot b o' \<and> \<not> same_user_slot b o')"
  by (auto simp: booking_error_def list_ex_iff split: option.splits)

lemma same_room_slot_sym: "same_room_slot a b = same_room_slot b a"
  by (auto simp: same_room_slot_def)

lemma same_user_slot_sym: "same_user_slot a b = same_user_slot b a"
  by (auto simp: same_user_slot_def)

lemma booking_check_facts:
  assumes "booking_check_error b = None"
  shows "b_slot_end b = b_slot_start b + us_hour"
    and "b_source b = ADVANCE \<longleftrightarrow> b_deadline b \<noteq> None"
    and "b_status b = SCHEDULED \<Longrightarrow> b_source b = ADVANCE"
    and "b_status b = CANCELLED \<longleftrightarrow> b_cancelled_at b \<noteq> None"
    and "b_checked_in_at b = Some t \<Longrightarrow> b_slot_start b \<le> t \<and> t < b_slot_end b"
    and "b_cancel_reason b \<noteq> '''' \<Longrightarrow> b_cancelled_at b \<noteq> None"
  using assms by (auto simp: booking_check_error_def split: if_splits option.splits source.splits)

lemma create_booking_Inr:
  assumes "create_booking mk s = Inr (b, s')"
  shows "b_pk b = fresh_pk (map b_pk (bookings s))"
    and "b = (mk (b_pk b))\<lparr>b_pk := b_pk b, b_slot_date := local_date (b_slot_start (mk (b_pk b)))\<rparr>"
    and "s' = s\<lparr>bookings := bookings s @ [b]\<rparr>"
    and "booking_error (bookings s) b = None"
  using assms by (auto simp: create_booking_def Let_def split: option.splits)

lemma create_booking_ok:
  assumes "bookings_ok s" "create_booking mk s = Inr (b, s')"
  shows "bookings_ok s'"
proof -
  note c = create_booking_Inr [OF assms(2)]
  have "b_pk b \<notin> set (map b_pk (bookings s))" unfolding c(1) by (rule fresh_pk_notin)
  with assms(1) c(3,4) show ?thesis
    unfolding bookings_ok_def booking_error_None
    by (auto simp: same_room_slot_sym same_user_slot_sym)
qed

lemma update_booking_Inr:
  assumes "update_booking pk f s = Inr s'"
  shows "s' = s\<lparr>bookings := update_row b_pk pk f (bookings s)\<rparr>"
    and "\<exists>b. get_row b_pk pk (bookings s) = Some b
          \<and> booking_error (filter (\<lambda>x. b_pk x \<noteq> pk) (bookings s)) (f b) = None"
  using assms by (auto simp: update_booking_def split: option.splits)

lemma bookings_ok_unique:
  "bookings_ok s \<Longrightarrow> a \<in> set (bookings s) \<Longrightarrow> b \<in> set (bookings s) \<Longrightarrow> b_pk a = b_pk b \<Longrightarrow> a = b"
  by (metis bookings_ok_def get_row_unique option.inject)

lemma bookings_ok_get_row:
  "bookings_ok s \<Longrightarrow> b \<in> set (bookings s) \<Longrightarrow> get_row b_pk (b_pk b) (bookings s) = Some b"
  by (simp add: bookings_ok_def get_row_unique)

lemma update_booking_ok:
  assumes ok: "bookings_ok s" and upd: "update_booking pk f s = Inr s'"
    and pk: "\<And>b. b_pk (f b) = b_pk b"
  shows "bookings_ok s'"
proof -
  from update_booking_Inr [OF upd] obtain b where
    s': "s' = s\<lparr>bookings := update_row b_pk pk f (bookings s)\<rparr>"
    and b: "get_row b_pk pk (bookings s) = Some b"
    and e: "booking_check_error (f b) = None"
      "\<And>x. x \<in> set (bookings s) \<Longrightarrow> b_pk x \<noteq> pk \<Longrightarrow> \<not> same_room_slot (f b) x \<and> \<not> same_user_slot (f b) x"
    by (auto simp: booking_error_None)
  from b have bm: "b \<in> set (bookings s)" "b_pk b = pk" by (auto dest: get_row_Some)
  have mem: "x \<in> set (bookings s') \<longleftrightarrow> x = f b \<or> (x \<in> set (bookings s) \<and> b_pk x \<noteq> pk)" for x
    using bm bookings_ok_unique [OF ok] unfolding s' by (auto simp: set_update_row)
  have "distinct (map b_pk (bookings s'))"
    using ok unfolding s' by (simp add: bookings_ok_def keys_update_row pk)
  moreover have "\<forall>x \<in> set (bookings s'). booking_check_error x = None"
    using ok e(1) by (auto simp: mem bookings_ok_def)
  moreover have "\<not> same_room_slot x y \<and> \<not> same_user_slot x y"
    if "x \<in> set (bookings s')" "y \<in> set (bookings s')" "b_pk x \<noteq> b_pk y" for x y
    using that ok e(2) bm pk unfolding mem bookings_ok_def
    by (metis same_room_slot_sym same_user_slot_sym)
  ultimately show ?thesis by (simp add: bookings_ok_def)
qed

text \<open>Only the booking table is written.\<close>

lemma update_booking_frame:
  assumes "update_booking pk f s = Inr s'"
  shows "conf s' = conf s" "clock_now s' = clock_now s" "wall_now s' = wall_now s"
    "users s' = users s" "roster s' = roster s" "rooms s' = rooms s"
    "room_categories s' = room_categories s" "room_members s' = room_members s"
    "weekly_blocks s' = weekly_blocks s" "closures s' = closures s" "overrides s' = overrides s"
    "policies s' = policies s" "incidents s' = incidents s" "recurrings s' = recurrings s"
    "violations s' = violations s" "suspensions s' = suspensions s"
    "audit_events s' = audit_events s" "notifications s' = notifications s"
    "op_requests s' = op_requests s" "heartbeats s' = heartbeats s"
    "bookings s' = update_row b_pk pk f (bookings s)"
  using update_booking_Inr(1) [OF assms] by simp_all

text \<open>
  A write that leaves the row in a status that does not occupy its slot, and keeps the row
  checks, never raises: there is nothing to collide with.
\<close>

lemma update_booking_total:
  assumes "get_row b_pk pk (bookings s) = Some b" "booking_check_error (f b) = None"
    and "\<And>x. x \<in> set (bookings s) \<Longrightarrow> b_pk x \<noteq> pk \<Longrightarrow> \<not> same_room_slot (f b) x \<and> \<not> same_user_slot (f b) x"
  shows "update_booking pk f s = Inr (s\<lparr>bookings := update_row b_pk pk f (bookings s)\<rparr>)"
proof -
  have "booking_error (filter (\<lambda>x. b_pk x \<noteq> pk) (bookings s)) (f b) = None"
    using assms by (simp add: booking_error_None)
  with assms(1) show ?thesis by (simp add: update_booking_def)
qed

text \<open>
  A status change that occupies no slot it did not occupy before collides with nothing.
\<close>

lemma update_booking_total_narrow:
  assumes "bookings_ok s" "get_row b_pk pk (bookings s) = Some b" "booking_check_error (f b) = None"
    and "occupies_slot (f b) \<Longrightarrow> occupies_slot b"
    and "b_room (f b) = b_room b" "b_user (f b) = b_user b" "b_slot_start (f b) = b_slot_start b"
    and "b_is_staff_booking (f b) = b_is_staff_booking b"
  shows "update_booking pk f s = Inr (s\<lparr>bookings := update_row b_pk pk f (bookings s)\<rparr>)"
proof (rule update_booking_total [where f = f, OF assms(2,3)])
  fix x assume "x \<in> set (bookings s)" "b_pk x \<noteq> pk"
  moreover from assms(2) have "b \<in> set (bookings s)" "b_pk b = pk" by (auto dest: get_row_Some)
  ultimately have "\<not> same_room_slot b x \<and> \<not> same_user_slot b x"
    using assms(1) unfolding bookings_ok_def by metis
  with assms(4-8) show "\<not> same_room_slot (f b) x \<and> \<not> same_user_slot (f b) x"
    by (auto simp: same_room_slot_def same_user_slot_def)
qed

end
