(* ===== verification/Samples.thy ===== *)
theory Samples
  imports Schema
begin

text \<open>
  A small installation on which the witnesses evaluate: two rooms, two approved students and one
  staff account, an empty booking table, the default settings. Time is counted from Monday
  5 January 2026, local date 20458. Nothing here models code.
\<close>

definition sample_user :: "nat \<Rightarrow> bool \<Rightarrow> user" where
  "sample_user pk staff = (blank_user pk)\<lparr>u_username := ''u'' @ show_nat pk,
     u_email := ''u'' @ show_nat pk @ ''@student.chula.ac.th'', u_email_verified_at := Some 0,
     u_eligibility := APPROVED, u_is_operational_staff := staff\<rparr>"

definition alice :: user where "alice = sample_user 1 False"
definition bob :: user where "bob = sample_user 2 False"
definition staff_member :: user where "staff_member = sample_user 9 True"

definition sample_room :: "nat \<Rightarrow> room" where
  "sample_room pk = (blank_room pk)\<lparr>r_number := show_nat (300 + pk)\<rparr>"

definition room_a :: room where "room_a = sample_room 1"
definition room_b :: room where "room_b = sample_room 2"

definition monday :: date where "monday = 20458"

definition at :: "int \<Rightarrow> int \<Rightarrow> time" where
  "at hour minute = slot_start_for monday hour + minute * us_minute"

definition sample_st :: "time \<Rightarrow> st" where
  "sample_st now = \<lparr>conf = default_settings, clock_now = now, wall_now = now,
     users = [alice, bob, staff_member], roster = [], rooms = [room_a, room_b],
     room_categories = [], room_members = [], weekly_blocks = [], closures = [], overrides = [],
     policies = [], incidents = [], bookings = [], recurrings = [], violations = [],
     suspensions = [], audit_events = [], notifications = [], op_requests = [], heartbeats = [],
     invitations = [], room_admins = []\<rparr>"

definition sample_booking :: "nat \<Rightarrow> nat \<Rightarrow> nat \<Rightarrow> int \<Rightarrow> status \<Rightarrow> booking" where
  "sample_booking pk user_pk room_pk hour stat = \<lparr>b_pk = pk, b_user = user_pk, b_room = room_pk,
     b_slot_start = at hour 0, b_slot_end = at (hour + 1) 0, b_slot_date = monday,
     b_deadline = Some (at hour 15), b_status = stat, b_source = ADVANCE, b_recurrence = None,
     b_approved_at = None, b_approved_by = None, b_approval_note = '''', b_is_staff_booking = False,
     b_title = '''', b_purpose = '''', b_participant_names = '''', b_details_version = 0,
     b_created_at = at 8 0, b_checked_in_at = None, b_checked_in_by = None, b_cancelled_at = None,
     b_cancelled_by = None, b_cancel_reason = '''', b_late_cancel = False, b_actual_end = None,
     b_completion_reason = '''', b_needs_review = False, b_review_note = '''',
     b_policy_version = None, b_original_no_show = None, b_incident = None\<rparr>"

lemmas sample_defs = sample_user_def alice_def bob_def staff_member_def sample_room_def room_a_def
  room_b_def monday_def at_def sample_st_def sample_booking_def blank_user_def blank_room_def
  default_settings_def

end
