(* ===== verification/Outbox.thy ===== *)
theory Outbox
  imports Tables Samples
begin

text \<open>
  The audit trail (\<open>core/services/audit.py\<close>) and the transactional outbox
  (\<open>core/services/outbox.py\<close>): \<open>record_audit\<close> appends one scrubbed event,
  \<open>enqueue\<close> inserts one row per dedupe key, \<open>claim_due\<close> leases due rows to a worker and
  the \<open>mark_*\<close> functions write the result of a delivery back. The random lease token is a
  parameter, and so is the set of rows another worker has locked at that moment
  (\<open>skip_locked\<close>). Correlation ids are left out.
\<close>

section \<open>Audit events\<close>

definition record_audit :: "string \<Rightarrow> string \<Rightarrow> string \<Rightarrow> actor \<Rightarrow> string \<Rightarrow> dict \<Rightarrow> string \<Rightarrow> st \<Rightarrow> st" where
  "record_audit action entity_type entity_id actor actor_label changes reason s =
     s\<lparr>audit_events := audit_events s @
        [\<lparr>ae_pk = fresh_pk (map ae_pk (audit_events s)), ae_actor = actor_pk actor,
          ae_actor_label = actor_label, ae_action = action, ae_entity_type = entity_type,
          ae_entity_id = entity_id, ae_occurred_at = wall_now s,
          ae_changes = scrub 0 (PDict changes), ae_reason = reason\<rparr>]\<rparr>"

section \<open>Enqueue\<close>

text \<open>\<open>a or b\<close> for text and an optional text.\<close>

definition or_text :: "string \<Rightarrow> string \<Rightarrow> string" where
  "or_text a b = (if a = '''' then b else a)"

definition outbox_language :: "string option \<Rightarrow> user option \<Rightarrow> string" where
  "outbox_language language recipient =
     or_text (case language of None \<Rightarrow> '''' | Some l \<Rightarrow> l)
       (or_text (case recipient of None \<Rightarrow> '''' | Some u \<Rightarrow> u_locale u) ''th'')"

definition enqueue_full ::
  "string \<Rightarrow> user option \<Rightarrow> string \<Rightarrow> dict \<Rightarrow> time option \<Rightarrow> string option \<Rightarrow> string \<Rightarrow> st
     \<Rightarrow> notification \<times> bool \<times> st" where
  "enqueue_full kind recipient dedupe_key payload due_at language recipient_email s =
     (case List.find (\<lambda>n. n_dedupe_key n = dedupe_key) (notifications s) of
        Some n \<Rightarrow> (n, False, s)
      | None \<Rightarrow>
        let due = (case due_at of None \<Rightarrow> wall_now s | Some d \<Rightarrow> d);
            n = \<lparr>n_pk = fresh_pk (map n_pk (notifications s)), n_kind = kind,
                 n_recipient = map_option u_pk recipient, n_recipient_email = recipient_email,
                 n_language = outbox_language language recipient, n_payload = payload,
                 n_dedupe_key = dedupe_key, n_due_at = due, n_next_attempt_at = due,
                 n_lease_until = None, n_lease_token = None, n_attempts = 0,
                 n_status = N_PENDING, n_sent_at = None, n_last_error = ''''\<rparr>
        in (n, True, s\<lparr>notifications := notifications s @ [n]\<rparr>))"

text \<open>The form every booking service uses, keeping only the state or the \<open>created\<close> flag.\<close>

definition enqueue :: "string \<Rightarrow> user option \<Rightarrow> string \<Rightarrow> dict \<Rightarrow> st \<Rightarrow> st" where
  "enqueue kind recipient dedupe_key payload s =
     snd (snd (enqueue_full kind recipient dedupe_key payload None None '''' s))"

definition enqueue_created :: "string \<Rightarrow> user option \<Rightarrow> string \<Rightarrow> dict \<Rightarrow> st \<Rightarrow> bool" where
  "enqueue_created kind recipient dedupe_key payload s =
     fst (snd (enqueue_full kind recipient dedupe_key payload None None '''' s))"

section \<open>Delivery\<close>

text \<open>\<open>" ".join(text.split())\<close>.\<close>

fun split_words :: "string \<Rightarrow> string \<Rightarrow> string list" where
  "split_words w [] = (if w = [] then [] else [w])"
| "split_words w (c # cs) = (if py_space c
     then (if w = [] then split_words [] cs else w # split_words [] cs)
     else split_words (w @ [c]) cs)"

fun join_with :: "string \<Rightarrow> string list \<Rightarrow> string" where
  "join_with sep [] = []"
| "join_with sep [w] = w"
| "join_with sep (w # ws) = w @ sep @ join_with sep ws"

definition MAX_ERROR_LENGTH :: nat where "MAX_ERROR_LENGTH = 400"

definition sanitize_error :: "string \<Rightarrow> string" where
  "sanitize_error error =
     (let text = map (\<lambda>c. if c = CHR 0x0D \<or> c = CHR 0x0A then CHR '' '' else c) error
      in take MAX_ERROR_LENGTH (join_with '' '' (split_words [] text)))"

definition is_leased :: "notification \<Rightarrow> time \<Rightarrow> bool" where
  "is_leased n now = (case n_lease_until n of None \<Rightarrow> False | Some t \<Rightarrow> now < t)"

definition claimable :: "time \<Rightarrow> nat list \<Rightarrow> notification \<Rightarrow> bool" where
  "claimable now locked n = (n_status n = N_PENDING \<and> n_next_attempt_at n \<le> now
     \<and> (n_lease_until n = None \<or> lte_null (n_lease_until n) now) \<and> n_pk n \<notin> set locked)"

definition update_notification :: "nat \<Rightarrow> (notification \<Rightarrow> notification) \<Rightarrow> st \<Rightarrow> st" where
  "update_notification pk f s = s\<lparr>notifications := update_row n_pk pk f (notifications s)\<rparr>"

definition claim_due ::
  "(nat \<Rightarrow> nat) \<Rightarrow> nat list \<Rightarrow> time \<Rightarrow> nat option \<Rightarrow> st \<Rightarrow> notification list \<times> st" where
  "claim_due token locked now limit s =
     (let lim = (case limit of None \<Rightarrow> OUTBOX_BATCH_SIZE (conf s)
                 | Some l \<Rightarrow> if l = 0 then OUTBOX_BATCH_SIZE (conf s) else l);
          rows = take lim (order_by (\<lambda>n. (n_next_attempt_at n, n_pk n))
                   (filter (claimable now locked) (notifications s)));
          lease_until = now + OUTBOX_LEASE_SECONDS (conf s) * us_second;
          lease = (\<lambda>n. n\<lparr>n_lease_until := Some lease_until, n_lease_token := Some (token (n_pk n)),
                        n_attempts := n_attempts n + 1\<rparr>)
      in (map lease rows, fold (\<lambda>n. update_notification (n_pk n) lease) rows s))"

text \<open>
  The write-backs work on the worker's copy \<open>n\<close> and write the listed columns of its row.
\<close>

definition mark_sent :: "notification \<Rightarrow> time \<Rightarrow> st \<Rightarrow> st" where
  "mark_sent n now s = update_notification (n_pk n)
     (\<lambda>r. r\<lparr>n_status := N_SENT, n_sent_at := Some now, n_lease_until := None,
            n_lease_token := None, n_last_error := ''''\<rparr>) s"

definition backoff_delay :: "settings \<Rightarrow> nat \<Rightarrow> int" where
  "backoff_delay cf attempts =
     (let backoff = OUTBOX_BACKOFF_MINUTES cf;
          index = min (int attempts - 1) (int (length backoff) - 1)
      in backoff ! nat (max index 0))"

definition mark_failed :: "notification \<Rightarrow> string \<Rightarrow> time \<Rightarrow> st \<Rightarrow> st" where
  "mark_failed n error now s =
     (if n_attempts n \<ge> OUTBOX_MAX_ATTEMPTS (conf s)
      then update_notification (n_pk n)
        (\<lambda>r. r\<lparr>n_status := N_EXHAUSTED, n_last_error := sanitize_error error,
               n_lease_until := None, n_lease_token := None\<rparr>) s
      else update_notification (n_pk n)
        (\<lambda>r. r\<lparr>n_next_attempt_at := now + backoff_delay (conf s) (n_attempts n) * us_minute,
               n_last_error := sanitize_error error,
               n_lease_until := None, n_lease_token := None\<rparr>) s)"

definition cancel_notification :: "notification \<Rightarrow> string \<Rightarrow> st \<Rightarrow> st" where
  "cancel_notification n reason s = update_notification (n_pk n)
     (\<lambda>r. r\<lparr>n_status := N_CANCELLED, n_last_error := sanitize_error reason,
            n_lease_until := None, n_lease_token := None\<rparr>) s"

definition oldest_actionable :: "st \<Rightarrow> notification option" where
  "oldest_actionable s = first_row (order_by n_next_attempt_at
     (filter (\<lambda>n. n_status n = N_PENDING) (notifications s)))"

section \<open>Frame\<close>

lemma record_audit_frame [simp, frame]:
  "conf (record_audit a t i ac l ch r s) = conf s"
  "clock_now (record_audit a t i ac l ch r s) = clock_now s"
  "wall_now (record_audit a t i ac l ch r s) = wall_now s"
  "users (record_audit a t i ac l ch r s) = users s"
  "roster (record_audit a t i ac l ch r s) = roster s"
  "rooms (record_audit a t i ac l ch r s) = rooms s"
  "room_categories (record_audit a t i ac l ch r s) = room_categories s"
  "room_members (record_audit a t i ac l ch r s) = room_members s"
  "weekly_blocks (record_audit a t i ac l ch r s) = weekly_blocks s"
  "closures (record_audit a t i ac l ch r s) = closures s"
  "overrides (record_audit a t i ac l ch r s) = overrides s"
  "policies (record_audit a t i ac l ch r s) = policies s"
  "incidents (record_audit a t i ac l ch r s) = incidents s"
  "bookings (record_audit a t i ac l ch r s) = bookings s"
  "recurrings (record_audit a t i ac l ch r s) = recurrings s"
  "violations (record_audit a t i ac l ch r s) = violations s"
  "suspensions (record_audit a t i ac l ch r s) = suspensions s"
  "notifications (record_audit a t i ac l ch r s) = notifications s"
  "op_requests (record_audit a t i ac l ch r s) = op_requests s"
  "heartbeats (record_audit a t i ac l ch r s) = heartbeats s"
  "invitations (record_audit a t i ac l ch r s) = invitations s" "room_admins (record_audit a t i ac l ch r s) = room_admins s"
  by (simp_all add: record_audit_def)

lemma enqueue_cases:
  "enqueue k r d p s = s \<or> (\<exists>n. enqueue k r d p s = s\<lparr>notifications := notifications s @ [n]\<rparr>)"
  by (auto simp: enqueue_def enqueue_full_def Let_def split: option.splits)

lemma enqueue_frame [simp, frame]:
  "conf (enqueue k r d p s) = conf s"
  "clock_now (enqueue k r d p s) = clock_now s"
  "wall_now (enqueue k r d p s) = wall_now s"
  "users (enqueue k r d p s) = users s"
  "roster (enqueue k r d p s) = roster s"
  "rooms (enqueue k r d p s) = rooms s"
  "room_categories (enqueue k r d p s) = room_categories s"
  "room_members (enqueue k r d p s) = room_members s"
  "weekly_blocks (enqueue k r d p s) = weekly_blocks s"
  "closures (enqueue k r d p s) = closures s"
  "overrides (enqueue k r d p s) = overrides s"
  "policies (enqueue k r d p s) = policies s"
  "incidents (enqueue k r d p s) = incidents s"
  "bookings (enqueue k r d p s) = bookings s"
  "recurrings (enqueue k r d p s) = recurrings s"
  "violations (enqueue k r d p s) = violations s"
  "suspensions (enqueue k r d p s) = suspensions s"
  "audit_events (enqueue k r d p s) = audit_events s"
  "op_requests (enqueue k r d p s) = op_requests s"
  "heartbeats (enqueue k r d p s) = heartbeats s"
  "invitations (enqueue k r d p s) = invitations s" "room_admins (enqueue k r d p s) = room_admins s"
  using enqueue_cases [of k r d p s] by auto

lemma update_notification_frame [simp, frame]:
  "conf (update_notification pk f s) = conf s"
  "bookings (update_notification pk f s) = bookings s"
  "policies (update_notification pk f s) = policies s"
  "violations (update_notification pk f s) = violations s"
  "suspensions (update_notification pk f s) = suspensions s"
  "notifications (update_notification pk f s) = update_row n_pk pk f (notifications s)"
  by (simp_all add: update_notification_def)

section \<open>A queue that takes each key once\<close>

text \<open>
  The contract the services rely on when they enqueue: a key that is already queued is left
  alone, a new key gets a row, and no other key is touched.
\<close>

locale once_only_queue =
  fixes put :: "'m \<Rightarrow> 's \<Rightarrow> 's"
    and key :: "'m \<Rightarrow> string"
    and held :: "'s \<Rightarrow> string \<Rightarrow> 'r option"
  assumes put_held: "held s (key m) = Some r \<Longrightarrow> put m s = s"
    and put_new: "held s (key m) = None \<Longrightarrow> \<exists>r. held (put m s) (key m) = Some r"
    and put_other: "k \<noteq> key m \<Longrightarrow> held (put m s) k = held s k"
begin

lemma put_queues: "\<exists>r. held (put m s) (key m) = Some r"
  by (cases "held s (key m)") (auto simp: put_new put_held)

lemma put_idem: "put m (put m s) = put m s"
  using put_queues put_held by blast

lemma put_keeps: "held s k = Some r \<Longrightarrow> held (put m s) k = Some r"
  by (cases "k = key m") (auto simp: put_held put_other)

lemma put_all_keeps: "held s k = Some r \<Longrightarrow> held (fold put ms s) k = Some r"
  by (induction ms arbitrary: s) (auto intro: put_keeps)

lemma put_all_queues: "m \<in> set ms \<Longrightarrow> \<exists>r. held (fold put ms s) (key m) = Some r"
proof (induction ms arbitrary: s)
  case Nil
  then show ?case by simp
next
  case (Cons m' ms)
  show ?case
  proof (cases "m = m'")
    case True
    with put_queues [of m s] show ?thesis by (auto dest: put_all_keeps)
  next
    case False
    with Cons show ?thesis by auto
  qed
qed

end

definition queued :: "st \<Rightarrow> string \<Rightarrow> notification option" where
  "queued s k = List.find (\<lambda>n. n_dedupe_key n = k) (notifications s)"

lemma find_append: "List.find P (xs @ ys) =
    (case List.find P xs of Some x \<Rightarrow> Some x | None \<Rightarrow> List.find P ys)"
  by (induction xs) auto

interpretation outbox: once_only_queue
  "\<lambda>(kind, recipient, dedupe_key, payload). enqueue kind recipient dedupe_key payload"
  "\<lambda>(kind, recipient, dedupe_key, payload). dedupe_key"
  queued
proof (unfold_locales, goal_cases)
  case (1 s m r)
  then show ?case
    by (cases m) (simp add: enqueue_def enqueue_full_def queued_def)
next
  case (2 s m)
  then show ?case
    by (cases m) (simp add: enqueue_def enqueue_full_def queued_def Let_def find_append)
next
  case (3 k m s)
  then show ?case
    by (cases m) (auto simp: enqueue_def enqueue_full_def queued_def Let_def find_append
        split: option.splits)
qed

lemma queued_enqueue [simp]: "\<exists>n. queued (enqueue k r d p s) d = Some n"
  using outbox.put_queues [where s = s and m = "(k, r, d, p)"] by simp

text \<open>Dedupe keys stay unique, as the column's constraint demands.\<close>

definition keys_unique :: "st \<Rightarrow> bool" where
  "keys_unique s \<longleftrightarrow> distinct (map n_dedupe_key (notifications s)) \<and> distinct (map n_pk (notifications s))"

lemma enqueue_keys_unique: "keys_unique s \<Longrightarrow> keys_unique (enqueue k r d p s)"
  using fresh_pk_notin [of "map n_pk (notifications s)"]
  by (auto simp: keys_unique_def enqueue_def enqueue_full_def Let_def find_None_iff
      split: option.splits)

section \<open>Leases\<close>

definition lease_row :: "(nat \<Rightarrow> nat) \<Rightarrow> time \<Rightarrow> notification \<Rightarrow> notification" where
  "lease_row token lease_until n = n\<lparr>n_lease_until := Some lease_until,
     n_lease_token := Some (token (n_pk n)), n_attempts := n_attempts n + 1\<rparr>"

definition batch_limit :: "settings \<Rightarrow> nat option \<Rightarrow> nat" where
  "batch_limit cf limit = (case limit of None \<Rightarrow> OUTBOX_BATCH_SIZE cf
     | Some l \<Rightarrow> if l = 0 then OUTBOX_BATCH_SIZE cf else l)"

definition due_rows :: "nat list \<Rightarrow> time \<Rightarrow> nat option \<Rightarrow> st \<Rightarrow> notification list" where
  "due_rows locked now limit s = take (batch_limit (conf s) limit)
     (order_by (\<lambda>n. (n_next_attempt_at n, n_pk n)) (filter (claimable now locked) (notifications s)))"

definition lease_end :: "settings \<Rightarrow> time \<Rightarrow> time" where
  "lease_end cf now = now + OUTBOX_LEASE_SECONDS cf * us_second"

lemma due_rows_mem: "n \<in> set (due_rows locked now limit s) \<Longrightarrow> n \<in> set (notifications s) \<and> claimable now locked n"
  by (auto simp: due_rows_def dest: in_set_takeD)

lemma due_rows_distinct:
  assumes "distinct (map n_pk (notifications s))"
  shows "distinct (map n_pk (due_rows locked now limit s))"
proof -
  let ?r = "order_by (\<lambda>n. (n_next_attempt_at n, n_pk n)) (filter (claimable now locked) (notifications s))"
  have "distinct ?r" "inj_on n_pk (set ?r)"
    using assms by (auto simp: distinct_map inj_on_def)
  then have "distinct (map n_pk ?r)" by (simp add: distinct_map)
  then show ?thesis by (simp add: due_rows_def flip: take_map)
qed

lemma fold_update_notification:
  "fold (\<lambda>n. update_notification (n_pk n) f) rows s
     = s\<lparr>notifications := fold (\<lambda>n. update_row n_pk (n_pk n) f) rows (notifications s)\<rparr>"
  by (induction rows arbitrary: s) (auto simp: update_notification_def)

lemma claim_due_eq:
  assumes "distinct (map n_pk (notifications s))"
  shows "claim_due token locked now limit s =
    (map (lease_row token (lease_end (conf s) now)) (due_rows locked now limit s),
     s\<lparr>notifications := map (\<lambda>r. if n_pk r \<in> n_pk ` set (due_rows locked now limit s)
          then lease_row token (lease_end (conf s) now) r else r) (notifications s)\<rparr>)"
proof -
  have "lease_row token (lease_end (conf s) now) = (\<lambda>n. n\<lparr>n_lease_until := Some (lease_end (conf s) now),
      n_lease_token := Some (token (n_pk n)), n_attempts := n_attempts n + 1\<rparr>)"
    by (simp add: lease_row_def fun_eq_iff)
  then have "claim_due token locked now limit s =
    (map (lease_row token (lease_end (conf s) now)) (due_rows locked now limit s),
     fold (\<lambda>n. update_notification (n_pk n) (lease_row token (lease_end (conf s) now)))
       (due_rows locked now limit s) s)"
    by (simp add: claim_due_def Let_def due_rows_def batch_limit_def lease_end_def)
  then show ?thesis
    using due_rows_distinct [OF assms, of locked now limit]
    by (simp add: fold_update_notification fold_update_row lease_row_def)
qed

lemma claim_due_row:
  assumes "distinct (map n_pk (notifications s))" "claim_due token locked now limit s = (rows, s')"
    and "n \<in> set rows"
  shows "n \<in> set (notifications s')" "n_lease_until n = Some (lease_end (conf s) now)"
    "n_status n = N_PENDING" "n_pk n \<notin> set locked"
proof -
  note eq = claim_due_eq [OF assms(1), of token locked now limit]
  from assms(2,3) eq obtain m where m: "m \<in> set (due_rows locked now limit s)"
    and n: "n = lease_row token (lease_end (conf s) now) m" by auto
  from due_rows_mem [OF m] have mm: "m \<in> set (notifications s)" "claimable now locked m" by auto
  with m n assms(2) eq show "n \<in> set (notifications s')" by (force simp: image_iff)
  from mm n show "n_lease_until n = Some (lease_end (conf s) now)" "n_status n = N_PENDING"
    "n_pk n \<notin> set locked" by (auto simp: lease_row_def claimable_def)
qed

section \<open>Properties\<close>

text \<open>C15: A leased event belongs to one worker. Whatever another worker (or a restarted one) claims
  from the resulting table before the lease runs out, with whatever batch size and whatever
  rows locked, is disjoint from the batch just claimed, and no batch exceeds its limit.\<close>

theorem claim_due_exclusive:
  assumes "keys_unique s" "claim_due token locked now limit s = (rows, s')"
    and "now' < lease_end (conf s) now"
    and "claim_due token' locked' now' limit' s' = (rows', s'')"
  shows "n_pk ` set rows \<inter> n_pk ` set rows' = {} \<and> length rows \<le> batch_limit (conf s) limit"
proof -
  have d: "distinct (map n_pk (notifications s))" using assms(1) by (simp add: keys_unique_def)
  note eq = claim_due_eq [OF d, of token locked now limit]
  from eq assms(2) have rows: "rows = map (lease_row token (lease_end (conf s) now)) (due_rows locked now limit s)"
    and s': "notifications s' = map (\<lambda>r. if n_pk r \<in> n_pk ` set (due_rows locked now limit s)
          then lease_row token (lease_end (conf s) now) r else r) (notifications s)" by auto
  have pk: "n_pk (lease_row t e r) = n_pk r" for t e r by (simp add: lease_row_def)
  have keys: "n_pk ` set rows = n_pk ` set (due_rows locked now limit s)"
    unfolding rows by (simp add: image_image pk)
  have "map n_pk (notifications s') = map n_pk (notifications s)"
    unfolding s' by (simp add: pk)
  with d have d': "distinct (map n_pk (notifications s'))" by simp
  have disj: "k \<notin> n_pk ` set rows'" if "k \<in> n_pk ` set rows" for k
  proof
    assume "k \<in> n_pk ` set rows'"
    then obtain n where n: "n \<in> set rows'" "k = n_pk n" by auto
    with that have in_rows: "n_pk n \<in> n_pk ` set rows" by simp
    from n(1) assms(4) claim_due_eq [OF d', of token' locked' now' limit']
    obtain m where m: "m \<in> set (due_rows locked' now' limit' s')" "n_pk m = n_pk n"
      by (auto simp: pk)
    then have "m \<in> set (notifications s')" "claimable now' locked' m" by (auto dest: due_rows_mem)
    moreover from this m in_rows keys have "n_lease_until m = Some (lease_end (conf s) now)"
      unfolding s' by (auto simp: lease_row_def split: if_splits)
    ultimately show False using assms(3) by (simp add: claimable_def)
  qed
  have len: "length rows \<le> batch_limit (conf s) limit"
    unfolding rows by (simp add: due_rows_def)
  from disj len show ?thesis unfolding disjoint_iff by blast
qed

definition sample_queue :: "st" where
  "sample_queue = enqueue ''booking_reminder'' (Some alice) ''booking_reminder:1'' [] (sample_st (at 9 0))"

definition first_claim :: "notification list \<times> st" where
  "first_claim = claim_due id [] (at 9 0) None sample_queue"

theorem claim_due_exclusive_witness:
  "length (fst first_claim) = 1 \<and>
   n_pk ` set (fst first_claim)
     \<inter> n_pk ` set (fst (claim_due (\<lambda>_. 0) [] (at 9 1) None (snd first_claim))) = {}"
proof -
  have len: "length (fst first_claim) = 1"
    by (simp add: first_claim_def sample_queue_def enqueue_def enqueue_full_def claim_due_def
        claimable_def order_by_def get_row_def update_row_def update_notification_def fresh_pk_def
        null_or_gt_def sample_defs slot_start_for_def us_defs BANGKOK_def Let_def)
  have "n_pk ` set (fst first_claim)
       \<inter> n_pk ` set (fst (claim_due (\<lambda>_. 0) [] (at 9 1) None (snd first_claim))) = {}
     \<and> length (fst first_claim) \<le> batch_limit (conf sample_queue) None"
  proof (rule claim_due_exclusive [where token = id and locked = "[]" and s' = "snd first_claim"
        and token' = "\<lambda>_. 0" and locked' = "[]" and limit' = None
        and s'' = "snd (claim_due (\<lambda>_. 0) [] (at 9 1) None (snd first_claim))"])
    show "keys_unique sample_queue"
      unfolding sample_queue_def
      by (rule enqueue_keys_unique) (simp add: keys_unique_def sample_st_def)
    show "at 9 1 < lease_end (conf sample_queue) (at 9 0)"
      by (simp add: sample_queue_def lease_end_def at_def us_defs sample_st_def default_settings_def
          enqueue_def enqueue_full_def Let_def)
  qed (simp_all add: first_claim_def)
  with len show ?thesis by blast
qed

section \<open>The audit trail is clean\<close>

text \<open>C30: What the trail stores. Every event of the trail gets JSON values only, nested at most five deep,
  with no value under a key that names a secret; and changes that are JSON, secret-free and at most four
  deep are stored as they were given.\<close>

theorem record_audit_type:
  "\<exists>ae. audit_events (record_audit action entity_type entity_id actor label changes reason s) = audit_events s @ [ae]
    \<and> plain_json (ae_changes ae) \<and> no_secrets (ae_changes ae) \<and> json_depth (ae_changes ae) \<le> 5
    \<and> (plain_json (PDict changes) \<and> no_secrets (PDict changes) \<and> json_depth (PDict changes) \<le> 4
        \<longrightarrow> ae_changes ae = PDict changes)"
  using scrub_depth [of 0 "PDict changes"] scrub_same [of "PDict changes" 0]
  by (simp add: record_audit_def scrub_plain scrub_no_secrets del: scrub.simps plain_json.simps no_secrets.simps json_depth.simps)

theorem record_audit_type_witness:
  "\<exists>ae. audit_events (record_audit ''room.deactivated'' ''Room'' ''1'' None '''' [(''room'', PStr ''301'')] '''' (sample_st 0)) = [ae]
    \<and> ae_changes ae = PDict [(''room'', PStr ''301'')]"
  using record_audit_type [of "''room.deactivated''" "''Room''" "''1''" None "''''" "[(''room'', PStr ''301'')]" "''''" "sample_st 0"]
  by (auto simp: sample_st_def redacted_key_def REDACT_KEYS_def lower_def lower_char_def)

end
