(* ===== verification/Policy.thy ===== *)
theory Policy
  imports Outbox
begin

text \<open>
  Policy versions: the typed readings of a snapshot (\<open>core/models/policy.py\<close>), the active
  version and the creation of the next one (\<open>core/services/policy.py\<close>). A snapshot is the JSON
  dictionary the column stores. Every snapshot the code writes holds whole numbers under the
  numeric keys, so \<open>int(...)\<close> never fails on it; a key that is missing takes the reader's
  default.
\<close>

section \<open>Reading a snapshot\<close>

definition snapshot_int :: "dict \<Rightarrow> string \<Rightarrow> int \<Rightarrow> int" where
  "snapshot_int snapshot key dflt = (case map_of snapshot key of Some (PInt i) \<Rightarrow> i | _ \<Rightarrow> dflt)"

definition daily_quota :: "policy_version \<Rightarrow> int" where
  "daily_quota p = snapshot_int (pv_snapshot p) ''daily_quota'' 2"

definition max_upcoming_hours :: "settings \<Rightarrow> policy_version \<Rightarrow> int" where
  "max_upcoming_hours cf p = snapshot_int (pv_snapshot p) ''max_upcoming_hours'' (MAX_UPCOMING_HOURS cf)"

definition horizon_days :: "policy_version \<Rightarrow> int" where
  "horizon_days p = snapshot_int (pv_snapshot p) ''horizon_days'' 7"

definition checkin_grace_minutes :: "policy_version \<Rightarrow> int" where
  "checkin_grace_minutes p = snapshot_int (pv_snapshot p) ''checkin_grace_minutes'' 15"

definition strike_window_days :: "policy_version \<Rightarrow> int" where
  "strike_window_days p = snapshot_int (pv_snapshot p) ''strike_window_days'' 30"

definition strike_threshold :: "policy_version \<Rightarrow> int" where
  "strike_threshold p = snapshot_int (pv_snapshot p) ''strike_threshold'' 3"

definition auto_suspension_days :: "policy_version \<Rightarrow> int" where
  "auto_suspension_days p = snapshot_int (pv_snapshot p) ''auto_suspension_days'' 7"

definition reminder_lead_minutes :: "policy_version \<Rightarrow> int" where
  "reminder_lead_minutes p = snapshot_int (pv_snapshot p) ''reminder_lead_minutes'' 30"

definition opening_hour :: "settings \<Rightarrow> policy_version \<Rightarrow> int" where
  "opening_hour cf p = snapshot_int (pv_snapshot p) ''opening_hour'' (OPENING_SLOT_START_HOUR cf)"

definition closing_hour :: "settings \<Rightarrow> policy_version \<Rightarrow> int" where
  "closing_hour cf p = snapshot_int (pv_snapshot p) ''last_slot_hour'' (LAST_SLOT_START_HOUR cf) + 1"

section \<open>The active version\<close>

definition EDITABLE_POLICY_FIELDS :: "string list" where
  "EDITABLE_POLICY_FIELDS = [''horizon_days'', ''daily_quota'', ''max_upcoming_hours'',
     ''checkin_grace_minutes'', ''strike_window_days'', ''strike_threshold'',
     ''auto_suspension_days'', ''reminder_lead_minutes'', ''institution_email_domain'']"

definition snapshot_from_settings :: "settings \<Rightarrow> dict" where
  "snapshot_from_settings cf =
     [(''horizon_days'', PInt (HORIZON_DAYS cf)), (''daily_quota'', PInt (DAILY_QUOTA cf)),
      (''max_upcoming_hours'', PInt (MAX_UPCOMING_HOURS cf)),
      (''checkin_grace_minutes'', PInt (CHECKIN_GRACE_MINUTES cf)),
      (''strike_window_days'', PInt (STRIKE_WINDOW_DAYS cf)),
      (''strike_threshold'', PInt (STRIKE_THRESHOLD cf)),
      (''auto_suspension_days'', PInt (AUTO_SUSPENSION_DAYS cf)),
      (''reminder_lead_minutes'', PInt (REMINDER_LEAD_MINUTES cf)),
      (''institution_email_domain'', PStr (INSTITUTION_EMAIL_DOMAIN cf)),
      (''slot_minutes'', PInt (SLOT_MINUTES cf)), (''opening_hour'', PInt (OPENING_SLOT_START_HOUR cf)),
      (''last_slot_hour'', PInt (LAST_SLOT_START_HOUR cf))]"

definition latest_policy :: "st \<Rightarrow> policy_version option" where
  "latest_policy s = first_row (order_by_desc pv_version (policies s))"

definition initial_policy :: "st \<Rightarrow> policy_version" where
  "initial_policy s = \<lparr>pv_pk = fresh_pk (map pv_pk (policies s)), pv_version = 1,
     pv_label = ''Initial policy from deployment defaults'',
     pv_snapshot = snapshot_from_settings (conf s), pv_created_by = None,
     pv_note = ''Created automatically from environment defaults.''\<rparr>"

text \<open>
  \<open>current_policy()\<close> reads the newest version and creates version 1 on first use.
  \<open>ensure_policy\<close> is the state after the call and \<open>current_policy\<close> the version it returns.
  The write happens at most once per database; the services read the policy through
  \<open>current_policy\<close>, and \<open>ensure_policy\<close> is applied where the call is made.
\<close>

definition current_policy :: "st \<Rightarrow> policy_version" where
  "current_policy s = (case latest_policy s of Some p \<Rightarrow> p | None \<Rightarrow> initial_policy s)"

definition ensure_policy :: "st \<Rightarrow> st" where
  "ensure_policy s = (case latest_policy s of Some p \<Rightarrow> s
     | None \<Rightarrow> s\<lparr>policies := policies s @ [initial_policy s]\<rparr>)"

section \<open>Creating a version\<close>

definition positive_int :: "dict \<Rightarrow> string \<Rightarrow> int \<Rightarrow> int \<Rightarrow> bool" where
  "positive_int merged name minimum maximum =
     (case map_of merged name of Some (PInt v) \<Rightarrow> minimum \<le> v \<and> v \<le> maximum | _ \<Rightarrow> False)"

definition merge_editable :: "dict \<Rightarrow> dict \<Rightarrow> dict" where
  "merge_editable snapshot base = fold (\<lambda>field merged. case map_of snapshot field of
       None \<Rightarrow> merged | Some v \<Rightarrow> dict_set field v merged) EDITABLE_POLICY_FIELDS base"

definition valid_domain :: "pyval option \<Rightarrow> bool" where
  "valid_domain domain = (case domain of
       Some (PStr d) \<Rightarrow> d \<noteq> '''' \<and> \<not> contains ''@'' d | _ \<Rightarrow> False)"

definition validate_policy :: "settings \<Rightarrow> dict \<Rightarrow> dict \<Rightarrow> exn + dict" where
  "validate_policy cf snapshot base =
     (let merged = merge_editable snapshot base in
      if positive_int merged ''horizon_days'' 1 60
         \<and> positive_int merged ''daily_quota'' 1 10
         \<and> positive_int merged ''max_upcoming_hours'' 1 20
         \<and> positive_int merged ''checkin_grace_minutes'' 1 59
         \<and> positive_int merged ''strike_window_days'' 1 365
         \<and> positive_int merged ''strike_threshold'' 1 10
         \<and> positive_int merged ''auto_suspension_days'' 1 90
         \<and> positive_int merged ''reminder_lead_minutes'' 1 180
         \<and> valid_domain (map_of merged ''institution_email_domain'')
      then Inr (dict_set ''last_slot_hour'' (PInt (LAST_SLOT_START_HOUR cf))
             (dict_set ''opening_hour'' (PInt (OPENING_SLOT_START_HOUR cf))
             (dict_set ''slot_minutes'' (PInt (SLOT_MINUTES cf)) merged)))
      else Inl ValidationError)"

definition create_policy_version :: "dict \<Rightarrow> actor \<Rightarrow> string \<Rightarrow> string \<Rightarrow> st \<Rightarrow> exn + (policy_version \<times> st)" where
  "create_policy_version snapshot actor label note s =
     bindE (validate_policy (conf s) snapshot (snapshot_from_settings (conf s))) (\<lambda>validated.
       let next_version = (case latest_policy s of Some l \<Rightarrow> pv_version l + 1 | None \<Rightarrow> 1);
           p = \<lparr>pv_pk = fresh_pk (map pv_pk (policies s)), pv_version = next_version, pv_label = label,
                pv_snapshot = validated, pv_created_by = actor_pk actor, pv_note = note\<rparr>
       in Inr (p, s\<lparr>policies := policies s @ [p]\<rparr>))"

section \<open>Lemmas\<close>

lemma latest_policy_ensure: "latest_policy (ensure_policy s) = Some (current_policy s)"
proof (cases "latest_policy s")
  case None
  then have "policies s = []" by (simp add: latest_policy_def)
  with None show ?thesis
    by (simp add: ensure_policy_def current_policy_def) (simp add: latest_policy_def order_by_desc_def)
next
  case (Some p)
  then show ?thesis by (simp add: ensure_policy_def current_policy_def)
qed

lemma current_policy_ensure [simp]: "current_policy (ensure_policy s) = current_policy s"
  by (simp add: current_policy_def [of "ensure_policy s"] latest_policy_ensure)

lemma ensure_policy_idem [simp]: "ensure_policy (ensure_policy s) = ensure_policy s"
  by (simp add: ensure_policy_def [of "ensure_policy s"] latest_policy_ensure)

lemma current_policy_cong: "policies s' = policies s \<Longrightarrow> conf s' = conf s \<Longrightarrow> current_policy s' = current_policy s"
  by (simp add: current_policy_def latest_policy_def initial_policy_def cong: option.case_cong)

lemma ensure_policy_frame [simp, frame]:
  "conf (ensure_policy s) = conf s" "clock_now (ensure_policy s) = clock_now s"
  "wall_now (ensure_policy s) = wall_now s" "users (ensure_policy s) = users s"
  "roster (ensure_policy s) = roster s" "rooms (ensure_policy s) = rooms s"
  "room_categories (ensure_policy s) = room_categories s"
  "room_members (ensure_policy s) = room_members s"
  "weekly_blocks (ensure_policy s) = weekly_blocks s" "closures (ensure_policy s) = closures s"
  "overrides (ensure_policy s) = overrides s" "incidents (ensure_policy s) = incidents s"
  "bookings (ensure_policy s) = bookings s" "recurrings (ensure_policy s) = recurrings s"
  "violations (ensure_policy s) = violations s" "suspensions (ensure_policy s) = suspensions s"
  "audit_events (ensure_policy s) = audit_events s"
  "notifications (ensure_policy s) = notifications s" "op_requests (ensure_policy s) = op_requests s"
  "heartbeats (ensure_policy s) = heartbeats s"
  "invitations (ensure_policy s) = invitations s" "room_admins (ensure_policy s) = room_admins s"
  by (simp_all add: ensure_policy_def split: option.splits)

lemma policies_ensure: "policies (ensure_policy s) = (if policies s = [] then [initial_policy s] else policies s)"
proof -
  have "latest_policy s = None \<longleftrightarrow> policies s = []" by (simp add: latest_policy_def)
  then show ?thesis by (cases "latest_policy s") (auto simp: ensure_policy_def)
qed

text \<open>The newest version is the one with the greatest number.\<close>

lemma latest_policy_max:
  assumes "latest_policy s = Some p"
  shows "p \<in> set (policies s)" "\<And>q. q \<in> set (policies s) \<Longrightarrow> pv_version q \<le> pv_version p"
proof -
  let ?xs = "sort_key (\<lambda>p. - pv_version p) (policies s)"
  from assms obtain ys where xs: "?xs = p # ys"
    unfolding latest_policy_def order_by_desc_def first_row_def by (auto split: list.splits)
  have set_xs: "set (p # ys) = set (policies s)" unfolding xs [symmetric] by simp
  then show "p \<in> set (policies s)" by auto
  have srt: "sorted (map (\<lambda>p. - pv_version p) (p # ys))"
    unfolding xs [symmetric] by (rule sorted_sort_key)
  fix q assume "q \<in> set (policies s)"
  then have "q \<in> set (p # ys)" unfolding set_xs .
  with srt show "pv_version q \<le> pv_version p" by auto
qed

lemma create_policy_version_latest:
  assumes "create_policy_version snapshot actor label note s = Inr (p, s')"
  shows "latest_policy s' = Some p" "policies s' = policies s @ [p]"
    "\<And>q. q \<in> set (policies s) \<Longrightarrow> pv_version q < pv_version p"
proof -
  from assms have p: "policies s' = policies s @ [p]"
    and v: "pv_version p = (case latest_policy s of Some l \<Rightarrow> pv_version l + 1 | None \<Rightarrow> 1)"
    by (auto simp: create_policy_version_def bindE_Inr Let_def)
  show less: "\<And>q. q \<in> set (policies s) \<Longrightarrow> pv_version q < pv_version p"
  proof -
    fix q assume q: "q \<in> set (policies s)"
    then obtain l where l: "latest_policy s = Some l"
      by (cases "latest_policy s") (auto simp: latest_policy_def)
    with v latest_policy_max(2) [OF l q] show "pv_version q < pv_version p" by simp
  qed
  show "policies s' = policies s @ [p]" by (rule p)
  have "latest_policy s' \<noteq> None" by (simp add: latest_policy_def p)
  then obtain l where l: "latest_policy s' = Some l" by auto
  have "pv_version p \<le> pv_version l" using latest_policy_max(2) [OF l, of p] p by simp
  moreover have "l = p \<or> l \<in> set (policies s)" using latest_policy_max(1) [OF l] p by auto
  ultimately have "l = p" using less by fastforce
  with l show "latest_policy s' = Some p" by simp
qed

end
