(* ===== verification/Calendar.thy ===== *)
theory Calendar
  imports Policy
begin

text \<open>
  The effective calendar (\<open>core/services/calendar.py\<close>): opening hours of a date, closures,
  the weekly timetable, the check every booking makes (\<open>assert_slot_open\<close>) and the list of
  bookable hours the booking pages show (\<open>bookable_slot_starts\<close>). A Django query is a filter
  of the table in the order the model's \<open>Meta.ordering\<close> gives.
\<close>

section \<open>Definitions\<close>

text \<open>An override that opens a day has both hours
  (\<open>calendar_override_hours_consistent\<close>), so \<open>hour_or_zero\<close> never falls back.\<close>

definition hour_or_zero :: "int option \<Rightarrow> int" where
  "hour_or_zero h = (case h of None \<Rightarrow> 0 | Some x \<Rightarrow> x)"

definition day_hours :: "st \<Rightarrow> date \<Rightarrow> (int \<times> int) option" where
  "day_hours s d =
     (case first_row (filter (\<lambda>ov. co_local_date ov = d) (overrides s)) of
        Some ov \<Rightarrow> if \<not> co_is_open ov then None
          else Some (hour_or_zero (co_open_hour ov), hour_or_zero (co_close_hour ov))
      | None \<Rightarrow> default_opening_hours (conf s) d)"

definition closure_hits :: "time \<Rightarrow> time \<Rightarrow> nat \<Rightarrow> closure \<Rightarrow> bool" where
  "closure_hits slot_start slot_end room_pk c =
     (c_revoked_at c = None \<and> c_starts_at c < slot_end \<and> c_ends_at c > slot_start
      \<and> (c_room c = None \<or> c_room c = Some room_pk))"

definition active_closures :: "st \<Rightarrow> time \<Rightarrow> time \<Rightarrow> nat \<Rightarrow> closure list" where
  "active_closures s slot_start slot_end room_pk =
     order_by_desc c_starts_at (filter (closure_hits slot_start slot_end room_pk) (closures s))"

definition is_slot_closed :: "st \<Rightarrow> time \<Rightarrow> nat \<Rightarrow> bool" where
  "is_slot_closed s slot_start room_pk =
     (active_closures s slot_start (slot_end_for slot_start) room_pk \<noteq> [])"

definition closure_reason :: "st \<Rightarrow> time \<Rightarrow> nat \<Rightarrow> string" where
  "closure_reason s slot_start room_pk =
     (case first_row (active_closures s slot_start (slot_end_for slot_start) room_pk) of
        Some c \<Rightarrow> c_reason c | None \<Rightarrow> '''')"

definition block_valid_on :: "date \<Rightarrow> weekly_block \<Rightarrow> bool" where
  "block_valid_on d w =
     ((wb_valid_from w = None \<or> lte_null (wb_valid_from w) d)
      \<and> (case wb_valid_until w of None \<Rightarrow> True | Some u \<Rightarrow> d \<le> u))"

definition block_covers :: "time \<Rightarrow> nat \<Rightarrow> weekly_block \<Rightarrow> bool" where
  "block_covers slot_start room_pk w =
     (wb_room w = room_pk \<and> wb_weekday w = weekday (local_date slot_start)
      \<and> wb_start_hour w \<le> local_hour slot_start \<and> wb_end_hour w > local_hour slot_start
      \<and> block_valid_on (local_date slot_start) w)"

definition weekly_block_for :: "st \<Rightarrow> time \<Rightarrow> nat \<Rightarrow> weekly_block option" where
  "weekly_block_for s slot_start room_pk =
     first_row (order_by (\<lambda>w. (wb_weekday w, wb_start_hour w))
       (filter (block_covers slot_start room_pk) (weekly_blocks s)))"

text \<open>The grouped form for one date: the blocks of each room, empty for a room with none.\<close>

definition weekly_blocks_for_date :: "st \<Rightarrow> date \<Rightarrow> nat list \<Rightarrow> nat \<Rightarrow> weekly_block list" where
  "weekly_blocks_for_date s d room_ids room_pk =
     (if room_pk \<notin> set room_ids then []
      else order_by (\<lambda>w. (wb_weekday w, wb_start_hour w))
        (filter (\<lambda>w. wb_room w = room_pk \<and> wb_weekday w = weekday d \<and> block_valid_on d w)
          (weekly_blocks s)))"

definition assert_slot_open :: "st \<Rightarrow> time \<Rightarrow> room \<Rightarrow> exn + unit" where
  "assert_slot_open s slot_start room =
     (if \<not> r_is_active room then Inl (rejected Code_CLOSED [])
      else case day_hours s (local_date slot_start) of
        None \<Rightarrow> Inl (rejected Code_CLOSED [])
      | Some (open_hour, close_hour) \<Rightarrow>
          if \<not> (open_hour \<le> local_hour slot_start \<and> local_hour slot_start < close_hour)
          then Inl (rejected Code_CLOSED [])
          else if is_slot_closed s slot_start (r_pk room) then Inl (rejected Code_CLOSED [])
          else case weekly_block_for s slot_start (r_pk room) of
              Some block \<Rightarrow> Inl (rejected Code_CLASS_IN_SESSION
                [(''room_id'', PNat (r_pk room)), (''reason'', PStr (wb_reason block))])
            | None \<Rightarrow> Inr ())"

definition bookable_slot_starts :: "st \<Rightarrow> date \<Rightarrow> room \<Rightarrow> time list" where
  "bookable_slot_starts s d room =
     (case day_hours s d of
        None \<Rightarrow> []
      | Some (open_hour, close_hour) \<Rightarrow>
          if \<not> r_is_active room then []
          else let starts = day_slot_starts (conf s) d (Some open_hour) (Some close_hour) in
            if starts = [] then []
            else let has_closures = active_closures s (hd starts) (slot_end_for (last starts)) (r_pk room) \<noteq> [];
                     has_blocks = filter (\<lambda>w. wb_room w = r_pk room \<and> wb_weekday w = weekday d)
                       (weekly_blocks s) \<noteq> []
                 in if \<not> has_closures \<and> \<not> has_blocks then starts
                    else filter (\<lambda>start. \<not> is_slot_closed s start (r_pk room)
                           \<and> weekly_block_for s start (r_pk room) = None) starts)"

definition closures_for_range :: "st \<Rightarrow> time \<Rightarrow> time \<Rightarrow> closure list" where
  "closures_for_range s start end1 = order_by_desc c_starts_at
     (filter (\<lambda>c. c_revoked_at c = None \<and> c_starts_at c < end1 \<and> c_ends_at c > start) (closures s))"

text \<open>Every opening hour of the calendar is an hour of one day, as the constraints of
  \<open>CalendarOverride\<close> and the deployment settings make sure.\<close>

definition hours_ok :: "st \<Rightarrow> bool" where
  "hours_ok s \<longleftrightarrow> 0 \<le> OPENING_SLOT_START_HOUR (conf s) \<and> LAST_SLOT_START_HOUR (conf s) < 24
     \<and> (\<forall>ov \<in> set (overrides s). co_is_open ov \<longrightarrow>
          0 \<le> hour_or_zero (co_open_hour ov) \<and> hour_or_zero (co_close_hour ov) \<le> 24)"

section \<open>Lemmas\<close>

lemma is_slot_closed_iff:
  "is_slot_closed s t r \<longleftrightarrow> (\<exists>c \<in> set (closures s). closure_hits t (slot_end_for t) r c)"
  by (auto simp: is_slot_closed_def active_closures_def filter_empty_conv)

lemma weekly_block_for_None:
  "weekly_block_for s t r = None \<longleftrightarrow> (\<forall>w \<in> set (weekly_blocks s). \<not> block_covers t r w)"
  by (simp add: weekly_block_for_def filter_empty_conv)

lemma weekly_block_for_Some:
  "weekly_block_for s t r = Some w \<Longrightarrow> w \<in> set (weekly_blocks s) \<and> block_covers t r w"
  by (auto simp: weekly_block_for_def dest!: first_row_Some)

lemma day_hours_range:
  assumes "hours_ok s" "day_hours s d = Some (op, cl)"
  shows "0 \<le> op" "cl \<le> 24"
proof -
  have "0 \<le> op \<and> cl \<le> 24"
  proof (cases "first_row (filter (\<lambda>ov. co_local_date ov = d) (overrides s))")
    case None
    with assms show ?thesis
      by (auto simp: day_hours_def default_opening_hours_def hours_ok_def split: if_splits)
  next
    case (Some ov)
    then have "ov \<in> set (overrides s)" by (auto dest: first_row_Some)
    with Some assms show ?thesis by (auto simp: day_hours_def hours_ok_def split: if_splits)
  qed
  then show "0 \<le> op" "cl \<le> 24" by simp_all
qed

text \<open>What the calendar check accepts, as one condition.\<close>

definition slot_open :: "st \<Rightarrow> time \<Rightarrow> room \<Rightarrow> bool" where
  "slot_open s t room \<longleftrightarrow> r_is_active room
     \<and> (\<exists>op cl. day_hours s (local_date t) = Some (op, cl) \<and> op \<le> local_hour t \<and> local_hour t < cl)
     \<and> (\<forall>c \<in> set (closures s). \<not> closure_hits t (slot_end_for t) (r_pk room) c)
     \<and> (\<forall>w \<in> set (weekly_blocks s). \<not> block_covers t (r_pk room) w)"

lemma assert_slot_open_Inr: "assert_slot_open s t room = Inr u \<longleftrightarrow> slot_open s t room"
proof -
  have "slot_open s t room \<longleftrightarrow> r_is_active room
      \<and> (\<exists>op cl. day_hours s (local_date t) = Some (op, cl) \<and> op \<le> local_hour t \<and> local_hour t < cl)
      \<and> \<not> is_slot_closed s t (r_pk room) \<and> weekly_block_for s t (r_pk room) = None"
    by (simp add: slot_open_def is_slot_closed_iff weekly_block_for_None)
  then show ?thesis by (auto simp: assert_slot_open_def split: option.splits)
qed

lemma assert_slot_open_Inl:
  "assert_slot_open s t room = Inl e \<Longrightarrow> \<exists>c d. e = rejected c d \<and> c \<in> {Code_CLOSED, Code_CLASS_IN_SESSION}"
  by (auto simp: assert_slot_open_def split: if_splits option.splits)

lemma assert_slot_open_cong [frame]:
  assumes "overrides s' = overrides s" "conf s' = conf s" "closures s' = closures s"
    "weekly_blocks s' = weekly_blocks s"
  shows "assert_slot_open s' t room = assert_slot_open s t room"
proof -
  have eqs: "day_hours s' = day_hours s" "is_slot_closed s' = is_slot_closed s"
    "weekly_block_for s' = weekly_block_for s"
    unfolding fun_eq_iff day_hours_def is_slot_closed_def active_closures_def weekly_block_for_def assms
    by simp_all
  show ?thesis unfolding assert_slot_open_def eqs ..
qed

text \<open>The day-wide closure query of the fast path sees every closure of the day's slots.\<close>

lemma no_closure_in_day:
  assumes "active_closures s (slot_start_for d op) (slot_end_for (slot_start_for d (cl - 1))) r = []"
    and "op \<le> h" "h < cl"
  shows "\<not> is_slot_closed s (slot_start_for d h) r"
proof -
  have le: "slot_start_for d op \<le> slot_start_for d h"
    using assms(2) slot_start_for_less [of d h op] by linarith
  have "slot_start_for d (h + 1) \<le> slot_start_for d cl"
    using assms(3) slot_start_for_less [of d cl "h + 1"] by linarith
  with le have hits: "closure_hits (slot_start_for d h) (slot_end_for (slot_start_for d h)) r c \<Longrightarrow>
      closure_hits (slot_start_for d op) (slot_end_for (slot_start_for d (cl - 1))) r c" for c
    unfolding closure_hits_def slot_end_for_slot_start using le
    by (auto intro: le_less_trans [OF le] less_le_trans [OF _ \<open>slot_start_for d (h + 1) \<le> slot_start_for d cl\<close>]
        simp del: slot_start_for_less)
  have "filter (closure_hits (slot_start_for d op) (slot_end_for (slot_start_for d (cl - 1))) r) (closures s) = []"
    using assms(1) by (simp add: active_closures_def)
  with hits show ?thesis unfolding is_slot_closed_iff filter_empty_conv by blast
qed

lemma bookable_slot_starts_filter:
  assumes "hours_ok s" "day_hours s d = Some (op, cl)" "r_is_active room"
  shows "bookable_slot_starts s d room =
    filter (\<lambda>t. \<not> is_slot_closed s t (r_pk room) \<and> weekly_block_for s t (r_pk room) = None)
      (map (slot_start_for d) [op..cl - 1])"
proof (cases "op \<le> cl - 1")
  case False
  with assms show ?thesis by (simp add: bookable_slot_starts_def day_slot_starts_def)
next
  case True
  let ?starts = "map (slot_start_for d) [op..cl - 1]"
  have ends: "?starts \<noteq> []" "hd ?starts = slot_start_for d op" "last ?starts = slot_start_for d (cl - 1)"
    subgoal using True by simp
    subgoal by (subst upto_rec1 [OF True]) simp
    subgoal by (subst upto_rec2 [OF True]) simp
    done
  note range = day_hours_range [OF assms(1,2)]
  have clear: "\<not> is_slot_closed s t (r_pk room) \<and> weekly_block_for s t (r_pk room) = None"
    if none: "active_closures s (slot_start_for d op) (slot_end_for (slot_start_for d (cl - 1))) (r_pk room) = []"
      and blocks: "filter (\<lambda>w. wb_room w = r_pk room \<and> wb_weekday w = weekday d) (weekly_blocks s) = []"
      and t: "t \<in> set ?starts" for t
  proof -
    from t obtain h where h: "t = slot_start_for d h" "op \<le> h" "h < cl" by auto
    then have "local_date t = d" using range by simp
    then have "\<not> block_covers t (r_pk room) w" if "w \<in> set (weekly_blocks s)" for w
      using blocks that unfolding filter_empty_conv block_covers_def by fast
    then have "weekly_block_for s t (r_pk room) = None"
      unfolding weekly_block_for_None by blast
    with no_closure_in_day [OF none h(2,3)] h(1) show ?thesis by simp
  qed
  let ?nc = "active_closures s (slot_start_for d op) (slot_end_for (slot_start_for d (cl - 1))) (r_pk room) = []"
  let ?nb = "filter (\<lambda>w. wb_room w = r_pk room \<and> wb_weekday w = weekday d) (weekly_blocks s) = []"
  let ?open = "\<lambda>t. \<not> is_slot_closed s t (r_pk room) \<and> weekly_block_for s t (r_pk room) = None"
  have eq: "bookable_slot_starts s d room =
      (if \<not> \<not> ?nc \<and> \<not> \<not> ?nb then ?starts else filter ?open ?starts)"
    unfolding bookable_slot_starts_def day_slot_starts_hours Let_def assms(2)
    using assms(3) ends by (simp only: option.case prod.case if_True if_False simp_thms)
  show ?thesis
  proof (cases "?nc \<and> ?nb")
    case True
    then have "filter ?open ?starts = ?starts" using clear by (intro filter_True) blast
    with True eq show ?thesis by simp
  next
    case False
    with eq show ?thesis by argo
  qed
qed

section \<open>Properties\<close>

text \<open>C14: The two ways of asking whether an hour can be booked agree. The list of a day's bookable
  hours, computed with one day-wide closure query and one weekday query, holds exactly the
  hour-aligned instants of that local day on which \<open>assert_slot_open\<close> raises nothing.\<close>

theorem bookable_slot_starts_correct:
  assumes "hours_ok s"
  shows "t \<in> set (bookable_slot_starts s d room)
    \<longleftrightarrow> is_hour_aligned t \<and> local_date t = d \<and> assert_slot_open s t room = Inr ()"
proof (cases "\<exists>op cl. r_is_active room \<and> day_hours s d = Some (op, cl)")
  case False
  then have "r_is_active room \<Longrightarrow> day_hours s d = None" by (metis not_None_eq surj_pair)
  with False show ?thesis
    by (cases "day_hours s d")
      (auto simp: bookable_slot_starts_def assert_slot_open_Inr slot_open_def)
next
  case True
  then obtain op cl where act: "r_is_active room" and hrs: "day_hours s d = Some (op, cl)" by blast
  note range = day_hours_range [OF assms hrs]
  have hours: "t \<in> set (map (slot_start_for d) [op..cl - 1])
      \<longleftrightarrow> is_hour_aligned t \<and> local_date t = d \<and> op \<le> local_hour t \<and> local_hour t < cl"
  proof
    assume "t \<in> set (map (slot_start_for d) [op..cl - 1])"
    then show "is_hour_aligned t \<and> local_date t = d \<and> op \<le> local_hour t \<and> local_hour t < cl"
      using range by auto
  next
    assume "is_hour_aligned t \<and> local_date t = d \<and> op \<le> local_hour t \<and> local_hour t < cl"
    then show "t \<in> set (map (slot_start_for d) [op..cl - 1])"
      using slot_start_of_local [of t] by (auto intro!: image_eqI [where x = "local_hour t"])
  qed
  have "slot_open s t room \<longleftrightarrow> op \<le> local_hour t \<and> local_hour t < cl
      \<and> \<not> is_slot_closed s t (r_pk room) \<and> weekly_block_for s t (r_pk room) = None"
    if "local_date t = d"
    using act hrs that by (simp add: slot_open_def is_slot_closed_iff weekly_block_for_None)
  with hours show ?thesis
    unfolding bookable_slot_starts_filter [OF assms hrs act] assert_slot_open_Inr by auto
qed

theorem bookable_slot_starts_correct_witness:
  "at 10 0 \<in> set (bookable_slot_starts (sample_st (at 9 0)) monday room_a)
    \<longleftrightarrow> is_hour_aligned (at 10 0) \<and> local_date (at 10 0) = monday
        \<and> assert_slot_open (sample_st (at 9 0)) (at 10 0) room_a = Inr ()"
  by (rule bookable_slot_starts_correct) (simp add: hours_ok_def sample_defs)

end
