(* ===== verification/Eligibility.thy ===== *)
theory Eligibility
  imports Calendar
begin

text \<open>
  Who may do what: suspensions and account state (\<open>core/services/eligibility.py\<close>), the
  access lists of members-only rooms (\<open>core/services/room_access.py\<close>), the instrument
  category (\<open>category_for_user\<close> of \<open>core/services/instruments.py\<close>) and the room audience
  methods of \<open>core/models/room.py\<close>. A signed-in user has a primary key, nobody is \<open>None\<close>.
\<close>

section \<open>Account state\<close>

definition active_suspension :: "st \<Rightarrow> user option \<Rightarrow> time \<Rightarrow> suspension option" where
  "active_suspension s user now = (case user of
       None \<Rightarrow> None
     | Some u \<Rightarrow> first_row (order_by_desc sp_starts_at
         (filter (\<lambda>sp. suspension_active now sp \<and> sp_user sp = u_pk u) (suspensions s))))"

definition is_suspended :: "st \<Rightarrow> user option \<Rightarrow> time \<Rightarrow> bool" where
  "is_suspended s user now = (active_suspension s user now \<noteq> None)"

definition account_block_code :: "user option \<Rightarrow> code option" where
  "account_block_code user = (case user of
       None \<Rightarrow> Some Code_NOT_ELIGIBLE
     | Some u \<Rightarrow>
       if \<not> u_is_active u then Some Code_INACTIVE_ACCOUNT
       else if \<not> email_is_verified u then Some Code_EMAIL_UNVERIFIED
       else if u_eligibility u = PENDING then Some Code_PENDING_APPROVAL
       else if u_eligibility u \<noteq> APPROVED then Some Code_NOT_ELIGIBLE
       else if u_is_teacher u then Some Code_TEACHER_READ_ONLY
       else None)"

definition assert_can_operate :: "st \<Rightarrow> user option \<Rightarrow> time \<Rightarrow> exn + unit" where
  "assert_can_operate s user now = (case account_block_code user of
       Some block \<Rightarrow> Inl (rejected block [])
     | None \<Rightarrow> if is_suspended s user now then Inl (rejected Code_SUSPENDED []) else Inr ())"

definition assert_may_use_room :: "st \<Rightarrow> user option \<Rightarrow> room \<Rightarrow> time \<Rightarrow> exn + unit" where
  "assert_may_use_room s user room now =
     thenE (assert_can_operate s user now)
       (if \<not> r_is_active room then Inl (rejected Code_CLOSED [])
        else if r_availability_only room then Inl (rejected Code_CLOSED [])
        else Inr ())"

section \<open>Room audience\<close>

definition is_booking_staff :: "user option \<Rightarrow> bool" where
  "is_booking_staff user = (case user of None \<Rightarrow> False
     | Some u \<Rightarrow> u_is_active u \<and> (u_is_superuser u \<or> u_is_operational_staff u))"

definition member_room_ids :: "st \<Rightarrow> user option \<Rightarrow> nat set" where
  "member_room_ids s user = (case user of
       None \<Rightarrow> {}
     | Some u \<Rightarrow>
       if is_booking_staff user then r_pk ` set (filter r_members_only (rooms s))
       else let email = lower (strip (u_email u)) in
         if email = '''' then {}
         else rm_room ` set (filter (\<lambda>m. rm_email m = email) (room_members s)))"

definition ROOM_LIST_REASON :: string where
  "ROOM_LIST_REASON = ''Automatic: verified email is on a department room access list.''"

definition category_for_user :: "st \<Rightarrow> user option \<Rightarrow> category option" where
  "category_for_user s user = (case user of
       None \<Rightarrow> None
     | Some u \<Rightarrow>
       (case first_row (order_by es_institutional_id
           (filter (\<lambda>r. es_account r = Some (u_pk u) \<and> es_is_active r) (roster s))) of
          Some row \<Rightarrow> Some (es_instrument_category row)
        | None \<Rightarrow>
          if u_declared_category u \<noteq> None \<and> is_approved u then
            (if u_eligibility_reason u = ROOM_LIST_REASON \<and> \<not> u_declared_category_confirmed u
             then None else u_declared_category u)
          else None))"

definition allowed_category_values :: "st \<Rightarrow> room \<Rightarrow> category list" where
  "allowed_category_values s room =
     map ac_category (filter (\<lambda>a. ac_room a = r_pk room) (room_categories s))"

definition may_be_reserved_by :: "st \<Rightarrow> room \<Rightarrow> category option \<Rightarrow> bool" where
  "may_be_reserved_by s room category =
     (if \<not> is_restricted room then True
      else case category of None \<Rightarrow> False
        | Some c \<Rightarrow> list_ex (\<lambda>x. x = c) (allowed_category_values s room))"

definition admits :: "st \<Rightarrow> room \<Rightarrow> category option \<Rightarrow> nat set \<Rightarrow> bool" where
  "admits s room category members =
     (if r_members_only room \<and> r_pk room \<notin> members then False
      else may_be_reserved_by s room category)"

definition assert_may_reserve_room :: "st \<Rightarrow> user option \<Rightarrow> room \<Rightarrow> time \<Rightarrow> exn + unit" where
  "assert_may_reserve_room s user room now =
     thenE (assert_may_use_room s user room now)
       (if r_members_only room \<and> r_pk room \<notin> member_room_ids s user
        then Inl (rejected Code_ROOM_MEMBERS_ONLY [(''room_id'', PNat (r_pk room))])
        else if \<not> may_be_reserved_by s room (category_for_user s user)
        then Inl (rejected Code_ROOM_NOT_FOR_INSTRUMENT
          [(''room_id'', PNat (r_pk room)),
           (''allowed_categories'', PList (map (PStr \<circ> category_value) (allowed_category_values s room)))])
        else Inr ())"

text \<open>The suspensions in force, as a condition on the table.\<close>

definition suspended_at :: "st \<Rightarrow> nat \<Rightarrow> time \<Rightarrow> bool" where
  "suspended_at s user_pk now \<longleftrightarrow>
     (\<exists>sp \<in> set (suspensions s). suspension_active now sp \<and> sp_user sp = user_pk)"

section \<open>Lemmas\<close>

lemma is_suspended_iff: "is_suspended s (Some u) now \<longleftrightarrow> suspended_at s (u_pk u) now"
  by (auto simp: is_suspended_def active_suspension_def suspended_at_def filter_empty_conv)

definition account_ok :: "user \<Rightarrow> bool" where
  "account_ok u \<longleftrightarrow> u_is_active u \<and> email_is_verified u \<and> u_eligibility u = APPROVED \<and> \<not> u_is_teacher u"

lemma account_block_code_None: "account_block_code (Some u) = None \<longleftrightarrow> account_ok u"
  by (auto simp: account_block_code_def account_ok_def)

lemma assert_can_operate_Inr:
  "assert_can_operate s (Some u) now = Inr x \<longleftrightarrow> account_ok u \<and> \<not> suspended_at s (u_pk u) now"
  by (auto simp: assert_can_operate_def account_block_code_None [symmetric] is_suspended_iff
      split: option.splits)

lemma assert_can_operate_None [simp]: "assert_can_operate s None now = Inl (rejected Code_NOT_ELIGIBLE [])"
  by (simp add: assert_can_operate_def account_block_code_def)

lemma assert_may_use_room_Inr:
  "assert_may_use_room s (Some u) room now = Inr x \<longleftrightarrow>
     account_ok u \<and> \<not> suspended_at s (u_pk u) now \<and> r_is_active room \<and> \<not> r_availability_only room"
  by (auto simp: assert_may_use_room_def thenE_Inr assert_can_operate_Inr)

text \<open>Everything \<open>assert_may_reserve_room\<close> asks of an account and a room.\<close>

definition may_reserve :: "st \<Rightarrow> user \<Rightarrow> room \<Rightarrow> time \<Rightarrow> bool" where
  "may_reserve s u room now \<longleftrightarrow>
     account_ok u \<and> \<not> suspended_at s (u_pk u) now \<and> r_is_active room \<and> \<not> r_availability_only room
     \<and> admits s room (category_for_user s (Some u)) (member_room_ids s (Some u))"

lemma assert_may_reserve_room_Inr:
  "assert_may_reserve_room s (Some u) room now = Inr x \<longleftrightarrow> may_reserve s u room now"
  by (auto simp: assert_may_reserve_room_def thenE_Inr assert_may_use_room_Inr may_reserve_def admits_def)

lemma eligibility_rejects:
  "assert_can_operate s user now = Inl e \<Longrightarrow> \<exists>c d. e = rejected c d"
  "assert_may_use_room s user room now = Inl e \<Longrightarrow> \<exists>c d. e = rejected c d"
  "assert_may_reserve_room s user room now = Inl e \<Longrightarrow> \<exists>c d. e = rejected c d"
proof -
  show 1: "assert_can_operate s user now = Inl e \<Longrightarrow> \<exists>c d. e = rejected c d" for e
    by (auto simp: assert_can_operate_def split: option.splits if_splits)
  show 2: "assert_may_use_room s user room now = Inl e \<Longrightarrow> \<exists>c d. e = rejected c d" for e
    by (auto simp: assert_may_use_room_def thenE_Inl dest: 1 split: if_splits)
  show "assert_may_reserve_room s user room now = Inl e \<Longrightarrow> \<exists>c d. e = rejected c d"
    by (auto simp: assert_may_reserve_room_def thenE_Inl dest: 2 split: if_splits)
qed

lemma may_be_reserved_by_iff:
  "may_be_reserved_by s room cat \<longleftrightarrow> \<not> is_restricted room
     \<or> (\<exists>c. cat = Some c \<and> \<lparr>ac_room = r_pk room, ac_category = c\<rparr> \<in> set (room_categories s))"
proof -
  have "\<lparr>ac_room = r_pk room, ac_category = c\<rparr> \<in> set (room_categories s) \<longleftrightarrow>
      (\<exists>a \<in> set (room_categories s). ac_room a = r_pk room \<and> ac_category a = c)" for c
  proof -
    have "a = \<lparr>ac_room = ac_room a, ac_category = ac_category a\<rparr>" for a :: room_allowed_category by simp
    then show ?thesis by (metis room_allowed_category.select_convs)
  qed
  then show ?thesis
    by (auto simp: may_be_reserved_by_def allowed_category_values_def list_ex_iff split: option.splits)
qed

section \<open>Properties\<close>

text \<open>A room can be reserved only by an active, verified, approved account that is neither
  faculty nor under a suspension in force, in a room that is active and open to reservations,
  which the account is on the access list of when it is members-only (or staff), and which names the
  account's instrument category when it is restricted: a restricted room with no category
  configured, or an account with no category, always answers no.\<close>

theorem assert_may_reserve_room_spec:
  "assert_may_reserve_room s (Some u) room now = Inr () \<longleftrightarrow>
     u_is_active u \<and> u_email_verified_at u \<noteq> None \<and> u_eligibility u = APPROVED \<and> \<not> u_is_teacher u
     \<and> (\<forall>sp. sp \<in> set (suspensions s) \<and> sp_user sp = u_pk u \<and> sp_lifted_at sp = None
          \<and> sp_starts_at sp \<le> now \<longrightarrow> \<not> null_or_gt (sp_ends_at sp) now)
     \<and> r_is_active room \<and> \<not> r_availability_only room
     \<and> (r_members_only room \<longrightarrow> r_pk room \<in> member_room_ids s (Some u))
     \<and> (r_reservation_scope room = LISTED \<longrightarrow> (\<exists>c. category_for_user s (Some u) = Some c
          \<and> \<lparr>ac_room = r_pk room, ac_category = c\<rparr> \<in> set (room_categories s)))"
  by (auto simp: assert_may_reserve_room_Inr may_reserve_def account_ok_def email_is_verified_def
      suspended_at_def suspension_active_def admits_def may_be_reserved_by_iff is_restricted_def)

theorem assert_may_reserve_room_spec_witness:
  "assert_may_reserve_room (sample_st (at 9 0)) (Some alice) room_a (at 9 0) = Inr ()"
  by (subst assert_may_reserve_room_spec) (simp add: sample_defs)

end
