(* ===== verification/Quota.thy ===== *)
theory Quota
  imports Eligibility
begin

text \<open>
  The daily quota, the cap on upcoming hours, the same-and-adjacent-hour rule and the no-show
  reclaim rule (\<open>core/services/quota.py\<close>), each a count or an existence test over the booking
  table. \<open>quota_ok\<close> is the rule they add up to.
\<close>

section \<open>Definitions\<close>

definition quota_used :: "st \<Rightarrow> nat \<Rightarrow> date \<Rightarrow> int" where
  "quota_used s user_pk d = int (length (filter
     (\<lambda>b. b_user b = user_pk \<and> b_slot_date b = d \<and> b_status b \<in> set QUOTA_STATUSES) (bookings s)))"

definition blocking_bookings :: "st \<Rightarrow> nat \<Rightarrow> time \<Rightarrow> booking list" where
  "blocking_bookings s user_pk slot_start = filter
     (\<lambda>b. b_user b = user_pk \<and> b_status b \<in> set BLOCKING_STATUSES
        \<and> (b_slot_start b = slot_start \<or> b_slot_start b = slot_start - SLOT_DELTA
           \<or> b_slot_start b = slot_start + SLOT_DELTA)) (bookings s)"

definition UPCOMING_STATUSES :: "status list" where
  "UPCOMING_STATUSES = [PENDING_APPROVAL, SCHEDULED, IN_USE]"

definition upcoming_hours :: "st \<Rightarrow> nat \<Rightarrow> time \<Rightarrow> int" where
  "upcoming_hours s user_pk now = int (length (filter
     (\<lambda>b. b_user b = user_pk \<and> b_status b \<in> set UPCOMING_STATUSES \<and> b_slot_end b > now) (bookings s)))"

definition upcoming_remaining :: "st \<Rightarrow> nat \<Rightarrow> time \<Rightarrow> int" where
  "upcoming_remaining s user_pk now =
     max 0 (max_upcoming_hours (conf s) (current_policy s) - upcoming_hours s user_pk now)"

definition no_show_reclaim :: "st \<Rightarrow> nat \<Rightarrow> nat \<Rightarrow> time \<Rightarrow> bool" where
  "no_show_reclaim s user_pk room_pk slot_start = list_ex
     (\<lambda>b. b_user b = user_pk \<and> b_room b = room_pk \<and> b_slot_start b = slot_start \<and> b_status b = NO_SHOW)
     (bookings s)"

definition assert_quota_and_adjacency ::
  "st \<Rightarrow> nat \<Rightarrow> time \<Rightarrow> nat option \<Rightarrow> date option \<Rightarrow> time option \<Rightarrow> exn + unit" where
  "assert_quota_and_adjacency s user_pk slot_start room ld nw =
     (let d = (case ld of None \<Rightarrow> local_date slot_start | Some d \<Rightarrow> d);
          now = (case nw of None \<Rightarrow> clock_now s | Some n \<Rightarrow> n);
          policy = current_policy s
      in if blocking_bookings s user_pk slot_start \<noteq> [] then Inl (rejected Code_ADJACENCY_CONFLICT [])
         else if quota_used s user_pk d \<ge> daily_quota policy then Inl (rejected Code_QUOTA_EXCEEDED [])
         else if upcoming_hours s user_pk now \<ge> max_upcoming_hours (conf s) policy
           then Inl (rejected Code_UPCOMING_LIMIT [(''limit'', PInt (max_upcoming_hours (conf s) policy))])
         else if (case room of None \<Rightarrow> False | Some r \<Rightarrow> no_show_reclaim s user_pk r slot_start)
           then Inl (rejected Code_NO_SHOW_RECLAIM [])
         else Inr ())"

definition quota_remaining :: "st \<Rightarrow> nat \<Rightarrow> date \<Rightarrow> int" where
  "quota_remaining s user_pk d = max 0 (daily_quota (current_policy s) - quota_used s user_pk d)"

section \<open>Lemmas\<close>

definition quota_ok :: "st \<Rightarrow> nat \<Rightarrow> nat \<Rightarrow> time \<Rightarrow> time \<Rightarrow> bool" where
  "quota_ok s user_pk room_pk slot_start now \<longleftrightarrow>
     blocking_bookings s user_pk slot_start = []
     \<and> quota_used s user_pk (local_date slot_start) < daily_quota (current_policy s)
     \<and> upcoming_hours s user_pk now < max_upcoming_hours (conf s) (current_policy s)
     \<and> \<not> no_show_reclaim s user_pk room_pk slot_start"

lemma assert_quota_Inr:
  "assert_quota_and_adjacency s u t (Some r) None (Some now) = Inr x \<longleftrightarrow> quota_ok s u r t now"
  by (auto simp: assert_quota_and_adjacency_def quota_ok_def Let_def not_le)

lemma assert_quota_Inl:
  "assert_quota_and_adjacency s u t r d n = Inl e \<Longrightarrow> \<exists>c dd. e = rejected c dd"
  by (auto simp: assert_quota_and_adjacency_def Let_def split: if_splits)

lemma blocking_bookings_Nil:
  "blocking_bookings s u t = [] \<longleftrightarrow> (\<forall>b \<in> set (bookings s). b_user b = u \<longrightarrow> occupies_slot b \<longrightarrow>
     b_slot_start b \<noteq> t \<and> b_slot_start b \<noteq> t - SLOT_DELTA \<and> b_slot_start b \<noteq> t + SLOT_DELTA)"
  by (auto simp: blocking_bookings_def filter_empty_conv occupies_slot_def)

lemma quota_ok_no_user_slot:
  "quota_ok s u r t now \<Longrightarrow> b \<in> set (bookings s) \<Longrightarrow> b_user b = u \<Longrightarrow> occupies_slot b \<Longrightarrow> b_slot_start b \<noteq> t"
  by (auto simp: quota_ok_def blocking_bookings_Nil)

text \<open>Adding one row to the table adds at most its own charge.\<close>

lemma quota_used_append:
  "quota_used (s\<lparr>bookings := bookings s @ [b]\<rparr>) u d = quota_used s u d +
     (if b_user b = u \<and> b_slot_date b = d \<and> charges_quota b then 1 else 0)"
  by (simp add: quota_used_def charges_quota_def)

lemma upcoming_hours_append:
  "upcoming_hours (s\<lparr>bookings := bookings s @ [b]\<rparr>) u now = upcoming_hours s u now +
     (if b_user b = u \<and> b_status b \<in> set UPCOMING_STATUSES \<and> b_slot_end b > now then 1 else 0)"
  by (simp add: upcoming_hours_def)

lemma quota_cong:
  assumes "bookings s' = bookings s" "policies s' = policies s" "conf s' = conf s"
  shows "quota_used s' u d = quota_used s u d" "upcoming_hours s' u now = upcoming_hours s u now"
    "blocking_bookings s' u t = blocking_bookings s u t" "no_show_reclaim s' u r t = no_show_reclaim s u r t"
    "quota_ok s' u r t now = quota_ok s u r t now"
  using current_policy_cong [OF assms(2,3)] assms
  by (simp_all add: quota_used_def upcoming_hours_def blocking_bookings_def no_show_reclaim_def quota_ok_def)

section \<open>Properties\<close>

text \<open>The reasons are reported in a fixed order of precedence: a blocking booking of the same
  student in the same or a neighbouring hour, then the daily quota (no-shows charge it,
  cancellations and rejections do not), then the cap on unfinished hours, then the reclaim of an
  hour the student forfeited. The check passes exactly when none of the four applies.\<close>

theorem assert_quota_and_adjacency_spec:
  "assert_quota_and_adjacency s u t (Some r) None (Some now) =
    (if \<exists>b \<in> set (bookings s). b_user b = u \<and> occupies_slot b \<and> \<bar>b_slot_start b - t\<bar> \<in> {0, us_hour}
       then Inl (rejected Code_ADJACENCY_CONFLICT [])
     else if daily_quota (current_policy s) \<le> int (length (filter (\<lambda>b. b_user b = u
         \<and> b_slot_date b = local_date t \<and> b_status b \<notin> {CANCELLED, REJECTED}) (bookings s)))
       then Inl (rejected Code_QUOTA_EXCEEDED [])
     else if max_upcoming_hours (conf s) (current_policy s) \<le> int (length (filter (\<lambda>b. b_user b = u
         \<and> b_status b \<in> {PENDING_APPROVAL, SCHEDULED, IN_USE} \<and> now < b_slot_end b) (bookings s)))
       then Inl (rejected Code_UPCOMING_LIMIT [(''limit'', PInt (max_upcoming_hours (conf s) (current_policy s)))])
     else if \<exists>b \<in> set (bookings s). b_user b = u \<and> b_room b = r \<and> b_slot_start b = t \<and> b_status b = NO_SHOW
       then Inl (rejected Code_NO_SHOW_RECLAIM [])
     else Inr ())"
proof -
  have adj: "blocking_bookings s u t \<noteq> [] \<longleftrightarrow>
      (\<exists>b \<in> set (bookings s). b_user b = u \<and> occupies_slot b \<and> \<bar>b_slot_start b - t\<bar> \<in> {0, us_hour})"
  proof -
    have "\<bar>x - t\<bar> \<in> {0, us_hour} \<longleftrightarrow> x = t \<or> x = t - us_hour \<or> x = t + us_hour" for x
      using less_imp_not_less [OF us_pos(3)] by (auto simp: abs_if split: if_splits)
    then show ?thesis unfolding blocking_bookings_Nil SLOT_DELTA_us_hour by blast
  qed
  have quota: "quota_used s u (local_date t) = int (length (filter (\<lambda>b. b_user b = u
         \<and> b_slot_date b = local_date t \<and> b_status b \<notin> {CANCELLED, REJECTED}) (bookings s)))"
  proof -
    have "x \<in> set QUOTA_STATUSES \<longleftrightarrow> x \<notin> {CANCELLED, REJECTED}" for x by (cases x) auto
    then show ?thesis by (simp add: quota_used_def)
  qed
  have upcoming: "upcoming_hours s u now = int (length (filter (\<lambda>b. b_user b = u
         \<and> b_status b \<in> {PENDING_APPROVAL, SCHEDULED, IN_USE} \<and> now < b_slot_end b) (bookings s)))"
    by (simp add: upcoming_hours_def UPCOMING_STATUSES_def)
  have reclaim: "no_show_reclaim s u r t \<longleftrightarrow>
      (\<exists>b \<in> set (bookings s). b_user b = u \<and> b_room b = r \<and> b_slot_start b = t \<and> b_status b = NO_SHOW)"
    by (simp add: no_show_reclaim_def list_ex_iff)
  show ?thesis
    unfolding assert_quota_and_adjacency_def Let_def option.case adj quota upcoming reclaim ..
qed

end
