(* ===== verification/Lifecycle.thy ===== *)
theory Lifecycle
  imports Quota
begin

text \<open>
  What every operation owes the booking table. \<open>lifecycle\<close> is the state machine of
  \<open>Booking.Status\<close> as a step relation; \<open>row_evolves\<close> says that a row kept its identity
  (owner, hour, source, deadline, staff flag) and moved only along it; \<open>evolves\<close> says that of a
  whole table, which never loses a row. \<open>well_formed\<close> adds the table constraints, the adjacency rule
  for student bookings and the uniqueness of the outbox keys. The locale \<open>booking_body\<close> is the
  contract of a mutation body; every operation is shown to meet it where it is defined.
\<close>

section \<open>Contexts\<close>

text \<open>The part of \<open>OperationContext\<close> the bodies read.\<close>

record ctx =
  ctx_now :: time
  ctx_actor :: actor
  ctx_payload :: dict

definition ctx_audit :: "string \<Rightarrow> string \<Rightarrow> string \<Rightarrow> actor \<Rightarrow> dict \<Rightarrow> string \<Rightarrow> st \<Rightarrow> st" where
  "ctx_audit action entity_type entity_id actor changes reason =
     record_audit action entity_type entity_id actor '''' changes reason"

section \<open>The booking state machine\<close>

inductive lifecycle :: "status \<Rightarrow> status \<Rightarrow> bool" where
  approve: "lifecycle PENDING_APPROVAL SCHEDULED"
| reject_request: "lifecycle PENDING_APPROVAL REJECTED"
| withdraw: "lifecycle PENDING_APPROVAL CANCELLED"
| hold_again: "lifecycle SCHEDULED PENDING_APPROVAL"
| cancel: "lifecycle SCHEDULED CANCELLED"
| start: "lifecycle SCHEDULED IN_USE"
| forfeit: "lifecycle SCHEDULED NO_SHOW"
| complete_hold: "lifecycle SCHEDULED COMPLETED"
| complete: "lifecycle IN_USE COMPLETED"

code_pred lifecycle .

inductive_cases lifecycle_terminalE:
  "lifecycle COMPLETED x" "lifecycle NO_SHOW x" "lifecycle CANCELLED x" "lifecycle REJECTED x"

inductive_simps lifecycle_from:
  "lifecycle PENDING_APPROVAL x" "lifecycle SCHEDULED x" "lifecycle IN_USE x"
  "lifecycle COMPLETED x" "lifecycle NO_SHOW x" "lifecycle CANCELLED x" "lifecycle REJECTED x"

definition terminal_status :: "status \<Rightarrow> bool" where
  "terminal_status x \<longleftrightarrow> x \<in> {COMPLETED, NO_SHOW, CANCELLED, REJECTED}"

definition blocking :: "status \<Rightarrow> bool" where
  "blocking x \<longleftrightarrow> x \<in> set BLOCKING_STATUSES"

text \<open>Nothing leaves a terminal status, and nothing comes back to occupy an hour.\<close>

lemma lifecycle_terminal: "lifecycle\<^sup>*\<^sup>* x y \<Longrightarrow> terminal_status x \<Longrightarrow> y = x"
  by (induction rule: rtranclp_induct) (auto simp: terminal_status_def lifecycle_from)

lemma lifecycle_not_terminal: "lifecycle x y \<Longrightarrow> \<not> terminal_status x"
  by (cases rule: lifecycle.cases) (auto simp: terminal_status_def)

lemma lifecycle_blocking: "lifecycle\<^sup>*\<^sup>* x y \<Longrightarrow> blocking y \<Longrightarrow> blocking x"
proof (induction rule: rtranclp_induct)
  case base
  then show ?case .
next
  case (step y z)
  from step.hyps(2) have "blocking y" by cases (auto simp: blocking_def)
  with step.IH show ?case by simp
qed

section \<open>Rows and tables that evolve\<close>

definition same_identity :: "booking \<Rightarrow> booking \<Rightarrow> bool" where
  "same_identity b b' \<longleftrightarrow> b_pk b' = b_pk b \<and> b_user b' = b_user b
     \<and> b_slot_start b' = b_slot_start b \<and> b_slot_end b' = b_slot_end b \<and> b_slot_date b' = b_slot_date b
     \<and> b_deadline b' = b_deadline b \<and> b_source b' = b_source b \<and> b_recurrence b' = b_recurrence b
     \<and> b_is_staff_booking b' = b_is_staff_booking b \<and> b_created_at b' = b_created_at b
     \<and> b_policy_version b' = b_policy_version b \<and> b_original_no_show b' = b_original_no_show b"

definition row_evolves :: "booking \<Rightarrow> booking \<Rightarrow> bool" where
  "row_evolves b b' \<longleftrightarrow> same_identity b b' \<and> lifecycle\<^sup>*\<^sup>* (b_status b) (b_status b')
     \<and> (b_status b \<notin> {PENDING_APPROVAL, SCHEDULED} \<longrightarrow> b_room b' = b_room b)"

lemma row_evolves_refl [simp]: "row_evolves b b"
  by (simp add: row_evolves_def same_identity_def)

lemma lifecycle_IN_USE: "lifecycle\<^sup>*\<^sup>* x y \<Longrightarrow> x \<notin> {PENDING_APPROVAL, SCHEDULED} \<Longrightarrow> y \<notin> {PENDING_APPROVAL, SCHEDULED}"
proof (induction rule: rtranclp_induct)
  case base
  then show ?case .
next
  case (step y z)
  from step.hyps(2) step.IH [OF step.prems] show ?case by cases auto
qed

lemma row_evolves_trans: "row_evolves a b \<Longrightarrow> row_evolves b c \<Longrightarrow> row_evolves a c"
  unfolding row_evolves_def same_identity_def
  by (metis lifecycle_IN_USE rtranclp_trans)

lemma row_evolves_step:
  assumes "same_identity b b'" "b_status b' = b_status b \<or> lifecycle (b_status b) (b_status b')"
    and "b_room b' = b_room b \<or> b_status b \<in> {PENDING_APPROVAL, SCHEDULED}"
  shows "row_evolves b b'"
  using assms by (auto simp: row_evolves_def)

lemma row_evolves_occupies: "row_evolves b b' \<Longrightarrow> occupies_slot b' \<Longrightarrow> occupies_slot b"
  unfolding row_evolves_def occupies_slot_def using lifecycle_blocking [unfolded blocking_def] by blast

definition evolves :: "st \<Rightarrow> st \<Rightarrow> bool" where
  "evolves s s' \<longleftrightarrow> (\<forall>b \<in> set (bookings s). \<exists>b' \<in> set (bookings s'). row_evolves b b')"

lemma evolves_refl [simp]: "evolves s s"
  unfolding evolves_def using row_evolves_refl by blast

lemma evolves_same: "bookings s' = bookings s \<Longrightarrow> evolves s s'"
  unfolding evolves_def using row_evolves_refl by metis

lemma evolves_trans: "evolves a b \<Longrightarrow> evolves b c \<Longrightarrow> evolves a c"
  unfolding evolves_def by (meson row_evolves_trans)

lemma evolves_bookings_cong:
  "bookings s' = bookings t' \<Longrightarrow> evolves s s' = evolves s t'"
  "bookings s' = bookings t' \<Longrightarrow> evolves s' u = evolves t' u"
  by (simp_all add: evolves_def)

section \<open>Well-formed databases\<close>

text \<open>Two live student bookings of one person are never in neighbouring hours.\<close>

definition adjacent_pair :: "booking \<Rightarrow> booking \<Rightarrow> bool" where
  "adjacent_pair a b \<longleftrightarrow> occupies_slot a \<and> occupies_slot b \<and> b_user a = b_user b
     \<and> \<not> b_is_staff_booking a \<and> \<not> b_is_staff_booking b
     \<and> b_slot_start b = b_slot_start a + us_hour"

definition no_adjacent :: "st \<Rightarrow> bool" where
  "no_adjacent s \<longleftrightarrow> (\<forall>a \<in> set (bookings s). \<forall>b \<in> set (bookings s). \<not> adjacent_pair a b)"

text \<open>A request that waits for approval is an advance reservation.\<close>

definition requests_advance :: "st \<Rightarrow> bool" where
  "requests_advance s \<longleftrightarrow> (\<forall>b \<in> set (bookings s). b_status b = PENDING_APPROVAL \<longrightarrow> b_source b = ADVANCE)"

definition well_formed :: "st \<Rightarrow> bool" where
  "well_formed s \<longleftrightarrow> bookings_ok s \<and> no_adjacent s \<and> requests_advance s \<and> keys_unique s"

lemma well_formedD:
  assumes "well_formed s"
  shows "bookings_ok s" "no_adjacent s" "keys_unique s" "requests_advance s"
  using assms by (simp_all add: well_formed_def)

text \<open>A live row passes the row checks and is an advance reservation.\<close>

lemma well_formed_live:
  assumes "well_formed s" "b \<in> set (bookings s)"
  shows "booking_check_error b = None"
    and "b_status b \<in> {PENDING_APPROVAL, SCHEDULED} \<Longrightarrow> b_source b = ADVANCE"
proof -
  show chk: "booking_check_error b = None"
    using well_formedD(1) [OF assms(1)] assms(2) by (auto simp: bookings_ok_def)
  show "b_source b = ADVANCE" if "b_status b \<in> {PENDING_APPROVAL, SCHEDULED}"
    using that booking_check_facts(3) [OF chk] well_formedD(4) [OF assms(1)] assms(2)
    by (auto simp: requests_advance_def)
qed

lemma well_formed_cong:
  "bookings s' = bookings s \<Longrightarrow> notifications s' = notifications s \<Longrightarrow> well_formed s' = well_formed s"
  by (simp add: well_formed_def bookings_ok_def no_adjacent_def requests_advance_def keys_unique_def)

lemma well_formed_record_audit [simp]: "well_formed (record_audit a t i ac l ch r s) = well_formed s"
  by (rule well_formed_cong) simp_all

lemma well_formed_ctx_audit [simp]: "well_formed (ctx_audit a t i ac ch r s) = well_formed s"
  by (simp add: ctx_audit_def)

lemma well_formed_enqueue [simp, intro]: "well_formed s \<Longrightarrow> well_formed (enqueue k r d p s)"
  by (simp add: well_formed_def bookings_ok_def no_adjacent_def requests_advance_def enqueue_keys_unique)

lemma well_formed_ensure_policy [simp]: "well_formed (ensure_policy s) = well_formed s"
  by (rule well_formed_cong) simp_all

lemma evolves_frame [simp]:
  "evolves s (record_audit a t i ac l ch r s') = evolves s s'"
  "evolves s (ctx_audit a t i ac ch r s') = evolves s s'"
  "evolves s (enqueue k rc d p s') = evolves s s'"
  "evolves s (ensure_policy s') = evolves s s'"
  "evolves (ensure_policy s) s' = evolves s s'"
  by (simp_all add: evolves_def ctx_audit_def)

lemma ctx_audit_frame [simp, frame]:
  "conf (ctx_audit a t i ac ch r s) = conf s" "clock_now (ctx_audit a t i ac ch r s) = clock_now s"
  "wall_now (ctx_audit a t i ac ch r s) = wall_now s" "users (ctx_audit a t i ac ch r s) = users s"
  "roster (ctx_audit a t i ac ch r s) = roster s" "rooms (ctx_audit a t i ac ch r s) = rooms s"
  "room_categories (ctx_audit a t i ac ch r s) = room_categories s"
  "room_members (ctx_audit a t i ac ch r s) = room_members s"
  "weekly_blocks (ctx_audit a t i ac ch r s) = weekly_blocks s"
  "closures (ctx_audit a t i ac ch r s) = closures s"
  "overrides (ctx_audit a t i ac ch r s) = overrides s"
  "policies (ctx_audit a t i ac ch r s) = policies s"
  "incidents (ctx_audit a t i ac ch r s) = incidents s"
  "bookings (ctx_audit a t i ac ch r s) = bookings s"
  "recurrings (ctx_audit a t i ac ch r s) = recurrings s"
  "violations (ctx_audit a t i ac ch r s) = violations s"
  "suspensions (ctx_audit a t i ac ch r s) = suspensions s"
  "notifications (ctx_audit a t i ac ch r s) = notifications s"
  "op_requests (ctx_audit a t i ac ch r s) = op_requests s"
  "heartbeats (ctx_audit a t i ac ch r s) = heartbeats s"
  "invitations (ctx_audit a t i ac ch r s) = invitations s" "room_admins (ctx_audit a t i ac ch r s) = room_admins s"
  by (simp_all add: ctx_audit_def)

text \<open>Writing audit events and outbox rows, and nothing else.\<close>

definition logs :: "st \<Rightarrow> st \<Rightarrow> bool" where
  "logs s s' \<longleftrightarrow> conf s' = conf s \<and> clock_now s' = clock_now s \<and> wall_now s' = wall_now s \<and> users
     s' = users s \<and> roster s' = roster s \<and> rooms s' = rooms s \<and> room_categories s' =
     room_categories s \<and> room_members s' = room_members s \<and> weekly_blocks s' =
     weekly_blocks s \<and> closures s' = closures s \<and> overrides s' = overrides s \<and>
     policies s' = policies s \<and> incidents s' = incidents s \<and> bookings s' = bookings s
     \<and> recurrings s' = recurrings s \<and> violations s' = violations s \<and> suspensions s' =
     suspensions s \<and> op_requests s' = op_requests s \<and> heartbeats s' = heartbeats s
     \<and> invitations s' = invitations s \<and> room_admins s' = room_admins s
     \<and> (keys_unique s \<longrightarrow> keys_unique s')"

lemma logs_frame:
  assumes "logs s s'"
  shows "conf s' = conf s" "clock_now s' = clock_now s" "wall_now s' = wall_now s" "users s' = users s"
    "roster s' = roster s" "rooms s' = rooms s" "room_categories s' = room_categories s"
    "room_members s' = room_members s" "weekly_blocks s' = weekly_blocks s" "closures s' = closures
    s" "overrides s' = overrides s" "policies s' = policies s" "incidents s' = incidents s"
    "bookings s' = bookings s" "recurrings s' = recurrings s" "violations s' = violations s"
    "suspensions s' = suspensions s" "op_requests s' = op_requests s" "heartbeats s' = heartbeats
    s" "invitations s' = invitations s" "room_admins s' = room_admins s"
  using assms by (simp_all add: logs_def)

lemma logs_refl [simp]: "logs s s"
  by (simp add: logs_def)

lemma logs_trans: "logs a b \<Longrightarrow> logs b c \<Longrightarrow> logs a c"
  by (simp add: logs_def)

lemma logs_record_audit [simp, intro]: "logs s s' \<Longrightarrow> logs s (record_audit a t i ac l ch r s')"
  by (simp add: logs_def keys_unique_def)

lemma logs_ctx_audit [simp, intro]: "logs s s' \<Longrightarrow> logs s (ctx_audit a t i ac ch r s')"
  by (simp add: ctx_audit_def)

lemma logs_enqueue [simp, intro]: "logs s s' \<Longrightarrow> logs s (enqueue k rc d p s')"
  by (simp add: logs_def enqueue_keys_unique)

lemma logs_ensure_policy [simp, intro]:
  assumes "logs s s'"
  shows "logs (ensure_policy s) (ensure_policy s')"
proof -
  have "policies (ensure_policy s') = policies (ensure_policy s)"
    using logs_frame [OF assms] by (simp add: policies_ensure initial_policy_def)
  then show ?thesis using assms by (simp add: logs_def keys_unique_def)
qed

lemma logs_well_formed: "logs s s' \<Longrightarrow> well_formed s \<Longrightarrow> well_formed s'"
  by (simp add: logs_def well_formed_def bookings_ok_def no_adjacent_def requests_advance_def)

lemma logs_evolves: "logs s s' \<Longrightarrow> evolves t s' = evolves t s"
  by (simp add: evolves_def logs_frame)

section \<open>The two ways a table changes\<close>

lemma update_booking_evolves:
  assumes "well_formed s" "update_booking pk f s = Inr s'"
    and "\<And>b. get_row b_pk pk (bookings s) = Some b \<Longrightarrow> row_evolves b (f b)"
    and "\<And>b. b_pk (f b) = b_pk b"
  shows "well_formed s'" "evolves s s'"
proof -
  note ok = well_formedD [OF assms(1)]
  from update_booking_Inr(2) [OF assms(2)] obtain b where b: "get_row b_pk pk (bookings s) = Some b" by auto
  then have bm: "b \<in> set (bookings s)" "b_pk b = pk" by (auto dest: get_row_Some)
  note ev = assms(3) [OF b]
  have mem: "x \<in> set (bookings s') \<longleftrightarrow> x = f b \<or> (x \<in> set (bookings s) \<and> b_pk x \<noteq> pk)" for x
    using bm bookings_ok_unique [OF ok(1)] unfolding update_booking_frame(21) [OF assms(2)]
    by (auto simp: set_update_row)
  show "evolves s s'"
    unfolding evolves_def
  proof
    fix x assume x: "x \<in> set (bookings s)"
    show "\<exists>x'\<in>set (bookings s'). row_evolves x x'"
    proof (cases "b_pk x = pk")
      case True
      with x bm bookings_ok_unique [OF ok(1)] have "x = b" by auto
      with ev mem show ?thesis by blast
    next
      case False
      with x mem show ?thesis using row_evolves_refl by blast
    qed
  qed
  have origin: "\<exists>y \<in> set (bookings s). row_evolves y x" if "x \<in> set (bookings s')" for x
  proof (cases "x = f b")
    case True
    with ev bm show ?thesis by auto
  next
    case False
    with that mem have "x \<in> set (bookings s)" by simp
    then show ?thesis using row_evolves_refl by blast
  qed
  have "\<not> adjacent_pair x y" if xy: "x \<in> set (bookings s')" "y \<in> set (bookings s')" for x y
  proof
    assume adj: "adjacent_pair x y"
    from origin [OF xy(1)] obtain x0 where x0: "x0 \<in> set (bookings s)" "row_evolves x0 x" by blast
    from origin [OF xy(2)] obtain y0 where y0: "y0 \<in> set (bookings s)" "row_evolves y0 y" by blast
    from adj row_evolves_occupies [OF x0(2)] row_evolves_occupies [OF y0(2)] have "adjacent_pair x0 y0"
      using x0(2) y0(2) by (auto simp: adjacent_pair_def row_evolves_def same_identity_def)
    with ok(2) x0(1) y0(1) show False by (auto simp: no_adjacent_def)
  qed
  then have "no_adjacent s'" by (simp add: no_adjacent_def)
  moreover have "b_source x = ADVANCE" if x: "x \<in> set (bookings s')" "b_status x = PENDING_APPROVAL" for x
  proof -
    from origin [OF x(1)] obtain y where y: "y \<in> set (bookings s)" "row_evolves y x" by blast
    then have "b_status y \<in> {PENDING_APPROVAL, SCHEDULED}"
      using x(2) lifecycle_IN_USE [of "b_status y" "b_status x"] by (auto simp: row_evolves_def)
    with well_formed_live(2) [OF assms(1) y(1)] y(2) show ?thesis
      by (simp add: row_evolves_def same_identity_def)
  qed
  then have "requests_advance s'" by (simp add: requests_advance_def)
  moreover have "keys_unique s'"
    using ok(3) update_booking_frame(18) [OF assms(2)] by (simp add: keys_unique_def)
  ultimately show "well_formed s'"
    using update_booking_ok [OF ok(1) assms(2,4)] by (simp add: well_formed_def)
qed

lemma create_booking_evolves:
  assumes "well_formed s" "create_booking mk s = Inr (b, s')"
    and "occupies_slot b \<Longrightarrow> \<not> b_is_staff_booking b \<Longrightarrow> blocking_bookings s (b_user b) (b_slot_start b) = []"
    and "b_status b = PENDING_APPROVAL \<Longrightarrow> b_source b = ADVANCE"
  shows "well_formed s'" "evolves s s'"
proof -
  note ok = well_formedD [OF assms(1)]
  note c = create_booking_Inr [OF assms(2)]
  have sub: "set (bookings s) \<subseteq> set (bookings s')" by (auto simp: c(3))
  then show "evolves s s'" unfolding evolves_def using row_evolves_refl by blast
  have "\<not> adjacent_pair x y" if "x \<in> set (bookings s')" "y \<in> set (bookings s')" for x y
  proof
    assume adj: "adjacent_pair x y"
    have free: "x = b \<Longrightarrow> y \<in> set (bookings s) \<Longrightarrow> False" "y = b \<Longrightarrow> x \<in> set (bookings s) \<Longrightarrow> False"
      using adj assms(3) SLOT_DELTA_us_hour
      by (auto simp: adjacent_pair_def blocking_bookings_Nil)
    from adj have "x = b \<Longrightarrow> y = b \<Longrightarrow> False" using us_pos(3) by (auto simp: adjacent_pair_def)
    with that free adj ok(2) show False by (auto simp: c(3) no_adjacent_def)
  qed
  then have "no_adjacent s'" by (simp add: no_adjacent_def)
  moreover have "requests_advance s'" using ok(4) assms(4) by (auto simp: c(3) requests_advance_def)
  moreover have "keys_unique s'" using ok(3) by (simp add: c(3) keys_unique_def)
  ultimately show "well_formed s'"
    using create_booking_ok [OF ok(1) assms(2)] by (simp add: well_formed_def)
qed

section \<open>The contract of a mutation body\<close>

text \<open>A body that returns leaves a well-formed table that evolved from the one it got.\<close>

locale booking_body =
  fixes body :: "ctx \<Rightarrow> st \<Rightarrow> exn + ('r \<times> st)"
  assumes keeps_well_formed: "well_formed s \<Longrightarrow> body cx s = Inr (r, s') \<Longrightarrow> well_formed s'"
    and table_evolves: "well_formed s \<Longrightarrow> body cx s = Inr (r, s') \<Longrightarrow> evolves s s'"
begin

text \<open>What is over stays over, in the same room.\<close>

lemma terminal_kept:
  assumes "well_formed s" "body cx s = Inr (r, s')" "b \<in> set (bookings s)" "terminal_status (b_status b)"
  shows "\<exists>b' \<in> set (bookings s'). b_pk b' = b_pk b \<and> b_status b' = b_status b \<and> b_room b' = b_room b"
proof -
  from table_evolves [OF assms(1,2)] assms(3) obtain b' where
    b': "b' \<in> set (bookings s')" "row_evolves b b'" by (auto simp: evolves_def)
  then have "b_status b' = b_status b" using assms(4) lifecycle_terminal by (auto simp: row_evolves_def)
  with b' assms(4) show ?thesis by (auto simp: row_evolves_def same_identity_def terminal_status_def)
qed

lemma two_steps:
  assumes "well_formed s" "body cx s = Inr (r, s')" "body cx' s' = Inr (r', s'')"
  shows "well_formed s''" "evolves s s''"
proof -
  note 1 = keeps_well_formed [OF assms(1,2)]
  from keeps_well_formed [OF 1 assms(3)] show "well_formed s''" .
  from evolves_trans [OF table_evolves [OF assms(1,2)] table_evolves [OF 1 assms(3)]] show "evolves s s''" .
qed

end

lemma booking_bodyI:
  assumes "\<And>s cx r s'. well_formed s \<Longrightarrow> body cx s = Inr (r, s') \<Longrightarrow> well_formed s' \<and> evolves s s'"
  shows "booking_body body"
  using assms by unfold_locales blast+

text \<open>The shape of most bodies: write one row, then log.\<close>

lemma update_logs_evolves:
  assumes "well_formed s" "update_booking pk f s = Inr s1" "logs s1 s'"
    and "\<And>b. get_row b_pk pk (bookings s) = Some b \<Longrightarrow> row_evolves b (f b)"
    and "\<And>b. b_pk (f b) = b_pk b"
  shows "well_formed s' \<and> evolves s s'"
  using update_booking_evolves [OF assms(1,2,4,5)] logs_well_formed [OF assms(3)] logs_evolves [OF assms(3)]
  by simp

section \<open>A sample table\<close>

text \<open>Alice holds room A at 10:00; a state on which the witnesses of the operations evaluate.\<close>

definition one_booking_st :: "time \<Rightarrow> status \<Rightarrow> st" where
  "one_booking_st t x = (sample_st t)\<lparr>bookings := [sample_booking 1 1 1 10 x]\<rparr>"

lemma one_booking_well_formed:
  assumes "x \<in> {PENDING_APPROVAL, SCHEDULED, NO_SHOW}"
  shows "well_formed (one_booking_st t x)"
  using assms
  by (auto simp: one_booking_st_def well_formed_def bookings_ok_def no_adjacent_def keys_unique_def requests_advance_def
      adjacent_pair_def sample_defs booking_check_error_def slot_start_for_def us_defs)

end
