(* ===== verification/Strikes.thy ===== *)
theory Strikes
  imports Lifecycle
begin

text \<open>
  The tables of \<open>models/sanctions.py\<close>: writes of violations and suspensions under their CHECK and
  UNIQUE constraints, the query for the strikes that count, and what the constraints maintain.
\<close>

section \<open>Violations\<close>

definition violation_check_error :: "violation \<Rightarrow> string option" where
  "violation_check_error v =
    (if \<not> v_expires_at v > v_occurred_at v then Some ''violation_expiry_after_occurrence''
     else if \<not> (v_voided_at v \<noteq> None \<or> v_void_reason v = '''') then Some ''violation_void_reason_requires_void''
     else if \<not> (v_kind v \<noteq> NO_SHOW_KIND \<or> v_booking v \<noteq> None) then Some ''violation_no_show_requires_booking''
     else None)"

definition same_no_show :: "violation \<Rightarrow> violation \<Rightarrow> bool" where
  "same_no_show a b = (v_kind a = NO_SHOW_KIND \<and> v_kind b = NO_SHOW_KIND
     \<and> v_booking a \<noteq> None \<and> v_booking a = v_booking b)"

definition violation_error :: "violation list \<Rightarrow> violation \<Rightarrow> string option" where
  "violation_error others v = (case violation_check_error v of Some n \<Rightarrow> Some n | None \<Rightarrow>
     (if list_ex (same_no_show v) others then Some ''violation_no_show_unique_per_booking'' else None))"

definition create_violation :: "(nat \<Rightarrow> violation) \<Rightarrow> st \<Rightarrow> exn + (violation \<times> st)" where
  "create_violation mk s =
     (let v = (mk (fresh_pk (map v_pk (violations s))))\<lparr>v_pk := fresh_pk (map v_pk (violations s))\<rparr>
      in case violation_error (violations s) v of
           Some n \<Rightarrow> Inl (IntegrityError n)
         | None \<Rightarrow> Inr (v, s\<lparr>violations := violations s @ [v]\<rparr>))"

definition update_violation :: "nat \<Rightarrow> (violation \<Rightarrow> violation) \<Rightarrow> st \<Rightarrow> exn + st" where
  "update_violation pk f s = (case get_row v_pk pk (violations s) of
       None \<Rightarrow> Inl DatabaseError
     | Some v \<Rightarrow> (case violation_error (filter (\<lambda>x. v_pk x \<noteq> pk) (violations s)) (f v) of
          Some n \<Rightarrow> Inl (IntegrityError n)
        | None \<Rightarrow> Inr (s\<lparr>violations := update_row v_pk pk f (violations s)\<rparr>)))"

text \<open>\<open>ViolationQuerySet.eligible_strikes\<close>, in the order of \<open>Violation.Meta\<close>.\<close>

definition eligible_strikes :: "time \<Rightarrow> st \<Rightarrow> violation list" where
  "eligible_strikes now s = order_by_desc v_occurred_at (filter (is_eligible_strike now) (violations s))"

section \<open>Suspensions\<close>

definition suspension_check_error :: "suspension \<Rightarrow> string option" where
  "suspension_check_error sp =
    (if (case sp_ends_at sp of None \<Rightarrow> False | Some e \<Rightarrow> \<not> e > sp_starts_at sp)
       then Some ''suspension_end_after_start''
     else if \<not> (sp_source sp \<noteq> AUTO \<or> sp_ends_at sp \<noteq> None) then Some ''suspension_auto_requires_end''
     else None)"

definition create_suspension :: "(nat \<Rightarrow> suspension) \<Rightarrow> st \<Rightarrow> exn + (suspension \<times> st)" where
  "create_suspension mk s =
     (let sp = (mk (fresh_pk (map sp_pk (suspensions s))))\<lparr>sp_pk := fresh_pk (map sp_pk (suspensions s))\<rparr>
      in case suspension_check_error sp of
           Some n \<Rightarrow> Inl (IntegrityError n)
         | None \<Rightarrow> Inr (sp, s\<lparr>suspensions := suspensions s @ [sp]\<rparr>))"

definition update_suspension :: "nat \<Rightarrow> (suspension \<Rightarrow> suspension) \<Rightarrow> st \<Rightarrow> exn + st" where
  "update_suspension pk f s = (case get_row sp_pk pk (suspensions s) of
       None \<Rightarrow> Inl DatabaseError
     | Some sp \<Rightarrow> (case suspension_check_error (f sp) of
          Some n \<Rightarrow> Inl (IntegrityError n)
        | None \<Rightarrow> Inr (s\<lparr>suspensions := update_row sp_pk pk f (suspensions s)\<rparr>)))"

section \<open>What the constraints maintain\<close>

definition sanctions_ok :: "st \<Rightarrow> bool" where
  "sanctions_ok s \<longleftrightarrow> distinct (map v_pk (violations s)) \<and> distinct (map sp_pk (suspensions s))
     \<and> (\<forall>v \<in> set (violations s). violation_check_error v = None)
     \<and> (\<forall>sp \<in> set (suspensions s). suspension_check_error sp = None)
     \<and> (\<forall>v \<in> set (violations s). \<forall>w \<in> set (violations s). v_pk v \<noteq> v_pk w \<longrightarrow> \<not> same_no_show v w)"

lemma sanctions_ok_cong:
  "violations s' = violations s \<Longrightarrow> suspensions s' = suspensions s \<Longrightarrow> sanctions_ok s' = sanctions_ok s"
  by (simp add: sanctions_ok_def)

lemma sanctions_okD:
  assumes "sanctions_ok s"
  shows "distinct (map v_pk (violations s))" "distinct (map sp_pk (suspensions s))"
    "v \<in> set (violations s) \<Longrightarrow> violation_check_error v = None"
    "sp \<in> set (suspensions s) \<Longrightarrow> suspension_check_error sp = None"
    "v \<in> set (violations s) \<Longrightarrow> w \<in> set (violations s) \<Longrightarrow> same_no_show v w \<Longrightarrow> v_pk v = v_pk w"
  using assms by (auto simp: sanctions_ok_def)

lemma same_no_show_sym: "same_no_show a b = same_no_show b a"
  unfolding same_no_show_def by metis

lemma violation_error_None:
  "violation_error others v = None \<longleftrightarrow> violation_check_error v = None \<and> (\<forall>w \<in> set others. \<not> same_no_show v w)"
  by (auto simp: violation_error_def list_ex_iff split: option.splits)

lemma create_violation_Inr:
  assumes "create_violation mk s = Inr (v, s')"
  shows "v_pk v = fresh_pk (map v_pk (violations s))" "v = (mk (v_pk v))\<lparr>v_pk := v_pk v\<rparr>"
    "s' = s\<lparr>violations := violations s @ [v]\<rparr>" "violation_error (violations s) v = None"
  using assms by (auto simp: create_violation_def Let_def split: option.splits)

lemma create_violation_ok:
  assumes "sanctions_ok s" "create_violation mk s = Inr (v, s')"
  shows "sanctions_ok s'"
proof -
  note c = create_violation_Inr [OF assms(2)]
  have "v_pk v \<notin> set (map v_pk (violations s))" unfolding c(1) by (rule fresh_pk_notin)
  with assms(1) c(3,4) show ?thesis
    unfolding sanctions_ok_def violation_error_None by (auto simp: same_no_show_sym)
qed

lemma update_violation_Inr:
  assumes "update_violation pk f s = Inr s'"
  shows "s' = s\<lparr>violations := update_row v_pk pk f (violations s)\<rparr>"
    "\<exists>v. get_row v_pk pk (violations s) = Some v
       \<and> violation_error (filter (\<lambda>x. v_pk x \<noteq> pk) (violations s)) (f v) = None"
  using assms by (auto simp: update_violation_def split: option.splits)

lemma update_violation_ok:
  assumes ok: "sanctions_ok s" and upd: "update_violation pk f s = Inr s'" and pk: "\<And>v. v_pk (f v) = v_pk v"
  shows "sanctions_ok s'"
proof -
  from update_violation_Inr [OF upd] obtain v where
    s': "s' = s\<lparr>violations := update_row v_pk pk f (violations s)\<rparr>"
    and v: "get_row v_pk pk (violations s) = Some v"
    and e: "violation_check_error (f v) = None"
      "\<And>x. x \<in> set (violations s) \<Longrightarrow> v_pk x \<noteq> pk \<Longrightarrow> \<not> same_no_show (f v) x"
    by (auto simp: violation_error_None)
  from v have vm: "v \<in> set (violations s)" "v_pk v = pk" by (auto dest: get_row_Some)
  have one: "x = v" if "x \<in> set (violations s)" "v_pk x = pk" for x
    using get_row_unique [OF sanctions_okD(1) [OF ok] that(1)] v that(2) by simp
  have mem: "x \<in> set (violations s') \<longleftrightarrow> x = f v \<or> (x \<in> set (violations s) \<and> v_pk x \<noteq> pk)" for x
    using vm unfolding s' by (auto simp: set_update_row dest: one)
  have "distinct (map v_pk (violations s'))"
    using ok unfolding s' by (simp add: sanctions_ok_def keys_update_row pk)
  moreover have "\<not> same_no_show x y"
    if "x \<in> set (violations s')" "y \<in> set (violations s')" "v_pk x \<noteq> v_pk y" for x y
    using that ok e(2) vm pk unfolding mem sanctions_ok_def by (metis same_no_show_sym)
  moreover have "\<forall>x \<in> set (violations s'). violation_check_error x = None"
    using sanctions_okD(3) [OF ok] e(1) by (auto simp: mem)
  ultimately show ?thesis
    using sanctions_okD(2,4) [OF ok] unfolding sanctions_ok_def by (simp add: s')
qed

lemma create_suspension_Inr:
  assumes "create_suspension mk s = Inr (sp, s')"
  shows "sp_pk sp = fresh_pk (map sp_pk (suspensions s))" "sp = (mk (sp_pk sp))\<lparr>sp_pk := sp_pk sp\<rparr>"
    "s' = s\<lparr>suspensions := suspensions s @ [sp]\<rparr>" "suspension_check_error sp = None"
  using assms by (auto simp: create_suspension_def Let_def split: option.splits)

lemma create_suspension_ok:
  assumes "sanctions_ok s" "create_suspension mk s = Inr (sp, s')"
  shows "sanctions_ok s'"
proof -
  note c = create_suspension_Inr [OF assms(2)]
  have "sp_pk sp \<notin> set (map sp_pk (suspensions s))" unfolding c(1) by (rule fresh_pk_notin)
  with assms(1) c(3,4) show ?thesis unfolding sanctions_ok_def by auto
qed

lemma update_suspension_Inr:
  assumes "update_suspension pk f s = Inr s'"
  shows "s' = s\<lparr>suspensions := update_row sp_pk pk f (suspensions s)\<rparr>"
    "\<exists>sp. get_row sp_pk pk (suspensions s) = Some sp \<and> suspension_check_error (f sp) = None"
  using assms by (auto simp: update_suspension_def split: option.splits)

lemma update_suspension_ok:
  assumes ok: "sanctions_ok s" and upd: "update_suspension pk f s = Inr s'" and pk: "\<And>sp. sp_pk (f sp) = sp_pk sp"
  shows "sanctions_ok s'"
proof -
  from update_suspension_Inr [OF upd] obtain sp where
    s': "s' = s\<lparr>suspensions := update_row sp_pk pk f (suspensions s)\<rparr>"
    and sp: "get_row sp_pk pk (suspensions s) = Some sp" and e: "suspension_check_error (f sp) = None" by auto
  have "x = sp" if "x \<in> set (suspensions s)" "sp_pk x = pk" for x
    using get_row_unique [OF sanctions_okD(2) [OF ok] that(1)] sp that(2) by simp
  with sanctions_okD(4) [OF ok] e have "\<forall>x \<in> set (suspensions s'). suspension_check_error x = None"
    by (auto simp: s' set_update_row)
  moreover have "distinct (map sp_pk (suspensions s'))"
    using sanctions_okD(2) [OF ok] by (simp add: s' keys_update_row pk)
  ultimately show ?thesis
    using sanctions_okD(1,3,5) [OF ok] unfolding sanctions_ok_def by (auto simp: s')
qed

text \<open>The tables a sanction never touches.\<close>

definition quiet :: "st \<Rightarrow> st \<Rightarrow> bool" where
  "quiet s s' \<longleftrightarrow> conf s' = conf s \<and> clock_now s' = clock_now s \<and> wall_now s' = wall_now s
     \<and> users s' = users s \<and> roster s' = roster s \<and> rooms s' = rooms s
     \<and> room_categories s' = room_categories s \<and> room_members s' = room_members s
     \<and> weekly_blocks s' = weekly_blocks s \<and> closures s' = closures s \<and> overrides s' = overrides s
     \<and> policies s' = policies s \<and> incidents s' = incidents s \<and> recurrings s' = recurrings s
     \<and> op_requests s' = op_requests s \<and> heartbeats s' = heartbeats s
     \<and> invitations s' = invitations s \<and> room_admins s' = room_admins s"

lemma quiet_refl [simp]: "quiet s s"
  by (simp add: quiet_def)

lemma quiet_trans: "quiet a b \<Longrightarrow> quiet b c \<Longrightarrow> quiet a c"
  by (simp add: quiet_def)

lemma quiet_logs: "logs s s' \<Longrightarrow> quiet s s'"
  by (simp add: quiet_def logs_def)

lemma quiet_update_booking: "update_booking pk f s = Inr s' \<Longrightarrow> quiet s s'"
  by (drule update_booking_Inr(1)) (simp add: quiet_def)

lemma quiet_record_audit [simp]: "quiet s (record_audit a t i ac l ch r s') = quiet s s'"
  by (simp add: quiet_def)

lemma quiet_ctx_audit [simp]: "quiet s (ctx_audit a t i ac ch r s') = quiet s s'"
  by (simp add: quiet_def)

lemma quiet_enqueue [simp]: "quiet s (enqueue k rc d p s') = quiet s s'"
  by (simp add: quiet_def)

lemma quiet_facts:
  assumes "quiet s s'"
  shows "conf s' = conf s" "policies s' = policies s" "incidents s' = incidents s" "users s' = users s"
    "rooms s' = rooms s" "op_requests s' = op_requests s" "clock_now s' = clock_now s" "wall_now s' = wall_now s"
    "current_policy s' = current_policy s"
  using assms current_policy_cong [of s' s] by (simp_all add: quiet_def)

end
