(* ===== verification/Cancel.thy ===== *)
theory Cancel
  imports Lifecycle
begin

text \<open>
  Cancellation (\<open>core/services/cancel.py\<close>). A body takes the context and the primary key of the
  booking its caller passes (the body reloads the row at once, so nothing else of the copy is
  read) and returns the result dictionary with the new state, or raises.
\<close>

section \<open>Definitions\<close>

definition LATE_CANCEL_WINDOW :: int where "LATE_CANCEL_WINDOW = 60 * us_minute"

definition cancel_payload :: "nat \<Rightarrow> string \<Rightarrow> dict" where
  "cancel_payload booking_pk reason =
     [(''action'', PStr ''cancel_booking''), (''booking_id'', PNat booking_pk), (''reason'', PStr reason)]"

definition set_cancelled :: "time \<Rightarrow> nat option \<Rightarrow> string \<Rightarrow> bool \<Rightarrow> booking \<Rightarrow> booking" where
  "set_cancelled at_time by_pk reason late b =
     b\<lparr>b_status := CANCELLED, b_cancelled_at := Some at_time, b_cancelled_by := by_pk,
       b_cancel_reason := reason, b_late_cancel := late\<rparr>"

definition cancel_booking :: "nat \<Rightarrow> string \<Rightarrow> bool \<Rightarrow> ctx \<Rightarrow> st \<Rightarrow> exn + (dict \<times> st)" where
  "cancel_booking booking_pk reason staff_action cx s =
    (let now = ctx_now cx; actor = ctx_actor cx in
     bindE (reload_booking booking_pk s) (\<lambda>booking.
       if \<not> staff_action \<and> Some (b_user booking) \<noteq> actor_pk actor then Inl (rejected Code_NOT_OWNER [])
       else if b_status booking = IN_USE
         then Inl (rejected Code_CANCEL_AFTER_START [(''booking_id'', PNat (b_pk booking))])
       else if b_status booking = CANCELLED
         then Inl (rejected Code_TERMINAL_STATUS [(''booking_id'', PNat (b_pk booking))])
       else if b_status booking \<noteq> SCHEDULED \<and> b_status booking \<noteq> PENDING_APPROVAL
         then Inl (rejected Code_TERMINAL_STATUS [(''booking_id'', PNat (b_pk booking))])
       else if \<not> staff_action \<and> now \<ge> b_slot_start booking
         then Inl (rejected Code_CANCEL_AFTER_START [(''booking_id'', PNat (b_pk booking))])
       else
         let late = now > b_slot_start booking - LATE_CANCEL_WINDOW;
             late_cancel = (late \<and> \<not> staff_action) in
         bindE (update_booking (b_pk booking) (set_cancelled now (actor_pk actor) reason late_cancel) s) (\<lambda>s.
           let s = ctx_audit ''booking.cancelled'' ''Booking'' (show_nat (b_pk booking)) actor
                 [(''status'', PStr (status_value CANCELLED)), (''late_cancel'', PBool late_cancel),
                  (''staff_action'', PBool staff_action)] reason s;
               room = room_of s (b_room booking);
               s = enqueue ''booking_cancelled'' (Some (user_of s (b_user booking)))
                 (''booking_cancelled:'' @ show_nat (b_pk booking))
                 [(''booking_id'', PNat (b_pk booking)), (''room_number'', PStr (r_number room)),
                  (''room_label'', PStr (room_str room)),
                  (''slot_start'', PStr (isoformat (b_slot_start booking))),
                  (''slot_end'', PStr (isoformat (b_slot_end booking))),
                  (''slot_start_local'', PStr (format_local (b_slot_start booking))),
                  (''reason'', PStr reason), (''late_cancel'', PBool late_cancel)] s
           in Inr ([(''booking_id'', PNat (b_pk booking)), (''status'', PStr (status_value CANCELLED)),
                    (''late_cancel'', PBool late_cancel)], s))))"

section \<open>Lemmas\<close>

lemma set_cancelled_simps [simp]:
  "b_pk (set_cancelled t p r l b) = b_pk b" "b_status (set_cancelled t p r l b) = CANCELLED"
  "b_cancelled_at (set_cancelled t p r l b) = Some t" "b_late_cancel (set_cancelled t p r l b) = l"
  "b_slot_start (set_cancelled t p r l b) = b_slot_start b" "b_user (set_cancelled t p r l b) = b_user b"
  "b_room (set_cancelled t p r l b) = b_room b" "b_cancel_reason (set_cancelled t p r l b) = r"
  "b_cancelled_by (set_cancelled t p r l b) = p"
  "b_is_staff_booking (set_cancelled t p r l b) = b_is_staff_booking b"
  by (simp_all add: set_cancelled_def)

lemma set_cancelled_not_occupies [simp]: "\<not> occupies_slot (set_cancelled t p r l b)"
  by (simp add: occupies_slot_def)

lemma set_cancelled_evolves:
  "b_status b \<in> {PENDING_APPROVAL, SCHEDULED} \<Longrightarrow> row_evolves b (set_cancelled t p r l b)"
  by (rule row_evolves_step)
    (auto simp: same_identity_def set_cancelled_def intro: lifecycle.intros)

lemma set_cancelled_check:
  "booking_check_error b = None \<Longrightarrow> booking_check_error (set_cancelled t p r l b) = None"
  by (auto simp: booking_check_error_def set_cancelled_def split: if_splits option.splits)

text \<open>A cancellation never meets a constraint.\<close>

lemma update_cancelled:
  assumes "bookings_ok s" "get_row b_pk pk (bookings s) = Some b"
  shows "update_booking pk (set_cancelled t p r l) s
    = Inr (s\<lparr>bookings := update_row b_pk pk (set_cancelled t p r l) (bookings s)\<rparr>)"
proof (rule update_booking_total_narrow [OF assms])
  from assms have "b \<in> set (bookings s)" by (auto dest: get_row_Some)
  with assms(1) show "booking_check_error (set_cancelled t p r l b) = None"
    by (simp add: bookings_ok_def set_cancelled_check)
qed simp_all

text \<open>What the body does, in the one case where it returns.\<close>

definition cancellable :: "bool \<Rightarrow> ctx \<Rightarrow> booking \<Rightarrow> bool" where
  "cancellable staff_action cx b \<longleftrightarrow> b_status b \<in> {PENDING_APPROVAL, SCHEDULED}
     \<and> (staff_action \<or> actor_pk (ctx_actor cx) = Some (b_user b) \<and> ctx_now cx < b_slot_start b)"

lemma cancel_booking_Inr:
  assumes "cancel_booking pk reason staff cx s = Inr (r, s')"
  obtains b s1 where "get_row b_pk pk (bookings s) = Some b" "b_pk b = pk" "cancellable staff cx b"
    "update_booking pk (set_cancelled (ctx_now cx) (actor_pk (ctx_actor cx)) reason
       (b_slot_start b - LATE_CANCEL_WINDOW < ctx_now cx \<and> \<not> staff)) s = Inr s1"
    "logs s1 s'" "\<exists>n. queued s' (''booking_cancelled:'' @ show_nat pk) = Some n"
    "r = [(''booking_id'', PNat pk), (''status'', PStr (status_value CANCELLED)),
        (''late_cancel'', PBool (b_slot_start b - LATE_CANCEL_WINDOW < ctx_now cx \<and> \<not> staff))]"
proof -
  from assms obtain b where b: "reload_booking pk s = Inr b"
    by (auto simp: cancel_booking_def Let_def bindE_Inr)
  then have pk: "b_pk b = pk" by (auto dest: reload_booking_mem)
  from b have row: "get_row b_pk pk (bookings s) = Some b" by (simp add: reload_booking_Inr)
  have c: "cancellable staff cx b"
    using assms b unfolding cancellable_def
    by (cases "b_status b") (auto simp: cancel_booking_def Let_def split: if_splits)
  from assms b c pk obtain s1 where u: "update_booking pk (set_cancelled (ctx_now cx) (actor_pk (ctx_actor cx)) reason
       (b_slot_start b - LATE_CANCEL_WINDOW < ctx_now cx \<and> \<not> staff)) s = Inr s1"
    by (auto simp: cancel_booking_def Let_def bindE_Inr split: if_splits)
  have "logs s1 s' \<and> (\<exists>n. queued s' (''booking_cancelled:'' @ show_nat pk) = Some n) \<and> r = [(''booking_id'', PNat pk), (''status'', PStr (status_value CANCELLED)),
        (''late_cancel'', PBool (b_slot_start b - LATE_CANCEL_WINDOW < ctx_now cx \<and> \<not> staff))]"
    using assms b c pk u by (auto simp: cancel_booking_def Let_def split: if_splits)
  with that row pk c u show ?thesis by blast
qed

lemma cancel_booking_evolves:
  assumes "well_formed s" "cancel_booking pk reason staff cx s = Inr (r, s')"
  shows "well_formed s' \<and> evolves s s'"
  using assms(2)
proof (rule cancel_booking_Inr)
  fix b s1
  assume b: "get_row b_pk pk (bookings s) = Some b" "cancellable staff cx b" and l: "logs s1 s'"
    and u: "update_booking pk (set_cancelled (ctx_now cx) (actor_pk (ctx_actor cx)) reason
       (b_slot_start b - LATE_CANCEL_WINDOW < ctx_now cx \<and> \<not> staff)) s = Inr s1"
  show ?thesis
    by (rule update_logs_evolves [OF assms(1) u l]) (use b in \<open>auto simp: cancellable_def set_cancelled_evolves\<close>)
qed

interpretation cancel: booking_body "cancel_booking pk reason staff" for pk reason staff
  by (rule booking_bodyI) (rule cancel_booking_evolves)

lemma cancel_booking_total:
  assumes "bookings_ok s" "get_row b_pk pk (bookings s) = Some b" "cancellable staff cx b"
  shows "\<exists>r s'. cancel_booking pk reason staff cx s = Inr (r, s')"
proof -
  have "b_pk b = pk" using assms(2) by (auto dest: get_row_Some)
  then show ?thesis
    using assms(2,3) update_cancelled [OF assms(1,2)]
    by (auto simp: cancellable_def cancel_booking_def Let_def reload_booking_def)
qed

section \<open>Properties\<close>



text \<open>What a successful cancellation does: exactly that row becomes CANCELLED with the time,
  the actor and the reason; the late flag is set precisely when the owner cancels less than
  sixty minutes ahead, never for staff; no other row and no other table but the audit trail and
  the outbox changes; the owner's notice is queued, and the hour no longer counts as occupied.\<close>

theorem cancel_booking_effect:
  assumes "cancel_booking pk reason staff cx s = Inr (r, s')"
  shows "\<exists>b. get_row b_pk pk (bookings s) = Some b
    \<and> bookings s' = update_row b_pk pk (set_cancelled (ctx_now cx) (actor_pk (ctx_actor cx)) reason
        (\<not> staff \<and> b_slot_start b - ctx_now cx < 60 * us_minute)) (bookings s)
    \<and> violations s' = violations s \<and> suspensions s' = suspensions s \<and> users s' = users s
    \<and> (\<exists>n. queued s' (''booking_cancelled:'' @ show_nat pk) = Some n)"
  using assms
proof (rule cancel_booking_Inr)
  fix b s1
  assume b: "get_row b_pk pk (bookings s) = Some b" and l: "logs s1 s'"
    and q: "\<exists>n. queued s' (''booking_cancelled:'' @ show_nat pk) = Some n"
    and u: "update_booking pk (set_cancelled (ctx_now cx) (actor_pk (ctx_actor cx)) reason
       (b_slot_start b - LATE_CANCEL_WINDOW < ctx_now cx \<and> \<not> staff)) s = Inr s1"
  have "(b_slot_start b - LATE_CANCEL_WINDOW < ctx_now cx \<and> \<not> staff)
      = (\<not> staff \<and> b_slot_start b - ctx_now cx < 60 * us_minute)"
    by (auto simp: LATE_CANCEL_WINDOW_def)
  with b q u update_booking_frame [OF u] logs_frame [OF l] show ?thesis by auto
qed

theorem cancel_booking_effect_witness:
  "\<exists>r s'. cancel_booking 1 ''ill'' False \<lparr>ctx_now = at 9 30, ctx_actor = Some alice, ctx_payload = []\<rparr>
      (one_booking_st (at 9 30) SCHEDULED) = Inr (r, s') \<and> map b_late_cancel (bookings s') = [True]"
proof -
  let ?cx = "\<lparr>ctx_now = at 9 30, ctx_actor = Some alice, ctx_payload = []\<rparr>"
  let ?s = "one_booking_st (at 9 30) SCHEDULED"
  have "\<exists>r s'. cancel_booking 1 ''ill'' False ?cx ?s = Inr (r, s')"
    by (simp add: cancel_booking_def Let_def reload_booking_def get_row_def update_booking_def
        one_booking_st_def sample_defs slot_start_for_def us_defs actor_pk_def booking_error_def
        booking_check_error_def set_cancelled_def)
  then obtain r s' where run: "cancel_booking 1 ''ill'' False ?cx ?s = Inr (r, s')" by blast
  with cancel_booking_effect [OF run] show ?thesis
    by (auto simp: one_booking_st_def sample_defs slot_start_for_def us_defs get_row_def update_row_def)
qed

end
