(* ===== verification/Sweep.thy ===== *)
theory Sweep
  imports Strikes Cancel
begin

text \<open>
  Loops that move a batch of bookings to a new status. Several services read the rows that match a
  condition and then, row by row, write the row and log it: the reconciler (\<open>reconcile.py\<close>), the
  suspensions (\<open>sanctions.py\<close>), the closures and deactivations (\<open>maintenance.py\<close>) and the incidents
  (\<open>incidents.py\<close>). The locale \<open>row_sweep\<close> is the contract of one round; its lemmas give the result of
  the loop: exactly the rows of the batch are rewritten, each once.
\<close>

text \<open>The rows of a table are different, so the batches of a query are.\<close>

lemma distinct_bookings: "well_formed s \<Longrightarrow> distinct (bookings s)"
  using well_formedD(1) by (auto simp: bookings_ok_def distinct_map)

locale row_sweep =
  fixes step :: "booking \<Rightarrow> st \<Rightarrow> exn + st"
    and put :: "booking \<Rightarrow> booking"
    and due :: "booking \<Rightarrow> bool"
    and inv :: "st \<Rightarrow> bool"
    and R :: "st \<Rightarrow> st \<Rightarrow> bool"
    and post :: "booking \<Rightarrow> st \<Rightarrow> bool"
  assumes put_pk: "b_pk (put b) = b_pk b"
    and round: "well_formed s \<Longrightarrow> inv s \<Longrightarrow> get_row b_pk (b_pk b) (bookings s) = Some b \<Longrightarrow> due b \<Longrightarrow>
      \<exists>s'. step b s = Inr s' \<and> bookings s' = update_row b_pk (b_pk b) put (bookings s)
         \<and> well_formed s' \<and> evolves s s' \<and> inv s' \<and> R s s' \<and> post b s'"
    and R_refl: "R s s"
    and R_trans: "R s s' \<Longrightarrow> R s' s'' \<Longrightarrow> R s s''"
    and post_kept: "post b s \<Longrightarrow> R s s' \<Longrightarrow> post b s'"
begin

lemma sweep:
  assumes "well_formed s" "inv s" "distinct (map b_pk rows)"
    and "\<And>b. b \<in> set rows \<Longrightarrow> get_row b_pk (b_pk b) (bookings s) = Some b \<and> due b"
  shows "\<exists>t. foldE step rows s = Inr t
    \<and> bookings t = map (\<lambda>b. if b_pk b \<in> b_pk ` set rows then put b else b) (bookings s)
    \<and> well_formed t \<and> evolves s t \<and> inv t \<and> R s t \<and> (\<forall>b \<in> set rows. post b t)"
  using assms
proof (induction rows arbitrary: s)
  case Nil
  then show ?case using R_refl by simp
next
  case (Cons r rows)
  obtain s1 where s1: "step r s = Inr s1" "bookings s1 = update_row b_pk (b_pk r) put (bookings s)"
    "well_formed s1" "evolves s s1" "inv s1" "R s s1" "post r s1"
    using round [OF Cons.prems(1,2), of r] Cons.prems(4) [of r] by auto
  have "get_row b_pk (b_pk b) (bookings s1) = Some b \<and> due b" if "b \<in> set rows" for b
  proof -
    from that have "b_pk b \<in> b_pk ` set rows" by (rule imageI)
    moreover from Cons.prems(3) have "b_pk r \<notin> b_pk ` set rows" by simp
    ultimately have "b_pk b \<noteq> b_pk r" by metis
    with Cons.prems(4) that show ?thesis by (simp add: s1(2) get_row_update_row put_pk)
  qed
  from Cons.IH [OF s1(3,5) _ this] Cons.prems(3) obtain t where
    t: "foldE step rows s1 = Inr t"
    "bookings t = map (\<lambda>b. if b_pk b \<in> b_pk ` set rows then put b else b) (bookings s1)"
    "well_formed t" "evolves s1 t" "inv t" "R s1 t" "\<forall>b \<in> set rows. post b t" by auto
  have "bookings t = map (\<lambda>b. if b_pk b \<in> b_pk ` set (r # rows) then put b else b) (bookings s)"
    using Cons.prems(3) by (auto simp: t(2) s1(2) update_row_def put_pk)
  moreover have "evolves s t" by (rule evolves_trans [OF s1(4) t(4)])
  moreover have "R s t" "post r t" using R_trans [OF s1(6) t(6)] post_kept [OF s1(7) t(6)] by auto
  ultimately show ?case using s1(1) t by auto
qed

text \<open>The usual batch: every row that satisfies a condition, in some order.\<close>

lemma sweep_all:
  assumes "well_formed s" "inv s" "distinct rows" "set rows = {b \<in> set (bookings s). P b}"
    and "\<And>b. b \<in> set (bookings s) \<Longrightarrow> P b \<Longrightarrow> due b"
  shows "\<exists>t. foldE step rows s = Inr t
    \<and> bookings t = map (\<lambda>b. if P b then put b else b) (bookings s)
    \<and> well_formed t \<and> evolves s t \<and> inv t \<and> R s t \<and> (\<forall>b \<in> set (bookings s). P b \<longrightarrow> post b t)"
proof -
  note ok = well_formedD(1) [OF assms(1)]
  have dist: "distinct (map b_pk rows)"
    using assms(3,4) bookings_ok_unique [OF ok] by (auto simp: distinct_map inj_on_def)
  have rows: "get_row b_pk (b_pk b) (bookings s) = Some b \<and> due b" if "b \<in> set rows" for b
    using that assms(4,5) bookings_ok_get_row [OF ok] by auto
  have keys: "b_pk b \<in> b_pk ` set rows \<longleftrightarrow> P b" if "b \<in> set (bookings s)" for b
    using bookings_ok_unique [OF ok that] that assms(4) by auto
  from sweep [OF assms(1,2) dist rows] show ?thesis
    using keys assms(4) by (auto cong: map_cong)
qed

lemma sweep_query:
  assumes "well_formed s" "inv s" "\<And>b. b \<in> set (bookings s) \<Longrightarrow> P b \<Longrightarrow> due b"
  shows "\<exists>t. foldE step (order_by key (filter P (bookings s))) s = Inr t
    \<and> bookings t = map (\<lambda>b. if P b then put b else b) (bookings s)
    \<and> well_formed t \<and> evolves s t \<and> inv t \<and> R s t \<and> (\<forall>b \<in> set (bookings s). P b \<longrightarrow> post b t)"
  by (rule sweep_all) (use assms distinct_bookings [OF assms(1)] in auto)

end

text \<open>One round of the plain kind: a row write that frees or keeps its hour, then logging.\<close>

definition plain :: "st \<Rightarrow> st \<Rightarrow> bool" where
  "plain s s' \<longleftrightarrow> quiet s s' \<and> violations s' = violations s \<and> suspensions s' = suspensions s"

lemma plain_refl [simp]: "plain s s"
  by (simp add: plain_def)

lemma plain_trans: "plain s s' \<Longrightarrow> plain s' s'' \<Longrightarrow> plain s s''"
  by (auto simp: plain_def intro: quiet_trans)

lemma plain_update_logs: "update_booking pk f s = Inr s1 \<Longrightarrow> logs s1 s' \<Longrightarrow> plain s s'"
  using quiet_trans [OF quiet_update_booking quiet_logs]
  by (auto simp: plain_def update_booking_frame logs_frame)

lemma plain_logs: "logs s s' \<Longrightarrow> plain s s'"
  by (simp add: plain_def quiet_logs logs_frame)

lemma row_round:
  assumes "well_formed s" "get_row b_pk (b_pk b) (bookings s) = Some b"
    and "row_evolves b (f b)" "\<And>x. b_pk (f x) = b_pk x"
    and "booking_check_error (f b) = None" "b_room (f b) = b_room b"
  shows "\<exists>s'. update_booking (b_pk b) f s = Inr s'
    \<and> bookings s' = update_row b_pk (b_pk b) f (bookings s) \<and> well_formed s' \<and> evolves s s' \<and> plain s s'"
proof -
  from assms(3) have "b_user (f b) = b_user b" "b_slot_start (f b) = b_slot_start b"
    "b_is_staff_booking (f b) = b_is_staff_booking b"
    by (simp_all add: row_evolves_def same_identity_def)
  with update_booking_total_narrow [where f = f, OF well_formedD(1) [OF assms(1)] assms(2,5)]
    row_evolves_occupies [OF assms(3)] assms(6)
  have u: "update_booking (b_pk b) f s = Inr (s\<lparr>bookings := update_row b_pk (b_pk b) f (bookings s)\<rparr>)"
    by simp
  have "row_evolves x (f x)" if "get_row b_pk (b_pk b) (bookings s) = Some x" for x
    using that assms(2,3) by simp
  from update_booking_evolves [OF assms(1) u this assms(4)] plain_update_logs [OF u logs_refl] u
  show ?thesis by simp
qed

lemma row_round_logs:
  assumes "well_formed s" "get_row b_pk (b_pk b) (bookings s) = Some b"
    and "row_evolves b (f b)" "\<And>x. b_pk (f x) = b_pk x"
    and "booking_check_error (f b) = None" "b_room (f b) = b_room b"
    and "\<And>s. logs s (log s)"
  shows "\<exists>s'. bindE (update_booking (b_pk b) f s) (\<lambda>s. Inr (log s)) = Inr s'
    \<and> bookings s' = update_row b_pk (b_pk b) f (bookings s) \<and> well_formed s' \<and> evolves s s' \<and> plain s s'"
proof -
  from row_round [where f = f, OF assms(1-6)] obtain s1 where
    s1: "update_booking (b_pk b) f s = Inr s1" "bookings s1 = update_row b_pk (b_pk b) f (bookings s)"
      "well_formed s1" "evolves s s1" "plain s s1" by blast
  note l = assms(7) [of s1]
  with s1 logs_well_formed [OF l s1(3)] logs_evolves [OF l] logs_frame(14) [OF l] plain_logs [OF l] plain_trans
  show ?thesis by auto
qed

lemma booking_check_None:
  "booking_check_error b = None \<longleftrightarrow>
     (b_cancel_reason b = '''' \<or> b_cancelled_at b \<noteq> None)
     \<and> (b_status b = CANCELLED \<longleftrightarrow> b_cancelled_at b \<noteq> None)
     \<and> (\<forall>t. b_checked_in_at b = Some t \<longrightarrow> b_slot_start b \<le> t \<and> t < b_slot_end b)
     \<and> (b_source b = ADVANCE \<longleftrightarrow> b_deadline b \<noteq> None)
     \<and> b_slot_start b mod us_hour div us_minute = 0 \<and> b_slot_start b mod us_minute div us_second = 0
     \<and> b_slot_end b = b_slot_start b + us_hour
     \<and> (b_source b = ADVANCE \<or> b_status b \<noteq> SCHEDULED)"
proof -
  have if_None: "(if c then Some x else e) = None \<longleftrightarrow> \<not> c \<and> e = None" for c and x :: string and e by simp
  have src: "b_source b \<noteq> ADVANCE \<longleftrightarrow> b_source b = WALK_IN" by (cases "b_source b") simp_all
  have chk: "(case b_checked_in_at b of None \<Rightarrow> True | Some t \<Rightarrow> b_slot_start b \<le> t \<and> t < b_slot_end b)
    \<longleftrightarrow> (\<forall>t. b_checked_in_at b = Some t \<longrightarrow> b_slot_start b \<le> t \<and> t < b_slot_end b)"
    by (simp split: option.splits)
  show ?thesis
    unfolding booking_check_error_def chk if_None src [symmetric]
    by (cases "b_source b = ADVANCE"; cases "b_status b = CANCELLED"; cases "b_cancelled_at b"; cases "b_deadline b")
      (simp_all only: not_not simp_thms option.distinct conj_assoc)
qed

text \<open>The row checks of a row whose status changes and whose hour, source and cancellation do not.\<close>

lemma restatus_check:
  assumes "booking_check_error b = None"
    and "b_slot_start b' = b_slot_start b" "b_slot_end b' = b_slot_end b" "b_source b' = b_source b"
      "b_deadline b' = b_deadline b" "b_cancelled_at b' = b_cancelled_at b" "b_cancel_reason b' = b_cancel_reason b"
    and "b_checked_in_at b' = b_checked_in_at b \<or> b_checked_in_at b' = Some (b_slot_start b)"
    and "b_status b \<noteq> CANCELLED" "b_status b' \<notin> {CANCELLED, SCHEDULED}"
  shows "booking_check_error b' = None"
proof -
  have "b_slot_start b < b_slot_end b"
    using booking_check_facts(1) [OF assms(1)] us_pos(3) by simp
  with assms show ?thesis
    unfolding booking_check_None by auto
qed

text \<open>The contract of a loop that writes one row a round and logs it.\<close>

lemma plain_sweep:
  assumes "\<And>b s. step b s = bindE (update_booking (b_pk b) f s) (\<lambda>s. Inr (log b s))"
    and "\<And>b s. logs s (log b s)" "\<And>b. b_pk (f b) = b_pk b" "\<And>b. b_room (f b) = b_room b"
    and "\<And>b. due b \<Longrightarrow> booking_check_error b = None \<Longrightarrow> row_evolves b (f b)"
    and "\<And>b. due b \<Longrightarrow> booking_check_error b = None \<Longrightarrow> booking_check_error (f b) = None"
  shows "row_sweep step f due (\<lambda>_. True) plain (\<lambda>_ _. True)"
proof (unfold_locales, goal_cases)
  case (2 s b)
  then have chk: "booking_check_error b = None" by (auto dest: get_row_Some well_formed_live(1))
  have "\<exists>s'. bindE (update_booking (b_pk b) f s) (\<lambda>s. Inr (log b s)) = Inr s'
    \<and> bookings s' = update_row b_pk (b_pk b) f (bookings s) \<and> well_formed s' \<and> evolves s s' \<and> plain s s'"
    by (rule row_round_logs [where f = f, OF 2(1,3) assms(5) [OF 2(4) chk] assms(3) assms(6) [OF 2(4) chk]
        assms(4) assms(2)])
  then show ?case by (simp add: assms(1))
qed (use assms(3) in \<open>auto intro: plain_trans\<close>)

end
