(* ===== verification/Reconcile.thy ===== *)
theory Reconcile
  imports Sweep
begin

text \<open>
  \<open>services/reconcile.py\<close>: bringing the database up to the present before an operation is judged.
  The definitions follow the file: requests that expired, no-shows, staff holds that start, sessions
  that end, strike thresholds, finished suspensions, and the reminders of the scheduler. A step that
  finds more rows than the budget raises \<open>ReconciliationBacklog\<close>.

  The rows of a query are read before its loop; a write names the key and the columns it changes.
  The groups of the strike query come back in no fixed order; the model takes one.
\<close>

section \<open>Payloads and labels\<close>

definition reconciler_label :: "actor \<Rightarrow> string" where
  "reconciler_label actor = (if actor = None then ''reconciler'' else '''')"

definition booking_payload :: "st \<Rightarrow> booking \<Rightarrow> dict" where
  "booking_payload s b =
    [(''booking_id'', PNat (b_pk b)),
     (''room_number'', PStr (r_number (room_of s (b_room b)))),
     (''room_label'', PStr (room_str (room_of s (b_room b)))),
     (''slot_start'', PStr (isoformat (b_slot_start b))),
     (''slot_end'', PStr (isoformat (b_slot_end b))),
     (''slot_start_local'', PStr (format_local (b_slot_start b))),
     (''source'', PStr (source_value (b_source b)))]"

definition over_budget :: "nat \<Rightarrow> 'a list \<Rightarrow> exn + 'b \<Rightarrow> exn + 'b" where
  "over_budget budget due k = (if length due > budget then Inl ReconciliationBacklog else k)"

section \<open>Expired requests\<close>

definition set_expired :: "booking \<Rightarrow> booking" where
  "set_expired b = b\<lparr>b_status := REJECTED,
     b_approval_note := ''The room approval window expired before the session started.''\<rparr>"

definition expire_approval :: "actor \<Rightarrow> booking \<Rightarrow> st \<Rightarrow> exn + st" where
  "expire_approval actor booking s =
     bindE (update_booking (b_pk booking) set_expired s) (\<lambda>s.
       let s = record_audit ''booking.rejected'' ''Booking'' (show_nat (b_pk booking)) actor
             (reconciler_label actor) [(''status'', PStr (status_value REJECTED))]
             (b_approval_note (set_expired booking)) s
       in Inr (enqueue ''booking_rejected'' (Some (user_of s (b_user booking)))
            (''booking_rejected:'' @ show_nat (b_pk booking))
            (dict_merge (booking_payload s booking)
               [(''reason'', PStr (b_approval_note (set_expired booking)))]) s))"

definition approval_expired :: "time \<Rightarrow> booking \<Rightarrow> bool" where
  "approval_expired now b = (b_status b = PENDING_APPROVAL \<and> b_slot_start b \<le> now)"

definition reconcile_expired_approvals :: "time \<Rightarrow> nat \<Rightarrow> actor \<Rightarrow> st \<Rightarrow> exn + (nat \<times> st)" where
  "reconcile_expired_approvals now budget actor s =
     (let due = order_by (\<lambda>b. (b_slot_start b, b_pk b)) (filter (approval_expired now) (bookings s)) in
      over_budget budget due (bindE (foldE (expire_approval actor) due s) (\<lambda>s. Inr (length due, s))))"

section \<open>No-shows\<close>

definition incident_covers :: "st \<Rightarrow> booking \<Rightarrow> bool" where
  "incident_covers s booking = list_ex (\<lambda>i. si_starts_at i < b_slot_end booking
     \<and> si_ends_at i > b_slot_start booking \<and> (si_rooms i = [] \<or> b_room booking \<in> set (si_rooms i))) (incidents s)"

definition set_no_show :: "booking \<Rightarrow> booking" where
  "set_no_show b = b\<lparr>b_status := NO_SHOW\<rparr>"

text \<open>\<open>booking.deadline\<close> of a row the query returned: \<open>deadline <= now\<close> holds of no \<open>NULL\<close>.\<close>

definition deadline_of :: "booking \<Rightarrow> time" where
  "deadline_of b = (case b_deadline b of Some d \<Rightarrow> d | None \<Rightarrow> b_slot_start b)"

definition no_show_violation :: "policy_version \<Rightarrow> booking \<Rightarrow> nat \<Rightarrow> violation" where
  "no_show_violation policy b pk = \<lparr>v_pk = pk, v_user = b_user b, v_booking = Some (b_pk b),
     v_kind = NO_SHOW_KIND, v_occurred_at = deadline_of b,
     v_expires_at = deadline_of b + strike_window_days policy * us_day, v_counts_as_strike = True,
     v_actor = None, v_note = ''Automatic no-show reconciliation.'', v_voided_at = None,
     v_voided_by = None, v_void_reason = '''', v_consumed_by = None, v_incident = None\<rparr>"

definition record_no_show :: "policy_version \<Rightarrow> actor \<Rightarrow> booking \<Rightarrow> st \<Rightarrow> exn + st" where
  "record_no_show policy actor booking s =
     bindE (update_booking (b_pk booking) set_no_show s) (\<lambda>s.
       case List.find (\<lambda>v. v_booking v = Some (b_pk booking) \<and> v_kind v = NO_SHOW_KIND) (violations s) of
         Some _ \<Rightarrow> Inr s
       | None \<Rightarrow> bindE (create_violation (no_show_violation policy booking) s) (\<lambda>(violation, s).
           let s = record_audit ''booking.no_show'' ''Booking'' (show_nat (b_pk booking)) actor
                 (reconciler_label actor)
                 [(''status'', PStr (status_value NO_SHOW)), (''occurred_at'', PIso (v_occurred_at violation)),
                  (''expires_at'', PIso (v_expires_at violation))] ''Check-in deadline passed.'' s
           in Inr (enqueue ''no_show'' (Some (user_of s (b_user booking)))
                (''no_show:'' @ show_nat (b_pk booking)) (booking_payload s booking) s)))"

definition no_show_due :: "time \<Rightarrow> booking \<Rightarrow> bool" where
  "no_show_due now b = (b_status b = SCHEDULED \<and> lte_null (b_deadline b) now \<and> \<not> b_is_staff_booking b)"

definition reconcile_no_shows :: "time \<Rightarrow> nat \<Rightarrow> actor \<Rightarrow> st \<Rightarrow> exn + (nat \<times> st)" where
  "reconcile_no_shows now budget actor s =
     (let due = order_by (\<lambda>b. (deadline_of b, b_pk b)) (filter (no_show_due now) (bookings s)) in
      over_budget budget due
        (let policy = current_policy s; s = ensure_policy s in
         foldE (counted incident_covers (record_no_show policy actor)) due (0, s)))"

section \<open>Staff holds and completions\<close>

definition set_started :: "booking \<Rightarrow> booking" where
  "set_started b = b\<lparr>b_status := IN_USE, b_checked_in_at := Some (b_slot_start b)\<rparr>"

definition start_hold :: "actor \<Rightarrow> booking \<Rightarrow> st \<Rightarrow> exn + st" where
  "start_hold actor booking s =
     bindE (update_booking (b_pk booking) set_started s) (\<lambda>s.
       Inr (record_audit ''booking.staff_hold_started'' ''Booking'' (show_nat (b_pk booking)) actor
         (reconciler_label actor) [(''status'', PStr (status_value IN_USE))] ''Staff booking hour began.'' s))"

definition hold_starts :: "time \<Rightarrow> booking \<Rightarrow> bool" where
  "hold_starts now b = (b_status b = SCHEDULED \<and> b_is_staff_booking b \<and> b_slot_start b \<le> now \<and> now < b_slot_end b)"

definition start_staff_holds :: "time \<Rightarrow> nat \<Rightarrow> actor \<Rightarrow> st \<Rightarrow> exn + (nat \<times> st)" where
  "start_staff_holds now budget actor s =
     (let due = order_by (\<lambda>b. (b_slot_start b, b_pk b)) (filter (hold_starts now) (bookings s)) in
      over_budget budget due (bindE (foldE (start_hold actor) due s) (\<lambda>s. Inr (length due, s))))"

definition set_completed :: "booking \<Rightarrow> booking" where
  "set_completed b = b\<lparr>b_status := COMPLETED, b_actual_end := Some (b_slot_end b)\<rparr>"

definition complete_booking :: "actor \<Rightarrow> booking \<Rightarrow> st \<Rightarrow> exn + st" where
  "complete_booking actor booking s =
     bindE (update_booking (b_pk booking) set_completed s) (\<lambda>s.
       Inr (record_audit ''booking.completed'' ''Booking'' (show_nat (b_pk booking)) actor
         (reconciler_label actor) [(''actual_end'', PIso (b_slot_end booking))] ''Slot end reached.'' s))"

definition session_over :: "time \<Rightarrow> booking \<Rightarrow> bool" where
  "session_over now b = ((b_status b = IN_USE \<or> (b_status b = SCHEDULED \<and> b_is_staff_booking b)) \<and> b_slot_end b \<le> now)"

definition reconcile_completions :: "time \<Rightarrow> nat \<Rightarrow> actor \<Rightarrow> st \<Rightarrow> exn + (nat \<times> st)" where
  "reconcile_completions now budget actor s =
     (let due = order_by (\<lambda>b. (b_slot_end b, b_pk b)) (filter (session_over now) (bookings s)) in
      over_budget budget due (bindE (foldE (complete_booking actor) due s) (\<lambda>s. Inr (length due, s))))"

section \<open>Automatic suspensions\<close>

definition unstarted :: "booking \<Rightarrow> bool" where
  "unstarted b = (b_status b \<in> {PENDING_APPROVAL, SCHEDULED})"

definition cancel_for_suspension :: "time \<Rightarrow> user \<Rightarrow> actor \<Rightarrow> booking \<Rightarrow> st \<Rightarrow> exn + st" where
  "cancel_for_suspension now user actor booking s =
     bindE (update_booking (b_pk booking) (set_cancelled now (actor_pk actor) ''SUSPENSION'' False) s) (\<lambda>s.
       let s = record_audit ''booking.cancelled'' ''Booking'' (show_nat (b_pk booking)) actor
             (reconciler_label actor)
             [(''status'', PStr (status_value CANCELLED)), (''reason'', PStr ''SUSPENSION'')]
             ''Remaining bookings cancelled on suspension; no extra penalty.'' s
       in Inr (enqueue ''booking_cancelled'' (Some user) (''booking_cancelled:'' @ show_nat (b_pk booking))
            (dict_merge (booking_payload s booking) [(''reason'', PStr ''SUSPENSION'')]) s))"

definition cancel_scheduled_for_suspension :: "time \<Rightarrow> user \<Rightarrow> actor \<Rightarrow> st \<Rightarrow> exn + (nat \<times> st)" where
  "cancel_scheduled_for_suspension now user actor s =
     (let remaining = order_by b_slot_start (filter (\<lambda>b. b_user b = u_pk user \<and> unstarted b) (bookings s))
      in bindE (foldE (cancel_for_suspension now user actor) remaining s) (\<lambda>s. Inr (length remaining, s)))"

definition automatic_suspension :: "nat \<Rightarrow> time \<Rightarrow> policy_version \<Rightarrow> actor \<Rightarrow> nat \<Rightarrow> suspension" where
  "automatic_suspension user_pk now policy actor pk = \<lparr>sp_pk = pk, sp_user = user_pk, sp_starts_at = now,
     sp_ends_at = Some (now + auto_suspension_days policy * us_day), sp_lifted_at = None,
     sp_lifted_by = None, sp_lift_reason = '''',
     sp_reason = show_int (strike_threshold policy) @ '' eligible strikes within ''
       @ show_int (strike_window_days policy) @ '' days.'',
     sp_source = AUTO, sp_created_by = actor_pk actor, sp_start_notified_at = Some now,
     sp_end_notified_at = None\<rparr>"

text \<open>\<open>consumed.update(consumed_by=suspension)\<close>: one statement for all rows of the query.\<close>

definition consume_strikes :: "time \<Rightarrow> nat \<Rightarrow> nat \<Rightarrow> violation list \<Rightarrow> violation list" where
  "consume_strikes now user_pk suspension_pk = map (\<lambda>v.
     if is_eligible_strike now v \<and> v_user v = user_pk then v\<lparr>v_consumed_by := Some suspension_pk\<rparr> else v)"

definition create_automatic_suspension ::
  "nat \<Rightarrow> time \<Rightarrow> policy_version \<Rightarrow> actor \<Rightarrow> st \<Rightarrow> exn + st" where
  "create_automatic_suspension user_pk now policy actor s =
     (let user = user_of s user_pk in
      bindE (create_suspension (automatic_suspension user_pk now policy actor) s) (\<lambda>(suspension, s).
        let consumed_ids = map v_pk (filter (\<lambda>v. v_user v = user_pk) (eligible_strikes now s));
            s = s\<lparr>violations := consume_strikes now user_pk (sp_pk suspension) (violations s)\<rparr>;
            s = record_audit ''suspension.applied'' ''Suspension'' (show_nat (sp_pk suspension)) actor
              (reconciler_label actor)
              [(''starts_at'', PIso (sp_starts_at suspension)), (''ends_at'', opt_val PIso (sp_ends_at suspension)),
               (''consumed_violations'', PList (map PNat consumed_ids))] (sp_reason suspension) s;
            s = enqueue ''sanction_applied'' (Some user) (''suspension_applied:'' @ show_nat (sp_pk suspension))
              [(''suspension_id'', PNat (sp_pk suspension)),
               (''starts_at'', PStr (isoformat (sp_starts_at suspension))),
               (''ends_at'', opt_val (PStr \<circ> isoformat) (sp_ends_at suspension)),
               (''strike_count'', PNat (length consumed_ids)), (''reason'', PStr (sp_reason suspension))] s
        in bindE (cancel_scheduled_for_suspension now user actor s) (\<lambda>(_, s). Inr s)))"

text \<open>\<open>Suspension.objects.active(now).filter(user_id=user_id).exists()\<close>\<close>

definition suspended_now :: "time \<Rightarrow> st \<Rightarrow> nat \<Rightarrow> bool" where
  "suspended_now now s user_pk = list_ex (\<lambda>sp. suspension_active now sp \<and> sp_user sp = user_pk) (suspensions s)"

definition strike_total :: "time \<Rightarrow> st \<Rightarrow> nat \<Rightarrow> nat" where
  "strike_total now s user_pk = length (filter (\<lambda>v. is_eligible_strike now v \<and> v_user v = user_pk) (violations s))"

definition apply_strike_thresholds :: "time \<Rightarrow> actor \<Rightarrow> st \<Rightarrow> exn + (nat \<times> st)" where
  "apply_strike_thresholds now actor s =
     (let policy = current_policy s; s = ensure_policy s;
          rows = filter (\<lambda>u. int (strike_total now s u) \<ge> strike_threshold policy)
            (remdups (map v_user (filter (is_eligible_strike now) (violations s))))
      in foldE (counted (suspended_now now) (\<lambda>u. create_automatic_suspension u now policy actor)) rows (0, s))"

section \<open>Finished suspensions\<close>

definition finished :: "time \<Rightarrow> suspension \<Rightarrow> bool" where
  "finished now sp = (sp_lifted_at sp = None \<and> lte_null (sp_ends_at sp) now \<and> sp_end_notified_at sp = None)"

definition set_end_notified :: "time \<Rightarrow> suspension \<Rightarrow> suspension" where
  "set_end_notified now sp = sp\<lparr>sp_end_notified_at := Some now\<rparr>"

definition notify_finished :: "time \<Rightarrow> suspension \<Rightarrow> st \<Rightarrow> exn + st" where
  "notify_finished now suspension s =
     bindE (update_suspension (sp_pk suspension) (set_end_notified now) s) (\<lambda>s.
       Inr (enqueue ''sanction_lifted'' (Some (user_of s (sp_user suspension)))
         (''suspension_ended:'' @ show_nat (sp_pk suspension))
         [(''suspension_id'', PNat (sp_pk suspension)),
          (''ends_at'', opt_val (PStr \<circ> isoformat) (sp_ends_at suspension)), (''automatic'', PBool True)] s))"

definition notify_finished_suspensions :: "time \<Rightarrow> st \<Rightarrow> exn + (nat \<times> st)" where
  "notify_finished_suspensions now s =
     (let rows = order_by_desc sp_starts_at (filter (finished now) (suspensions s))
      in foldE (counted (\<lambda>_ _. False) (notify_finished now)) rows (0, s))"

section \<open>The whole\<close>

definition reconcile :: "time \<Rightarrow> actor \<Rightarrow> nat option \<Rightarrow> st \<Rightarrow> exn + (dict \<times> st)" where
  "reconcile now actor budget0 s =
     (let budget = (case budget0 of None \<Rightarrow> RECONCILE_BUDGET (conf s)
                    | Some b \<Rightarrow> if b = 0 then RECONCILE_BUDGET (conf s) else b) in
      bindE (reconcile_expired_approvals now budget actor s) (\<lambda>(expired_approvals, s).
      bindE (reconcile_no_shows now budget actor s) (\<lambda>(no_shows, s).
      bindE (start_staff_holds now budget actor s) (\<lambda>(staff_holds_started, s).
      bindE (reconcile_completions now budget actor s) (\<lambda>(completions, s).
      bindE (apply_strike_thresholds now actor s) (\<lambda>(new_suspensions, s).
      bindE (notify_finished_suspensions now s) (\<lambda>(lifts, s).
        Inr ([(''expired_approvals'', PNat expired_approvals), (''no_shows'', PNat no_shows),
              (''staff_holds_started'', PNat staff_holds_started), (''completions'', PNat completions),
              (''suspensions'', PNat new_suspensions), (''lifts'', PNat lifts)], s))))))))"

text \<open>The reminders of the scheduler tick.\<close>

definition reminder_due :: "time \<Rightarrow> time \<Rightarrow> booking \<Rightarrow> bool" where
  "reminder_due now window_end b = (b_status b = SCHEDULED \<and> b_source b = ADVANCE \<and> \<not> b_is_staff_booking b
     \<and> b_slot_start b > now \<and> b_slot_start b \<le> window_end)"

definition enqueue_reminder :: "booking \<Rightarrow> nat \<times> st \<Rightarrow> nat \<times> st" where
  "enqueue_reminder b acc =
     (let (count, s) = acc;
          (_, created, s') = enqueue_full ''booking_reminder'' (Some (user_of s (b_user b)))
            (''booking_reminder:'' @ show_nat (b_pk b)) (booking_payload s b) None None '''' s
      in (if created then count + 1 else count, s'))"

definition enqueue_due_reminders :: "time \<Rightarrow> st \<Rightarrow> nat \<times> st" where
  "enqueue_due_reminders now s =
     (let policy = current_policy s; s = ensure_policy s;
          candidates = order_by b_slot_start (filter
            (reminder_due now (now + reminder_lead_minutes policy * us_minute)) (bookings s))
      in fold enqueue_reminder candidates (0, s))"

section \<open>The rounds of the loops\<close>

text \<open>A recorded no-show belongs to a booking that is a no-show.\<close>

definition forfeits :: "st \<Rightarrow> bool" where
  "forfeits s \<longleftrightarrow> (\<forall>v \<in> set (violations s). v_kind v = NO_SHOW_KIND
     \<longrightarrow> (\<exists>b \<in> set (bookings s). v_booking v = Some (b_pk b) \<and> b_status b = NO_SHOW))"

lemma forfeits_evolves:
  assumes "forfeits s" "evolves s s'"
    and "\<And>v. v \<in> set (violations s') \<Longrightarrow> v_kind v = NO_SHOW_KIND \<Longrightarrow>
       (\<exists>w \<in> set (violations s). v_kind w = NO_SHOW_KIND \<and> v_booking w = v_booking v)
       \<or> (\<exists>b \<in> set (bookings s'). v_booking v = Some (b_pk b) \<and> b_status b = NO_SHOW)"
  shows "forfeits s'"
  unfolding forfeits_def
proof (intro ballI impI)
  fix v assume v: "v \<in> set (violations s')" "v_kind v = NO_SHOW_KIND"
  have "\<exists>b \<in> set (bookings s'). v_booking v = Some (b_pk b) \<and> b_status b = NO_SHOW"
    if w: "w \<in> set (violations s)" "v_kind w = NO_SHOW_KIND" "v_booking w = v_booking v" for w
  proof -
    from assms(1) w obtain b where b: "b \<in> set (bookings s)" "v_booking v = Some (b_pk b)" "b_status b = NO_SHOW"
      unfolding forfeits_def by metis
    from assms(2) b(1) obtain b' where b': "b' \<in> set (bookings s')" "row_evolves b b'"
      by (auto simp: evolves_def)
    then have "b_status b' = NO_SHOW" "b_pk b' = b_pk b"
      using b(3) lifecycle_terminal [of "b_status b" "b_status b'"]
      by (auto simp: row_evolves_def same_identity_def terminal_status_def)
    with b(2) b'(1) show ?thesis by metis
  qed
  with assms(3) [OF v] show "\<exists>b \<in> set (bookings s'). v_booking v = Some (b_pk b) \<and> b_status b = NO_SHOW"
    by blast
qed

lemma forfeits_plain: "forfeits s \<Longrightarrow> evolves s s' \<Longrightarrow> violations s' = violations s \<Longrightarrow> forfeits s'"
  by (rule forfeits_evolves) auto

text \<open>Each write of the reconciler is a step of the life cycle and keeps the row checks.\<close>

lemmas reconcile_writes = set_expired_def set_started_def set_completed_def set_no_show_def

lemma set_expired_round:
  assumes "b_status b = PENDING_APPROVAL" "booking_check_error b = None"
  shows "row_evolves b (set_expired b)" "booking_check_error (set_expired b) = None"
  using assms by (auto simp: reconcile_writes same_identity_def
    intro!: row_evolves_step lifecycle.reject_request restatus_check [OF assms(2)])

lemma set_started_round:
  assumes "b_status b = SCHEDULED" "booking_check_error b = None"
  shows "row_evolves b (set_started b)" "booking_check_error (set_started b) = None"
  using assms by (auto simp: reconcile_writes same_identity_def
    intro!: row_evolves_step lifecycle.start restatus_check [OF assms(2)])

lemma set_completed_round:
  assumes "b_status b = IN_USE \<or> b_status b = SCHEDULED" "booking_check_error b = None"
  shows "row_evolves b (set_completed b)" "booking_check_error (set_completed b) = None"
proof -
  have "lifecycle (b_status b) COMPLETED"
    using assms(1) by (auto intro: lifecycle.complete lifecycle.complete_hold)
  then show "row_evolves b (set_completed b)" "booking_check_error (set_completed b) = None"
    using assms by (auto simp: reconcile_writes same_identity_def
      intro!: row_evolves_step restatus_check [OF assms(2)])
qed

lemma set_no_show_round:
  assumes "b_status b = SCHEDULED" "booking_check_error b = None"
  shows "row_evolves b (set_no_show b)" "booking_check_error (set_no_show b) = None"
  using assms by (auto simp: reconcile_writes same_identity_def
    intro!: row_evolves_step lifecycle.forfeit restatus_check [OF assms(2)])

interpretation expire: row_sweep "expire_approval actor" set_expired "\<lambda>b. b_status b = PENDING_APPROVAL"
  "\<lambda>_. True" plain "\<lambda>_ _. True" for actor
  by (rule plain_sweep) (auto simp: expire_approval_def set_expired_round Let_def,
    auto simp: set_expired_def)

interpretation start: row_sweep "start_hold actor" set_started "\<lambda>b. b_status b = SCHEDULED"
  "\<lambda>_. True" plain "\<lambda>_ _. True" for actor
  by (rule plain_sweep) (auto simp: start_hold_def set_started_round, auto simp: set_started_def)

interpretation complete: row_sweep "complete_booking actor" set_completed
  "\<lambda>b. b_status b = IN_USE \<or> b_status b = SCHEDULED" "\<lambda>_. True" plain "\<lambda>_ _. True" for actor
  by (rule plain_sweep) (auto simp: complete_booking_def set_completed_round, auto simp: set_completed_def)

interpretation suspend: row_sweep "cancel_for_suspension now user actor"
  "set_cancelled now (actor_pk actor) ''SUSPENSION'' False" unstarted "\<lambda>_. True" plain "\<lambda>_ _. True" for now user actor
  by (rule plain_sweep) (auto simp: cancel_for_suspension_def unstarted_def set_cancelled_check Let_def
    intro: set_cancelled_evolves)

text \<open>A no-show round also records the violation of the booking, which no earlier row can hold.\<close>

definition forfeit_inv :: "policy_version \<Rightarrow> st \<Rightarrow> bool" where
  "forfeit_inv policy s \<longleftrightarrow> sanctions_ok s \<and> forfeits s \<and> 0 < strike_window_days policy"

definition adds_violations :: "st \<Rightarrow> st \<Rightarrow> bool" where
  "adds_violations s s' \<longleftrightarrow> quiet s s' \<and> suspensions s' = suspensions s \<and> set (violations s) \<subseteq> set (violations s')"

definition no_show_recorded :: "policy_version \<Rightarrow> booking \<Rightarrow> st \<Rightarrow> bool" where
  "no_show_recorded policy b s \<longleftrightarrow> (\<exists>v \<in> set (violations s). v = no_show_violation policy b (v_pk v))"

lemma no_show_violation_pk [simp]: "v_pk (no_show_violation policy b pk) = pk"
  "(no_show_violation policy b pk)\<lparr>v_pk := pk'\<rparr> = no_show_violation policy b pk'"
  by (simp_all add: no_show_violation_def)

lemma no_show_round:
  assumes wf: "well_formed s" and inv: "forfeit_inv policy s"
    and row: "get_row b_pk (b_pk b) (bookings s) = Some b" and st: "b_status b = SCHEDULED"
  shows "\<exists>s'. record_no_show policy actor b s = Inr s'
    \<and> bookings s' = update_row b_pk (b_pk b) set_no_show (bookings s) \<and> well_formed s' \<and> evolves s s'
    \<and> forfeit_inv policy s' \<and> adds_violations s s' \<and> no_show_recorded policy b s'"
proof -
  from inv have ok: "sanctions_ok s" and ff: "forfeits s" and pos: "0 < strike_window_days policy"
    by (simp_all add: forfeit_inv_def)
  from row have bm: "b \<in> set (bookings s)" by (auto dest: get_row_Some)
  have chk: "booking_check_error b = None" by (rule well_formed_live(1) [OF wf bm])
  obtain s1 where s1: "update_booking (b_pk b) set_no_show s = Inr s1"
    "bookings s1 = update_row b_pk (b_pk b) set_no_show (bookings s)" "well_formed s1" "evolves s s1" "plain s s1"
    using row_round [where f = set_no_show, OF wf row] set_no_show_round [OF st chk]
    by (auto simp: set_no_show_def)
  let ?forfeit = "\<lambda>v. v_booking v = Some (b_pk b) \<and> v_kind v = NO_SHOW_KIND"
  have none: "\<not> ?forfeit v" if "v \<in> set (violations s)" for v
  proof
    assume "?forfeit v"
    with ff that obtain b' where "b' \<in> set (bookings s)" "b_pk b' = b_pk b" "b_status b' = NO_SHOW"
      by (auto simp: forfeits_def)
    with bookings_ok_unique [OF well_formedD(1) [OF wf] bm, of b'] st show False by simp
  qed
  let ?pk = "fresh_pk (map v_pk (violations s))"
  let ?v = "no_show_violation policy b ?pk"
  have vs: "violations s1 = violations s" "suspensions s1 = suspensions s" "quiet s s1"
    using s1(5) by (simp_all add: plain_def)
  have "violation_check_error ?v = None"
    using pos us_pos(4) by (simp add: violation_check_error_def no_show_violation_def)
  moreover have "\<not> same_no_show ?v w" if "w \<in> set (violations s)" for w
    using none [OF that] by (auto simp: same_no_show_def no_show_violation_def)
  ultimately have "violation_error (violations s) ?v = None" by (simp add: violation_error_None)
  then have c: "create_violation (no_show_violation policy b) s1
      = Inr (?v, s1\<lparr>violations := violations s @ [?v]\<rparr>)"
    unfolding create_violation_def vs(1) by (simp add: Let_def)
  let ?s2 = "s1\<lparr>violations := violations s @ [?v]\<rparr>"
  have find: "List.find ?forfeit (violations s1) = None"
    using none unfolding vs(1) by (auto simp: find_None_iff)
  obtain s' where s': "record_no_show policy actor b s = Inr s'" "logs ?s2 s'"
    unfolding record_no_show_def s1(1) bindE_simps find c by (auto simp: Let_def)
  have same: "bookings s' = bookings s1" "violations s' = violations s @ [?v]" "suspensions s' = suspensions s"
    using logs_frame [OF s'(2)] vs by simp_all
  have ev: "evolves s s'" using s1(4) evolves_bookings_cong(1) [OF same(1)] by blast
  have wf': "well_formed s'"
    using logs_well_formed [OF s'(2)] s1(3) well_formed_cong [of ?s2 s1] by simp
  have q: "quiet s s'"
    using quiet_trans [OF quiet_trans [OF vs(3), of ?s2] quiet_logs [OF s'(2)]] by (simp add: quiet_def)
  have "sanctions_ok s'"
    using create_violation_ok [OF _ c] ok sanctions_ok_cong [OF vs(1,2)] sanctions_ok_cong [of s' ?s2] same vs(2)
    by simp
  moreover have "forfeits s'"
  proof (rule forfeits_evolves [OF ff ev])
    fix v assume v: "v \<in> set (violations s')" "v_kind v = NO_SHOW_KIND"
    have "set_no_show b \<in> set (bookings s')"
      unfolding same(1) s1(2) using bm by (auto simp: set_update_row)
    moreover have "b_pk (set_no_show b) = b_pk b" "b_status (set_no_show b) = NO_SHOW"
      by (simp_all add: set_no_show_def)
    ultimately show "(\<exists>w \<in> set (violations s). v_kind w = NO_SHOW_KIND \<and> v_booking w = v_booking v)
       \<or> (\<exists>b \<in> set (bookings s'). v_booking v = Some (b_pk b) \<and> b_status b = NO_SHOW)"
      using v same(2) by (auto simp: no_show_violation_def)
  qed
  ultimately show ?thesis
    using s'(1) s1(2) same ev wf' q pos
    by (auto simp: forfeit_inv_def adds_violations_def no_show_recorded_def)
qed

interpretation forfeit: row_sweep "record_no_show policy actor" set_no_show "\<lambda>b. b_status b = SCHEDULED"
  "forfeit_inv policy" adds_violations "no_show_recorded policy" for policy actor
proof (unfold_locales, goal_cases)
  case (2 s b)
  then show ?case by (rule no_show_round)
qed (auto simp: set_no_show_def adds_violations_def no_show_recorded_def intro: quiet_trans)

section \<open>One automatic suspension\<close>

definition cancelled_by_sanction :: "time \<Rightarrow> actor \<Rightarrow> booking \<Rightarrow> booking" where
  "cancelled_by_sanction now actor = set_cancelled now (actor_pk actor) ''SUSPENSION'' False"

definition cancel_users :: "time \<Rightarrow> actor \<Rightarrow> nat set \<Rightarrow> booking list \<Rightarrow> booking list" where
  "cancel_users now actor U = map (\<lambda>b. if b_user b \<in> U \<and> unstarted b then cancelled_by_sanction now actor b else b)"

lemma unstarted_cancelled [simp]: "\<not> unstarted (cancelled_by_sanction now actor b)"
  "b_user (cancelled_by_sanction now actor b) = b_user b"
  "b_status (cancelled_by_sanction now actor b) = CANCELLED"
  by (simp_all add: unstarted_def cancelled_by_sanction_def)

lemma cancel_users_comp: "cancel_users now actor U (cancel_users now actor V bs) = cancel_users now actor (U \<union> V) bs"
  by (induction bs) (auto simp: cancel_users_def)

lemma cancel_users_empty [simp]: "cancel_users now actor {} bs = bs"
  by (simp add: cancel_users_def)

lemma consume_strikes_pk [simp]: "map v_pk (consume_strikes now u k vs) = map v_pk vs"
  by (simp add: consume_strikes_def)

lemma consume_strikes_ok:
  assumes "sanctions_ok s" "violations s' = consume_strikes now u k (violations s)" "suspensions s' = suspensions s"
  shows "sanctions_ok s'"
proof -
  have origin: "\<exists>w \<in> set (violations s). v_pk w = v_pk v \<and> v_kind w = v_kind v \<and> v_booking w = v_booking v
      \<and> violation_check_error w = violation_check_error v" if "v \<in> set (violations s')" for v
  proof -
    from that obtain w where w: "w \<in> set (violations s)" "v = w \<or> v = w\<lparr>v_consumed_by := Some k\<rparr>"
      unfolding assms(2) consume_strikes_def by (auto split: if_splits)
    from w(2) have "v_pk w = v_pk v \<and> v_kind w = v_kind v \<and> v_booking w = v_booking v
        \<and> violation_check_error w = violation_check_error v"
      by (elim disjE) (simp_all add: violation_check_error_def)
    with w(1) show ?thesis by blast
  qed
  have "\<not> same_no_show v w" if "v \<in> set (violations s')" "w \<in> set (violations s')" "v_pk v \<noteq> v_pk w" for v w
  proof
    assume same: "same_no_show v w"
    from origin [OF that(1)] obtain v0 where v0: "v0 \<in> set (violations s)" "v_pk v0 = v_pk v"
      "v_kind v0 = v_kind v" "v_booking v0 = v_booking v" by blast
    from origin [OF that(2)] obtain w0 where w0: "w0 \<in> set (violations s)" "v_pk w0 = v_pk w"
      "v_kind w0 = v_kind w" "v_booking w0 = v_booking w" by blast
    have "same_no_show v0 w0" using same v0 w0 unfolding same_no_show_def by metis
    from sanctions_okD(5) [OF assms(1) v0(1) w0(1) this] that(3) v0(2) w0(2) show False by simp
  qed
  moreover have "violation_check_error v = None" if "v \<in> set (violations s')" for v
    using origin [OF that] sanctions_okD(3) [OF assms(1)] by metis
  ultimately show ?thesis
    using sanctions_okD(1,2,4) [OF assms(1)] unfolding sanctions_ok_def by (simp add: assms(2,3))
qed

lemma cancel_scheduled_run:
  assumes "well_formed s"
  shows "\<exists>n s'. cancel_scheduled_for_suspension now user actor s = Inr (n, s')
    \<and> bookings s' = cancel_users now actor {u_pk user} (bookings s)
    \<and> well_formed s' \<and> evolves s s' \<and> plain s s'"
  using suspend.sweep_query [OF assms TrueI, of "\<lambda>b. b_user b = u_pk user \<and> unstarted b" now user actor b_slot_start]
  by (auto simp: cancel_scheduled_for_suspension_def cancel_users_def cancelled_by_sanction_def Let_def)

lemma automatic_suspension_pk [simp]: "sp_pk (automatic_suspension u now policy actor pk) = pk"
  "(automatic_suspension u now policy actor pk)\<lparr>sp_pk := pk'\<rparr> = automatic_suspension u now policy actor pk'"
  by (simp_all add: automatic_suspension_def)

lemma automatic_suspension_run:
  assumes wf: "well_formed s" and ok: "sanctions_ok s" and ff: "forfeits s" and pos: "0 < auto_suspension_days policy"
  shows "\<exists>s' pk. create_automatic_suspension u now policy actor s = Inr s'
    \<and> suspensions s' = suspensions s @ [automatic_suspension u now policy actor pk]
    \<and> violations s' = consume_strikes now u pk (violations s)
    \<and> bookings s' = cancel_users now actor {u} (bookings s)
    \<and> well_formed s' \<and> evolves s s' \<and> sanctions_ok s' \<and> forfeits s' \<and> quiet s s'"
proof -
  let ?pk = "fresh_pk (map sp_pk (suspensions s))"
  let ?sp = "automatic_suspension u now policy actor ?pk"
  let ?s1 = "s\<lparr>suspensions := suspensions s @ [?sp]\<rparr>"
  let ?s2 = "?s1\<lparr>violations := consume_strikes now u ?pk (violations s)\<rparr>"
  have "suspension_check_error ?sp = None"
    using pos us_pos(4) by (simp add: suspension_check_error_def automatic_suspension_def)
  then have c: "create_suspension (automatic_suspension u now policy actor) s = Inr (?sp, ?s1)"
    by (simp add: create_suspension_def Let_def)
  have wf2: "well_formed ?s2" using wf well_formed_cong [of ?s2 s] by simp
  obtain s3 n s' where s3: "logs ?s2 s3"
    and x: "cancel_scheduled_for_suspension now (user_of s u) actor s3 = Inr (n, s')"
      "bookings s' = cancel_users now actor {u} (bookings s3)" "well_formed s'" "evolves s3 s'" "plain s3 s'"
    and run: "create_automatic_suspension u now policy actor s = Inr s'"
  proof -
    let ?s3 = "enqueue ''sanction_applied'' (Some (user_of s u)) (''suspension_applied:'' @ show_nat ?pk)
              [(''suspension_id'', PNat ?pk), (''starts_at'', PStr (isoformat (sp_starts_at ?sp))),
               (''ends_at'', opt_val (PStr \<circ> isoformat) (sp_ends_at ?sp)),
               (''strike_count'', PNat (length (map v_pk (filter (\<lambda>v. v_user v = u) (eligible_strikes now ?s1))))),
               (''reason'', PStr (sp_reason ?sp))]
         (record_audit ''suspension.applied'' ''Suspension'' (show_nat ?pk) actor (reconciler_label actor)
              [(''starts_at'', PIso (sp_starts_at ?sp)), (''ends_at'', opt_val PIso (sp_ends_at ?sp)),
               (''consumed_violations'', PList (map PNat (map v_pk (filter (\<lambda>v. v_user v = u)
                  (eligible_strikes now ?s1)))))] (sp_reason ?sp) ?s2)"
    have l: "logs ?s2 ?s3" by simp
    obtain n s' where x: "cancel_scheduled_for_suspension now (user_of s u) actor ?s3 = Inr (n, s')"
      "bookings s' = cancel_users now actor {u} (bookings ?s3)" "well_formed s'" "evolves ?s3 s'" "plain ?s3 s'"
      using cancel_scheduled_run [OF logs_well_formed [OF l wf2], of now "user_of s u" actor] by auto
    have "create_automatic_suspension u now policy actor s = Inr s'"
      unfolding create_automatic_suspension_def Let_def c using x(1)
      by simp
    with l x that show ?thesis by blast
  qed
  have same: "suspensions s' = suspensions s @ [?sp]" "violations s' = consume_strikes now u ?pk (violations s)"
    "bookings s' = cancel_users now actor {u} (bookings s)"
    using x(2,5) logs_frame [OF s3] by (simp_all add: plain_def)
  have q: "quiet s s'"
    using quiet_trans [OF quiet_trans [OF _ quiet_logs [OF s3]], of s s'] x(5)
    by (simp add: plain_def) (simp add: quiet_def)
  have ev: "evolves s s'"
    using x(4) logs_frame(14) [OF s3] evolves_bookings_cong(2) [of s3 s s'] by simp
  have "sanctions_ok s'"
    using consume_strikes_ok [OF create_suspension_ok [OF ok c]] same by simp
  moreover have "forfeits s'"
    by (rule forfeits_evolves [OF ff ev]) (auto simp: same(2) consume_strikes_def)
  ultimately show ?thesis using run same x(3) ev q by blast
qed

end
