(* ===== verification/Reconciled.thy ===== *)
theory Reconciled
  imports Reconcile
begin

text \<open>
  What a run of \<open>reconcile\<close> achieves: the loop over the strike thresholds, the notices of finished
  suspensions, and the composition of all steps. Everything that was due is settled, exactly that is
  written, a second run at the same moment finds nothing to do, and on a database the constraints
  allow the only failure is a backlog above the budget.
\<close>

section \<open>The strike thresholds\<close>

text \<open>A sanction the loop has just imposed: in force, all strikes spent, no live booking left.\<close>

definition sanction_in_force :: "time \<Rightarrow> st \<Rightarrow> suspension \<Rightarrow> bool" where
  "sanction_in_force now s sp \<longleftrightarrow> sp_source sp = AUTO \<and> suspension_active now sp
     \<and> strike_total now s (sp_user sp) = 0
     \<and> (\<forall>b \<in> set (bookings s). b_user b = sp_user sp \<longrightarrow> \<not> unstarted b)"

text \<open>A violation up to the sanction it was spent on.\<close>

definition unconsumed :: "violation \<Rightarrow> violation" where
  "unconsumed v = v\<lparr>v_consumed_by := None\<rparr>"

definition sanctions_grow :: "time \<Rightarrow> actor \<Rightarrow> st \<Rightarrow> st \<Rightarrow> bool" where
  "sanctions_grow now actor s s' \<longleftrightarrow> quiet s s' \<and> evolves s s'
     \<and> (\<exists>new. suspensions s' = suspensions s @ new)
     \<and> (\<exists>U. bookings s' = cancel_users now actor U (bookings s))
     \<and> (\<forall>u. strike_total now s' u \<le> strike_total now s u)
     \<and> (\<forall>v \<in> set (violations s). \<exists>w \<in> set (violations s'). unconsumed w = unconsumed v)"

lemma cancel_users_settled:
  assumes "b \<in> set (cancel_users now actor U bs)" "b_user b \<in> U"
  shows "\<not> unstarted b"
proof -
  from assms(1) obtain x where "b = (if b_user x \<in> U \<and> unstarted x then cancelled_by_sanction now actor x else x)"
    unfolding cancel_users_def set_map by (rule imageE)
  with assms(2) show ?thesis by (cases "b_user x \<in> U \<and> unstarted x") auto
qed

lemma sanctions_grow_refl [simp]: "sanctions_grow now actor s s"
proof -
  have "\<exists>U. bookings s = cancel_users now actor U (bookings s)" using cancel_users_empty by metis
  then show ?thesis by (auto simp: sanctions_grow_def)
qed

lemma sanctions_grow_trans:
  assumes "sanctions_grow now actor a b" "sanctions_grow now actor b c"
  shows "sanctions_grow now actor a c"
proof -
  from assms obtain n1 n2 U V where "suspensions b = suspensions a @ n1" "suspensions c = suspensions b @ n2"
    "bookings b = cancel_users now actor U (bookings a)" "bookings c = cancel_users now actor V (bookings b)"
    by (auto simp: sanctions_grow_def)
  then have "\<exists>n. suspensions c = suspensions a @ n" "\<exists>W. bookings c = cancel_users now actor W (bookings a)"
    by (auto simp: cancel_users_comp)
  moreover have "\<forall>v \<in> set (violations a). \<exists>w \<in> set (violations c). unconsumed w = unconsumed v"
    using assms unfolding sanctions_grow_def by metis
  ultimately show ?thesis
    using assms unfolding sanctions_grow_def by (meson evolves_trans order_trans quiet_trans)
qed

lemma suspended_now_mono: "suspended_now now s u \<Longrightarrow> sanctions_grow now actor s s' \<Longrightarrow> suspended_now now s' u"
  by (auto simp: suspended_now_def sanctions_grow_def)

lemma sanction_in_force_mono:
  assumes "sanction_in_force now s sp" "sanctions_grow now actor s s'"
  shows "sanction_in_force now s' sp"
proof -
  from assms(2) obtain U where "bookings s' = cancel_users now actor U (bookings s)"
    and le: "strike_total now s' (sp_user sp) \<le> strike_total now s (sp_user sp)"
    by (auto simp: sanctions_grow_def)
  then have "\<forall>b \<in> set (bookings s'). b_user b = sp_user sp \<longrightarrow> \<not> unstarted b"
    using assms(1) by (auto simp: sanction_in_force_def cancel_users_def)
  with assms(1) le show ?thesis by (simp add: sanction_in_force_def)
qed

lemma strike_total_consume:
  "violations s' = consume_strikes now u k (violations s) \<Longrightarrow>
     strike_total now s' w = (if w = u then 0 else strike_total now s w)"
  unfolding strike_total_def consume_strikes_def
  by (auto simp: filter_map comp_def is_eligible_strike_def intro!: arg_cong [where f = length] filter_cong
      simp: filter_empty_conv)

lemma consume_strikes_unconsumed:
  assumes "violations s' = consume_strikes now u k (violations s)"
  shows "\<forall>v \<in> set (violations s). \<exists>w \<in> set (violations s'). unconsumed w = unconsumed v"
proof
  fix v assume "v \<in> set (violations s)"
  then have "(if is_eligible_strike now v \<and> v_user v = u then v\<lparr>v_consumed_by := Some k\<rparr> else v) \<in> set (violations s')"
    unfolding assms consume_strikes_def set_map by (rule imageI)
  then show "\<exists>w \<in> set (violations s'). unconsumed w = unconsumed v"
    by (rule bexI [rotated]) (simp add: unconsumed_def)
qed

lemma automatic_suspension_active:
  "0 < auto_suspension_days policy \<Longrightarrow> suspension_active now (automatic_suspension u now policy actor pk)"
  using us_pos(4) by (simp add: suspension_active_def automatic_suspension_def)

text \<open>The invariant of the loop over the users \<open>rows\<close>, which started in \<open>s0\<close>.\<close>

definition threshold_inv :: "time \<Rightarrow> actor \<Rightarrow> nat list \<Rightarrow> st \<Rightarrow> nat \<times> st \<Rightarrow> bool" where
  "threshold_inv now actor rows s0 acc \<longleftrightarrow> well_formed (snd acc) \<and> sanctions_ok (snd acc) \<and> forfeits (snd acc)
     \<and> sanctions_grow now actor s0 (snd acc)
     \<and> (\<exists>new. suspensions (snd acc) = suspensions s0 @ new \<and> length new = fst acc
          \<and> (\<forall>sp \<in> set new. sp_user sp \<in> set rows \<and> \<not> suspended_now now s0 (sp_user sp)
               \<and> sanction_in_force now (snd acc) sp))"

lemma threshold_round:
  assumes inv: "threshold_inv now actor rows s0 (n, s)" and u: "u \<in> set rows" and pos: "0 < auto_suspension_days policy"
  shows "\<exists>acc. counted (suspended_now now) (\<lambda>u. create_automatic_suspension u now policy actor) u (n, s) = Inr acc
    \<and> threshold_inv now actor rows s0 acc \<and> suspended_now now (snd acc) u \<and> sanctions_grow now actor s (snd acc)"
proof (cases "suspended_now now s u")
  case True
  with inv show ?thesis by simp
next
  case False
  from inv have s: "well_formed s" "sanctions_ok s" "forfeits s" "sanctions_grow now actor s0 s"
    by (simp_all add: threshold_inv_def)
  from inv obtain new where new: "suspensions s = suspensions s0 @ new" "length new = n"
    "\<And>sp. sp \<in> set new \<Longrightarrow> sp_user sp \<in> set rows \<and> \<not> suspended_now now s0 (sp_user sp) \<and> sanction_in_force now s sp"
    by (auto simp: threshold_inv_def)
  from automatic_suspension_run [OF s(1-3) pos, of u now actor] obtain s' pk where
    run: "create_automatic_suspension u now policy actor s = Inr s'"
    and sp: "suspensions s' = suspensions s @ [automatic_suspension u now policy actor pk]"
    and vs: "violations s' = consume_strikes now u pk (violations s)"
    and bk: "bookings s' = cancel_users now actor {u} (bookings s)"
    and s': "well_formed s'" "evolves s s'" "sanctions_ok s'" "forfeits s'" "quiet s s'"
    by blast
  let ?sp = "automatic_suspension u now policy actor pk"
  have grow: "sanctions_grow now actor s s'"
    unfolding sanctions_grow_def
    using sp bk s' strike_total_consume [OF vs] consume_strikes_unconsumed [OF vs] by auto
  have user: "sp_user ?sp = u" by (simp add: automatic_suspension_def)
  have force: "sanction_in_force now s' ?sp"
    unfolding sanction_in_force_def user
  proof (intro conjI ballI impI)
    show "sp_source ?sp = AUTO" by (simp add: automatic_suspension_def)
    show "suspension_active now ?sp" by (rule automatic_suspension_active [OF pos])
    show "strike_total now s' u = 0" by (simp add: strike_total_consume [OF vs])
    fix b assume "b \<in> set (bookings s')" "b_user b = u"
    then show "\<not> unstarted b" unfolding bk by (intro cancel_users_settled [of b now actor "{u}"]) simp_all
  qed
  have fresh: "\<not> suspended_now now s0 u"
    using False suspended_now_mono [OF _ s(4)] by blast
  have all: "sp_user x \<in> set rows \<and> \<not> suspended_now now s0 (sp_user x) \<and> sanction_in_force now s' x"
    if "x \<in> set (new @ [?sp])" for x
  proof (cases "x = ?sp")
    case True
    with u user force fresh show ?thesis by simp
  next
    case False
    with that have "x \<in> set new" by simp
    with new(3) [of x] sanction_in_force_mono [OF _ grow, of x] show ?thesis by blast
  qed
  have "threshold_inv now actor rows s0 (n + 1, s')"
    unfolding threshold_inv_def fst_conv snd_conv
    using s' sanctions_grow_trans [OF s(4) grow] sp new(1,2) all
    by (intro conjI exI [of _ "new @ [?sp]"]) auto
  moreover have "suspended_now now s' u"
    using automatic_suspension_active [OF pos] user by (simp add: suspended_now_def sp)
  ultimately show ?thesis using False run grow by simp
qed

lemma thresholds_run:
  assumes "well_formed s" "sanctions_ok s" "forfeits s" "0 < auto_suspension_days (current_policy s)"
  shows "\<exists>n s' new. apply_strike_thresholds now actor s = Inr (n, s')
    \<and> well_formed s' \<and> sanctions_ok s' \<and> forfeits s' \<and> sanctions_grow now actor (ensure_policy s) s'
    \<and> (\<forall>u. 0 < strike_total now s' u \<and> strike_threshold (current_policy s) \<le> int (strike_total now s' u)
         \<longrightarrow> suspended_now now s' u)
    \<and> suspensions s' = suspensions s @ new \<and> length new = n
    \<and> (\<forall>sp \<in> set new. \<not> suspended_now now s (sp_user sp) \<and> sanction_in_force now s' sp
         \<and> strike_threshold (current_policy s) \<le> int (strike_total now s (sp_user sp)))"
proof -
  let ?p = "current_policy s" and ?s0 = "ensure_policy s"
  let ?rows = "filter (\<lambda>u. int (strike_total now ?s0 u) \<ge> strike_threshold ?p)
     (remdups (map v_user (filter (is_eligible_strike now) (violations ?s0))))"
  let ?f = "counted (suspended_now now) (\<lambda>u. create_automatic_suspension u now ?p actor)"
  have total: "strike_total now ?s0 = strike_total now s" "suspended_now now ?s0 = suspended_now now s"
    by (simp_all add: strike_total_def suspended_now_def fun_eq_iff)
  have init: "threshold_inv now actor ?rows ?s0 (0, ?s0)"
    using assms sanctions_ok_cong [of ?s0 s] forfeits_plain [OF assms(3), of ?s0]
    by (simp add: threshold_inv_def)
  have round: "\<exists>acc'. ?f u acc = Inr acc' \<and> threshold_inv now actor ?rows ?s0 acc'
      \<and> suspended_now now (snd acc') u \<and> sanctions_grow now actor (snd acc) (snd acc')"
    if "u \<in> set ?rows" "threshold_inv now actor ?rows ?s0 acc" for u acc
    using threshold_round [OF _ that(1) assms(4), of now actor ?s0 "fst acc" "snd acc"] that(2) by simp
  have "\<exists>acc. foldE ?f ?rows (0, ?s0) = Inr acc \<and> threshold_inv now actor ?rows ?s0 acc
    \<and> sanctions_grow now actor (snd (0::nat, ?s0)) (snd acc) \<and> (\<forall>u \<in> set ?rows. suspended_now now (snd acc) u)"
    by (rule foldE_each [where P = "threshold_inv now actor ?rows ?s0"
          and R = "\<lambda>a b. sanctions_grow now actor (snd a) (snd b)" and Q = "\<lambda>u acc. suspended_now now (snd acc) u"])
      (use init round in \<open>auto intro: sanctions_grow_trans suspended_now_mono\<close>)
  then obtain n s' where run: "foldE ?f ?rows (0, ?s0) = Inr (n, s')" "threshold_inv now actor ?rows ?s0 (n, s')"
    "sanctions_grow now actor ?s0 s'" "\<forall>u \<in> set ?rows. suspended_now now s' u" by force
  have settled: "suspended_now now s' u"
    if "0 < strike_total now s' u" "strike_threshold ?p \<le> int (strike_total now s' u)" for u
  proof -
    have le: "strike_total now s' u \<le> strike_total now s u"
      using run(3) total(1) by (simp add: sanctions_grow_def)
    with that(1) have "filter (\<lambda>v. is_eligible_strike now v \<and> v_user v = u) (violations s) \<noteq> []"
      by (auto simp: strike_total_def)
    then have "u \<in> set (map v_user (filter (is_eligible_strike now) (violations s)))"
      by (auto simp: filter_empty_conv)
    with that(2) le have "u \<in> set ?rows" by (simp add: total)
    with run(4) show ?thesis by blast
  qed
  from run(2) obtain new where new: "suspensions s' = suspensions s @ new" "length new = n"
    "\<forall>sp \<in> set new. sp_user sp \<in> set ?rows \<and> \<not> suspended_now now s (sp_user sp) \<and> sanction_in_force now s' sp"
    by (auto simp: threshold_inv_def total)
  moreover have "apply_strike_thresholds now actor s = Inr (n, s')"
    using run(1) by (simp add: apply_strike_thresholds_def Let_def)
  ultimately show ?thesis
    using run(2,3) settled by (intro exI [of _ n] exI [of _ s'] exI [of _ new]) (auto simp: threshold_inv_def total)
qed

section \<open>Finished suspensions\<close>

lemma set_end_notified_check [simp]:
  "suspension_check_error (set_end_notified now sp) = suspension_check_error sp"
  by (cases "sp_ends_at sp") (simp_all add: suspension_check_error_def set_end_notified_def)

lemma notify_rows:
  assumes "well_formed s" "sanctions_ok s" "distinct (map sp_pk rows)"
    and "\<And>sp. sp \<in> set rows \<Longrightarrow> get_row sp_pk (sp_pk sp) (suspensions s) = Some sp"
  shows "\<exists>t. foldE (notify_finished now) rows s = Inr t
    \<and> suspensions t = map (\<lambda>sp. if sp_pk sp \<in> sp_pk ` set rows then set_end_notified now sp else sp) (suspensions s)
    \<and> bookings t = bookings s \<and> violations t = violations s \<and> well_formed t \<and> sanctions_ok t \<and> quiet s t"
  using assms
proof (induction rows arbitrary: s)
  case Nil
  then show ?case by simp
next
  case (Cons r rows)
  have r: "get_row sp_pk (sp_pk r) (suspensions s) = Some r" using Cons.prems(4) by simp
  then have rm: "r \<in> set (suspensions s)" by (auto dest: get_row_Some)
  have pk: "sp_pk (set_end_notified now x) = sp_pk x" for x by (simp add: set_end_notified_def)
  have "suspension_check_error (set_end_notified now r) = None"
    using sanctions_okD(4) [OF Cons.prems(2) rm] by simp
  with r have u: "update_suspension (sp_pk r) (set_end_notified now) s
      = Inr (s\<lparr>suspensions := update_row sp_pk (sp_pk r) (set_end_notified now) (suspensions s)\<rparr>)"
    (is "_ = Inr ?s1") by (simp add: update_suspension_def)
  obtain s2 where s2: "notify_finished now r s = Inr s2" "logs ?s1 s2"
    by (simp add: notify_finished_def u)
  note fr = logs_frame [OF s2(2)]
  have wf: "well_formed s2"
    using logs_well_formed [OF s2(2)] well_formed_cong [of ?s1 s] Cons.prems(1) by simp
  have ok: "sanctions_ok s2"
    using update_suspension_ok [OF Cons.prems(2) u] pk sanctions_ok_cong [of s2 ?s1] fr by simp
  have q: "quiet s s2" using quiet_trans [OF _ quiet_logs [OF s2(2)], of s] by (simp add: quiet_def)
  have rows: "get_row sp_pk (sp_pk sp) (suspensions s2) = Some sp" if "sp \<in> set rows" for sp
  proof -
    from that have "sp_pk sp \<in> sp_pk ` set rows" by (rule imageI)
    moreover from Cons.prems(3) have "sp_pk r \<notin> sp_pk ` set rows" by simp
    ultimately have "sp_pk sp \<noteq> sp_pk r" by metis
    with Cons.prems(4) that fr show ?thesis by (simp add: get_row_update_row pk)
  qed
  from Cons.IH [OF wf ok _ rows] Cons.prems(3) obtain t where t: "foldE (notify_finished now) rows s2 = Inr t"
    "suspensions t = map (\<lambda>sp. if sp_pk sp \<in> sp_pk ` set rows then set_end_notified now sp else sp) (suspensions s2)"
    "bookings t = bookings s2" "violations t = violations s2" "well_formed t" "sanctions_ok t" "quiet s2 t" by auto
  have "suspensions t = map (\<lambda>sp. if sp_pk sp \<in> sp_pk ` set (r # rows) then set_end_notified now sp else sp) (suspensions s)"
    using Cons.prems(3) fr by (auto simp: t(2) update_row_def pk)
  with s2(1) t fr quiet_trans [OF q t(7)] show ?case by simp
qed

lemma notify_run:
  assumes "well_formed s" "sanctions_ok s"
  shows "\<exists>s'. notify_finished_suspensions now s = Inr (length (filter (finished now) (suspensions s)), s')
    \<and> suspensions s' = map (\<lambda>sp. if finished now sp then set_end_notified now sp else sp) (suspensions s)
    \<and> bookings s' = bookings s \<and> violations s' = violations s \<and> well_formed s' \<and> sanctions_ok s' \<and> quiet s s'"
proof -
  let ?rows = "order_by_desc sp_starts_at (filter (finished now) (suspensions s))"
  note d = sanctions_okD(2) [OF assms(2)]
  have "distinct ?rows" "set ?rows \<subseteq> set (suspensions s)" using d by (auto simp: distinct_map)
  then have dist: "distinct (map sp_pk ?rows)"
    using d unfolding distinct_map by (auto intro: inj_on_subset)
  have rows: "get_row sp_pk (sp_pk sp) (suspensions s) = Some sp" if "sp \<in> set ?rows" for sp
    using that get_row_unique [OF d] by auto
  have keys: "sp_pk sp \<in> sp_pk ` set ?rows \<longleftrightarrow> finished now sp" if "sp \<in> set (suspensions s)" for sp
    using inj_on_image_mem_iff [of sp_pk "set (suspensions s)" sp "set ?rows"] d that by (simp add: distinct_map)
  from notify_rows [OF assms dist rows, of now] obtain t where t: "foldE (notify_finished now) ?rows s = Inr t"
    "suspensions t = map (\<lambda>sp. if sp_pk sp \<in> sp_pk ` set ?rows then set_end_notified now sp else sp) (suspensions s)"
    "bookings t = bookings s" "violations t = violations s" "well_formed t" "sanctions_ok t" "quiet s t" by blast
  have "foldE (counted (\<lambda>_ _. False) (notify_finished now)) ?rows (0, s) = Inr (length ?rows, t)"
    using foldE_counted [where P = "\<lambda>_. True" and c = "\<lambda>_. False"
        and f = "notify_finished now" and skip = "\<lambda>_ _. False" and xs = ?rows and n = 0 and s = s] t(1) by simp
  moreover have "suspensions t = map (\<lambda>sp. if finished now sp then set_end_notified now sp else sp) (suspensions s)"
    unfolding t(2) using keys by (intro map_cong) auto
  ultimately show ?thesis using t by (simp add: notify_finished_suspensions_def Let_def)
qed

section \<open>The composition\<close>

text \<open>What the constraints and the operations maintain, and a policy its validation lets through.\<close>

definition sound :: "st \<Rightarrow> bool" where
  "sound s \<longleftrightarrow> well_formed s \<and> sanctions_ok s \<and> forfeits s"

definition policy_sane :: "st \<Rightarrow> bool" where
  "policy_sane s \<longleftrightarrow> 0 < strike_window_days (current_policy s) \<and> 0 < auto_suspension_days (current_policy s)"

lemma soundD: "sound s \<Longrightarrow> well_formed s" "sound s \<Longrightarrow> sanctions_ok s" "sound s \<Longrightarrow> forfeits s"
  by (simp_all add: sound_def)

lemma sound_plain:
  "sound s \<Longrightarrow> well_formed s' \<Longrightarrow> evolves s s' \<Longrightarrow> plain s s' \<Longrightarrow> sound s'"
  using sanctions_ok_cong [of s' s] forfeits_plain [of s s'] by (simp add: sound_def plain_def)

lemma sound_ensure_policy [simp]: "sound (ensure_policy s) = sound s"
  by (simp add: sound_def sanctions_ok_def forfeits_def)

definition forfeited :: "time \<Rightarrow> st \<Rightarrow> booking \<Rightarrow> bool" where
  "forfeited now s b \<longleftrightarrow> no_show_due now b \<and> \<not> incident_covers s b"

text \<open>The specification of one row: at most one of the conditions holds.\<close>

definition settle :: "time \<Rightarrow> st \<Rightarrow> booking \<Rightarrow> booking" where
  "settle now s b =
    (if approval_expired now b then set_expired b
     else if forfeited now s b then set_no_show b
     else if hold_starts now b then set_started b
     else if session_over now b then set_completed b
     else b)"

definition budget_of :: "st \<Rightarrow> nat option \<Rightarrow> nat" where
  "budget_of s b = (case b of None \<Rightarrow> RECONCILE_BUDGET (conf s) | Some n \<Rightarrow> if n = 0 then RECONCILE_BUDGET (conf s) else n)"

definition within_budget :: "time \<Rightarrow> nat \<Rightarrow> st \<Rightarrow> bool" where
  "within_budget now n s \<longleftrightarrow> (\<forall>P \<in> {approval_expired now, no_show_due now, hold_starts now, session_over now}.
     length (filter P (bookings s)) \<le> n)"

lemma count_map:
  assumes "\<And>b. b \<in> set bs \<Longrightarrow> Q b \<Longrightarrow> \<not> P b \<and> \<not> P (f b)"
  shows "length (filter P (map (\<lambda>b. if Q b then f b else b) bs)) = length (filter P bs)"
  using assms by (induction bs) auto

lemma expired_run:
  assumes "sound s" "length (filter (approval_expired now) (bookings s)) \<le> n"
  shows "\<exists>s'. reconcile_expired_approvals now n actor s = Inr (length (filter (approval_expired now) (bookings s)), s')
    \<and> bookings s' = map (\<lambda>b. if approval_expired now b then set_expired b else b) (bookings s)
    \<and> sound s' \<and> evolves s s' \<and> plain s s'"
  using expire.sweep_query [OF soundD(1) [OF assms(1)] TrueI, of "approval_expired now" actor "\<lambda>b. (b_slot_start b, b_pk b)"]
    assms(2) sound_plain [OF assms(1)]
  by (auto simp: reconcile_expired_approvals_def over_budget_def Let_def approval_expired_def)

lemma holds_run:
  assumes "sound s" "length (filter (hold_starts now) (bookings s)) \<le> n"
  shows "\<exists>s'. start_staff_holds now n actor s = Inr (length (filter (hold_starts now) (bookings s)), s')
    \<and> bookings s' = map (\<lambda>b. if hold_starts now b then set_started b else b) (bookings s)
    \<and> sound s' \<and> evolves s s' \<and> plain s s'"
  using start.sweep_query [OF soundD(1) [OF assms(1)] TrueI, of "hold_starts now" actor "\<lambda>b. (b_slot_start b, b_pk b)"]
    assms(2) sound_plain [OF assms(1)]
  by (auto simp: start_staff_holds_def over_budget_def Let_def hold_starts_def)

lemma completions_run:
  assumes "sound s" "length (filter (session_over now) (bookings s)) \<le> n"
  shows "\<exists>s'. reconcile_completions now n actor s = Inr (length (filter (session_over now) (bookings s)), s')
    \<and> bookings s' = map (\<lambda>b. if session_over now b then set_completed b else b) (bookings s)
    \<and> sound s' \<and> evolves s s' \<and> plain s s'"
proof -
  have due: "b_status b = IN_USE \<or> b_status b = SCHEDULED" if "session_over now b" for b
    using that by (auto simp: session_over_def)
  from complete.sweep_query [OF soundD(1) [OF assms(1)] TrueI due, of "session_over now" actor "\<lambda>b. (b_slot_end b, b_pk b)"]
    assms(2) sound_plain [OF assms(1)] show ?thesis
    by (auto simp: reconcile_completions_def over_budget_def Let_def)
qed

lemma record_no_show_incidents:
  assumes "record_no_show policy actor b s = Inr s'"
  shows "incidents s' = incidents s"
proof -
  from assms obtain s1 where s1: "update_booking (b_pk b) set_no_show s = Inr s1"
    and "s' = s1 \<or> (\<exists>v s2. create_violation (no_show_violation policy b) s1 = Inr (v, s2) \<and> logs s2 s')"
    by (auto simp: record_no_show_def bindE_Inr Let_def split: option.splits)
  then show ?thesis
    using update_booking_frame(13) [OF s1] by (auto dest!: create_violation_Inr(3) simp: logs_frame(13))
qed

lemma incident_covers_cong: "incidents s' = incidents s \<Longrightarrow> incident_covers s' = incident_covers s"
  by (simp add: incident_covers_def fun_eq_iff)

lemma no_shows_run:
  assumes "sound s" "0 < strike_window_days (current_policy s)" "length (filter (no_show_due now) (bookings s)) \<le> n"
  shows "\<exists>s'. reconcile_no_shows now n actor s = Inr (length (filter (forfeited now s) (bookings s)), s')
    \<and> bookings s' = map (\<lambda>b. if forfeited now s b then set_no_show b else b) (bookings s)
    \<and> sound s' \<and> evolves s s' \<and> quiet (ensure_policy s) s' \<and> suspensions s' = suspensions s
    \<and> set (violations s) \<subseteq> set (violations s')
    \<and> (\<forall>b \<in> set (bookings s). forfeited now s b \<longrightarrow> no_show_recorded (current_policy s) b s')"
proof -
  let ?s0 = "ensure_policy s" and ?p = "current_policy s"
  let ?key = "\<lambda>b. (deadline_of b, b_pk b)"
  have covers: "incident_covers ?s0 = incident_covers s" by (rule incident_covers_cong) simp
  have inv: "forfeit_inv ?p ?s0" "well_formed ?s0"
    using assms(1,2) sound_ensure_policy [of s] by (auto simp: forfeit_inv_def sound_def)
  have flt: "filter (\<lambda>b. \<not> incident_covers s b) (order_by ?key (filter (no_show_due now) (bookings s)))
      = order_by ?key (filter (forfeited now s) (bookings s))"
    by (simp add: order_by_def filter_sort forfeited_def [abs_def] conj_commute)
  from forfeit.sweep_query [OF inv(2,1), of "forfeited now s" actor ?key] obtain t where
    t: "foldE (record_no_show ?p actor) (order_by ?key (filter (forfeited now s) (bookings s))) ?s0 = Inr t"
      "bookings t = map (\<lambda>b. if forfeited now s b then set_no_show b else b) (bookings s)"
      "well_formed t" "evolves ?s0 t" "forfeit_inv ?p t" "adds_violations ?s0 t"
      "\<forall>b \<in> set (bookings s). forfeited now s b \<longrightarrow> no_show_recorded ?p b t"
    by (auto simp: forfeited_def no_show_due_def)
  have loop: "foldE (counted incident_covers (record_no_show ?p actor))
      (order_by ?key (filter (no_show_due now) (bookings s))) (0, ?s0)
    = Inr (length (filter (forfeited now s) (bookings s)), t)"
  proof -
    have "foldE (counted incident_covers (record_no_show ?p actor))
        (order_by ?key (filter (no_show_due now) (bookings s))) (0, ?s0)
      = bindE (foldE (record_no_show ?p actor) (order_by ?key (filter (forfeited now s) (bookings s))) ?s0)
          (\<lambda>s'. Inr (0 + length (order_by ?key (filter (forfeited now s) (bookings s))), s'))"
      unfolding flt [symmetric]
    proof (rule foldE_counted [where P = "\<lambda>s'. incidents s' = incidents s"])
      show "incidents ?s0 = incidents s" by simp
      show "incidents u' = incidents s" if "incidents u = incidents s" "record_no_show ?p actor x u = Inr u'" for x u u'
        using record_no_show_incidents [OF that(2)] that(1) by simp
      show "incident_covers u x = incident_covers s x" if "incidents u = incidents s" for x u
        using incident_covers_cong [OF that] by simp
    qed
    then show ?thesis by (simp add: t(1))
  qed
  have run: "reconcile_no_shows now n actor s = Inr (length (filter (forfeited now s) (bookings s)), t)"
    using assms(3) by (simp add: reconcile_no_shows_def over_budget_def Let_def loop)
  have "evolves s t" using t(4) by simp
  moreover have "sound t" using t(3,5) by (simp add: sound_def forfeit_inv_def)
  moreover have "quiet ?s0 t" "suspensions t = suspensions s" "set (violations s) \<subseteq> set (violations t)"
    using t(6) by (simp_all add: adds_violations_def)
  ultimately show ?thesis using run t(2,7) by blast
qed

lemma quiet_ensure_policy: "quiet s s' \<Longrightarrow> quiet (ensure_policy s) (ensure_policy s')"
  by (simp add: quiet_def policies_ensure initial_policy_def)

lemmas due_defs = approval_expired_def forfeited_def no_show_due_def hold_starts_def session_over_def

lemma written_due [simp]:
  "\<not> approval_expired now (set_expired b)" "\<not> approval_expired now (set_no_show b)"
  "\<not> approval_expired now (set_started b)" "\<not> approval_expired now (set_completed b)"
  "\<not> no_show_due now (set_expired b)" "\<not> no_show_due now (set_no_show b)"
  "\<not> no_show_due now (set_started b)" "\<not> no_show_due now (set_completed b)"
  "\<not> hold_starts now (set_expired b)" "\<not> hold_starts now (set_no_show b)"
  "\<not> hold_starts now (set_started b)" "\<not> hold_starts now (set_completed b)"
  "\<not> session_over now (set_expired b)" "\<not> session_over now (set_no_show b)"
  "hold_starts now b \<Longrightarrow> \<not> session_over now (set_started b)" "\<not> session_over now (set_completed b)"
  by (simp_all add: due_defs reconcile_writes)

lemma written_forfeited [simp]:
  "\<not> forfeited now s (set_expired b)" "\<not> forfeited now s (set_no_show b)"
  "\<not> forfeited now s (set_started b)" "\<not> forfeited now s (set_completed b)"
  by (simp_all add: forfeited_def)

lemma due_exclusive:
  "approval_expired now b \<Longrightarrow> \<not> no_show_due now b \<and> \<not> hold_starts now b \<and> \<not> session_over now b"
  "no_show_due now b \<Longrightarrow> \<not> hold_starts now b \<and> \<not> session_over now b"
  "hold_starts now b \<Longrightarrow> \<not> session_over now b"
  by (auto simp: due_defs)

lemma settle_steps:
  assumes "b1 = (if approval_expired now b then set_expired b else b)"
    and "b2 = (if forfeited now s b1 then set_no_show b1 else b1)"
    and "b3 = (if hold_starts now b2 then set_started b2 else b2)"
  shows "(if session_over now b3 then set_completed b3 else b3) = settle now s b"
  unfolding assms using due_exclusive by (auto simp: settle_def)

text \<open>Settling a row makes it due for nothing, and never makes another row due.\<close>

lemma settle_settled:
  "\<not> approval_expired now (settle now s b)" "\<not> forfeited now s (settle now s b)"
  "\<not> hold_starts now (settle now s b)" "\<not> session_over now (settle now s b)"
  by (auto simp: settle_def)

lemma no_show_due_settle: "no_show_due now (settle now s b) \<Longrightarrow> settle now s b = b"
  by (auto simp: settle_def split: if_splits)

definition reconciled :: "time \<Rightarrow> actor \<Rightarrow> st \<Rightarrow> st \<Rightarrow> bool" where
  "reconciled now actor s s' \<longleftrightarrow> sound s' \<and> evolves s s' \<and> quiet (ensure_policy s) s'
     \<and> (\<exists>U. bookings s' = cancel_users now actor U (map (settle now s) (bookings s)))
     \<and> (\<forall>b \<in> set (bookings s). forfeited now s b \<longrightarrow>
          (\<exists>v \<in> set (violations s'). unconsumed v = no_show_violation (current_policy s) b (v_pk v)))
     \<and> (\<forall>u. 0 < strike_total now s' u \<and> strike_threshold (current_policy s) \<le> int (strike_total now s' u)
          \<longrightarrow> suspended_now now s' u)
     \<and> (\<forall>sp \<in> set (suspensions s'). \<not> finished now sp)"

lemma unconsumed_recorded:
  assumes "unconsumed w = unconsumed (no_show_violation p b k)"
  shows "unconsumed w = no_show_violation p b (v_pk w)"
proof -
  have "v_pk (unconsumed w) = v_pk w" by (simp add: unconsumed_def)
  with assms have "v_pk w = k" by (simp add: unconsumed_def)
  with assms show ?thesis by (simp add: unconsumed_def no_show_violation_def)
qed

lemma suspended_now_notified:
  "suspensions s' = map (\<lambda>sp. if finished now sp then set_end_notified now sp else sp) (suspensions s)
     \<Longrightarrow> suspended_now now s' u = suspended_now now s u"
proof -
  assume eq: "suspensions s' = map (\<lambda>sp. if finished now sp then set_end_notified now sp else sp) (suspensions s)"
  have "(suspension_active now (if finished now sp then set_end_notified now sp else sp)
      \<and> sp_user (if finished now sp then set_end_notified now sp else sp) = u)
    \<longleftrightarrow> suspension_active now sp \<and> sp_user sp = u" for sp
    by (simp add: set_end_notified_def suspension_active_def)
  then show ?thesis unfolding suspended_now_def eq list_ex_iff set_map bex_simps by blast
qed

text \<open>A stage never changes how many rows a later stage finds.\<close>

lemma count_later:
  fixes bs :: "booking list" and now :: time and s :: st
  defines "expired \<equiv> map (\<lambda>b. if approval_expired now b then set_expired b else b) bs"
    and "noshow \<equiv> map (\<lambda>b. if forfeited now s b then set_no_show b else b) bs"
    and "started \<equiv> map (\<lambda>b. if hold_starts now b then set_started b else b) bs"
  shows "length (filter (no_show_due now) expired) = length (filter (no_show_due now) bs)"
    "length (filter (hold_starts now) expired) = length (filter (hold_starts now) bs)"
    "length (filter (session_over now) expired) = length (filter (session_over now) bs)"
    "length (filter (hold_starts now) noshow) = length (filter (hold_starts now) bs)"
    "length (filter (session_over now) noshow) = length (filter (session_over now) bs)"
    "length (filter (session_over now) started) = length (filter (session_over now) bs)"
  unfolding assms by (rule count_map; use due_exclusive in \<open>auto simp: forfeited_def\<close>)+

text \<open>The four stages that move bookings.\<close>

lemma booking_stages_run:
  assumes s: "sound s" "0 < strike_window_days (current_policy s)" and budget: "within_budget now n s"
  shows "\<exists>n1 n2 n3 n4 s1 s2 s3 s4. reconcile_expired_approvals now n actor s = Inr (n1, s1)
    \<and> reconcile_no_shows now n actor s1 = Inr (n2, s2) \<and> start_staff_holds now n actor s2 = Inr (n3, s3)
    \<and> reconcile_completions now n actor s3 = Inr (n4, s4)
    \<and> bookings s4 = map (settle now s) (bookings s) \<and> sound s4 \<and> evolves s s4
    \<and> quiet (ensure_policy s) s4 \<and> suspensions s4 = suspensions s
    \<and> (\<forall>b \<in> set (bookings s). forfeited now s b \<longrightarrow> no_show_recorded (current_policy s) b s4)"
proof -
  let ?n = "\<lambda>P. length (filter P (bookings s))"
  have le: "?n (approval_expired now) \<le> n" "?n (no_show_due now) \<le> n" "?n (hold_starts now) \<le> n" "?n (session_over now) \<le> n"
    using budget by (simp_all add: within_budget_def)
  from expired_run [OF s(1) le(1), of actor] obtain s1 where
    s1: "reconcile_expired_approvals now n actor s = Inr (?n (approval_expired now), s1)"
      "bookings s1 = map (\<lambda>b. if approval_expired now b then set_expired b else b) (bookings s)"
      "sound s1" "evolves s s1" "plain s s1" by blast
  then have q1: "quiet s s1" "suspensions s1 = suspensions s" by (simp_all add: plain_def)
  note p1 = quiet_facts(9) [OF q1(1)]
  have f1: "forfeited now s1 = forfeited now s"
    using incident_covers_cong [OF quiet_facts(3) [OF q1(1)]] by (simp add: forfeited_def fun_eq_iff)
  have "length (filter (no_show_due now) (bookings s1)) \<le> n"
    unfolding s1(2) count_later using le(2) .
  with no_shows_run [OF s1(3), of now n actor] s(2) p1 obtain s2 k where
    s2: "reconcile_no_shows now n actor s1 = Inr (k, s2)"
      "bookings s2 = map (\<lambda>b. if forfeited now s b then set_no_show b else b) (bookings s1)"
      "sound s2" "evolves s1 s2" "quiet (ensure_policy s1) s2" "suspensions s2 = suspensions s1"
      "\<forall>b \<in> set (bookings s1). forfeited now s b \<longrightarrow> no_show_recorded (current_policy s) b s2"
    by (auto simp: f1)
  have "length (filter (hold_starts now) (bookings s2)) \<le> n"
    unfolding s2(2) s1(2) count_later using le(3) .
  from holds_run [OF s2(3) this, of actor] obtain s3 m where
    s3: "start_staff_holds now n actor s2 = Inr (m, s3)"
      "bookings s3 = map (\<lambda>b. if hold_starts now b then set_started b else b) (bookings s2)"
      "sound s3" "evolves s2 s3" "plain s2 s3" by blast
  have "length (filter (session_over now) (bookings s3)) \<le> n"
    unfolding s3(2) s2(2) s1(2) count_later using le(4) .
  from completions_run [OF s3(3) this, of actor] obtain s4 l where
    s4: "reconcile_completions now n actor s3 = Inr (l, s4)"
      "bookings s4 = map (\<lambda>b. if session_over now b then set_completed b else b) (bookings s3)"
      "sound s4" "evolves s3 s4" "plain s3 s4" by blast
  have bk: "bookings s4 = map (settle now s) (bookings s)"
    unfolding s4(2) s3(2) s2(2) s1(2) map_map comp_def by (intro map_cong refl settle_steps) simp_all
  have "quiet (ensure_policy s) s4"
    using quiet_trans [OF quiet_trans [OF quiet_ensure_policy [OF q1(1)] s2(5)]] s3(5) s4(5) quiet_trans
    unfolding plain_def by blast
  moreover have "suspensions s4 = suspensions s" "violations s4 = violations s2"
    using q1(2) s2(6) s3(5) s4(5) by (simp_all add: plain_def)
  moreover have "evolves s s4" using s1(4) s2(4) s3(4) s4(4) evolves_trans by blast
  moreover have "no_show_recorded (current_policy s) b s4" if b: "b \<in> set (bookings s)" "forfeited now s b" for b
  proof -
    have "\<not> approval_expired now b" using b(2) by (auto simp: forfeited_def no_show_due_def approval_expired_def)
    then have "b \<in> set (bookings s1)" using b(1) unfolding s1(2) by (auto intro!: rev_image_eqI)
    with s2(7) b(2) show ?thesis using \<open>violations s4 = violations s2\<close> by (simp add: no_show_recorded_def)
  qed
  ultimately show ?thesis using s1(1) s2(1) s3(1) s4(1,3) bk by blast
qed

text \<open>The whole run.\<close>

lemma suspensions_finished:
  "suspensions s' = map (\<lambda>sp. if finished now sp then set_end_notified now sp else sp) (suspensions s)
     \<Longrightarrow> \<forall>sp \<in> set (suspensions s'). \<not> finished now sp"
  by (auto simp: finished_def set_end_notified_def)

lemma reconcile_run:
  assumes s: "sound s" "policy_sane s" and budget: "within_budget now (budget_of s b0) s"
  shows "\<exists>r s'. reconcile now actor b0 s = Inr (r, s') \<and> reconciled now actor s s'"
proof -
  let ?n = "budget_of s b0" and ?p = "current_policy s"
  from booking_stages_run [OF s(1) _ budget, of actor] s(2) obtain n1 n2 n3 n4 s1 s2 s3 s4 where
    st: "reconcile_expired_approvals now ?n actor s = Inr (n1, s1)" "reconcile_no_shows now ?n actor s1 = Inr (n2, s2)"
      "start_staff_holds now ?n actor s2 = Inr (n3, s3)" "reconcile_completions now ?n actor s3 = Inr (n4, s4)"
    and bk: "bookings s4 = map (settle now s) (bookings s)" and s4: "sound s4" "evolves s s4"
      "quiet (ensure_policy s) s4" "suspensions s4 = suspensions s"
    and rec: "\<forall>b \<in> set (bookings s). forfeited now s b \<longrightarrow> no_show_recorded ?p b s4"
    by (auto simp: policy_sane_def)
  have e4: "ensure_policy s4 = s4" and p4: "current_policy s4 = ?p"
  proof -
    show p4: "current_policy s4 = ?p" using quiet_facts(9) [OF s4(3)] by simp
    have "latest_policy s4 = Some ?p"
      using latest_policy_ensure [of s] quiet_facts(2) [OF s4(3)] by (simp add: latest_policy_def)
    then show "ensure_policy s4 = s4" by (simp add: ensure_policy_def)
  qed
  from thresholds_run [OF soundD [OF s4(1)], of now actor] s(2) p4 e4 obtain n5 s5 new where
    s5: "apply_strike_thresholds now actor s4 = Inr (n5, s5)" "well_formed s5" "sanctions_ok s5" "forfeits s5"
      "sanctions_grow now actor s4 s5"
      "\<forall>u. 0 < strike_total now s5 u \<and> strike_threshold ?p \<le> int (strike_total now s5 u) \<longrightarrow> suspended_now now s5 u"
    by (auto simp: policy_sane_def)
  from notify_run [OF s5(2,3), of now] obtain s6 n6 where s6: "notify_finished_suspensions now s5 = Inr (n6, s6)"
    "suspensions s6 = map (\<lambda>sp. if finished now sp then set_end_notified now sp else sp) (suspensions s5)"
    "bookings s6 = bookings s5" "violations s6 = violations s5" "well_formed s6" "sanctions_ok s6" "quiet s5 s6"
    by blast
  have run: "\<exists>r. reconcile now actor b0 s = Inr (r, s6)"
    using st s5(1) s6(1) by (simp add: reconcile_def budget_of_def)
  have total: "strike_total now s6 = strike_total now s5" by (simp add: strike_total_def fun_eq_iff s6(4))
  have ev: "evolves s s6"
    using evolves_trans [OF s4(2)] s5(5) evolves_bookings_cong(1) [OF s6(3)] by (auto simp: sanctions_grow_def)
  have "forfeits s6" using forfeits_plain [OF s5(4), of s6] s6(3,4) evolves_same by simp
  then have sd: "sound s6" using s6(5,6) by (simp add: sound_def)
  have q: "quiet (ensure_policy s) s6"
    using quiet_trans [OF quiet_trans [OF s4(3)] s6(7)] s5(5) by (simp add: sanctions_grow_def)
  have "\<exists>U. bookings s6 = cancel_users now actor U (map (settle now s) (bookings s))"
    using s5(5) s6(3) bk by (auto simp: sanctions_grow_def)
  moreover have "\<exists>v \<in> set (violations s6). unconsumed v = no_show_violation ?p b (v_pk v)"
    if b: "b \<in> set (bookings s)" "forfeited now s b" for b
  proof -
    from rec b obtain v where v: "v \<in> set (violations s4)" "v = no_show_violation ?p b (v_pk v)"
      by (auto simp: no_show_recorded_def)
    from s5(5) v(1) obtain w where w: "w \<in> set (violations s5)" "unconsumed w = unconsumed v"
      unfolding sanctions_grow_def by blast
    from w(2) have "unconsumed w = unconsumed (no_show_violation ?p b (v_pk v))" using v(2) by metis
    from unconsumed_recorded [OF this] w(1) s6(4) show ?thesis by auto
  qed
  ultimately have "reconciled now actor s s6"
    using sd ev q s5(6) suspended_now_notified [OF s6(2)] suspensions_finished [OF s6(2)]
    unfolding reconciled_def total by blast
  with run show ?thesis by blast
qed

text \<open>A database with nothing left to do.\<close>

lemma foldE_counted_skips:
  "(\<And>x. x \<in> set xs \<Longrightarrow> skip s x) \<Longrightarrow> foldE (counted skip f) xs (n, s) = Inr (n, s)"
  by (induction xs) simp_all

lemma idle_run:
  assumes "\<And>b. b \<in> set (bookings s) \<Longrightarrow>
      \<not> approval_expired now b \<and> \<not> forfeited now s b \<and> \<not> hold_starts now b \<and> \<not> session_over now b"
    and "length (filter (no_show_due now) (bookings s)) \<le> budget_of s b0"
    and "\<And>u. 0 < strike_total now s u \<Longrightarrow> strike_threshold (current_policy s) \<le> int (strike_total now s u)
      \<Longrightarrow> suspended_now now s u"
    and "\<And>sp. sp \<in> set (suspensions s) \<Longrightarrow> \<not> finished now sp" and "ensure_policy s = s"
  shows "\<exists>r. reconcile now actor b0 s = Inr (r, s) \<and> list_all (\<lambda>(k, v). v = PNat 0) r"
proof -
  let ?n = "budget_of s b0"
  have none: "filter (approval_expired now) (bookings s) = []" "filter (hold_starts now) (bookings s) = []"
    "filter (session_over now) (bookings s) = []" "filter (finished now) (suspensions s) = []"
    using assms(1,4) by (auto simp: filter_empty_conv)
  have 1: "reconcile_expired_approvals now ?n actor s = Inr (0, s)" "start_staff_holds now ?n actor s = Inr (0, s)"
    "reconcile_completions now ?n actor s = Inr (0, s)" "notify_finished_suspensions now s = Inr (0, s)"
    by (simp_all add: reconcile_expired_approvals_def start_staff_holds_def reconcile_completions_def
        notify_finished_suspensions_def over_budget_def none order_by_def order_by_desc_def)
  have 2: "reconcile_no_shows now ?n actor s = Inr (0, s)"
  proof -
    have skip: "incident_covers s b" if "b \<in> set (order_by (\<lambda>b. (deadline_of b, b_pk b)) (filter (no_show_due now) (bookings s)))" for b
      using that assms(1) by (auto simp: forfeited_def)
    have "foldE (counted incident_covers (record_no_show (current_policy s) actor))
        (order_by (\<lambda>b. (deadline_of b, b_pk b)) (filter (no_show_due now) (bookings s))) (0, s) = Inr (0, s)"
      by (rule foldE_counted_skips) (rule skip)
    with assms(2) show ?thesis
      unfolding reconcile_no_shows_def over_budget_def Let_def assms(5) by simp
  qed
  have "0 < strike_total now s u" if "u \<in> set (map v_user (filter (is_eligible_strike now) (violations s)))" for u
    using that by (auto simp: strike_total_def filter_empty_conv)
  then have 3: "apply_strike_thresholds now actor s = Inr (0, s)"
    using assms(3) by (auto simp: apply_strike_thresholds_def Let_def assms(5) intro!: foldE_counted_skips)
  show ?thesis
    using 1 2 3 by (simp add: reconcile_def budget_of_def)
qed

section \<open>Over the budget\<close>

lemma reconcile_backlog:
  assumes s: "sound s" "policy_sane s" and over: "\<not> within_budget now (budget_of s b0) s"
  shows "reconcile now actor b0 s = Inl ReconciliationBacklog"
proof -
  let ?n = "budget_of s b0"
  let ?c = "\<lambda>P. length (filter P (bookings s))"
  have run: "reconcile now actor b0 s = bindE (reconcile_expired_approvals now ?n actor s) (\<lambda>(a, s).
      bindE (reconcile_no_shows now ?n actor s) (\<lambda>(b, s). bindE (start_staff_holds now ?n actor s) (\<lambda>(c, s).
      bindE (reconcile_completions now ?n actor s) (\<lambda>(d, s). bindE (apply_strike_thresholds now actor s) (\<lambda>(e, s).
      bindE (notify_finished_suspensions now s) (\<lambda>(f, s).
        Inr ([(''expired_approvals'', PNat a), (''no_shows'', PNat b), (''staff_holds_started'', PNat c),
              (''completions'', PNat d), (''suspensions'', PNat e), (''lifts'', PNat f)], s)))))))"
    by (simp add: reconcile_def budget_of_def Let_def)
  show ?thesis
  proof (cases "?c (approval_expired now) \<le> ?n")
    case False
    then show ?thesis by (simp add: run reconcile_expired_approvals_def over_budget_def Let_def)
  next
    case True
    from expired_run [OF s(1) True, of actor] obtain a s1 where s1:
      "reconcile_expired_approvals now ?n actor s = Inr (a, s1)"
      "bookings s1 = map (\<lambda>b. if approval_expired now b then set_expired b else b) (bookings s)"
      "sound s1" "plain s s1" by blast
    then have q1: "quiet s s1" by (simp add: plain_def)
    have f1: "forfeited now s1 = forfeited now s"
      using incident_covers_cong [OF quiet_facts(3) [OF q1]] by (simp add: forfeited_def fun_eq_iff)
    have c1: "length (filter (no_show_due now) (bookings s1)) = ?c (no_show_due now)"
      unfolding s1(2) count_later ..
    show ?thesis
    proof (cases "?c (no_show_due now) \<le> ?n")
      case False
      then show ?thesis by (simp add: run s1(1) reconcile_no_shows_def over_budget_def Let_def c1)
    next
      case nb: True
      from no_shows_run [OF s1(3), of now ?n actor] nb c1 s(2) quiet_facts(9) [OF q1] obtain b s2 where s2:
        "reconcile_no_shows now ?n actor s1 = Inr (b, s2)"
        "bookings s2 = map (\<lambda>b. if forfeited now s b then set_no_show b else b) (bookings s1)" "sound s2"
        by (auto simp: f1 policy_sane_def)
      have c2: "length (filter (hold_starts now) (bookings s2)) = ?c (hold_starts now)"
        unfolding s2(2) s1(2) count_later ..
      show ?thesis
      proof (cases "?c (hold_starts now) \<le> ?n")
        case False
        then show ?thesis by (simp add: run s1(1) s2(1) start_staff_holds_def over_budget_def Let_def c2)
      next
        case hb: True
        from holds_run [OF s2(3), of now ?n actor] hb c2 obtain c s3 where s3:
          "start_staff_holds now ?n actor s2 = Inr (c, s3)"
          "bookings s3 = map (\<lambda>b. if hold_starts now b then set_started b else b) (bookings s2)" by auto
        have "length (filter (session_over now) (bookings s3)) = ?c (session_over now)"
          unfolding s3(2) s2(2) s1(2) count_later ..
        moreover have "\<not> ?c (session_over now) \<le> ?n" using over True nb hb by (simp add: within_budget_def)
        ultimately show ?thesis
          by (simp add: run s1(1) s2(1) s3(1) reconcile_completions_def over_budget_def Let_def)
      qed
    qed
  qed
qed

section \<open>Properties\<close>


text \<open>C8: The only way reconciliation fails is the budget, and it fails closed: one stage with more
  due rows than the budget is enough, whatever the other stages hold.\<close>

theorem reconcile_outcome:
  assumes "sound s" "policy_sane s"
  shows "(\<exists>r s'. reconcile now actor b0 s = Inr (r, s')) = within_budget now (budget_of s b0) s
    \<and> (reconcile now actor b0 s = Inl ReconciliationBacklog) = (\<not> within_budget now (budget_of s b0) s)"
  using reconcile_run [OF assms] reconcile_backlog [OF assms] by (metis Inl_Inr_False)

lemma count_map_le: "(\<And>b. P (g b) \<Longrightarrow> P b) \<Longrightarrow> length (filter P (map g bs)) \<le> length (filter P bs)"
  by (induction bs) (auto intro: le_SucI)

lemma cancel_users_not_due:
  assumes "b \<in> set (cancel_users now actor U (map (settle now s) bs))"
  shows "b_status b = CANCELLED \<or> (\<exists>x \<in> set bs. b = settle now s x)"
  using assms by (auto simp: cancel_users_def)

lemma reconciled_idle:
  assumes "reconciled now actor s s'" "within_budget now (budget_of s b0) s"
  shows "\<exists>r. reconcile now actor' b0 s' = Inr (r, s') \<and> list_all (\<lambda>(k, v). v = PNat 0) r"
proof (rule idle_run)
  from assms(1) obtain U where bk: "bookings s' = cancel_users now actor U (map (settle now s) (bookings s))"
    and q: "quiet (ensure_policy s) s'" by (auto simp: reconciled_def)
  have p: "current_policy s' = current_policy s" using quiet_facts(9) [OF q] by simp
  have f: "forfeited now s' = forfeited now s"
    using incident_covers_cong [of s' s] quiet_facts(3) [OF q] by (simp add: forfeited_def fun_eq_iff)
  show "b \<in> set (bookings s') \<Longrightarrow> \<not> approval_expired now b \<and> \<not> forfeited now s' b \<and> \<not> hold_starts now b \<and> \<not> session_over now b" for b
  proof -
    assume "b \<in> set (bookings s')"
    then consider "b_status b = CANCELLED" | x where "b = settle now s x"
      using cancel_users_not_due [of b now actor U s "bookings s"] unfolding bk by blast
    then show ?thesis
    proof cases
      case 1
      then show ?thesis by (simp add: due_defs)
    next
      case 2
      then show ?thesis unfolding f by (simp only: settle_settled simp_thms)
    qed
  qed
next
  from assms(1) obtain U where bk: "bookings s' = cancel_users now actor U (map (settle now s) (bookings s))"
    and q: "quiet (ensure_policy s) s'" by (auto simp: reconciled_def)
  have "length (filter (no_show_due now) (bookings s')) \<le> length (filter (no_show_due now) (bookings s))"
    unfolding bk cancel_users_def map_map
  proof (rule count_map_le)
    fix b assume due: "no_show_due now (((\<lambda>b. if b_user b \<in> U \<and> unstarted b then cancelled_by_sanction now actor b else b)
        \<circ> settle now s) b)"
    then have "no_show_due now (settle now s b)"
      by (cases "b_user (settle now s b) \<in> U \<and> unstarted (settle now s b)") (simp_all add: no_show_due_def)
    with no_show_due_settle [OF this] show "no_show_due now b" by simp
  qed
  moreover have "budget_of s' b0 = budget_of s b0" using quiet_facts(1) [OF q] by (cases b0) (simp_all add: budget_of_def)
  ultimately show "length (filter (no_show_due now) (bookings s')) \<le> budget_of s' b0"
    using assms(2) by (simp add: within_budget_def)
next
  from assms(1) have q: "quiet (ensure_policy s) s'" by (simp add: reconciled_def)
  have "latest_policy s' = Some (current_policy s)"
    using latest_policy_ensure [of s] quiet_facts(2) [OF q] by (simp add: latest_policy_def)
  then show "ensure_policy s' = s'" by (simp add: ensure_policy_def)
  have p: "current_policy s' = current_policy s" using quiet_facts(9) [OF q] by simp
  show "suspended_now now s' u" if "0 < strike_total now s' u" "strike_threshold (current_policy s') \<le> int (strike_total now s' u)" for u
    using that assms(1) unfolding p reconciled_def by blast
  show "\<not> finished now sp" if "sp \<in> set (suspensions s')" for sp
    using that assms(1) unfolding reconciled_def by blast
qed

text \<open>C9: A second run at the same moment, by anyone, finds nothing to do: it changes nothing at all
  and reports zero for every stage.\<close>

theorem reconcile_idempotent:
  assumes "sound s" "policy_sane s" "reconcile now actor b0 s = Inr (r, s')"
  shows "\<exists>r'. reconcile now actor' b0 s' = Inr (r', s') \<and> list_all (\<lambda>(k, v). v = PNat 0) r'"
proof -
  have w: "within_budget now (budget_of s b0) s"
    using reconcile_backlog [OF assms(1,2)] assms(3) by fastforce
  from reconcile_run [OF assms(1,2) w, of actor] assms(3) have "reconciled now actor s s'" by simp
  from reconciled_idle [OF this w] show ?thesis .
qed

text \<open>C10: A missed check-in is one strike. For every row that was forfeited there is afterwards exactly
  one no-show violation of that booking; it is the student's, counts as a strike, dates from the
  deadline rather than from the moment the job ran, and expires a strike window later.\<close>

theorem no_show_strikes_once:
  assumes "sound s" "policy_sane s" "reconcile now actor b0 s = Inr (r, s')"
    and "b \<in> set (bookings s)" "forfeited now s b"
  shows "(\<exists>!v. v \<in> set (violations s') \<and> v_kind v = NO_SHOW_KIND \<and> v_booking v = Some (b_pk b))
    \<and> (\<exists>v \<in> set (violations s'). v_kind v = NO_SHOW_KIND \<and> v_booking v = Some (b_pk b)
      \<and> v_user v = b_user b \<and> v_counts_as_strike v \<and> b_deadline b = Some (v_occurred_at v)
      \<and> v_expires_at v = v_occurred_at v + strike_window_days (current_policy s) * us_day)"
proof -
  have w: "within_budget now (budget_of s b0) s"
    using reconcile_backlog [OF assms(1,2)] assms(3) by fastforce
  from reconcile_run [OF assms(1,2) w, of actor] assms(3) have r: "reconciled now actor s s'" by simp
  with assms(4,5) obtain v where v: "v \<in> set (violations s')"
    "unconsumed v = no_show_violation (current_policy s) b (v_pk v)" by (auto simp: reconciled_def)
  have ok: "sanctions_ok s'" using r by (simp add: reconciled_def sound_def)
  have f: "v_kind v = NO_SHOW_KIND" "v_booking v = Some (b_pk b)" "v_user v = b_user b" "v_counts_as_strike v"
    "v_occurred_at v = deadline_of b"
    "v_expires_at v = deadline_of b + strike_window_days (current_policy s) * us_day"
    using v(2) by (cases v; simp add: unconsumed_def no_show_violation_def)+
  have d: "b_deadline b = Some (deadline_of b)"
    using assms(5) by (auto simp: forfeited_def no_show_due_def deadline_of_def lte_null_def split: option.splits)
  have one: "\<exists>!v. v \<in> set (violations s') \<and> v_kind v = NO_SHOW_KIND \<and> v_booking v = Some (b_pk b)"
  proof (rule ex1I [of _ v])
    show "w = v" if w: "w \<in> set (violations s') \<and> v_kind w = NO_SHOW_KIND \<and> v_booking w = Some (b_pk b)" for w
    proof -
      have "v_pk w = v_pk v" using sanctions_okD(5) [OF ok, of w v] w v(1) f by (simp add: same_no_show_def)
      with get_row_unique [OF sanctions_okD(1) [OF ok]] w v(1) show ?thesis by (metis option.inject)
    qed
  qed (use v(1) f in simp)
  have "\<exists>v \<in> set (violations s'). v_kind v = NO_SHOW_KIND \<and> v_booking v = Some (b_pk b)
      \<and> v_user v = b_user b \<and> v_counts_as_strike v \<and> b_deadline b = Some (v_occurred_at v)
      \<and> v_expires_at v = v_occurred_at v + strike_window_days (current_policy s) * us_day"
    using v(1) f d by (intro bexI [of _ v]) auto
  with one show ?thesis ..
qed

text \<open>The strike threshold. Afterwards nobody with enough strikes in force is left unsuspended. A
  new suspension is given only to a student who had reached the threshold and was not suspended
  already; it is automatic and in force, it has used up every strike that counted, and none of the
  student's reservations that had not started is left.\<close>

theorem apply_strike_thresholds_effect:
  assumes "sound s" "policy_sane s"
  shows "\<exists>s' new. apply_strike_thresholds now actor s = Inr (length new, s')
    \<and> suspensions s' = suspensions s @ new \<and> sound s'
    \<and> (\<forall>u. strike_total now s' u = 0 \<or> int (strike_total now s' u) < strike_threshold (current_policy s)
         \<or> suspended_now now s' u)
    \<and> list_all (\<lambda>sp. \<not> suspended_now now s (sp_user sp)
         \<and> strike_threshold (current_policy s) \<le> int (strike_total now s (sp_user sp))
         \<and> sp_source sp = AUTO \<and> suspension_active now sp \<and> strike_total now s' (sp_user sp) = 0
         \<and> filter (\<lambda>b. b_user b = sp_user sp \<and> unstarted b) (bookings s') = []) new"
proof -
  from thresholds_run [OF soundD [OF assms(1)], of now actor] assms(2) obtain n s' new where
    r: "apply_strike_thresholds now actor s = Inr (n, s')" "well_formed s'" "sanctions_ok s'" "forfeits s'"
      "\<forall>u. 0 < strike_total now s' u \<and> strike_threshold (current_policy s) \<le> int (strike_total now s' u)
         \<longrightarrow> suspended_now now s' u"
      "suspensions s' = suspensions s @ new" "length new = n"
      "\<forall>sp \<in> set new. \<not> suspended_now now s (sp_user sp) \<and> sanction_in_force now s' sp
         \<and> strike_threshold (current_policy s) \<le> int (strike_total now s (sp_user sp))"
    by (auto simp: policy_sane_def)
  have "strike_total now s' u = 0 \<or> int (strike_total now s' u) < strike_threshold (current_policy s)
      \<or> suspended_now now s' u" for u
    using r(5) by (metis gr0I not_le)
  with r show ?thesis
    by (intro exI [of _ s'] exI [of _ new])
      (auto simp: sound_def list_all_iff sanction_in_force_def filter_empty_conv)
qed

section \<open>A run\<close>

text \<open>Alice did not come at ten; at eleven the reconciler runs.\<close>

definition missed_st :: "st" where "missed_st = one_booking_st (at 11 0) SCHEDULED"

lemma missed_st_facts:
  "sound missed_st" "policy_sane missed_st" "within_budget (at 11 0) (budget_of missed_st None) missed_st"
  "sample_booking 1 1 1 10 SCHEDULED \<in> set (bookings missed_st)"
  "forfeited (at 11 0) missed_st (sample_booking 1 1 1 10 SCHEDULED)"
proof -
  have "well_formed missed_st" unfolding missed_st_def by (rule one_booking_well_formed) simp
  then show "sound missed_st"
    by (simp add: sound_def sanctions_ok_def forfeits_def missed_st_def one_booking_st_def sample_st_def)
  have "bookings missed_st = [sample_booking 1 1 1 10 SCHEDULED]" by (simp add: missed_st_def one_booking_st_def)
  then show "within_budget (at 11 0) (budget_of missed_st None) missed_st"
    "sample_booking 1 1 1 10 SCHEDULED \<in> set (bookings missed_st)"
    by (simp_all add: within_budget_def budget_of_def missed_st_def one_booking_st_def sample_st_def default_settings_def)
  show "forfeited (at 11 0) missed_st (sample_booking 1 1 1 10 SCHEDULED)"
    by (simp add: forfeited_def no_show_due_def incident_covers_def missed_st_def one_booking_st_def sample_st_def
        sample_booking_def at_def us_defs slot_start_for_def)
  have "policies missed_st = []" "conf missed_st = default_settings"
    by (simp_all add: missed_st_def one_booking_st_def sample_st_def)
  then show "policy_sane missed_st"
    by (simp add: policy_sane_def current_policy_def latest_policy_def initial_policy_def order_by_desc_def
        strike_window_days_def auto_suspension_days_def snapshot_int_def snapshot_from_settings_def default_settings_def)
qed


theorem reconcile_outcome_witness:
  "\<exists>r s'. reconcile (at 11 0) None None missed_st = Inr (r, s')"
  using reconcile_outcome [OF missed_st_facts(1,2), of "at 11 0" None None] missed_st_facts(3) by simp

lemma missed_run: "\<exists>r s'. reconcile (at 11 0) None None missed_st = Inr (r, s')"
  using reconcile_run [OF missed_st_facts(1-3)] by blast

theorem reconcile_idempotent_witness:
  "\<exists>r s' r'. reconcile (at 11 0) None None missed_st = Inr (r, s')
    \<and> reconcile (at 11 0) (Some staff_member) None s' = Inr (r', s')"
proof -
  from missed_run obtain r s' where run: "reconcile (at 11 0) None None missed_st = Inr (r, s')" by blast
  from reconcile_idempotent [OF missed_st_facts(1,2) run, of "Some staff_member"] run show ?thesis by blast
qed

theorem no_show_strikes_once_witness:
  "\<exists>r s'. reconcile (at 11 0) None None missed_st = Inr (r, s')
    \<and> (\<exists>!v. v \<in> set (violations s') \<and> v_kind v = NO_SHOW_KIND \<and> v_booking v = Some 1)"
proof -
  from missed_run obtain r s' where run: "reconcile (at 11 0) None None missed_st = Inr (r, s')" by blast
  have "b_pk (sample_booking 1 1 1 10 SCHEDULED) = 1" by (simp add: sample_booking_def)
  with no_show_strikes_once [OF missed_st_facts(1,2) run missed_st_facts(4,5)] run show ?thesis by auto
qed

theorem apply_strike_thresholds_effect_witness:
  "\<exists>s' new. apply_strike_thresholds (at 11 0) None missed_st = Inr (length new, s')
    \<and> suspensions s' = suspensions missed_st @ new"
  using apply_strike_thresholds_effect [OF missed_st_facts(1,2), of "at 11 0" None] by blast

end
