(* ===== verification/Reservations.thy ===== *)
theory Reservations
  imports Cancel
begin

text \<open>
  Advance reservations (\<open>core/services/booking.py\<close>): the details a form submits, the checks of
  a future reservation, the student and the staff booking, the edit, the move to another room,
  the cancellation of a weekly series and the decision on a request. The \<open>room\<close> a body receives is
  its caller's copy, as in the source; a booking is given by its key because the body reloads it.
\<close>

section \<open>Details and payloads\<close>

type_synonym details = "(string \<times> string) list"

definition BOOKING_DETAIL_FIELDS :: "string list" where
  "BOOKING_DETAIL_FIELDS = [''title'', ''purpose'', ''participant_names'']"

definition BOOKING_DETAIL_LIMITS :: "(string \<times> nat) list" where
  "BOOKING_DETAIL_LIMITS = [(''title'', 120), (''purpose'', 500), (''participant_names'', 500)]"

definition detail_limit :: "string \<Rightarrow> nat" where
  "detail_limit field = (case map_of BOOKING_DETAIL_LIMITS field of Some n \<Rightarrow> n | None \<Rightarrow> 0)"

definition normalise_details :: "details option \<Rightarrow> details" where
  "normalise_details details =
     (let d = (case details of None \<Rightarrow> [] | Some d \<Rightarrow> d) in
      map (\<lambda>field. (field, take (detail_limit field)
        (strip (case map_of d field of None \<Rightarrow> '''' | Some v \<Rightarrow> v)))) BOOKING_DETAIL_FIELDS)"

definition detail_dict :: "details \<Rightarrow> dict" where
  "detail_dict d = map (\<lambda>(k, v). (k, PStr v)) d"

definition build_payload :: "room \<Rightarrow> time \<Rightarrow> details option \<Rightarrow> dict" where
  "build_payload room slot_start details =
     [(''action'', PStr ''advance_booking''), (''room_id'', PNat (r_pk room)),
      (''room_number'', PStr (r_number room)), (''slot'', PStr (encode_slot slot_start))]
     @ detail_dict (normalise_details details)"

definition build_update_payload :: "nat \<Rightarrow> details option \<Rightarrow> dict" where
  "build_update_payload booking_pk details =
     [(''action'', PStr ''update_booking_details''), (''booking_id'', PNat booking_pk)]
     @ detail_dict (normalise_details details)"

definition build_staff_payload :: "room \<Rightarrow> date \<Rightarrow> int \<Rightarrow> int \<Rightarrow> details option \<Rightarrow> dict" where
  "build_staff_payload room d start_hour end_hour details =
     [(''action'', PStr ''staff_booking''), (''room_id'', PNat (r_pk room)),
      (''date'', PStr (date_isoformat d)), (''start_hour'', PInt start_hour), (''end_hour'', PInt end_hour)]
     @ detail_dict (normalise_details details)"

definition build_move_payload :: "nat \<Rightarrow> room \<Rightarrow> dict" where
  "build_move_payload booking_pk room =
     [(''action'', PStr ''move_booking''), (''booking_id'', PNat booking_pk), (''room_id'', PNat (r_pk room))]"

text \<open>\<open>ctx.payload.get(key, "")\<close>: the payload's details are text.\<close>

definition payload_text :: "dict \<Rightarrow> string \<Rightarrow> string" where
  "payload_text p key = (case map_of p key of Some (PStr t) \<Rightarrow> t | _ \<Rightarrow> '''')"

text \<open>\<open>format_local(booking.deadline)\<close>; an advance booking has a deadline.\<close>

definition deadline_text :: "time option \<Rightarrow> string" where
  "deadline_text d = (case d of None \<Rightarrow> '''' | Some t \<Rightarrow> format_local t)"

section \<open>Checks\<close>

text \<open>\<open>user\<close> is \<open>None\<close> when nobody is signed in; \<open>assert_may_reserve_room\<close> has then
  rejected before the quota is looked at.\<close>

definition validate_advance_target ::
  "user option \<Rightarrow> room \<Rightarrow> time \<Rightarrow> time \<Rightarrow> bool \<Rightarrow> st \<Rightarrow> exn + unit" where
  "validate_advance_target user room slot_start now enforce_horizon s =
    (if \<not> is_hour_aligned slot_start then Inl (rejected Code_INVALID_SLOT [])
     else let slot_end = slot_end_for slot_start in
       if slot_start \<le> now then
         (if now < slot_end then Inl (rejected Code_STALE_HOUR
            [(''slot'', PStr (encode_slot slot_start)), (''room_id'', PNat (r_pk room)),
             (''remaining_minutes'', PInt (remaining_minutes now slot_end))])
          else Inl (rejected Code_SLOT_ELAPSED []))
       else let policy = current_policy s in
         if enforce_horizon \<and> \<not> is_within_horizon now slot_start (horizon_days policy)
         then Inl (rejected Code_OUTSIDE_HORIZON [(''horizon_days'', PInt (horizon_days policy))])
         else thenE (assert_may_reserve_room s user room now)
           (thenE (assert_slot_open s slot_start room)
             (case user of None \<Rightarrow> Inr ()
              | Some u \<Rightarrow> assert_quota_and_adjacency s (u_pk u) slot_start (Some (r_pk room)) None (Some now))))"

definition created_kind :: "status \<Rightarrow> string" where
  "created_kind x = (if x = PENDING_APPROVAL then ''booking_pending'' else ''booking_confirmation'')"

definition room_hour_held :: "st \<Rightarrow> nat \<Rightarrow> time \<Rightarrow> bool" where
  "room_hour_held s room_pk slot_start = list_ex
     (\<lambda>b. b_room b = room_pk \<and> b_slot_start b = slot_start \<and> b_status b \<in> set BLOCKING_STATUSES) (bookings s)"

text \<open>A row with the defaults of the model, which \<open>objects.create\<close> fills in.\<close>

definition new_booking :: "st \<Rightarrow> nat \<Rightarrow> room \<Rightarrow> time \<Rightarrow> status \<Rightarrow> source \<Rightarrow> nat \<Rightarrow> booking" where
  "new_booking s user_pk room slot_start stat src pk = \<lparr>b_pk = pk, b_user = user_pk, b_room = r_pk room,
     b_slot_start = slot_start, b_slot_end = slot_end_for slot_start, b_slot_date = local_date slot_start,
     b_deadline = None, b_status = stat, b_source = src, b_recurrence = None,
     b_approved_at = None, b_approved_by = None, b_approval_note = '''', b_is_staff_booking = False,
     b_title = '''', b_purpose = '''', b_participant_names = '''', b_details_version = 0,
     b_created_at = wall_now s, b_checked_in_at = None, b_checked_in_by = None, b_cancelled_at = None,
     b_cancelled_by = None, b_cancel_reason = '''', b_late_cancel = False, b_actual_end = None,
     b_completion_reason = '''', b_needs_review = False, b_review_note = '''',
     b_policy_version = None, b_original_no_show = None, b_incident = None\<rparr>"

section \<open>Creating reservations\<close>

definition create_advance_booking :: "room \<Rightarrow> time \<Rightarrow> ctx \<Rightarrow> st \<Rightarrow> exn + (dict \<times> st)" where
  "create_advance_booking room slot_start cx s =
    (let user = ctx_actor cx; now = ctx_now cx in
     thenE (validate_advance_target user room slot_start now True s)
     (let s = ensure_policy s; slot_end = slot_end_for slot_start in
      if room_hour_held s (r_pk room) slot_start then Inl (rejected Code_SLOT_TAKEN [])
      else
       let policy = current_policy s;
           deadline = advance_deadline slot_start (checkin_grace_minutes policy);
           self_approved = (r_requires_approval room \<and> is_booking_staff user);
           status = (if r_requires_approval room \<and> \<not> self_approved then PENDING_APPROVAL else SCHEDULED);
           user_pk = (case user of None \<Rightarrow> 0 | Some u \<Rightarrow> u_pk u) in
       bindE (create_booking (\<lambda>pk. (new_booking s user_pk room slot_start status ADVANCE pk)
           \<lparr>b_deadline := Some deadline,
            b_approved_at := (if self_approved then Some now else None),
            b_approved_by := (if self_approved then actor_pk user else None),
            b_is_staff_booking := is_booking_staff user,
            b_policy_version := Some (pv_pk policy),
            b_title := payload_text (ctx_payload cx) ''title'',
            b_purpose := payload_text (ctx_payload cx) ''purpose'',
            b_participant_names := payload_text (ctx_payload cx) ''participant_names''\<rparr>) s) (\<lambda>(booking, s).
         let s = ctx_audit ''booking.created'' ''Booking'' (show_nat (b_pk booking)) user
               [(''room'', PStr (r_number room)), (''slot_start'', PIso slot_start),
                (''slot_end'', PIso slot_end), (''deadline'', PIso deadline),
                (''source'', PStr (source_value (b_source booking))),
                (''status'', PStr (status_value (b_status booking))),
                (''policy_version'', PInt (pv_version policy)), (''title'', PStr (b_title booking)),
                (''purpose'', PStr (b_purpose booking)),
                (''participant_names'', PStr (b_participant_names booking))] '''' s;
             s = enqueue (created_kind status) user (created_kind status @ '':'' @ show_nat (b_pk booking))
               [(''booking_id'', PNat (b_pk booking)), (''room_number'', PStr (r_number room)),
                (''room_label'', PStr (room_str room)), (''slot_start'', PStr (isoformat slot_start)),
                (''slot_end'', PStr (isoformat slot_end)),
                (''slot_start_local'', PStr (format_local slot_start)),
                (''deadline_local'', PStr (format_local deadline)),
                (''source'', PStr (source_value (b_source booking))),
                (''grace_minutes'', PInt (checkin_grace_minutes policy)),
                (''title'', PStr (b_title booking)), (''purpose'', PStr (b_purpose booking)),
                (''participant_names'', PStr (b_participant_names booking)),
                (''status'', PStr (status_value (b_status booking)))] s
         in Inr ([(''booking_id'', PNat (b_pk booking)), (''room_id'', PNat (r_pk room)),
                  (''slot'', PStr (encode_slot slot_start)),
                  (''status'', PStr (status_value (b_status booking))),
                  (''deadline'', PStr (isoformat deadline))], s))))"

text \<open>One hour of a staff booking, the body of the loop.\<close>

definition create_staff_hour :: "ctx \<Rightarrow> user \<Rightarrow> room \<Rightarrow> policy_version \<Rightarrow> time \<Rightarrow> nat list \<times> st \<Rightarrow> exn + (nat list \<times> st)" where
  "create_staff_hour cx actor room policy slot_start acc =
    (let (created, s) = acc in
     bindE (create_booking (\<lambda>pk. (new_booking s (u_pk actor) room slot_start SCHEDULED ADVANCE pk)
         \<lparr>b_deadline := Some (advance_deadline slot_start (checkin_grace_minutes policy)),
          b_is_staff_booking := True, b_approved_at := Some (ctx_now cx), b_approved_by := Some (u_pk actor),
          b_policy_version := Some (pv_pk policy),
          b_title := payload_text (ctx_payload cx) ''title'',
          b_purpose := payload_text (ctx_payload cx) ''purpose'',
          b_participant_names := payload_text (ctx_payload cx) ''participant_names''\<rparr>) s) (\<lambda>(booking, s).
       Inr (created @ [b_pk booking],
         ctx_audit ''booking.created'' ''Booking'' (show_nat (b_pk booking)) (Some actor)
           [(''room'', PStr (r_number room)), (''slot_start'', PIso (b_slot_start booking)),
            (''slot_end'', PIso (b_slot_end booking)), (''source'', PStr (source_value (b_source booking))),
            (''status'', PStr (status_value (b_status booking))), (''staff_booking'', PBool True),
            (''policy_version'', PInt (pv_version policy)), (''title'', PStr (b_title booking)),
            (''purpose'', PStr (b_purpose booking))] '''' s)))"

definition create_staff_booking :: "room \<Rightarrow> date \<Rightarrow> int \<Rightarrow> int \<Rightarrow> ctx \<Rightarrow> st \<Rightarrow> exn + (dict \<times> st)" where
  "create_staff_booking room d start_hour end_hour cx s =
    (let now = ctx_now cx in
     case ctx_actor cx of
       None \<Rightarrow> Inl (rejected Code_NOT_ELIGIBLE [])
     | Some actor \<Rightarrow>
       if \<not> is_booking_staff (Some actor) then Inl (rejected Code_NOT_ELIGIBLE [])
       else if \<not> (0 \<le> start_hour \<and> start_hour < end_hour \<and> end_hour \<le> 24)
         then Inl (rejected Code_INVALID_INPUT [])
       else let starts = map (slot_start_for d) [start_hour..end_hour - 1] in
         if hd starts \<le> now then Inl (rejected Code_RANGE_STARTED [])
         else let horizon = STAFF_BOOKING_HORIZON_DAYS (conf s) in
           if d > local_date now + horizon
           then Inl (rejected Code_OUTSIDE_HORIZON [(''horizon_days'', PInt horizon)])
           else bindE (foldE (\<lambda>slot_start _. assert_slot_open s slot_start room) starts ()) (\<lambda>_.
             if list_ex (\<lambda>b. b_room b = r_pk room \<and> b_slot_start b \<in> set starts
                  \<and> b_status b \<in> set BLOCKING_STATUSES) (bookings s)
             then Inl (rejected Code_RANGE_TAKEN [])
             else let s = ensure_policy s; policy = current_policy s in
               bindE (foldE (create_staff_hour cx actor room policy) starts ([], s)) (\<lambda>(created, s).
                 Inr ([(''booking_ids'', PList (map PNat created)), (''room_id'', PNat (r_pk room)),
                       (''hours'', PNat (length created))], s))))"

section \<open>Lemmas\<close>

lemma normalise_details_fields: "map fst (normalise_details d) = BOOKING_DETAIL_FIELDS"
  by (simp add: normalise_details_def Let_def comp_def)

lemma aligned_mod: "is_hour_aligned t \<Longrightarrow> t mod us_hour = 0"
proof -
  assume "is_hour_aligned t"
  then have "us_hour dvd t + BANGKOK" by (simp add: is_hour_aligned_dvd)
  moreover have "us_hour dvd BANGKOK" by (simp add: BANGKOK_def)
  ultimately have "us_hour dvd t" by (simp add: dvd_add_left_iff)
  then show ?thesis by simp
qed

lemma aligned_checks:
  assumes "is_hour_aligned t"
  shows "t mod us_hour div us_minute = 0 \<and> t mod us_minute div us_second = 0"
proof -
  have "t mod us_minute = t mod us_hour mod us_minute" by (simp add: mod_mod_cancel)
  with aligned_mod [OF assms] show ?thesis by simp
qed

text \<open>Everything \<open>validate_advance_target\<close> asks, as one condition.\<close>

definition advance_ok :: "user \<Rightarrow> room \<Rightarrow> time \<Rightarrow> time \<Rightarrow> st \<Rightarrow> bool" where
  "advance_ok u room t now s \<longleftrightarrow> is_hour_aligned t \<and> now < t
     \<and> is_within_horizon now t (horizon_days (current_policy s))
     \<and> may_reserve s u room now \<and> slot_open s t room \<and> quota_ok s (u_pk u) (r_pk room) t now"

lemma validate_advance_target_Inr:
  "validate_advance_target (Some u) room t now True s = Inr x \<longleftrightarrow> advance_ok u room t now s"
  by (auto simp: validate_advance_target_def Let_def advance_ok_def thenE_Inr
      assert_may_reserve_room_Inr assert_slot_open_Inr assert_quota_Inr)

lemma validate_advance_target_None:
  "validate_advance_target None room t now h s \<noteq> Inr x"
  by (auto simp: validate_advance_target_def Let_def thenE_Inr assert_may_reserve_room_def
      assert_may_use_room_def)

lemma validate_advance_target_clean: "clean (validate_advance_target u room t now h s)"
proof -
  have "clean (assert_may_reserve_room s u room now)" "clean (assert_slot_open s t room)"
    and "clean (assert_quota_and_adjacency s x t r d n)" for x r d n
    unfolding clean_def
    using eligibility_rejects(3) assert_slot_open_Inl assert_quota_Inl by blast+
  then show ?thesis
    by (auto simp: validate_advance_target_def Let_def intro!: clean_thenE split: option.splits)
qed

lemma room_hour_held_iff:
  "room_hour_held s r t \<longleftrightarrow> (\<exists>b \<in> set (bookings s). b_room b = r \<and> b_slot_start b = t \<and> occupies_slot b)"
  by (auto simp: room_hour_held_def list_ex_iff occupies_slot_def)

lemma new_booking_simps [simp]:
  "b_pk (new_booking s u r t x sr pk) = pk" "b_user (new_booking s u r t x sr pk) = u"
  "b_room (new_booking s u r t x sr pk) = r_pk r" "b_slot_start (new_booking s u r t x sr pk) = t"
  "b_slot_end (new_booking s u r t x sr pk) = slot_end_for t" "b_status (new_booking s u r t x sr pk) = x"
  by (simp_all add: new_booking_def)

text \<open>The row an advance booking inserts.\<close>

definition advance_status :: "user \<Rightarrow> room \<Rightarrow> status" where
  "advance_status u room =
     (if r_requires_approval room \<and> \<not> is_booking_staff (Some u) then PENDING_APPROVAL else SCHEDULED)"

definition advance_row :: "user \<Rightarrow> room \<Rightarrow> time \<Rightarrow> ctx \<Rightarrow> st \<Rightarrow> nat \<Rightarrow> booking" where
  "advance_row u room t cx s pk = (new_booking s (u_pk u) room t (advance_status u room) ADVANCE pk)
     \<lparr>b_deadline := Some (advance_deadline t (checkin_grace_minutes (current_policy s))),
      b_approved_at := (if r_requires_approval room \<and> is_booking_staff (Some u) then Some (ctx_now cx) else None),
      b_approved_by := (if r_requires_approval room \<and> is_booking_staff (Some u) then Some (u_pk u) else None),
      b_is_staff_booking := is_booking_staff (Some u),
      b_policy_version := Some (pv_pk (current_policy s)),
      b_title := payload_text (ctx_payload cx) ''title'',
      b_purpose := payload_text (ctx_payload cx) ''purpose'',
      b_participant_names := payload_text (ctx_payload cx) ''participant_names''\<rparr>"

lemma advance_row_simps [simp]:
  "b_room (advance_row u room t cx s pk) = r_pk room" "b_user (advance_row u room t cx s pk) = u_pk u"
  "b_slot_start (advance_row u room t cx s pk) = t" "b_pk (advance_row u room t cx s pk) = pk"
  "b_status (advance_row u room t cx s pk) = advance_status u room"
  "b_is_staff_booking (advance_row u room t cx s pk) = is_booking_staff (Some u)"
  "occupies_slot (advance_row u room t cx s pk)" "b_source (advance_row u room t cx s pk) = ADVANCE"
  by (simp_all add: advance_row_def new_booking_def occupies_slot_def advance_status_def)

lemma advance_row_check: "is_hour_aligned t \<Longrightarrow> booking_check_error (advance_row u room t cx s pk) = None"
  using aligned_checks [of t]
  by (simp add: booking_check_error_def advance_row_def new_booking_def advance_status_def slot_end_for_def
      SLOT_DELTA_us_hour)

text \<open>Once the checks pass, no constraint of the table can object: the row is inserted.\<close>

lemma create_advance_row:
  assumes "advance_ok u room t now s" "\<not> room_hour_held s (r_pk room) t"
  shows "create_booking (advance_row u room t cx (ensure_policy s)) (ensure_policy s) =
    (let b = advance_row u room t cx (ensure_policy s) (fresh_pk (map b_pk (bookings s)))
     in Inr (b, (ensure_policy s)\<lparr>bookings := bookings s @ [b]\<rparr>))"
proof -
  let ?b = "advance_row u room t cx (ensure_policy s) (fresh_pk (map b_pk (bookings s)))"
  from assms(1) have q: "quota_ok s (u_pk u) (r_pk room) t now" and al: "is_hour_aligned t"
    by (simp_all add: advance_ok_def)
  have "?b\<lparr>b_pk := fresh_pk (map b_pk (bookings s)), b_slot_date := local_date t\<rparr> = ?b"
    by (simp add: advance_row_def new_booking_def)
  moreover have "\<forall>b \<in> set (bookings s). \<not> (b_user b = u_pk u \<and> occupies_slot b \<and> b_slot_start b = t)"
    using quota_ok_no_user_slot [OF q] by blast
  then have "booking_error (bookings s) ?b = None"
    using assms(2) unfolding booking_error_None advance_row_check [OF al] room_hour_held_iff
      same_room_slot_def same_user_slot_def by auto
  ultimately show ?thesis
    by (simp add: create_booking_def Let_def)
qed

lemma create_advance_booking_cases:
  assumes "ctx_actor cx = Some u"
  shows "if advance_ok u room t (ctx_now cx) s \<and> \<not> room_hour_held s (r_pk room) t
     then \<exists>r s'. create_advance_booking room t cx s = Inr (r, s')
       \<and> logs ((ensure_policy s)\<lparr>bookings := bookings s @ [advance_row u room t cx (ensure_policy s)
            (fresh_pk (map b_pk (bookings s)))]\<rparr>) s'
       \<and> (\<exists>n. queued s' (created_kind (advance_status u room) @ '':'' @
            show_nat (fresh_pk (map b_pk (bookings s)))) = Some n)
     else \<exists>c d. create_advance_booking room t cx s = Inl (rejected c d)"
proof (cases "advance_ok u room t (ctx_now cx) s")
  case False
  then have "validate_advance_target (Some u) room t (ctx_now cx) True s \<noteq> Inr x" for x
    by (simp add: validate_advance_target_Inr)
  then obtain e where e: "validate_advance_target (Some u) room t (ctx_now cx) True s = Inl e"
    by (cases "validate_advance_target (Some u) room t (ctx_now cx) True s") auto
  with validate_advance_target_clean have "\<exists>c d. e = rejected c d" by (auto simp: clean_def)
  with False e assms show ?thesis by (auto simp: create_advance_booking_def Let_def)
next
  case True
  then have v: "validate_advance_target (Some u) room t (ctx_now cx) True s = Inr ()"
    by (simp add: validate_advance_target_Inr)
  show ?thesis
  proof (cases "room_hour_held s (r_pk room) t")
    case held: True
    then have "room_hour_held (ensure_policy s) (r_pk room) t" by (simp add: room_hour_held_def)
    with held v assms show ?thesis by (auto simp: create_advance_booking_def Let_def)
  next
    case free: False
    then have nh: "\<not> room_hour_held (ensure_policy s) (r_pk room) t" by (simp add: room_hour_held_def)
    let ?row = "\<lambda>pk. advance_row u room t cx (ensure_policy s) pk"
    have run: "create_booking ?row (ensure_policy s) =
      Inr (?row (fresh_pk (map b_pk (bookings s))),
           (ensure_policy s)\<lparr>bookings := bookings s @ [?row (fresh_pk (map b_pk (bookings s)))]\<rparr>)"
      using create_advance_row [OF True free] by (simp add: Let_def)
    note defs = create_advance_booking_def Let_def actor_pk_def advance_row_def [abs_def] advance_status_def
    show ?thesis
      using True free v nh assms run
      by (cases "r_requires_approval room"; cases "is_booking_staff (Some u)") (simp_all add: defs)
  qed
qed

text \<open>The room table itself is read for members-only rooms alone.\<close>

lemma advance_ok_rooms:
  assumes "\<not> r_members_only room"
  shows "advance_ok u room t now (s\<lparr>rooms := rs\<rparr>) = advance_ok u room t now s"
proof -
  have "may_reserve (s\<lparr>rooms := rs\<rparr>) u room now = may_reserve s u room now"
  proof -
    have "allowed_category_values (s\<lparr>rooms := rs\<rparr>) room = allowed_category_values s room"
      "category_for_user (s\<lparr>rooms := rs\<rparr>) (Some u) = category_for_user s (Some u)"
      "suspended_at (s\<lparr>rooms := rs\<rparr>) (u_pk u) now = suspended_at s (u_pk u) now"
      by (simp_all add: allowed_category_values_def category_for_user_def suspended_at_def)
    note eqs = this
    show ?thesis unfolding may_reserve_def admits_def may_be_reserved_by_def eqs using assms by simp
  qed
  moreover have "slot_open (s\<lparr>rooms := rs\<rparr>) t room = slot_open s t room"
    unfolding assert_slot_open_Inr [symmetric, where u = "()"]
    by (subst assert_slot_open_cong [where s = s]) simp_all
  moreover have "quota_ok (s\<lparr>rooms := rs\<rparr>) (u_pk u) (r_pk room) t now = quota_ok s (u_pk u) (r_pk room) t now"
    by (rule quota_cong) simp_all
  moreover have "current_policy (s\<lparr>rooms := rs\<rparr>) = current_policy s"
    by (rule current_policy_cong) simp_all
  ultimately show ?thesis by (simp add: advance_ok_def)
qed

lemma create_advance_booking_evolves:
  assumes "well_formed s" "create_advance_booking room t cx s = Inr (r, s')"
  shows "well_formed s' \<and> evolves s s'"
proof -
  obtain u where u: "ctx_actor cx = Some u"
    using assms(2) validate_advance_target_None
    by (cases "ctx_actor cx") (auto simp: create_advance_booking_def Let_def thenE_Inr)
  let ?b = "advance_row u room t cx (ensure_policy s) (fresh_pk (map b_pk (bookings s)))"
  let ?s1 = "(ensure_policy s)\<lparr>bookings := bookings s @ [?b]\<rparr>"
  from create_advance_booking_cases [OF u, of room t s] assms(2)
  have ok: "advance_ok u room t (ctx_now cx) s" "\<not> room_hour_held s (r_pk room) t" and l: "logs ?s1 s'"
    by (auto split: if_splits)
  have wf: "well_formed (ensure_policy s)" using assms(1) by simp
  have run: "create_booking (advance_row u room t cx (ensure_policy s)) (ensure_policy s) = Inr (?b, ?s1)"
    using create_advance_row [OF ok] by (simp add: Let_def)
  have "blocking_bookings (ensure_policy s) (u_pk u) t = []"
    using ok(1) by (simp add: advance_ok_def quota_ok_def blocking_bookings_def)
  with create_booking_evolves [OF wf run] logs_well_formed [OF l] logs_evolves [OF l, of s]
  show ?thesis by simp
qed

interpretation create: booking_body "create_advance_booking room slot_start" for room slot_start
  by (rule booking_bodyI) (rule create_advance_booking_evolves)

section \<open>Staff bookings, hour by hour\<close>

definition staff_row :: "ctx \<Rightarrow> user \<Rightarrow> room \<Rightarrow> policy_version \<Rightarrow> time \<Rightarrow> st \<Rightarrow> nat \<Rightarrow> booking" where
  "staff_row cx u room policy t s pk = (new_booking s (u_pk u) room t SCHEDULED ADVANCE pk)
     \<lparr>b_deadline := Some (advance_deadline t (checkin_grace_minutes policy)),
      b_is_staff_booking := True, b_approved_at := Some (ctx_now cx), b_approved_by := Some (u_pk u),
      b_policy_version := Some (pv_pk policy),
      b_title := payload_text (ctx_payload cx) ''title'',
      b_purpose := payload_text (ctx_payload cx) ''purpose'',
      b_participant_names := payload_text (ctx_payload cx) ''participant_names''\<rparr>"

lemma staff_row_simps [simp]:
  "b_pk (staff_row cx u room p t s pk) = pk" "b_user (staff_row cx u room p t s pk) = u_pk u"
  "b_room (staff_row cx u room p t s pk) = r_pk room" "b_slot_start (staff_row cx u room p t s pk) = t"
  "b_status (staff_row cx u room p t s pk) = SCHEDULED" "b_is_staff_booking (staff_row cx u room p t s pk)"
  "b_source (staff_row cx u room p t s pk) = ADVANCE" "occupies_slot (staff_row cx u room p t s pk)"
  "b_slot_end (staff_row cx u room p t s pk) = slot_end_for t"
  by (simp_all add: staff_row_def new_booking_def occupies_slot_def)

lemma staff_row_check: "is_hour_aligned t \<Longrightarrow> booking_check_error (staff_row cx u room p t s pk) = None"
  using aligned_checks [of t]
  by (simp add: booking_check_error_def staff_row_def new_booking_def slot_end_for_def SLOT_DELTA_us_hour)

lemma create_staff_row:
  assumes "is_hour_aligned t" "\<not> room_hour_held s (r_pk room) t"
  shows "create_booking (staff_row cx u room p t s) s =
    (let b = staff_row cx u room p t s (fresh_pk (map b_pk (bookings s)))
     in Inr (b, s\<lparr>bookings := bookings s @ [b]\<rparr>))"
proof -
  let ?b = "staff_row cx u room p t s (fresh_pk (map b_pk (bookings s)))"
  have "?b\<lparr>b_pk := fresh_pk (map b_pk (bookings s)), b_slot_date := local_date t\<rparr> = ?b"
    by (simp add: staff_row_def new_booking_def)
  moreover have "booking_error (bookings s) ?b = None"
    using assms(2) staff_row_check [OF assms(1)]
    by (auto simp: booking_error_None room_hour_held_iff same_room_slot_def same_user_slot_def)
  ultimately show ?thesis by (simp add: create_booking_def Let_def)
qed

lemma create_staff_hour_Inr:
  assumes "create_staff_hour cx u room p t (cs, s) = Inr (cs', s')"
  obtains b s1 where "create_booking (staff_row cx u room p t s) s = Inr (b, s1)" "cs' = cs @ [b_pk b]" "logs s1 s'"
  using assms by (auto simp: create_staff_hour_def bindE_Inr staff_row_def [abs_def])

lemma create_staff_hour_evolves:
  assumes "well_formed s" "create_staff_hour cx u room p t (cs, s) = Inr (cs', s')"
  shows "well_formed s' \<and> evolves s s'"
  using assms(2)
proof (rule create_staff_hour_Inr)
  fix b s1 assume run: "create_booking (staff_row cx u room p t s) s = Inr (b, s1)" and l: "logs s1 s'"
  from create_booking_Inr(2) [OF run] have "b_is_staff_booking b \<and> b_status b = SCHEDULED"
    by (metis booking.select_convs(8,14) booking.surjective booking.update_convs(1,6) staff_row_simps(5,6))
  with create_booking_evolves [OF assms(1) run] logs_well_formed [OF l] logs_evolves [OF l]
  show ?thesis by simp
qed

text \<open>The loop books every hour of the list: none of the inserts can fail.\<close>

lemma create_staff_hours:
  assumes "distinct ts" "\<forall>t \<in> set ts. is_hour_aligned t \<and> \<not> room_hour_held s (r_pk room) t"
  shows "\<exists>rows s'. foldE (create_staff_hour cx u room p) ts (cs, s) = Inr (cs @ map b_pk rows, s')
    \<and> bookings s' = bookings s @ rows \<and> map b_slot_start rows = ts
    \<and> (\<forall>b \<in> set rows. b_user b = u_pk u \<and> b_room b = r_pk room \<and> b_status b = SCHEDULED
         \<and> b_is_staff_booking b \<and> b_slot_end b = slot_end_for (b_slot_start b))
    \<and> violations s' = violations s \<and> suspensions s' = suspensions s \<and> notifications s' = notifications s"
  using assms
proof (induction ts arbitrary: cs s)
  case Nil
  show ?case by (intro exI [of _ "[]"] exI [of _ s]) simp
next
  case (Cons t ts)
  let ?b = "staff_row cx u room p t s (fresh_pk (map b_pk (bookings s)))"
  let ?s1 = "s\<lparr>bookings := bookings s @ [?b]\<rparr>"
  have run: "create_booking (staff_row cx u room p t s) s = Inr (?b, ?s1)"
    using create_staff_row [of t s room cx u p] Cons.prems(2) by (simp add: Let_def)
  then obtain s2 where s2: "create_staff_hour cx u room p t (cs, s) = Inr (cs @ [b_pk ?b], s2)"
    and f: "bookings s2 = bookings ?s1" "violations s2 = violations s" "suspensions s2 = suspensions s"
      "notifications s2 = notifications s"
    by (simp add: create_staff_hour_def flip: staff_row_def)
  have "\<forall>t' \<in> set ts. is_hour_aligned t' \<and> \<not> room_hour_held s2 (r_pk room) t'"
    using Cons.prems by (auto simp: room_hour_held_iff f(1))
  with Cons.IH [of s2 "cs @ [b_pk ?b]"] Cons.prems(1) obtain rows s' where
    rows: "foldE (create_staff_hour cx u room p) ts (cs @ [b_pk ?b], s2)
        = Inr ((cs @ [b_pk ?b]) @ map b_pk rows, s')"
      "bookings s' = bookings s2 @ rows" "map b_slot_start rows = ts"
      "\<forall>b \<in> set rows. b_user b = u_pk u \<and> b_room b = r_pk room \<and> b_status b = SCHEDULED
         \<and> b_is_staff_booking b \<and> b_slot_end b = slot_end_for (b_slot_start b)"
      "violations s' = violations s2" "suspensions s' = suspensions s2" "notifications s' = notifications s2"
    by auto
  show ?case
    by (intro exI [of _ "?b # rows"] exI [of _ s']) (use rows(1) in \<open>simp add: s2 rows(2-) f\<close>)
qed

lemma foldE_check:
  "foldE (\<lambda>x _. c x) xs () = Inr () \<longleftrightarrow> (\<forall>x \<in> set xs. c x = Inr ())"
  by (induction xs) (auto simp: bindE_Inr)

lemma foldE_check_clean: "(\<And>x. clean (c x)) \<Longrightarrow> clean (foldE (\<lambda>x _. c x) xs ())"
  by (rule clean_foldE [where P = "\<lambda>_. True"]) auto

text \<open>Everything \<open>create_staff_booking\<close> asks.\<close>

definition staff_range :: "date \<Rightarrow> int \<Rightarrow> int \<Rightarrow> time list" where
  "staff_range d start_hour end_hour = map (slot_start_for d) [start_hour..end_hour - 1]"

definition staff_ok :: "user \<Rightarrow> room \<Rightarrow> date \<Rightarrow> int \<Rightarrow> int \<Rightarrow> time \<Rightarrow> st \<Rightarrow> bool" where
  "staff_ok u room d a b now s \<longleftrightarrow> is_booking_staff (Some u) \<and> 0 \<le> a \<and> a < b \<and> b \<le> 24
     \<and> now < slot_start_for d a \<and> d \<le> local_date now + STAFF_BOOKING_HORIZON_DAYS (conf s)
     \<and> (\<forall>t \<in> set (staff_range d a b). slot_open s t room \<and> \<not> room_hour_held s (r_pk room) t)"

lemma create_staff_booking_cases:
  assumes "ctx_actor cx = Some u"
  shows "if staff_ok u room d a b (ctx_now cx) s
     then \<exists>rows s'. create_staff_booking room d a b cx s =
            Inr ([(''booking_ids'', PList (map PNat (map b_pk rows))), (''room_id'', PNat (r_pk room)),
                  (''hours'', PNat (length rows))], s')
         \<and> bookings s' = bookings s @ rows \<and> map b_slot_start rows = staff_range d a b
         \<and> (\<forall>x \<in> set rows. b_user x = u_pk u \<and> b_room x = r_pk room \<and> b_status x = SCHEDULED
              \<and> b_is_staff_booking x \<and> b_slot_end x = slot_end_for (b_slot_start x))
         \<and> violations s' = violations s \<and> suspensions s' = suspensions s \<and> notifications s' = notifications s
     else \<exists>c dd. create_staff_booking room d a b cx s = Inl (rejected c dd)"
proof -
  let ?basic = "is_booking_staff (Some u) \<and> 0 \<le> a \<and> a < b \<and> b \<le> 24
     \<and> ctx_now cx < slot_start_for d a \<and> d \<le> local_date (ctx_now cx) + STAFF_BOOKING_HORIZON_DAYS (conf s)"
  have hd: "a < b \<Longrightarrow> hd (map (slot_start_for d) [a..b - 1]) = slot_start_for d a"
    by (subst upto_rec1) simp_all
  have held: "list_ex (\<lambda>x. b_room x = r_pk room \<and> b_slot_start x \<in> set (staff_range d a b)
        \<and> b_status x \<in> set BLOCKING_STATUSES) (bookings s)
      \<longleftrightarrow> (\<exists>t \<in> set (staff_range d a b). room_hour_held s (r_pk room) t)"
    by (auto simp: list_ex_iff room_hour_held_def)
  have run: "create_staff_booking room d a b cx s =
     bindE (foldE (\<lambda>t _. assert_slot_open s t room) (staff_range d a b) ()) (\<lambda>_.
       if \<exists>t \<in> set (staff_range d a b). room_hour_held s (r_pk room) t then Inl (rejected Code_RANGE_TAKEN [])
       else bindE (foldE (create_staff_hour cx u room (current_policy s)) (staff_range d a b) ([], ensure_policy s))
         (\<lambda>(created, s). Inr ([(''booking_ids'', PList (map PNat created)), (''room_id'', PNat (r_pk room)),
                       (''hours'', PNat (length created))], s)))" if ?basic
    using assms that hd held
    by (simp add: create_staff_booking_def Let_def not_le not_less staff_range_def cong: if_cong)
  have open_clean: "clean (foldE (\<lambda>t _. assert_slot_open s t room) (staff_range d a b) ())"
    by (intro foldE_check_clean) (unfold clean_def, use assert_slot_open_Inl in blast)
  show ?thesis
  proof (cases ?basic)
    case False
    then have "\<exists>c dd. create_staff_booking room d a b cx s = Inl (rejected c dd)"
      using assms hd by (auto simp: create_staff_booking_def Let_def not_le not_less)
    with False show ?thesis by (auto simp: staff_ok_def)
  next
    case basic: True
    note run = run [OF basic]
    show ?thesis
    proof (cases "foldE (\<lambda>t _. assert_slot_open s t room) (staff_range d a b) ()")
      case (Inl e)
      with open_clean have "\<exists>c dd. e = rejected c dd" by (auto simp: clean_def)
      moreover have "\<not> staff_ok u room d a b (ctx_now cx) s"
        using Inl foldE_check [of "\<lambda>t. assert_slot_open s t room" "staff_range d a b"]
        by (auto simp: staff_ok_def assert_slot_open_Inr)
      ultimately show ?thesis using run Inl by auto
    next
      case (Inr x)
      then have opn: "\<forall>t \<in> set (staff_range d a b). slot_open s t room"
        using foldE_check [of "\<lambda>t. assert_slot_open s t room" "staff_range d a b"]
        by (auto simp: assert_slot_open_Inr)
      show ?thesis
      proof (cases "\<exists>t \<in> set (staff_range d a b). room_hour_held s (r_pk room) t")
        case True
        with run Inr have "create_staff_booking room d a b cx s = Inl (rejected Code_RANGE_TAKEN [])" by simp
        with True show ?thesis by (auto simp: staff_ok_def)
      next
        case False
        then have ok: "staff_ok u room d a b (ctx_now cx) s" using basic opn by (simp add: staff_ok_def)
        have "distinct (staff_range d a b)" by (simp add: staff_range_def distinct_map inj_on_def)
        moreover have "\<forall>t \<in> set (staff_range d a b). is_hour_aligned t
            \<and> \<not> room_hour_held (ensure_policy s) (r_pk room) t"
          using False by (auto simp: staff_range_def room_hour_held_def)
        ultimately obtain rows s' where
          "foldE (create_staff_hour cx u room (current_policy s)) (staff_range d a b) ([], ensure_policy s)
             = Inr (map b_pk rows, s')"
          "bookings s' = bookings s @ rows" "map b_slot_start rows = staff_range d a b"
          "\<forall>x \<in> set rows. b_user x = u_pk u \<and> b_room x = r_pk room \<and> b_status x = SCHEDULED
              \<and> b_is_staff_booking x \<and> b_slot_end x = slot_end_for (b_slot_start x)"
          "violations s' = violations s" "suspensions s' = suspensions s" "notifications s' = notifications s"
          using create_staff_hours [of "staff_range d a b" "ensure_policy s" room cx u "current_policy s" "[]"]
          by auto
        with ok run Inr False show ?thesis by auto
      qed
    qed
  qed
qed

lemma create_staff_booking_evolves:
  assumes "well_formed s" "create_staff_booking room d a b cx s = Inr (r, s')"
  shows "well_formed s' \<and> evolves s s'"
proof -
  from assms(2) obtain u cs where
    loop: "foldE (create_staff_hour cx u room (current_policy s)) (map (slot_start_for d) [a..b - 1]) ([], ensure_policy s)
      = Inr (cs, s')"
    by (auto simp: create_staff_booking_def Let_def bindE_Inr split: option.splits if_splits)
  have "well_formed (snd (cs, s')) \<and> evolves s (snd (cs, s'))"
  proof (rule foldE_invariant [OF loop, where P = "\<lambda>(_, s'). well_formed s' \<and> evolves s s'", unfolded case_prod_beta])
    show "well_formed (snd ([], ensure_policy s)) \<and> evolves s (snd ([], ensure_policy s))"
      using assms(1) by simp
  next
    fix t acc acc'
    assume "well_formed (snd acc) \<and> evolves s (snd acc)"
      and "create_staff_hour cx u room (current_policy s) t acc = Inr acc'"
    then show "well_formed (snd acc') \<and> evolves s (snd acc')"
      using create_staff_hour_evolves [of "snd acc" cx u room "current_policy s" t "fst acc" "fst acc'" "snd acc'"]
        evolves_trans [of s "snd acc" "snd acc'"]
      by simp
  qed
  then show ?thesis by simp
qed

interpretation create_staff: booking_body "create_staff_booking room d a b" for room d a b
  by (rule booking_bodyI) (rule create_staff_booking_evolves)

section \<open>Properties\<close>

text \<open>C5: When a student's reservation is accepted. On every well-formed database and for every
  room, hour and signed-in account, the operation either inserts the booking or rejects with one
  of the service's codes, never with a database error; it accepts exactly when the hour is aligned,
  lies strictly in the future and inside the horizon, the account may reserve the room, the
  calendar is open, quota, cap, adjacency and reclaim rules allow it, and nobody holds the hour.\<close>

theorem create_advance_booking_accepts_iff:
  assumes "ctx_actor cx = Some u"
  shows "((\<exists>r s'. create_advance_booking room t cx s = Inr (r, s')) \<longleftrightarrow>
      is_hour_aligned t \<and> ctx_now cx < t
      \<and> local_date t \<le> local_date (ctx_now cx) + horizon_days (current_policy s)
      \<and> assert_may_reserve_room s (Some u) room (ctx_now cx) = Inr ()
      \<and> assert_slot_open s t room = Inr ()
      \<and> assert_quota_and_adjacency s (u_pk u) t (Some (r_pk room)) None (Some (ctx_now cx)) = Inr ()
      \<and> (\<forall>b. b \<in> set (bookings s) \<and> b_room b = r_pk room \<and> b_slot_start b = t \<longrightarrow> \<not> occupies_slot b))
    \<and> clean (create_advance_booking room t cx s)"
proof -
  have "advance_ok u room t (ctx_now cx) s \<and> \<not> room_hour_held s (r_pk room) t \<longleftrightarrow>
      is_hour_aligned t \<and> ctx_now cx < t
      \<and> local_date t \<le> local_date (ctx_now cx) + horizon_days (current_policy s)
      \<and> assert_may_reserve_room s (Some u) room (ctx_now cx) = Inr ()
      \<and> assert_slot_open s t room = Inr ()
      \<and> assert_quota_and_adjacency s (u_pk u) t (Some (r_pk room)) None (Some (ctx_now cx)) = Inr ()
      \<and> (\<forall>b. b \<in> set (bookings s) \<and> b_room b = r_pk room \<and> b_slot_start b = t \<longrightarrow> \<not> occupies_slot b)"
    unfolding advance_ok_def is_within_horizon_def assert_may_reserve_room_Inr assert_slot_open_Inr
      assert_quota_Inr room_hour_held_iff by blast
  moreover from create_advance_booking_cases [OF assms, of room t s]
  have "((\<exists>r s'. create_advance_booking room t cx s = Inr (r, s')) \<longleftrightarrow>
        advance_ok u room t (ctx_now cx) s \<and> \<not> room_hour_held s (r_pk room) t)
      \<and> clean (create_advance_booking room t cx s)"
    by (auto split: if_splits)
  ultimately show ?thesis by simp
qed

definition sample_ctx :: "time \<Rightarrow> user \<Rightarrow> ctx" where
  "sample_ctx t u = \<lparr>ctx_now = t, ctx_actor = Some u, ctx_payload = []\<rparr>"

lemma sample_policy:
  "daily_quota (current_policy (sample_st t)) = 2"
  "max_upcoming_hours (conf (sample_st t)) (current_policy (sample_st t)) = 4"
  "horizon_days (current_policy (sample_st t)) = 2"
  "checkin_grace_minutes (current_policy (sample_st t)) = 15"
proof -
  have "current_policy (sample_st t) = initial_policy (sample_st t)"
    by (simp add: current_policy_def latest_policy_def sample_st_def order_by_desc_def)
  then show "daily_quota (current_policy (sample_st t)) = 2"
    "max_upcoming_hours (conf (sample_st t)) (current_policy (sample_st t)) = 4"
    "horizon_days (current_policy (sample_st t)) = 2"
    "checkin_grace_minutes (current_policy (sample_st t)) = 15"
    by (simp_all add: initial_policy_def sample_st_def snapshot_from_settings_def default_settings_def
        daily_quota_def max_upcoming_hours_def horizon_days_def checkin_grace_minutes_def snapshot_int_def)
qed

lemma sample_tables:
  "bookings (sample_st t) = []" "suspensions (sample_st t) = []" "closures (sample_st t) = []"
  "overrides (sample_st t) = []" "weekly_blocks (sample_st t) = []" "violations (sample_st t) = []"
  "conf (sample_st t) = default_settings"
  by (simp_all add: sample_st_def)

lemma sample_times:
  "at 10 0 = at 9 0 + us_hour" "local_date (at 10 0) = monday" "local_date (at 9 0) = monday"
  "local_hour (at 10 0) = 10" "is_hour_aligned (at 10 0)"
  by (simp_all add: at_def) (simp add: slot_start_for_def)

lemma sample_may_reserve: "may_reserve ((sample_st t)\<lparr>bookings := bs\<rparr>) alice (sample_room k) t'"
  by (simp add: may_reserve_def account_ok_def email_is_verified_def suspended_at_def sample_tables
      admits_def may_be_reserved_by_def is_restricted_def alice_def sample_user_def blank_user_def
      sample_room_def blank_room_def)

lemma sample_slot_open: "slot_open ((sample_st t)\<lparr>bookings := bs\<rparr>) (at 10 0) (sample_room k)"
proof -
  have "day_hours ((sample_st t)\<lparr>bookings := bs\<rparr>) monday = Some (8, 20)"
    by (simp add: day_hours_def sample_tables default_opening_hours_def default_settings_def
        weekday_def monday_def)
  then show ?thesis
    by (simp add: slot_open_def sample_times(2,4) sample_tables)
      (simp add: sample_room_def blank_room_def)
qed

lemma sample_same: "(sample_st t)\<lparr>bookings := []\<rparr> = sample_st t"
  by (simp add: sample_st_def)

lemma sample_advance_ok: "advance_ok alice room_a (at 10 0) (at 9 0) (sample_st (at 9 0))"
proof -
  have "quota_ok (sample_st (at 9 0)) (u_pk alice) (r_pk room_a) (at 10 0) (at 9 0)"
    by (simp add: quota_ok_def blocking_bookings_def quota_used_def upcoming_hours_def no_show_reclaim_def
        sample_policy sample_tables(1))
  moreover have "at 9 0 < at 10 0" using us_pos(3) sample_times(1) by linarith
  ultimately show ?thesis
    using sample_may_reserve [where t = "at 9 0" and bs = "[]"] sample_slot_open [where t = "at 9 0" and bs = "[]"]
    by (simp add: advance_ok_def is_within_horizon_def sample_policy sample_times(2,3,5) sample_same room_a_def)
qed

theorem create_advance_booking_accepts_iff_witness:
  "\<exists>r s'. create_advance_booking room_a (at 10 0) (sample_ctx (at 9 0) alice) (sample_st (at 9 0)) = Inr (r, s')"
proof -
  have "ctx_actor (sample_ctx (at 9 0) alice) = Some alice" "ctx_now (sample_ctx (at 9 0) alice) = at 9 0"
    by (simp_all add: sample_ctx_def)
  with create_advance_booking_accepts_iff [of "sample_ctx (at 9 0) alice" alice "room_a" "at 10 0" "sample_st (at 9 0)"]
    sample_advance_ok
  show ?thesis
    by (simp add: advance_ok_def is_within_horizon_def assert_may_reserve_room_Inr assert_slot_open_Inr
        assert_quota_Inr sample_tables)
qed

text \<open>C6: What an accepted reservation leaves behind: one new row after the others, for that
  account, room and hour, with the check-in deadline set from the active policy; it waits for
  approval exactly when the room needs it and the account is not staff; the student is still
  within the daily quota and the cap with the new row counted, and the receipt is queued.\<close>

theorem create_advance_booking_effect:
  assumes "ctx_actor cx = Some u" "create_advance_booking room t cx s = Inr (r, s')"
  shows "\<exists>b. bookings s' = bookings s @ [b] \<and> b_pk b \<notin> set (map b_pk (bookings s))
    \<and> b_user b = u_pk u \<and> b_room b = r_pk room \<and> b_slot_start b = t \<and> b_slot_end b = t + us_hour
    \<and> b_slot_date b = local_date t
    \<and> b_deadline b = Some (t + checkin_grace_minutes (current_policy s) * us_minute)
    \<and> b_status b = (if r_requires_approval room \<and> \<not> is_booking_staff (Some u) then PENDING_APPROVAL else SCHEDULED)
    \<and> b_is_staff_booking b = is_booking_staff (Some u)
    \<and> quota_used s' (u_pk u) (local_date t) \<le> daily_quota (current_policy s)
    \<and> upcoming_hours s' (u_pk u) (ctx_now cx) \<le> max_upcoming_hours (conf s) (current_policy s)
    \<and> (\<exists>n. queued s' (created_kind (b_status b) @ '':'' @ show_nat (b_pk b)) = Some n)"
proof -
  let ?pk = "fresh_pk (map b_pk (bookings s))"
  let ?b = "advance_row u room t cx (ensure_policy s) ?pk"
  from create_advance_booking_cases [OF assms(1), of room t s] assms(2)
  have ok: "advance_ok u room t (ctx_now cx) s"
    and l: "logs ((ensure_policy s)\<lparr>bookings := bookings s @ [?b]\<rparr>) s'"
    and q: "\<exists>n. queued s' (created_kind (b_status ?b) @ '':'' @ show_nat (b_pk ?b)) = Some n"
    by (auto split: if_splits)
  have s': "bookings s' = bookings s @ [?b]" using logs_frame(14) [OF l] by simp
  have "quota_used s' (u_pk u) (local_date t) \<le> quota_used s (u_pk u) (local_date t) + 1"
    and "upcoming_hours s' (u_pk u) (ctx_now cx) \<le> upcoming_hours s (u_pk u) (ctx_now cx) + 1"
    by (simp_all add: quota_used_def upcoming_hours_def s')
  with ok have "quota_used s' (u_pk u) (local_date t) \<le> daily_quota (current_policy s)"
    and "upcoming_hours s' (u_pk u) (ctx_now cx) \<le> max_upcoming_hours (conf s) (current_policy s)"
    by (simp_all add: advance_ok_def quota_ok_def)
  moreover have "b_slot_end ?b = t + us_hour" "b_slot_date ?b = local_date t"
    "b_deadline ?b = Some (t + checkin_grace_minutes (current_policy s) * us_minute)"
    by (simp_all add: advance_row_def new_booking_def slot_end_for_def SLOT_DELTA_us_hour advance_deadline_def)
  moreover have "b_pk ?b \<notin> set (map b_pk (bookings s))" unfolding advance_row_simps by (rule fresh_pk_notin)
  ultimately show ?thesis
    using s' q by (intro exI [of _ ?b]) (simp add: advance_status_def del: set_map)
qed

theorem create_advance_booking_effect_witness:
  "\<exists>r s' b. create_advance_booking room_a (at 10 0) (sample_ctx (at 9 0) alice) (sample_st (at 9 0)) = Inr (r, s')
     \<and> bookings s' = [b] \<and> b_status b = SCHEDULED \<and> b_deadline b = Some (at 10 15)"
proof -
  have a: "ctx_actor (sample_ctx (at 9 0) alice) = Some alice" "ctx_now (sample_ctx (at 9 0) alice) = at 9 0"
    by (simp_all add: sample_ctx_def)
  have "\<not> room_hour_held (sample_st (at 9 0)) (r_pk room_a) (at 10 0)"
    by (simp add: room_hour_held_def sample_tables)
  with create_advance_booking_cases [OF a(1), of room_a "at 10 0" "sample_st (at 9 0)"] sample_advance_ok a(2)
  obtain r s' where run: "create_advance_booking room_a (at 10 0) (sample_ctx (at 9 0) alice) (sample_st (at 9 0)) = Inr (r, s')"
    by auto
  have "\<not> r_requires_approval room_a" by (simp add: room_a_def sample_room_def blank_room_def)
  with create_advance_booking_effect [OF a(1) run] run show ?thesis
    by (auto simp: sample_tables sample_policy at_def)
qed

text \<open>A staff booking holds a whole range or nothing: it is accepted exactly for staff, a valid
  range of future hours within the staff horizon, every hour of which the calendar opens and nobody
  holds; then it inserts one scheduled staff row per hour of the range, in order, and otherwise it
  raises one of the service's codes, so that the protocol keeps the state without any of its hours.\<close>

theorem create_staff_booking_all_or_nothing:
  assumes "ctx_actor cx = Some u"
  shows "if is_booking_staff (Some u) \<and> 0 \<le> a \<and> a < b \<and> b \<le> 24 \<and> ctx_now cx < slot_start_for d a
       \<and> d \<le> local_date (ctx_now cx) + STAFF_BOOKING_HORIZON_DAYS (conf s)
       \<and> list_all (\<lambda>h. assert_slot_open s (slot_start_for d h) room = Inr ()
            \<and> \<not> room_hour_held s (r_pk room) (slot_start_for d h)) [a..b - 1]
    then \<exists>r s' rows. create_staff_booking room d a b cx s = Inr (r, s') \<and> bookings s' = bookings s @ rows
       \<and> map b_slot_start rows = map (slot_start_for d) [a..b - 1]
       \<and> list_all (\<lambda>x. b_user x = u_pk u \<and> b_room x = r_pk room \<and> b_status x = SCHEDULED
            \<and> b_is_staff_booking x \<and> b_slot_end x = b_slot_start x + us_hour) rows
    else clean (create_staff_booking room d a b cx s)
       \<and> (\<nexists>r s'. create_staff_booking room d a b cx s = Inr (r, s'))"
proof -
  have ok: "(is_booking_staff (Some u) \<and> 0 \<le> a \<and> a < b \<and> b \<le> 24 \<and> ctx_now cx < slot_start_for d a
       \<and> d \<le> local_date (ctx_now cx) + STAFF_BOOKING_HORIZON_DAYS (conf s)
       \<and> list_all (\<lambda>h. assert_slot_open s (slot_start_for d h) room = Inr ()
            \<and> \<not> room_hour_held s (r_pk room) (slot_start_for d h)) [a..b - 1])
      = staff_ok u room d a b (ctx_now cx) s"
    by (auto simp: staff_ok_def staff_range_def list_all_iff assert_slot_open_Inr)
  show ?thesis
  proof (cases "staff_ok u room d a b (ctx_now cx) s")
    case True
    with create_staff_booking_cases [OF assms, of room d a b s] obtain rows s' r where
      "create_staff_booking room d a b cx s = Inr (r, s')" "bookings s' = bookings s @ rows"
      "map b_slot_start rows = staff_range d a b"
      "\<forall>x \<in> set rows. b_user x = u_pk u \<and> b_room x = r_pk room \<and> b_status x = SCHEDULED
         \<and> b_is_staff_booking x \<and> b_slot_end x = slot_end_for (b_slot_start x)"
      by auto
    then show ?thesis
      unfolding ok using True
      by (auto simp: staff_range_def list_all_iff slot_end_for_def SLOT_DELTA_us_hour)
  next
    case False
    with create_staff_booking_cases [OF assms, of room d a b s] show ?thesis
      unfolding ok by auto
  qed
qed

theorem create_staff_booking_all_or_nothing_witness:
  "\<not> (\<exists>r s'. create_staff_booking room_a monday 10 12 (sample_ctx (at 9 0) alice) (sample_st (at 9 0)) = Inr (r, s'))"
proof -
  have "ctx_actor (sample_ctx (at 9 0) alice) = Some alice" by (simp add: sample_ctx_def)
  moreover have "\<not> is_booking_staff (Some alice)"
    by (simp add: is_booking_staff_def alice_def sample_user_def blank_user_def)
  ultimately show ?thesis
    using create_staff_booking_all_or_nothing [of "sample_ctx (at 9 0) alice" alice 10 12 monday "sample_st (at 9 0)" room_a]
    by simp
qed

text \<open>The body of a reservation trusts its caller's copy of the room. With a copy read while the
  room was in service, the reservation is accepted although the committed row says that the room has
  been taken out of service.\<close>

theorem stale_room_copy_accepted:
  "\<exists>r s'. create_advance_booking room_a (at 10 0) (sample_ctx (at 9 0) alice)
     ((sample_st (at 9 0))\<lparr>rooms := [room_a\<lparr>r_is_active := False\<rparr>]\<rparr>) = Inr (r, s')"
proof -
  let ?s = "(sample_st (at 9 0))\<lparr>rooms := [room_a\<lparr>r_is_active := False\<rparr>]\<rparr>"
  have a: "ctx_actor (sample_ctx (at 9 0) alice) = Some alice" "ctx_now (sample_ctx (at 9 0) alice) = at 9 0"
    by (simp_all add: sample_ctx_def)
  have "\<not> r_members_only room_a" by (simp add: room_a_def sample_room_def blank_room_def)
  then have "advance_ok alice room_a (at 10 0) (at 9 0) ?s"
    using sample_advance_ok by (simp add: advance_ok_rooms)
  moreover have "\<not> room_hour_held ?s (r_pk room_a) (at 10 0)" by (simp add: room_hour_held_def sample_tables)
  ultimately show ?thesis
    using create_advance_booking_cases [OF a(1), of room_a "at 10 0" ?s] a(2) by auto
qed

end
