(* ===== verification/Amendments.thy ===== *)
theory Amendments
  imports Reservations
begin

text \<open>
  The changes to a reservation that exists (\<open>core/services/booking.py\<close>, second half): editing its
  details, moving it to another room at the same hour, cancelling the rest of a weekly series, and
  the decision on a request for an approval room.
\<close>

section \<open>Editing the details\<close>

definition set_details :: "details \<Rightarrow> booking \<Rightarrow> booking" where
  "set_details values b = b\<lparr>
     b_title := (case map_of values ''title'' of Some t \<Rightarrow> t | None \<Rightarrow> ''''),
     b_purpose := (case map_of values ''purpose'' of Some t \<Rightarrow> t | None \<Rightarrow> ''''),
     b_participant_names := (case map_of values ''participant_names'' of Some t \<Rightarrow> t | None \<Rightarrow> ''''),
     b_details_version := b_details_version b + 1\<rparr>"

definition current_details :: "booking \<Rightarrow> details" where
  "current_details b = [(''title'', b_title b), (''purpose'', b_purpose b),
     (''participant_names'', b_participant_names b)]"

definition update_booking_details :: "nat \<Rightarrow> details option \<Rightarrow> ctx \<Rightarrow> st \<Rightarrow> exn + (dict \<times> st)" where
  "update_booking_details booking_pk details cx s =
    (let actor = ctx_actor cx in
     bindE (reload_booking booking_pk s) (\<lambda>booking.
       if Some (b_user booking) \<noteq> actor_pk actor then Inl (rejected Code_NOT_OWNER [])
       else if (b_status booking \<noteq> SCHEDULED \<and> b_status booking \<noteq> PENDING_APPROVAL)
               \<or> ctx_now cx \<ge> b_slot_start booking
         then Inl (rejected Code_TERMINAL_STATUS [(''booking_id'', PNat (b_pk booking))])
       else
         let values = normalise_details details; before = current_details booking in
         if before = values then Inl (rejected Code_INVALID_INPUT [])
         else let booking = set_details values booking in
         bindE (update_booking (b_pk booking) (set_details values) s) (\<lambda>s.
           let s = ctx_audit ''booking.updated'' ''Booking'' (show_nat (b_pk booking)) actor
                 [(''before'', PDict (detail_dict before)), (''after'', PDict (detail_dict values)),
                  (''details_version'', PInt (b_details_version booking))] '''' s;
               room = room_of s (b_room booking);
               s = enqueue ''booking_changed'' (Some (user_of s (b_user booking)))
                 (''booking_changed:'' @ show_nat (b_pk booking) @ '':'' @ show_int (b_details_version booking))
                 [(''booking_id'', PNat (b_pk booking)), (''room_number'', PStr (r_number room)),
                  (''room_label'', PStr (room_str room)),
                  (''slot_start'', PStr (isoformat (b_slot_start booking))),
                  (''slot_end'', PStr (isoformat (b_slot_end booking))),
                  (''slot_start_local'', PStr (format_local (b_slot_start booking))),
                  (''deadline_local'', PStr (deadline_text (b_deadline booking))),
                  (''title'', PStr (b_title booking)), (''purpose'', PStr (b_purpose booking)),
                  (''participant_names'', PStr (b_participant_names booking)),
                  (''details_version'', PInt (b_details_version booking))] s
           in Inr ([(''booking_id'', PNat (b_pk booking)),
                    (''details_version'', PInt (b_details_version booking))], s))))"

section \<open>Moving to another room\<close>

definition set_moved :: "room \<Rightarrow> actor \<Rightarrow> time \<Rightarrow> booking \<Rightarrow> booking" where
  "set_moved room actor now b =
    (if r_requires_approval room \<and> \<not> is_booking_staff actor
     then b\<lparr>b_approved_at := None, b_approved_by := None, b_room := r_pk room,
            b_status := PENDING_APPROVAL, b_details_version := b_details_version b + 1\<rparr>
     else if r_requires_approval room
     then b\<lparr>b_approved_at := Some now, b_approved_by := actor_pk actor, b_room := r_pk room,
            b_status := SCHEDULED, b_details_version := b_details_version b + 1\<rparr>
     else b\<lparr>b_room := r_pk room, b_status := SCHEDULED, b_details_version := b_details_version b + 1\<rparr>)"

definition move_booking :: "nat \<Rightarrow> room \<Rightarrow> ctx \<Rightarrow> st \<Rightarrow> exn + (dict \<times> st)" where
  "move_booking booking_pk room cx s =
    (let actor = ctx_actor cx; now = ctx_now cx in
     bindE (reload_booking booking_pk s) (\<lambda>booking.
       if Some (b_user booking) \<noteq> actor_pk actor then Inl (rejected Code_NOT_OWNER [])
       else if (b_status booking \<noteq> SCHEDULED \<and> b_status booking \<noteq> PENDING_APPROVAL)
               \<or> now \<ge> b_slot_start booking
         then Inl (rejected Code_TERMINAL_STATUS [(''booking_id'', PNat (b_pk booking))])
       else if b_recurrence booking \<noteq> None
         then Inl (rejected Code_RECURRING_OCCURRENCE [(''booking_id'', PNat (b_pk booking))])
       else let previous_room = room_of s (b_room booking) in
         if r_pk previous_room = r_pk room
         then Inl (rejected Code_SAME_ROOM [(''booking_id'', PNat (b_pk booking))])
         else let slot_start = b_slot_start booking in
         thenE (assert_may_reserve_room s actor room now)
         (thenE (assert_slot_open s slot_start room)
         (if no_show_reclaim s (b_user booking) (r_pk room) slot_start
          then Inl (rejected Code_NO_SHOW_RECLAIM [])
          else if list_ex (\<lambda>b. b_room b = r_pk room \<and> b_slot_start b = slot_start
                 \<and> b_status b \<in> set BLOCKING_STATUSES \<and> b_pk b \<noteq> b_pk booking) (bookings s)
          then Inl (rejected Code_SLOT_TAKEN [])
          else
            let booking = set_moved room actor now booking; status = b_status booking in
            bindE (update_booking (b_pk booking) (set_moved room actor now) s) (\<lambda>s.
              let s = ctx_audit ''booking.moved'' ''Booking'' (show_nat (b_pk booking)) actor
                    [(''from_room'', PStr (r_number previous_room)), (''to_room'', PStr (r_number room)),
                     (''slot_start'', PIso slot_start), (''status'', PStr (status_value status)),
                     (''details_version'', PInt (b_details_version booking))] '''' s;
                  kind = (if status = PENDING_APPROVAL then ''booking_pending'' else ''booking_changed'');
                  s = enqueue kind (Some (user_of s (b_user booking)))
                    (kind @ '':'' @ show_nat (b_pk booking) @ '':'' @ show_int (b_details_version booking))
                    [(''booking_id'', PNat (b_pk booking)), (''room_number'', PStr (r_number room)),
                     (''room_label'', PStr (room_str room)),
                     (''previous_room_number'', PStr (r_number previous_room)),
                     (''previous_room_label'', PStr (room_str previous_room)),
                     (''slot_start'', PStr (isoformat slot_start)),
                     (''slot_end'', PStr (isoformat (b_slot_end booking))),
                     (''slot_start_local'', PStr (format_local slot_start)),
                     (''deadline_local'', PStr (deadline_text (b_deadline booking))),
                     (''title'', PStr (b_title booking)), (''purpose'', PStr (b_purpose booking)),
                     (''participant_names'', PStr (b_participant_names booking)),
                     (''details_version'', PInt (b_details_version booking)),
                     (''status'', PStr (status_value status))] s
              in Inr ([(''booking_id'', PNat (b_pk booking)), (''room_id'', PNat (r_pk room)),
                       (''previous_room_id'', PNat (r_pk previous_room)),
                       (''status'', PStr (status_value status)),
                       (''details_version'', PInt (b_details_version booking))], s))))))"

section \<open>Cancelling a weekly series\<close>

text \<open>The rows come in the order of \<open>Booking.Meta\<close>, latest hour first.\<close>

definition cancel_recurring_reservation :: "nat \<Rightarrow> string \<Rightarrow> ctx \<Rightarrow> st \<Rightarrow> exn + (dict \<times> st)" where
  "cancel_recurring_reservation recurrence_pk reason cx s =
     bindE (reload_row rr_pk recurrence_pk (recurrings s)) (\<lambda>recurrence.
       if Some (rr_user recurrence) \<noteq> actor_pk (ctx_actor cx) then Inl (rejected Code_NOT_OWNER [])
       else if rr_status recurrence \<noteq> ACTIVE then Inl (rejected Code_TERMINAL_STATUS [])
       else let future = order_by_desc b_slot_start (filter
              (\<lambda>b. b_recurrence b = Some recurrence_pk \<and> b_status b \<in> {PENDING_APPROVAL, SCHEDULED}
                 \<and> b_slot_start b > ctx_now cx) (bookings s)) in
         if future = [] then Inl (rejected Code_TERMINAL_STATUS [])
         else bindE (foldE (\<lambda>occurrence s. bindE
                (cancel_booking (b_pk occurrence) (or_text reason ''SERIES_CANCELLATION'') False cx s)
                (\<lambda>(_, s). Inr s)) future s) (\<lambda>s.
           let s = s\<lparr>recurrings := update_row rr_pk recurrence_pk
                 (\<lambda>rr. rr\<lparr>rr_status := SERIES_CANCELLED, rr_cancelled_at := Some (ctx_now cx)\<rparr>) (recurrings s)\<rparr>;
               ids = PList (map (PNat \<circ> b_pk) future);
               s = ctx_audit ''recurring_reservation.cancelled'' ''RecurringReservation''
                 (show_nat recurrence_pk) (ctx_actor cx) [(''cancelled_booking_ids'', ids)] reason s
           in Inr ([(''series_id'', PNat recurrence_pk), (''cancelled_booking_ids'', ids)], s)))"

section \<open>Deciding a request\<close>

definition set_approved :: "time \<Rightarrow> actor \<Rightarrow> string \<Rightarrow> booking \<Rightarrow> booking" where
  "set_approved now actor note b = b\<lparr>b_status := SCHEDULED, b_approved_at := Some now,
     b_approved_by := actor_pk actor, b_approval_note := note\<rparr>"

definition set_rejected :: "string \<Rightarrow> booking \<Rightarrow> booking" where
  "set_rejected note b = b\<lparr>b_status := REJECTED, b_approval_note := note\<rparr>"

definition decide_approval :: "nat \<Rightarrow> string \<Rightarrow> string \<Rightarrow> ctx \<Rightarrow> st \<Rightarrow> exn + (dict \<times> st)" where
  "decide_approval booking_pk decision note0 cx s =
     bindE (reload_booking booking_pk s) (\<lambda>booking.
       if b_status booking \<noteq> PENDING_APPROVAL
       then Inl (rejected Code_TERMINAL_STATUS [(''booking_id'', PNat (b_pk booking))])
       else let note = take 1000 (strip note0); room = room_of s (b_room booking) in
       if decision = ''APPROVED'' then
         bindE (update_booking (b_pk booking) (set_approved (ctx_now cx) (ctx_actor cx) note) s) (\<lambda>s.
           let s = ctx_audit ''booking.approved'' ''Booking'' (show_nat (b_pk booking)) (ctx_actor cx)
                 [(''status'', PStr (status_value SCHEDULED)), (''approved_at'', PIso (ctx_now cx))] note s;
               policy = current_policy s; s = ensure_policy s;
               s = enqueue ''booking_confirmation'' (Some (user_of s (b_user booking)))
                 (''booking_confirmation:'' @ show_nat (b_pk booking) @ '':approved:'' @ isoformat (ctx_now cx))
                 [(''booking_id'', PNat (b_pk booking)), (''room_number'', PStr (r_number room)),
                  (''room_label'', PStr (room_str room)),
                  (''slot_start'', PStr (isoformat (b_slot_start booking))),
                  (''slot_end'', PStr (isoformat (b_slot_end booking))),
                  (''slot_start_local'', PStr (format_local (b_slot_start booking))),
                  (''deadline_local'', PStr (deadline_text (b_deadline booking))),
                  (''source'', PStr (source_value (b_source booking))),
                  (''grace_minutes'', PInt (checkin_grace_minutes policy)),
                  (''title'', PStr (b_title booking)), (''purpose'', PStr (b_purpose booking)),
                  (''participant_names'', PStr (b_participant_names booking))] s
           in Inr ([(''booking_id'', PNat (b_pk booking)), (''status'', PStr (status_value SCHEDULED))], s))
       else if decision \<noteq> ''REJECTED'' then Inl (rejected Code_INVALID_INPUT [])
       else
         let note = or_text note ''The room administrator did not approve this request.'' in
         bindE (update_booking (b_pk booking) (set_rejected note) s) (\<lambda>s.
           let s = ctx_audit ''booking.rejected'' ''Booking'' (show_nat (b_pk booking)) (ctx_actor cx)
                 [(''status'', PStr (status_value REJECTED))] note s;
               s = enqueue ''booking_rejected'' (Some (user_of s (b_user booking)))
                 (''booking_rejected:'' @ show_nat (b_pk booking))
                 [(''booking_id'', PNat (b_pk booking)), (''room_number'', PStr (r_number room)),
                  (''room_label'', PStr (room_str room)),
                  (''slot_start'', PStr (isoformat (b_slot_start booking))),
                  (''slot_end'', PStr (isoformat (b_slot_end booking))),
                  (''slot_start_local'', PStr (format_local (b_slot_start booking))),
                  (''reason'', PStr note)] s
           in Inr ([(''booking_id'', PNat (b_pk booking)), (''status'', PStr (status_value REJECTED))], s)))"

definition booking_conflict_for :: "st \<Rightarrow> nat \<Rightarrow> time \<Rightarrow> booking option" where
  "booking_conflict_for s user_pk slot_start =
     first_row (order_by_desc b_slot_start (blocking_bookings s user_pk slot_start))"

section \<open>Lemmas\<close>

lemma set_details_evolves: "row_evolves b (set_details v b)"
  by (rule row_evolves_step) (simp_all add: same_identity_def set_details_def)

lemma set_details_simps [simp]:
  "b_pk (set_details v b) = b_pk b" "b_status (set_details v b) = b_status b"
  "b_room (set_details v b) = b_room b" "b_user (set_details v b) = b_user b"
  "b_slot_start (set_details v b) = b_slot_start b" "b_slot_end (set_details v b) = b_slot_end b"
  "b_is_staff_booking (set_details v b) = b_is_staff_booking b"
  "b_details_version (set_details v b) = b_details_version b + 1"
  "occupies_slot (set_details v b) = occupies_slot b"
  by (simp_all add: set_details_def occupies_slot_def)

lemma set_details_check [simp]: "booking_check_error (set_details v b) = booking_check_error b"
proof -
  have "b_cancel_reason (set_details v b) = b_cancel_reason b"
    "b_cancelled_at (set_details v b) = b_cancelled_at b"
    "b_checked_in_at (set_details v b) = b_checked_in_at b"
    "b_source (set_details v b) = b_source b" "b_deadline (set_details v b) = b_deadline b"
    by (simp_all add: set_details_def)
  then show ?thesis unfolding booking_check_error_def by (simp only: set_details_simps)
qed

lemma set_details_current: "current_details (set_details (normalise_details d) b) = normalise_details d"
  by (simp add: current_details_def set_details_def normalise_details_def Let_def BOOKING_DETAIL_FIELDS_def)

definition editable :: "ctx \<Rightarrow> booking \<Rightarrow> bool" where
  "editable cx b \<longleftrightarrow> actor_pk (ctx_actor cx) = Some (b_user b)
     \<and> b_status b \<in> {PENDING_APPROVAL, SCHEDULED} \<and> ctx_now cx < b_slot_start b"

lemma update_booking_details_Inr:
  assumes "update_booking_details pk d cx s = Inr (r, s')"
  obtains b s1 where "get_row b_pk pk (bookings s) = Some b" "editable cx b"
    "current_details b \<noteq> normalise_details d"
    "update_booking pk (set_details (normalise_details d)) s = Inr s1" "logs s1 s'"
    "\<exists>n. queued s' (''booking_changed:'' @ show_nat pk @ '':'' @ show_int (b_details_version b + 1)) = Some n"
proof -
  from assms obtain b where b: "reload_booking pk s = Inr b"
    by (auto simp: update_booking_details_def Let_def bindE_Inr)
  then have pk: "b_pk b = pk" by (auto dest: reload_booking_mem)
  from b have row: "get_row b_pk pk (bookings s) = Some b" by (simp add: reload_booking_Inr)
  have e: "editable cx b" and ch: "current_details b \<noteq> normalise_details d"
    using assms b by (auto simp: editable_def update_booking_details_def Let_def split: if_splits)
  from assms b pk obtain s1 where u: "update_booking pk (set_details (normalise_details d)) s = Inr s1"
    by (auto simp: update_booking_details_def Let_def bindE_Inr split: if_splits)
  have "logs s1 s' \<and> (\<exists>n. queued s' (''booking_changed:'' @ show_nat pk @ '':'' @ show_int (b_details_version b + 1)) = Some n)"
    using assms b pk u by (auto simp: update_booking_details_def Let_def split: if_splits)
  with that row e ch u show ?thesis by blast
qed

lemma update_booking_details_evolves:
  assumes "well_formed s" "update_booking_details pk d cx s = Inr (r, s')"
  shows "well_formed s' \<and> evolves s s'"
  using assms(2)
proof (rule update_booking_details_Inr)
  fix b s1 assume l: "logs s1 s'" and u: "update_booking pk (set_details (normalise_details d)) s = Inr s1"
  show ?thesis by (rule update_logs_evolves [OF assms(1) u l]) (simp_all add: set_details_evolves)
qed

interpretation edit: booking_body "update_booking_details pk d" for pk d
  by (rule booking_bodyI) (rule update_booking_details_evolves)

lemma set_moved_simps [simp]:
  "b_pk (set_moved r a n b) = b_pk b" "b_room (set_moved r a n b) = r_pk r" "b_user (set_moved r a n b) = b_user b"
  "b_slot_start (set_moved r a n b) = b_slot_start b" "b_slot_date (set_moved r a n b) = b_slot_date b"
  "b_slot_end (set_moved r a n b) = b_slot_end b"
  "b_is_staff_booking (set_moved r a n b) = b_is_staff_booking b"
  "b_status (set_moved r a n b) =
     (if r_requires_approval r \<and> \<not> is_booking_staff a then PENDING_APPROVAL else SCHEDULED)"
  by (simp_all add: set_moved_def)

lemma set_moved_identity: "same_identity b (set_moved r a n b)"
  by (simp add: same_identity_def set_moved_def)

lemma set_moved_evolves:
  assumes "b_status b \<in> {PENDING_APPROVAL, SCHEDULED}"
  shows "row_evolves b (set_moved r a n b)"
proof (rule row_evolves_step [OF set_moved_identity])
  show "b_status (set_moved r a n b) = b_status b \<or> lifecycle (b_status b) (b_status (set_moved r a n b))"
    using assms by (auto intro: lifecycle.intros)
qed (use assms in simp)

lemma set_moved_check:
  assumes "booking_check_error b = None" "b_status b \<in> {PENDING_APPROVAL, SCHEDULED}" "b_source b = ADVANCE"
  shows "booking_check_error (set_moved r a n b) = None"
  using assms by (auto simp: booking_check_error_def set_moved_def split: if_splits option.splits)

definition movable :: "room \<Rightarrow> ctx \<Rightarrow> st \<Rightarrow> booking \<Rightarrow> bool" where
  "movable room cx s b \<longleftrightarrow> editable cx b \<and> b_recurrence b = None \<and> b_room b \<noteq> r_pk room
     \<and> assert_may_reserve_room s (ctx_actor cx) room (ctx_now cx) = Inr ()
     \<and> slot_open s (b_slot_start b) room
     \<and> \<not> no_show_reclaim s (b_user b) (r_pk room) (b_slot_start b)
     \<and> \<not> list_ex (\<lambda>x. b_room x = r_pk room \<and> b_slot_start x = b_slot_start b
          \<and> b_status x \<in> set BLOCKING_STATUSES \<and> b_pk x \<noteq> b_pk b) (bookings s)"

lemma move_booking_Inr:
  assumes "move_booking pk room cx s = Inr (r, s')"
  obtains b s1 where "get_row b_pk pk (bookings s) = Some b" "movable room cx s b"
    "update_booking pk (set_moved room (ctx_actor cx) (ctx_now cx)) s = Inr s1" "logs s1 s'"
proof -
  from assms obtain b where b: "reload_booking pk s = Inr b"
    by (auto simp: move_booking_def Let_def bindE_Inr)
  then have pk: "b_pk b = pk" by (auto dest: reload_booking_mem)
  from b have row: "get_row b_pk pk (bookings s) = Some b" by (simp add: reload_booking_Inr)
  have m: "movable room cx s b"
    using assms b
    by (auto simp: movable_def editable_def move_booking_def Let_def thenE_Inr assert_slot_open_Inr split: if_splits)
  from assms b pk obtain s1 where u: "update_booking pk (set_moved room (ctx_actor cx) (ctx_now cx)) s = Inr s1"
    by (auto simp: move_booking_def Let_def bindE_Inr thenE_Inr split: if_splits)
  have "logs s1 s'"
    using assms b pk u by (auto simp: move_booking_def Let_def thenE_Inr split: if_splits)
  with that row m u show ?thesis by blast
qed

lemma move_booking_evolves:
  assumes "well_formed s" "move_booking pk room cx s = Inr (r, s')"
  shows "well_formed s' \<and> evolves s s'"
  using assms(2)
proof (rule move_booking_Inr)
  fix b s1
  assume b: "get_row b_pk pk (bookings s) = Some b" "movable room cx s b" and l: "logs s1 s'"
    and u: "update_booking pk (set_moved room (ctx_actor cx) (ctx_now cx)) s = Inr s1"
  show ?thesis
    by (rule update_logs_evolves [OF assms(1) u l])
      (use b in \<open>auto simp: movable_def editable_def intro: set_moved_evolves\<close>)
qed

interpretation move: booking_body "move_booking pk room" for pk room
  by (rule booking_bodyI) (rule move_booking_evolves)

lemma set_decided_simps [simp]:
  "b_pk (set_approved t a n b) = b_pk b" "b_pk (set_rejected n b) = b_pk b"
  "b_status (set_approved t a n b) = SCHEDULED" "b_status (set_rejected n b) = REJECTED"
  "b_room (set_approved t a n b) = b_room b" "b_room (set_rejected n b) = b_room b"
  "b_user (set_approved t a n b) = b_user b" "b_user (set_rejected n b) = b_user b"
  "b_slot_start (set_approved t a n b) = b_slot_start b" "b_slot_start (set_rejected n b) = b_slot_start b"
  "b_is_staff_booking (set_approved t a n b) = b_is_staff_booking b"
  "b_is_staff_booking (set_rejected n b) = b_is_staff_booking b"
  by (simp_all add: set_approved_def set_rejected_def)

lemma set_decided_evolves:
  "b_status b = PENDING_APPROVAL \<Longrightarrow> row_evolves b (set_approved t a n b)"
  "b_status b = PENDING_APPROVAL \<Longrightarrow> row_evolves b (set_rejected n b)"
  by (rule row_evolves_step; simp add: same_identity_def set_approved_def set_rejected_def lifecycle.intros)+

lemma set_rejected_check:
  "booking_check_error b = None \<Longrightarrow> b_status b = PENDING_APPROVAL \<Longrightarrow> booking_check_error (set_rejected n b) = None"
  by (auto simp: booking_check_error_def set_rejected_def split: if_splits option.splits)

lemma set_approved_check:
  "booking_check_error b = None \<Longrightarrow> b_status b = PENDING_APPROVAL \<Longrightarrow> b_source b = ADVANCE
    \<Longrightarrow> booking_check_error (set_approved t a n b) = None"
  by (auto simp: booking_check_error_def set_approved_def split: if_splits option.splits)

lemma decide_approval_Inr:
  assumes "decide_approval pk decision note cx s = Inr (r, s')"
  obtains b f s1 where "get_row b_pk pk (bookings s) = Some b" "b_status b = PENDING_APPROVAL"
    "f = (if decision = ''APPROVED'' then set_approved (ctx_now cx) (ctx_actor cx) (take 1000 (strip note))
          else set_rejected (or_text (take 1000 (strip note)) ''The room administrator did not approve this request.''))"
    "decision \<in> {''APPROVED'', ''REJECTED''}"
    "update_booking pk f s = Inr s1" "bookings s' = bookings s1" "logs s1 s' \<or> logs (ensure_policy s1) s'"
proof -
  from assms obtain b where b: "reload_booking pk s = Inr b"
    by (auto simp: decide_approval_def bindE_Inr)
  then have pk: "b_pk b = pk" by (auto dest: reload_booking_mem)
  from b have row: "get_row b_pk pk (bookings s) = Some b" by (simp add: reload_booking_Inr)
  have st: "b_status b = PENDING_APPROVAL" using assms b by (auto simp: decide_approval_def split: if_splits)
  have dec: "decision \<in> {''APPROVED'', ''REJECTED''}"
    using assms b st by (auto simp: decide_approval_def Let_def split: if_splits)
  let ?f = "if decision = ''APPROVED'' then set_approved (ctx_now cx) (ctx_actor cx) (take 1000 (strip note))
          else set_rejected (or_text (take 1000 (strip note)) ''The room administrator did not approve this request.'')"
  from assms b pk st dec obtain s1 where u: "update_booking pk ?f s = Inr s1"
    by (auto simp: decide_approval_def Let_def bindE_Inr split: if_splits)
  have "bookings s' = bookings s1 \<and> (logs s1 s' \<or> logs (ensure_policy s1) s')"
  proof (cases "decision = ''APPROVED''")
    case True
    then have u1: "update_booking pk (set_approved (ctx_now cx) (ctx_actor cx) (take 1000 (strip note))) s = Inr s1"
      using u by simp
    show ?thesis using assms b pk st u1 True by (auto simp: decide_approval_def Let_def)
  next
    case False
    with assms b pk st dec u show ?thesis by (auto simp: decide_approval_def Let_def)
  qed
  with that row st dec u show ?thesis by blast
qed

lemma decide_approval_evolves:
  assumes "well_formed s" "decide_approval pk decision note cx s = Inr (r, s')"
  shows "well_formed s' \<and> evolves s s'"
  using assms(2)
proof (rule decide_approval_Inr)
  fix b f s1
  assume b: "get_row b_pk pk (bookings s) = Some b" "b_status b = PENDING_APPROVAL"
    and f: "f = (if decision = ''APPROVED'' then set_approved (ctx_now cx) (ctx_actor cx) (take 1000 (strip note))
          else set_rejected (or_text (take 1000 (strip note)) ''The room administrator did not approve this request.''))"
    and u: "update_booking pk f s = Inr s1"
    and l: "logs s1 s' \<or> logs (ensure_policy s1) s'"
  have "row_evolves b (f b)" "\<And>x. b_pk (f x) = b_pk x"
    unfolding f using b(2) by (simp_all add: set_decided_evolves)
  with b have "well_formed s1 \<and> evolves s s1"
    by (intro conjI update_booking_evolves [OF assms(1) u]) auto
  with l show ?thesis
    using logs_well_formed [of s1 s'] logs_well_formed [of "ensure_policy s1" s']
      logs_evolves [of s1 s' s] logs_evolves [of "ensure_policy s1" s' s] by auto
qed

interpretation decide: booking_body "decide_approval pk decision remark" for pk decision remark
  by (rule booking_bodyI) (rule decide_approval_evolves)

text \<open>No constraint can object to a move or to a decision: the booking keeps its hour and its owner,
  and the target room was checked to be free.\<close>

lemma update_moved:
  assumes "well_formed s" "get_row b_pk pk (bookings s) = Some b" "movable room cx s b"
  shows "update_booking pk (set_moved room a n) s
    = Inr (s\<lparr>bookings := update_row b_pk pk (set_moved room a n) (bookings s)\<rparr>)"
proof (rule update_booking_total [OF assms(2)])
  from assms(2) have b: "b \<in> set (bookings s)" "b_pk b = pk" by (auto dest: get_row_Some)
  have st: "b_status b \<in> {PENDING_APPROVAL, SCHEDULED}" using assms(3) by (simp add: movable_def editable_def)
  show "booking_check_error (set_moved room a n b) = None"
    using well_formed_live [OF assms(1) b(1)] st by (intro set_moved_check) auto
  fix x assume x: "x \<in> set (bookings s)" "b_pk x \<noteq> pk"
  then have "\<not> (b_room x = r_pk room \<and> b_slot_start x = b_slot_start b \<and> occupies_slot x)"
    using assms(3) b(2) by (auto simp: movable_def list_ex_iff occupies_slot_def)
  moreover have "\<not> same_user_slot b x"
    using well_formedD(1) [OF assms(1)] x b unfolding bookings_ok_def by metis
  moreover have "occupies_slot b" using st by (auto simp: occupies_slot_def)
  ultimately show "\<not> same_room_slot (set_moved room a n b) x \<and> \<not> same_user_slot (set_moved room a n b) x"
    by (auto simp: same_room_slot_def same_user_slot_def)
qed

lemma move_booking_succeeds:
  assumes "well_formed s" "get_row b_pk pk (bookings s) = Some b" "movable room cx s b"
  shows "\<exists>r s'. move_booking pk room cx s = Inr (r, s')"
proof -
  have "b_pk b = pk" using assms(2) by (auto dest: get_row_Some)
  then show ?thesis
    using assms(2,3) update_moved [OF assms]
    by (auto simp: movable_def editable_def move_booking_def Let_def reload_booking_def
        assert_slot_open_Inr [symmetric, where u = "()"])
qed

lemma update_decided:
  assumes "well_formed s" "get_row b_pk pk (bookings s) = Some b" "b_status b = PENDING_APPROVAL"
  shows "update_booking pk (set_approved t a n) s
      = Inr (s\<lparr>bookings := update_row b_pk pk (set_approved t a n) (bookings s)\<rparr>)"
    and "update_booking pk (set_rejected n) s
      = Inr (s\<lparr>bookings := update_row b_pk pk (set_rejected n) (bookings s)\<rparr>)"
proof -
  note ok = well_formedD(1) [OF assms(1)]
  from assms(2) have b: "b \<in> set (bookings s)" by (auto dest: get_row_Some)
  note live = well_formed_live [OF assms(1) b]
  show "update_booking pk (set_approved t a n) s
      = Inr (s\<lparr>bookings := update_row b_pk pk (set_approved t a n) (bookings s)\<rparr>)"
    by (rule update_booking_total_narrow [OF ok assms(2)])
      (use assms(3) live in \<open>simp_all add: set_approved_check occupies_slot_def\<close>)
  show "update_booking pk (set_rejected n) s
      = Inr (s\<lparr>bookings := update_row b_pk pk (set_rejected n) (bookings s)\<rparr>)"
    by (rule update_booking_total_narrow [OF ok assms(2)])
      (use assms(3) live in \<open>simp_all add: set_rejected_check occupies_slot_def\<close>)
qed

section \<open>Properties\<close>

text \<open>C11: A move keeps exactly one booking. When it succeeds, the row keeps its key, owner, hour and
  deadline and holds the target room, the room it left is free at that hour, every other row is as
  it was, and the owner's quota charge is the same; when it is refused, it is with one of the
  service's codes, so the booking stays where it was.\<close>

theorem move_booking_keeps_one:
  assumes "well_formed s" "b \<in> set (bookings s)"
  shows "case move_booking (b_pk b) room cx s of
      Inr (r, s') \<Rightarrow> (\<exists>b'. get_row b_pk (b_pk b) (bookings s') = Some b' \<and> same_identity b b'
          \<and> b_room b' = r_pk room \<and> occupies_slot b' \<and> r_pk room \<noteq> b_room b
          \<and> (b_status b' = PENDING_APPROVAL \<longleftrightarrow> r_requires_approval room \<and> \<not> is_booking_staff (ctx_actor cx))
          \<and> bookings s' = update_row b_pk (b_pk b) (\<lambda>_. b') (bookings s)
          \<and> \<not> room_hour_held s' (b_room b) (b_slot_start b)
          \<and> quota_used s' (b_user b) (b_slot_date b) = quota_used s (b_user b) (b_slot_date b))
    | Inl e \<Rightarrow> \<exists>c d. e = rejected c d"
proof -
  note ok = well_formedD(1) [OF assms(1)]
  have row: "get_row b_pk (b_pk b) (bookings s) = Some b" by (rule bookings_ok_get_row [OF ok assms(2)])
  show ?thesis
  proof (cases "move_booking (b_pk b) room cx s")
    case (Inl e)
    have c1: "assert_may_reserve_room s u r n = Inl e' \<Longrightarrow> \<exists>c d. e' = rejected c d" for u r n e'
      by (rule eligibility_rejects)
    have c2: "assert_slot_open s t r = Inl e' \<Longrightarrow> \<exists>c d. e' = rejected c d" for t r e'
      using assert_slot_open_Inl by blast
    have "\<not> movable room cx s b"
    proof
      assume "movable room cx s b"
      from move_booking_succeeds [OF assms(1) row this] Inl show False by auto
    qed
    moreover have "\<exists>c d. e = rejected c d" if "\<not> movable room cx s b"
      using Inl row that
      by (auto simp: movable_def editable_def move_booking_def Let_def reload_booking_def thenE_Inl
          assert_slot_open_Inr bindE_Inl split: if_splits dest: c1 c2)
    ultimately show ?thesis using Inl by auto
  next
    case (Inr x)
    obtain r s' where x: "x = (r, s')" by fastforce
    let ?f = "set_moved room (ctx_actor cx) (ctx_now cx)"
    from Inr x obtain s1 where m: "movable room cx s b" and u: "update_booking (b_pk b) ?f s = Inr s1"
      and l: "logs s1 s'"
      using row by (auto elim: move_booking_Inr)
    have bk: "bookings s' = update_row b_pk (b_pk b) ?f (bookings s)"
      using logs_frame(14) [OF l] update_booking_frame(21) [OF u] by simp
    have const: "bookings s' = update_row b_pk (b_pk b) (\<lambda>_. ?f b) (bookings s)"
      unfolding bk using ok by (intro update_row_const assms(2)) (simp add: bookings_ok_def)
    have live: "b_status b \<in> {PENDING_APPROVAL, SCHEDULED}" "b_room b \<noteq> r_pk room"
      using m by (auto simp: movable_def editable_def)
    then have occ: "occupies_slot b" "occupies_slot (?f b)" by (auto simp: occupies_slot_def)
    have "get_row b_pk (b_pk b) (bookings s') = Some (?f b)"
      unfolding bk by (simp add: get_row_update_row row)
    moreover have "\<not> room_hour_held s' (b_room b) (b_slot_start b)"
    proof -
      have "\<not> (b_room y = b_room b \<and> b_slot_start y = b_slot_start b \<and> occupies_slot y)"
        if "y \<in> set (bookings s)" "b_pk y \<noteq> b_pk b" for y
        using ok that assms(2) occ(1) unfolding bookings_ok_def same_room_slot_def by metis
      moreover have "b_room (?f b) \<noteq> b_room b" using live(2) by simp
      ultimately show ?thesis unfolding room_hour_held_iff const set_update_row by auto
    qed
    moreover have "quota_used s' (b_user b) (b_slot_date b) = quota_used s (b_user b) (b_slot_date b)"
    proof -
      have "b_status b \<in> set QUOTA_STATUSES \<and> b_status (?f b) \<in> set QUOTA_STATUSES" using live(1) by auto
      moreover have "y = b" if "y \<in> set (bookings s)" "b_pk y = b_pk b" for y
        using bookings_ok_unique [OF ok that(1) assms(2) that(2)] .
      ultimately show ?thesis
        unfolding quota_used_def const
        by (intro arg_cong [where f = int] count_update_row) (metis set_moved_simps(3,5))
    qed
    ultimately show ?thesis
      using Inr x const live(2) occ(2) set_moved_identity [of b room "ctx_actor cx" "ctx_now cx"]
      by (auto simp: quota_used_def)
  qed
qed

theorem move_booking_keeps_one_witness:
  "\<exists>r s' b'. move_booking 1 room_b (sample_ctx (at 9 0) alice) (one_booking_st (at 9 0) SCHEDULED) = Inr (r, s')
     \<and> get_row b_pk 1 (bookings s') = Some b' \<and> b_room b' = 2 \<and> b_slot_start b' = at 10 0"
proof -
  let ?s = "one_booking_st (at 9 0) SCHEDULED"
  let ?b = "sample_booking 1 1 1 10 SCHEDULED"
  let ?cx = "sample_ctx (at 9 0) alice"
  have wf: "well_formed ?s" by (rule one_booking_well_formed) simp
  have b: "?b \<in> set (bookings ?s)" "b_pk ?b = 1" "b_slot_start ?b = at 10 0" "b_room ?b = 1"
    "b_user ?b = 1" "b_status ?b = SCHEDULED" "b_recurrence ?b = None"
    by (simp_all add: one_booking_st_def sample_booking_def)
  have row: "get_row b_pk 1 (bookings ?s) = Some ?b"
    using bookings_ok_get_row [OF well_formedD(1) [OF wf] b(1)] b(2) by simp
  have "assert_may_reserve_room ?s (Some alice) room_b (at 9 0) = Inr ()"
    using sample_may_reserve [where t = "at 9 0" and bs = "[?b]" and k = 2]
    by (simp add: assert_may_reserve_room_Inr one_booking_st_def room_b_def)
  moreover have "slot_open ?s (at 10 0) room_b"
    using sample_slot_open [where t = "at 9 0" and bs = "[?b]" and k = 2] by (simp add: one_booking_st_def room_b_def)
  moreover have "at 9 0 < at 10 0" by (simp add: at_def)
  moreover have "u_pk alice = 1" "r_pk room_b = 2"
    by (simp_all add: alice_def sample_user_def blank_user_def room_b_def sample_room_def blank_room_def)
  ultimately have m: "movable room_b ?cx ?s ?b"
    using b by (simp add: movable_def editable_def sample_ctx_def actor_pk_def no_show_reclaim_def one_booking_st_def)
  from move_booking_succeeds [OF wf row m] obtain r s' where run: "move_booking 1 room_b ?cx ?s = Inr (r, s')" by auto
  with move_booking_keeps_one [OF wf b(1), of room_b ?cx] b \<open>r_pk room_b = 2\<close> show ?thesis
    by (auto simp: same_identity_def)
qed

text \<open>The decision on a request. Only a row that waits for approval can be decided, only with
  the words APPROVED or REJECTED, and then the decision is written to that row alone: an approval
  schedules it and records who approved it and when, a rejection ends it with a reason that is
  never blank. Any other case is refused with a code, never a database error.\<close>

theorem decide_approval_spec:
  assumes "well_formed s" "b \<in> set (bookings s)"
  shows "case decide_approval (b_pk b) decision remark cx s of
      Inr (r, s') \<Rightarrow> b_status b = PENDING_APPROVAL \<and> decision \<in> {''APPROVED'', ''REJECTED''}
        \<and> (\<exists>reason. reason \<noteq> [] \<and> bookings s' = update_row b_pk (b_pk b)
              (if decision = ''APPROVED'' then set_approved (ctx_now cx) (ctx_actor cx) (take 1000 (strip remark))
               else set_rejected reason) (bookings s))
    | Inl e \<Rightarrow> (b_status b \<noteq> PENDING_APPROVAL \<and> e = rejected Code_TERMINAL_STATUS [(''booking_id'', PNat (b_pk b))])
        \<or> (b_status b = PENDING_APPROVAL \<and> decision \<notin> {''APPROVED'', ''REJECTED''}
            \<and> e = rejected Code_INVALID_INPUT [])"
proof -
  have row: "get_row b_pk (b_pk b) (bookings s) = Some b"
    by (rule bookings_ok_get_row [OF well_formedD(1) [OF assms(1)] assms(2)])
  show ?thesis
  proof (cases "decide_approval (b_pk b) decision remark cx s")
    case (Inl e)
    then show ?thesis
      using row update_decided [OF assms(1) row]
      by (auto simp: decide_approval_def reload_booking_def Let_def bindE_Inl split: if_splits)
  next
    case (Inr x)
    obtain r s' where x: "x = (r, s')" by fastforce
    have nonblank: "or_text n ''The room administrator did not approve this request.'' \<noteq> []" for n
      by (simp add: or_text_def)
    from Inr x have "decide_approval (b_pk b) decision remark cx s = Inr (r, s')" by simp
    then show ?thesis
    proof (rule decide_approval_Inr)
      fix b' f s1
      assume "get_row b_pk (b_pk b) (bookings s) = Some b'" "b_status b' = PENDING_APPROVAL"
        and f: "f = (if decision = ''APPROVED'' then set_approved (ctx_now cx) (ctx_actor cx) (take 1000 (strip remark))
          else set_rejected (or_text (take 1000 (strip remark)) ''The room administrator did not approve this request.''))"
        and d: "decision \<in> {''APPROVED'', ''REJECTED''}"
        and u: "update_booking (b_pk b) f s = Inr s1" and bk: "bookings s' = bookings s1"
      then have "b_status b = PENDING_APPROVAL" using row by simp
      moreover have "bookings s' = update_row b_pk (b_pk b) f (bookings s)"
        using bk update_booking_frame(21) [OF u] by simp
      ultimately show ?thesis
        using Inr x d nonblank unfolding f by auto
    qed
  qed
qed

theorem decide_approval_spec_witness:
  "\<exists>r s'. decide_approval 1 ''APPROVED'' '' fine '' (sample_ctx (at 9 0) staff_member)
     (one_booking_st (at 9 0) PENDING_APPROVAL) = Inr (r, s') \<and> map b_status (bookings s') = [SCHEDULED]"
proof -
  let ?s = "one_booking_st (at 9 0) PENDING_APPROVAL"
  let ?b = "sample_booking 1 1 1 10 PENDING_APPROVAL"
  have wf: "well_formed ?s" by (rule one_booking_well_formed) simp
  have b: "?b \<in> set (bookings ?s)" "b_pk ?b = 1" "b_status ?b = PENDING_APPROVAL" "bookings ?s = [?b]"
    by (simp_all add: one_booking_st_def sample_booking_def)
  show ?thesis
    using decide_approval_spec [OF wf b(1), where decision = "''APPROVED''" and remark = "'' fine ''"
      and cx = "sample_ctx (at 9 0) staff_member"] b
    by (auto simp: update_row_def split: sum.splits)
qed

text \<open>An edit touches the descriptive text alone. It is accepted only from the owner of a live
  reservation before its hour; the stored text is stripped and within the limits of the form, the
  generation counter grows by one, room, hour and status stay, and submitting the same details
  again is refused.\<close>

theorem update_booking_details_effect:
  assumes "update_booking_details pk d cx s = Inr (r, s')"
  shows "\<exists>b b'. get_row b_pk pk (bookings s) = Some b \<and> get_row b_pk pk (bookings s') = Some b'
    \<and> bookings s' = update_row b_pk pk (set_details (normalise_details d)) (bookings s)
    \<and> actor_pk (ctx_actor cx) = Some (b_user b) \<and> b_status b \<in> {PENDING_APPROVAL, SCHEDULED}
    \<and> ctx_now cx < b_slot_start b
    \<and> b_room b' = b_room b \<and> b_slot_start b' = b_slot_start b \<and> b_status b' = b_status b
    \<and> b_details_version b' = b_details_version b + 1
    \<and> length (b_title b') \<le> 120 \<and> length (b_purpose b') \<le> 500 \<and> length (b_participant_names b') \<le> 500
    \<and> update_booking_details pk d cx s' = Inl (rejected Code_INVALID_INPUT [])"
  using assms
proof (rule update_booking_details_Inr)
  fix b s1
  assume b: "get_row b_pk pk (bookings s) = Some b" "editable cx b" and l: "logs s1 s'"
    and u: "update_booking pk (set_details (normalise_details d)) s = Inr s1"
  let ?b' = "set_details (normalise_details d) b"
  have pk: "b_pk b = pk" using b(1) by (auto dest: get_row_Some)
  have bk: "bookings s' = update_row b_pk pk (set_details (normalise_details d)) (bookings s)"
    using logs_frame(14) [OF l] update_booking_frame(21) [OF u] by simp
  have row: "get_row b_pk pk (bookings s') = Some ?b'" unfolding bk by (simp add: get_row_update_row b)
  have "length (b_title ?b') \<le> 120 \<and> length (b_purpose ?b') \<le> 500 \<and> length (b_participant_names ?b') \<le> 500"
    by (simp add: set_details_def normalise_details_def Let_def BOOKING_DETAIL_FIELDS_def detail_limit_def
        BOOKING_DETAIL_LIMITS_def)
  moreover have "update_booking_details pk d cx s' = Inl (rejected Code_INVALID_INPUT [])"
    using b(2) by (auto simp: update_booking_details_def Let_def reload_booking_def row editable_def
        set_details_current not_le)
  ultimately show ?thesis
    using b row bk by (intro exI [of _ b] exI [of _ ?b']) (simp add: editable_def)
qed

theorem update_booking_details_effect_witness:
  "\<exists>r s' b'. update_booking_details 1 (Some [(''title'', '' trio '')]) (sample_ctx (at 9 0) alice)
       (one_booking_st (at 9 0) SCHEDULED) = Inr (r, s')
     \<and> get_row b_pk 1 (bookings s') = Some b' \<and> length (b_title b') \<le> 120"
proof -
  let ?s = "one_booking_st (at 9 0) SCHEDULED"
  let ?b = "sample_booking 1 1 1 10 SCHEDULED"
  let ?d = "Some [(''title'', '' trio '')]"
  let ?cx = "sample_ctx (at 9 0) alice"
  have wf: "well_formed ?s" by (rule one_booking_well_formed) simp
  have b: "?b \<in> set (bookings ?s)" "b_pk ?b = 1" "b_title ?b = []"
    by (simp_all add: one_booking_st_def sample_booking_def)
  have row: "get_row b_pk 1 (bookings ?s) = Some ?b"
    using bookings_ok_get_row [OF well_formedD(1) [OF wf] b(1)] b(2) by simp
  have e: "editable ?cx ?b"
    by (simp add: editable_def sample_ctx_def actor_pk_def sample_booking_def alice_def sample_user_def
        blank_user_def at_def)
  have "normalise_details ?d ! 0 = (''title'', ''trio'')"
    by (simp add: normalise_details_def BOOKING_DETAIL_FIELDS_def detail_limit_def BOOKING_DETAIL_LIMITS_def
        strip_def py_space_def)
  then have ch: "current_details ?b \<noteq> normalise_details ?d"
    using b(3) by (auto simp: current_details_def dest: arg_cong [where f = "\<lambda>x. x ! 0"])
  have "update_booking 1 (set_details (normalise_details ?d)) ?s
      = Inr (?s\<lparr>bookings := update_row b_pk 1 (set_details (normalise_details ?d)) (bookings ?s)\<rparr>)"
    by (rule update_booking_total_narrow [OF well_formedD(1) [OF wf] row])
      (use well_formed_live [OF wf b(1)] in simp_all)
  then have "\<exists>r s'. update_booking_details 1 ?d ?cx ?s = Inr (r, s')"
    using e ch row b(2) by (auto simp: update_booking_details_def Let_def reload_booking_def editable_def)
  then obtain r s' where run: "update_booking_details 1 ?d ?cx ?s = Inr (r, s')" by blast
  with update_booking_details_effect [OF run] show ?thesis by blast
qed

text \<open>The loop over the rest of a series cancels each row of the list once.\<close>

definition cancelled_by_owner :: "ctx \<Rightarrow> string \<Rightarrow> booking \<Rightarrow> booking" where
  "cancelled_by_owner cx reason b = set_cancelled (ctx_now cx) (actor_pk (ctx_actor cx)) reason
     (b_slot_start b - LATE_CANCEL_WINDOW < ctx_now cx) b"

lemma cancel_series_loop:
  assumes "well_formed s" "distinct (map b_pk xs)"
    and "foldE (\<lambda>x s. bindE (cancel_booking (b_pk x) reason False cx s) (\<lambda>(_, s). Inr s)) xs s = Inr s'"
  shows "bookings s' = map (\<lambda>b. if b_pk b \<in> b_pk ` set xs then cancelled_by_owner cx reason b else b) (bookings s)
    \<and> well_formed s' \<and> evolves s s' \<and> recurrings s' = recurrings s"
  using assms
proof (induction xs arbitrary: s)
  case Nil
  then show ?case by simp
next
  case (Cons x xs)
  from Cons.prems(3) obtain r s1 where c: "cancel_booking (b_pk x) reason False cx s = Inr (r, s1)"
    and rest: "foldE (\<lambda>x s. bindE (cancel_booking (b_pk x) reason False cx s) (\<lambda>(_, s). Inr s)) xs s1 = Inr s'"
    by (auto simp: bindE_Inr)
  note ev = cancel_booking_evolves [OF Cons.prems(1) c]
  from c obtain b where row: "get_row b_pk (b_pk x) (bookings s) = Some b"
    and bk: "bookings s1 = update_row b_pk (b_pk x) (set_cancelled (ctx_now cx) (actor_pk (ctx_actor cx)) reason
       (b_slot_start b - LATE_CANCEL_WINDOW < ctx_now cx)) (bookings s)"
    and rr: "recurrings s1 = recurrings s"
    by (rule cancel_booking_Inr) (auto simp: logs_frame update_booking_frame)
  have one: "y = b" if "y \<in> set (bookings s)" "b_pk y = b_pk x" for y
    using bookings_ok_unique [OF well_formedD(1) [OF Cons.prems(1)] that(1), of b] that(2) row
    by (auto dest: get_row_Some)
  have "bookings s1 = map (\<lambda>y. if b_pk y = b_pk x then cancelled_by_owner cx reason y else y) (bookings s)"
    unfolding bk update_row_def cancelled_by_owner_def using one by (auto intro!: map_cong)
  moreover from Cons.IH [OF _ _ rest] ev Cons.prems(2)
  have "bookings s' = map (\<lambda>b. if b_pk b \<in> b_pk ` set xs then cancelled_by_owner cx reason b else b) (bookings s1)"
    "well_formed s' \<and> evolves s1 s' \<and> recurrings s' = recurrings s1" by auto
  ultimately show ?case
    using ev evolves_trans [of s s1 s'] Cons.prems(2) rr by (auto simp: cancelled_by_owner_def)
qed

lemma cancel_recurring_Inr:
  assumes "cancel_recurring_reservation pk reason cx s = Inr (r, s')"
  obtains rr xs s1 where "get_row rr_pk pk (recurrings s) = Some rr" "rr_status rr = ACTIVE"
    "actor_pk (ctx_actor cx) = Some (rr_user rr)"
    "xs = order_by_desc b_slot_start (filter (\<lambda>b. b_recurrence b = Some pk
        \<and> b_status b \<in> {PENDING_APPROVAL, SCHEDULED} \<and> ctx_now cx < b_slot_start b) (bookings s))"
    "xs \<noteq> []"
    "foldE (\<lambda>x s. bindE (cancel_booking (b_pk x) (or_text reason ''SERIES_CANCELLATION'') False cx s)
       (\<lambda>(_, s). Inr s)) xs s = Inr s1"
    "bookings s' = bookings s1" "notifications s' = notifications s1"
    "recurrings s' = update_row rr_pk pk (\<lambda>rr. rr\<lparr>rr_status := SERIES_CANCELLED,
        rr_cancelled_at := Some (ctx_now cx)\<rparr>) (recurrings s1)"
  using assms
  by (auto simp: cancel_recurring_reservation_def bindE_Inr reload_row_def Let_def
      split: if_splits option.splits)

lemma cancel_recurring_evolves:
  assumes "well_formed s" "cancel_recurring_reservation pk reason cx s = Inr (r, s')"
  shows "well_formed s' \<and> evolves s s'"
  using assms(2)
proof (rule cancel_recurring_Inr)
  fix rr xs s1
  assume xs: "xs = order_by_desc b_slot_start (filter (\<lambda>b. b_recurrence b = Some pk
        \<and> b_status b \<in> {PENDING_APPROVAL, SCHEDULED} \<and> ctx_now cx < b_slot_start b) (bookings s))"
    and loop: "foldE (\<lambda>x s. bindE (cancel_booking (b_pk x) (or_text reason ''SERIES_CANCELLATION'') False cx s)
       (\<lambda>(_, s). Inr s)) xs s = Inr s1"
    and same: "bookings s' = bookings s1" "notifications s' = notifications s1"
  have "distinct (map b_pk xs)"
    using well_formedD(1) [OF assms(1)] unfolding xs by (auto simp: bookings_ok_def distinct_map inj_on_def)
  from cancel_series_loop [OF assms(1) this loop]
  show ?thesis using well_formed_cong [OF same] evolves_bookings_cong(1) [OF same(1)] by blast
qed

interpretation series: booking_body "cancel_recurring_reservation pk reason" for pk reason
  by (rule booking_bodyI) (rule cancel_recurring_evolves)

text \<open>Cancelling a weekly series cancels exactly its occurrences that are still live and in the
  future: each of them, and no other booking, becomes CANCELLED with the late flag its own hour
  gives it, the series itself is closed, and none of its future hours remains held by it.\<close>

theorem cancel_recurring_effect:
  assumes "well_formed s" "cancel_recurring_reservation pk reason cx s = Inr (r, s')"
  shows "bookings s' = map (\<lambda>b. if b_recurrence b = Some pk \<and> b_status b \<in> {PENDING_APPROVAL, SCHEDULED}
          \<and> ctx_now cx < b_slot_start b
        then cancelled_by_owner cx (or_text reason ''SERIES_CANCELLATION'') b else b) (bookings s)
    \<and> (\<exists>rr. get_row rr_pk pk (recurrings s') = Some rr \<and> rr_status rr = SERIES_CANCELLED
        \<and> actor_pk (ctx_actor cx) = Some (rr_user rr))
    \<and> list_all (\<lambda>b. \<not> (b_recurrence b = Some pk \<and> b_status b \<in> {PENDING_APPROVAL, SCHEDULED}
         \<and> ctx_now cx < b_slot_start b)) (bookings s')"
  using assms(2)
proof (rule cancel_recurring_Inr)
  fix rr xs s1
  let ?live = "\<lambda>b. b_recurrence b = Some pk \<and> b_status b \<in> {PENDING_APPROVAL, SCHEDULED} \<and> ctx_now cx < b_slot_start b"
  let ?reason = "or_text reason ''SERIES_CANCELLATION''"
  assume rr: "get_row rr_pk pk (recurrings s) = Some rr" "actor_pk (ctx_actor cx) = Some (rr_user rr)"
    and xs: "xs = order_by_desc b_slot_start (filter ?live (bookings s))"
    and loop: "foldE (\<lambda>x s. bindE (cancel_booking (b_pk x) ?reason False cx s) (\<lambda>(_, s). Inr s)) xs s = Inr s1"
    and same: "bookings s' = bookings s1"
    and ser: "recurrings s' = update_row rr_pk pk (\<lambda>rr. rr\<lparr>rr_status := SERIES_CANCELLED,
        rr_cancelled_at := Some (ctx_now cx)\<rparr>) (recurrings s1)"
  note ok = well_formedD(1) [OF assms(1)]
  have "distinct (map b_pk xs)"
    using ok unfolding xs by (auto simp: bookings_ok_def distinct_map inj_on_def)
  note l = cancel_series_loop [OF assms(1) this loop]
  have "b_pk b \<in> b_pk ` set xs \<longleftrightarrow> ?live b" if "b \<in> set (bookings s)" for b
    using bookings_ok_unique [OF ok that] that unfolding xs by (auto simp: image_iff)
  with l same have bk: "bookings s' = map (\<lambda>b. if ?live b then cancelled_by_owner cx ?reason b else b) (bookings s)"
    by auto
  have "list_all (\<lambda>b. \<not> ?live b) (bookings s')"
    unfolding bk by (auto simp: list_all_iff cancelled_by_owner_def)
  moreover have "get_row rr_pk pk (recurrings s')
      = Some (rr\<lparr>rr_status := SERIES_CANCELLED, rr_cancelled_at := Some (ctx_now cx)\<rparr>)"
    using l rr(1) ser by (simp add: get_row_update_row)
  ultimately show ?thesis using bk rr(2) by auto
qed

theorem cancel_recurring_effect_witness:
  "\<exists>r s'. cancel_recurring_reservation 7 [] (sample_ctx (at 9 0) alice)
     ((sample_st (at 9 0))\<lparr>bookings := [(sample_booking 1 1 1 10 SCHEDULED)\<lparr>b_recurrence := Some 7\<rparr>],
        recurrings := [\<lparr>rr_pk = 7, rr_user = 1, rr_room = 1, rr_status = ACTIVE, rr_cancelled_at = None\<rparr>]\<rparr>)
     = Inr (r, s') \<and> map b_status (bookings s') = [CANCELLED]"
proof -
  let ?b = "(sample_booking 1 1 1 10 SCHEDULED)\<lparr>b_recurrence := Some 7\<rparr>"
  let ?rr = "\<lparr>rr_pk = 7, rr_user = 1, rr_room = 1, rr_status = ACTIVE, rr_cancelled_at = None\<rparr>"
  let ?s = "(sample_st (at 9 0))\<lparr>bookings := [?b], recurrings := [?rr]\<rparr>"
  let ?cx = "sample_ctx (at 9 0) alice"
  have wf: "well_formed ?s"
    by (auto simp: well_formed_def bookings_ok_def no_adjacent_def keys_unique_def requests_advance_def
      adjacent_pair_def sample_defs booking_check_error_def slot_start_for_def us_defs)
  have cx: "ctx_now ?cx = at 9 0" "actor_pk (ctx_actor ?cx) = Some 1"
    by (simp_all add: sample_ctx_def actor_pk_def alice_def sample_user_def blank_user_def)
  have b: "b_pk ?b = 1" "b_user ?b = 1" "b_status ?b = SCHEDULED" "b_slot_start ?b = at 10 0" "at 9 0 < at 10 0"
    by (simp_all add: sample_booking_def at_def)
  have row: "get_row b_pk 1 (bookings ?s) = Some ?b" using b(1) by (simp add: get_row_def)
  have "cancellable False ?cx ?b" using b cx by (simp add: cancellable_def)
  from cancel_booking_total [OF well_formedD(1) [OF wf] row this]
  obtain r1 s1 where c: "cancel_booking 1 (or_text [] ''SERIES_CANCELLATION'') False ?cx ?s = Inr (r1, s1)" by blast
  have "\<exists>r s'. cancel_recurring_reservation 7 [] ?cx ?s = Inr (r, s')"
    using b cx c by (simp add: cancel_recurring_reservation_def reload_row_def get_row_def Let_def order_by_desc_def)
  then obtain r s' where run: "cancel_recurring_reservation 7 [] ?cx ?s = Inr (r, s')" by blast
  with cancel_recurring_effect [OF wf run] b cx show ?thesis
    by (auto simp: cancelled_by_owner_def)
qed

end
