(* ===== verification/Attendance.thy ===== *)
theory Attendance
  imports Reservations
begin

text \<open>
  Taking a room up: the check-in of a reservation (\<open>core/services/checkin.py\<close>) and the walk-in
  of the current hour (\<open>core/services/walkin.py\<close>).
\<close>

section \<open>Check-in\<close>

definition check_in_payload :: "booking \<Rightarrow> dict" where
  "check_in_payload booking =
     [(''action'', PStr ''check_in''), (''booking_id'', PNat (b_pk booking)),
      (''room_id'', PNat (b_room booking)), (''slot'', PStr (encode_slot (b_slot_start booking)))]"

definition set_checked_in :: "time \<Rightarrow> nat option \<Rightarrow> booking \<Rightarrow> booking" where
  "set_checked_in at_time by_pk b =
     b\<lparr>b_status := IN_USE, b_checked_in_at := Some at_time, b_checked_in_by := by_pk\<rparr>"

definition check_in :: "nat \<Rightarrow> room option \<Rightarrow> bool \<Rightarrow> string \<Rightarrow> ctx \<Rightarrow> st \<Rightarrow> exn + (dict \<times> st)" where
  "check_in booking_pk room staff_assisted reason cx s =
    (let now = ctx_now cx; actor = ctx_actor cx in
     bindE (reload_booking booking_pk s) (\<lambda>booking.
       if \<not> staff_assisted \<and> Some (b_user booking) \<noteq> actor_pk actor then Inl (rejected Code_NOT_OWNER [])
       else if (case room of None \<Rightarrow> False | Some r \<Rightarrow> b_room booking \<noteq> r_pk r)
         then Inl (rejected Code_WRONG_ROOM [])
       else if b_status booking = IN_USE
         then Inl (rejected Code_ALREADY_CHECKED_IN [(''booking_id'', PNat (b_pk booking))])
       else if b_status booking \<noteq> SCHEDULED
         then Inl (rejected Code_TERMINAL_STATUS [(''booking_id'', PNat (b_pk booking))])
       else let policy = current_policy s; s = ensure_policy s in
         case b_deadline booking of
           None \<Rightarrow> Inl (rejected Code_TERMINAL_STATUS [(''booking_id'', PNat (b_pk booking))])
         | Some deadline \<Rightarrow>
           if now < b_slot_start booking then Inl (rejected Code_CHECK_IN_NOT_OPEN
             [(''booking_id'', PNat (b_pk booking)), (''opens_at'', PStr (isoformat (b_slot_start booking)))])
           else if now \<ge> deadline then Inl (rejected Code_CHECK_IN_CLOSED
             [(''booking_id'', PNat (b_pk booking)), (''deadline'', PStr (isoformat deadline))])
           else thenE (assert_can_operate s (Some (user_of s (b_user booking))) now)
             (bindE (update_booking (b_pk booking) (set_checked_in now (actor_pk actor)) s) (\<lambda>s.
               let s = ctx_audit ''booking.checked_in'' ''Booking'' (show_nat (b_pk booking)) actor
                     [(''status'', PStr (status_value IN_USE)), (''checked_in_at'', PIso now),
                      (''staff_assisted'', PBool staff_assisted),
                      (''grace_minutes'', PInt (checkin_grace_minutes policy))] reason s
               in Inr ([(''booking_id'', PNat (b_pk booking)), (''status'', PStr (status_value IN_USE)),
                        (''checked_in_at'', PStr (isoformat now)),
                        (''slot_end'', PStr (isoformat (b_slot_end booking))),
                        (''remaining_minutes'', PInt (remaining_minutes now (b_slot_end booking)))], s)))))"

section \<open>Walk-in\<close>

definition SHORT_WARNING_MINUTES :: int where "SHORT_WARNING_MINUTES = 5"

definition use_now_payload :: "room \<Rightarrow> time \<Rightarrow> dict" where
  "use_now_payload room slot_start =
     [(''action'', PStr ''use_now''), (''room_id'', PNat (r_pk room)),
      (''room_number'', PStr (r_number room)), (''slot'', PStr (encode_slot slot_start))]"

definition current_slot :: "time \<Rightarrow> time" where
  "current_slot now = floor_to_slot now"

definition room_availability_for_now :: "st \<Rightarrow> room \<Rightarrow> time \<Rightarrow> time \<Rightarrow> (code \<times> booking) option" where
  "room_availability_for_now s room slot_start now =
     (case first_row (filter (\<lambda>b. b_room b = r_pk room \<and> b_slot_start b = slot_start
         \<and> b_status b \<in> set BLOCKING_STATUSES) (bookings s)) of
        None \<Rightarrow> None
      | Some blocker \<Rightarrow>
        if b_status blocker = SCHEDULED
           \<and> (case b_deadline blocker of None \<Rightarrow> False | Some d \<Rightarrow> now < d)
        then Some (Code_RESERVATION_HELD, blocker) else Some (Code_SLOT_TAKEN, blocker))"

definition use_now :: "room \<Rightarrow> ctx \<Rightarrow> st \<Rightarrow> exn + (dict \<times> st)" where
  "use_now room cx s =
    (let now = ctx_now cx; user = ctx_actor cx; slot_start = current_slot now; slot_end = slot_end_for slot_start in
     thenE (assert_may_use_room s user room now)
     (if r_requires_approval room
        then Inl (rejected Code_APPROVAL_ROOM_NO_WALK_IN [(''room_id'', PNat (r_pk room))])
      else if r_members_only room
        then Inl (rejected Code_MEMBERS_ROOM_NO_WALK_IN [(''room_id'', PNat (r_pk room))])
      else thenE (assert_slot_open s slot_start room)
      (case room_availability_for_now s room slot_start now of
         Some (why, blocker) \<Rightarrow> Inl (rejected why
           [(''room_id'', PNat (r_pk room)), (''booking_id'', PNat (b_pk blocker))])
       | None \<Rightarrow>
         let user_pk = (case user of None \<Rightarrow> 0 | Some u \<Rightarrow> u_pk u) in
         thenE (assert_quota_and_adjacency s user_pk slot_start (Some (r_pk room)) None (Some now))
         (let released_from = first_row (filter (\<lambda>b. b_room b = r_pk room \<and> b_slot_start b = slot_start
                \<and> b_status b = NO_SHOW \<and> b_user b \<noteq> user_pk) (bookings s));
              policy = current_policy s; s = ensure_policy s;
              remaining = remaining_minutes now slot_end in
          bindE (create_booking (\<lambda>pk. (new_booking s user_pk room slot_start IN_USE WALK_IN pk)
              \<lparr>b_checked_in_at := Some now, b_checked_in_by := Some user_pk,
               b_original_no_show := map_option b_pk released_from,
               b_policy_version := Some (pv_pk policy)\<rparr>) s) (\<lambda>(booking, s).
            let s = ctx_audit ''booking.walk_in'' ''Booking'' (show_nat (b_pk booking)) user
                  [(''room'', PStr (r_number room)), (''slot_start'', PIso slot_start),
                   (''slot_end'', PIso slot_end), (''remaining_minutes'', PInt remaining),
                   (''released_from_booking'', opt_val (PNat \<circ> b_pk) released_from),
                   (''policy_version'', PInt (pv_version policy))]
                  ''Current-slot use-now confirmation.'' s;
                s = enqueue ''booking_confirmation'' user (''booking_confirmation:'' @ show_nat (b_pk booking))
                  [(''booking_id'', PNat (b_pk booking)), (''room_number'', PStr (r_number room)),
                   (''room_label'', PStr (room_str room)), (''slot_start'', PStr (isoformat slot_start)),
                   (''slot_end'', PStr (isoformat slot_end)),
                   (''slot_start_local'', PStr (format_local slot_start)),
                   (''source'', PStr (source_value (b_source booking))),
                   (''remaining_minutes'', PInt remaining)] s
            in Inr ([(''booking_id'', PNat (b_pk booking)), (''room_id'', PNat (r_pk room)),
                     (''status'', PStr (status_value (b_status booking))),
                     (''slot'', PStr (encode_slot slot_start)), (''slot_end'', PStr (isoformat slot_end)),
                     (''remaining_minutes'', PInt remaining),
                     (''short_warning'', PBool (remaining < SHORT_WARNING_MINUTES))], s))))))"

definition no_show_blocks_reclaim :: "st \<Rightarrow> nat \<Rightarrow> nat \<Rightarrow> time \<Rightarrow> bool" where
  "no_show_blocks_reclaim s user_pk room_pk slot_start = no_show_reclaim s user_pk room_pk slot_start"

section \<open>Lemmas\<close>

lemma set_checked_in_simps [simp]:
  "b_pk (set_checked_in t p b) = b_pk b" "b_status (set_checked_in t p b) = IN_USE"
  "b_room (set_checked_in t p b) = b_room b" "b_user (set_checked_in t p b) = b_user b"
  "b_slot_start (set_checked_in t p b) = b_slot_start b"
  "b_is_staff_booking (set_checked_in t p b) = b_is_staff_booking b"
  "b_checked_in_at (set_checked_in t p b) = Some t"
  by (simp_all add: set_checked_in_def)

lemma set_checked_in_evolves: "b_status b = SCHEDULED \<Longrightarrow> row_evolves b (set_checked_in t p b)"
  by (rule row_evolves_step) (simp_all add: same_identity_def set_checked_in_def lifecycle.intros)

lemma set_checked_in_check:
  assumes "booking_check_error b = None" "b_status b = SCHEDULED" "b_slot_start b \<le> t" "t < b_slot_end b"
  shows "booking_check_error (set_checked_in t p b) = None"
  using assms by (auto simp: booking_check_error_def set_checked_in_def split: if_splits option.splits)

text \<open>
  The rows a check-in admits. \<open>validate_policy\<close> keeps the grace under sixty minutes, so that the deadline lies within the
  hour; the grace of the first version, and of an installation without one, comes from the environment unchecked.
\<close>

definition checkable :: "nat \<Rightarrow> room option \<Rightarrow> bool \<Rightarrow> ctx \<Rightarrow> st \<Rightarrow> booking \<Rightarrow> bool" where
  "checkable pk room staff cx s b \<longleftrightarrow> (staff \<or> actor_pk (ctx_actor cx) = Some (b_user b))
     \<and> (\<forall>r. room = Some r \<longrightarrow> b_room b = r_pk r) \<and> b_status b = SCHEDULED
     \<and> b_slot_start b \<le> ctx_now cx \<and> (\<exists>d. b_deadline b = Some d \<and> ctx_now cx < d)
     \<and> assert_can_operate s (Some (user_of s (b_user b))) (ctx_now cx) = Inr ()"

lemma assert_can_operate_cong:
  "suspensions s' = suspensions s \<Longrightarrow> assert_can_operate s' u now = assert_can_operate s u now"
  by (cases u) (simp_all add: assert_can_operate_def is_suspended_def active_suspension_def)

lemma assert_can_operate_ensure [simp]:
  "assert_can_operate (ensure_policy s) u now = assert_can_operate s u now"
  by (rule assert_can_operate_cong) simp

lemma user_of_ensure [simp]: "user_of (ensure_policy s) = user_of s"
  by (simp add: user_of_def fun_eq_iff)

lemma check_in_Inr:
  assumes "check_in pk room staff reason cx s = Inr (r, s')"
  obtains b s1 where "get_row b_pk pk (bookings s) = Some b" "b_pk b = pk" "checkable pk room staff cx s b"
    "update_booking pk (set_checked_in (ctx_now cx) (actor_pk (ctx_actor cx))) (ensure_policy s) = Inr s1"
    "logs s1 s'"
proof -
  from assms obtain b where b: "reload_booking pk s = Inr b"
    by (auto simp: check_in_def Let_def bindE_Inr)
  then have pk: "b_pk b = pk" by (auto dest: reload_booking_mem)
  from b have row: "get_row b_pk pk (bookings s) = Some b" by (simp add: reload_booking_Inr)
  have c: "checkable pk room staff cx s b"
    using assms b unfolding checkable_def
    by (cases "b_status b"; cases room)
      (auto simp: check_in_def Let_def thenE_Inr not_less not_le split: if_splits option.splits)
  from assms b pk obtain s1 where
    u: "update_booking pk (set_checked_in (ctx_now cx) (actor_pk (ctx_actor cx))) (ensure_policy s) = Inr s1"
    by (auto simp: check_in_def Let_def bindE_Inr thenE_Inr split: if_splits option.splits)
  have "logs s1 s'"
    using assms b pk u by (auto simp: check_in_def Let_def thenE_Inr split: if_splits option.splits)
  with that row pk c u show ?thesis by blast
qed

lemma check_in_evolves:
  assumes "well_formed s" "check_in pk room staff reason cx s = Inr (r, s')"
  shows "well_formed s' \<and> evolves s s'"
  using assms(2)
proof (rule check_in_Inr)
  fix b s1
  assume b: "get_row b_pk pk (bookings s) = Some b" "checkable pk room staff cx s b" and l: "logs s1 s'"
    and u: "update_booking pk (set_checked_in (ctx_now cx) (actor_pk (ctx_actor cx))) (ensure_policy s) = Inr s1"
  have "well_formed s' \<and> evolves (ensure_policy s) s'"
    by (rule update_logs_evolves [OF _ u l])
      (use b assms(1) in \<open>auto simp: checkable_def set_checked_in_evolves\<close>)
  then show ?thesis by simp
qed

interpretation check_in: booking_body "check_in pk room staff reason" for pk room staff reason
  by (rule booking_bodyI) (rule check_in_evolves)

lemma update_checked_in:
  assumes "well_formed s" "get_row b_pk pk (bookings s) = Some b" "b_status b = SCHEDULED"
    and "b_slot_start b \<le> t" "t < b_slot_end b"
  shows "update_booking pk (set_checked_in t p) (ensure_policy s)
    = Inr ((ensure_policy s)\<lparr>bookings := update_row b_pk pk (set_checked_in t p) (bookings s)\<rparr>)"
proof -
  from assms(2) have "b \<in> set (bookings s)" by (auto dest: get_row_Some)
  then have "booking_check_error b = None" using well_formed_live(1) [OF assms(1)] by blast
  moreover have "bookings_ok (ensure_policy s)" using well_formedD(1) [OF assms(1)] by (simp add: bookings_ok_def)
  ultimately show ?thesis
    using update_booking_total_narrow [of "ensure_policy s" pk b "set_checked_in t p"] assms
    by (simp add: set_checked_in_check occupies_slot_def)
qed

lemma check_in_succeeds:
  assumes "well_formed s" "get_row b_pk pk (bookings s) = Some b" "checkable pk room staff cx s b"
    and "ctx_now cx < b_slot_end b"
  shows "\<exists>r s'. check_in pk room staff reason cx s = Inr (r, s')"
proof -
  have pk: "b_pk b = pk" using assms(2) by (auto dest: get_row_Some)
  from assms(3) obtain d where d: "b_deadline b = Some d" "ctx_now cx < d" by (auto simp: checkable_def)
  have c: "staff \<or> actor_pk (ctx_actor cx) = Some (b_user b)" "b_status b = SCHEDULED"
    "b_slot_start b \<le> ctx_now cx" "assert_can_operate s (Some (user_of s (b_user b))) (ctx_now cx) = Inr ()"
    and r: "(case room of None \<Rightarrow> False | Some r \<Rightarrow> b_room b \<noteq> r_pk r) = False"
    using assms(3) by (auto simp: checkable_def split: option.splits)
  note upd = update_checked_in [OF assms(1,2) c(2,3) assms(4), of "actor_pk (ctx_actor cx)"]
  have owner: "(\<not> staff \<and> Some (b_user b) \<noteq> actor_pk (ctx_actor cx)) = False" using c(1) by auto
  show ?thesis
    unfolding check_in_def Let_def reload_booking_def assms(2) option.case bindE_simps owner r
    using c d upd pk by simp
qed

section \<open>Walk-in rows\<close>

definition walk_in_row :: "user \<Rightarrow> room \<Rightarrow> ctx \<Rightarrow> st \<Rightarrow> nat option \<Rightarrow> nat \<Rightarrow> booking" where
  "walk_in_row u room cx s released pk =
     (new_booking s (u_pk u) room (floor_to_slot (ctx_now cx)) IN_USE WALK_IN pk)
       \<lparr>b_checked_in_at := Some (ctx_now cx), b_checked_in_by := Some (u_pk u),
        b_original_no_show := released, b_policy_version := Some (pv_pk (current_policy s))\<rparr>"

lemma walk_in_row_simps [simp]:
  "b_pk (walk_in_row u r cx s x pk) = pk" "b_user (walk_in_row u r cx s x pk) = u_pk u"
  "b_room (walk_in_row u r cx s x pk) = r_pk r"
  "b_slot_start (walk_in_row u r cx s x pk) = floor_to_slot (ctx_now cx)"
  "b_slot_end (walk_in_row u r cx s x pk) = slot_end_for (floor_to_slot (ctx_now cx))"
  "b_status (walk_in_row u r cx s x pk) = IN_USE" "occupies_slot (walk_in_row u r cx s x pk)"
  "b_checked_in_at (walk_in_row u r cx s x pk) = Some (ctx_now cx)"
  "b_original_no_show (walk_in_row u r cx s x pk) = x"
  by (simp_all add: walk_in_row_def new_booking_def occupies_slot_def)

lemma walk_in_row_check: "booking_check_error (walk_in_row u r cx s x pk) = None"
proof -
  define n where "n = ctx_now cx"
  define f where "f = floor_to_slot n"
  have al: "f mod us_hour div us_minute = 0" "f mod us_minute div us_second = 0"
    using aligned_checks [of f] by (simp_all add: f_def)
  have le: "f \<le> n" "n < f + us_hour"
    using floor_to_slot_le floor_to_slot_gt [of n] by (simp_all add: f_def slot_end_for_def SLOT_DELTA_us_hour)
  have "walk_in_row u r cx s x pk = (new_booking s (u_pk u) r f IN_USE WALK_IN pk)
       \<lparr>b_checked_in_at := Some n, b_checked_in_by := Some (u_pk u),
        b_original_no_show := x, b_policy_version := Some (pv_pk (current_policy s))\<rparr>"
    by (simp add: walk_in_row_def f_def n_def)
  with al le show ?thesis
    by (simp add: booking_check_error_def new_booking_def slot_end_for_def SLOT_DELTA_us_hour)
qed

definition walk_in_ok :: "user \<Rightarrow> room \<Rightarrow> time \<Rightarrow> st \<Rightarrow> bool" where
  "walk_in_ok u room now s \<longleftrightarrow> assert_may_use_room s (Some u) room now = Inr ()
     \<and> \<not> r_requires_approval room \<and> \<not> r_members_only room \<and> slot_open s (floor_to_slot now) room
     \<and> \<not> room_hour_held s (r_pk room) (floor_to_slot now)
     \<and> quota_ok s (u_pk u) (r_pk room) (floor_to_slot now) now"

definition released_booking :: "st \<Rightarrow> user \<Rightarrow> room \<Rightarrow> time \<Rightarrow> nat option" where
  "released_booking s u room now = map_option b_pk (first_row (filter (\<lambda>b. b_room b = r_pk room
     \<and> b_slot_start b = floor_to_slot now \<and> b_status b = NO_SHOW \<and> b_user b \<noteq> u_pk u) (bookings s)))"

lemma room_availability_None:
  "room_availability_for_now s room t now = None \<longleftrightarrow> \<not> room_hour_held s (r_pk room) t"
proof (cases "first_row (filter (\<lambda>b. b_room b = r_pk room \<and> b_slot_start b = t
    \<and> b_status b \<in> set BLOCKING_STATUSES) (bookings s))")
  case None
  then show ?thesis
    by (simp add: room_availability_for_now_def) (auto simp: room_hour_held_iff occupies_slot_def filter_empty_conv)
next
  case (Some b)
  then have "room_hour_held s (r_pk room) t"
    by (auto simp: room_hour_held_iff occupies_slot_def dest!: first_row_Some)
  with Some show ?thesis by (simp add: room_availability_for_now_def split: if_splits)
qed

lemma create_walk_in_row:
  assumes "walk_in_ok u room (ctx_now cx) s"
  shows "create_booking (walk_in_row u room cx (ensure_policy s) x) (ensure_policy s) =
    (let b = walk_in_row u room cx (ensure_policy s) x (fresh_pk (map b_pk (bookings s)))
     in Inr (b, (ensure_policy s)\<lparr>bookings := bookings s @ [b]\<rparr>))"
proof -
  let ?b = "walk_in_row u room cx (ensure_policy s) x (fresh_pk (map b_pk (bookings s)))"
  let ?t = "floor_to_slot (ctx_now cx)"
  have "?b\<lparr>b_pk := fresh_pk (map b_pk (bookings s)), b_slot_date := local_date ?t\<rparr> = ?b"
    by (simp add: walk_in_row_def new_booking_def)
  moreover have "\<forall>b \<in> set (bookings s). \<not> (b_user b = u_pk u \<and> occupies_slot b \<and> b_slot_start b = ?t)"
    using assms quota_ok_no_user_slot [of s "u_pk u" "r_pk room" ?t "ctx_now cx"]
    by (auto simp: walk_in_ok_def)
  then have "booking_error (bookings s) ?b = None"
    using assms unfolding booking_error_None walk_in_row_check walk_in_ok_def room_hour_held_iff
      same_room_slot_def same_user_slot_def by auto
  ultimately show ?thesis by (simp add: create_booking_def Let_def)
qed

lemma use_now_cases:
  assumes "ctx_actor cx = Some u"
  shows "if walk_in_ok u room (ctx_now cx) s
     then \<exists>r s'. use_now room cx s = Inr (r, s')
       \<and> logs ((ensure_policy s)\<lparr>bookings := bookings s @ [walk_in_row u room cx (ensure_policy s)
            (released_booking s u room (ctx_now cx)) (fresh_pk (map b_pk (bookings s)))]\<rparr>) s'
     else \<exists>c d. use_now room cx s = Inl (rejected c d)"
proof (cases "walk_in_ok u room (ctx_now cx) s")
  case True
  let ?rel = "released_booking s u room (ctx_now cx)"
  have run: "create_booking (walk_in_row u room cx (ensure_policy s) ?rel) (ensure_policy s) =
      Inr (walk_in_row u room cx (ensure_policy s) ?rel (fresh_pk (map b_pk (bookings s))),
           (ensure_policy s)\<lparr>bookings := bookings s @
              [walk_in_row u room cx (ensure_policy s) ?rel (fresh_pk (map b_pk (bookings s)))]\<rparr>)"
    using create_walk_in_row [OF True] by (simp add: Let_def)
  have "assert_slot_open s (floor_to_slot (ctx_now cx)) room = Inr ()"
    "room_availability_for_now s room (floor_to_slot (ctx_now cx)) (ctx_now cx) = None"
    "assert_quota_and_adjacency s (u_pk u) (floor_to_slot (ctx_now cx)) (Some (r_pk room)) None (Some (ctx_now cx)) = Inr ()"
    using True by (simp_all add: walk_in_ok_def assert_slot_open_Inr room_availability_None assert_quota_Inr)
  with True assms run show ?thesis
    by (simp add: use_now_def Let_def current_slot_def walk_in_ok_def walk_in_row_def [abs_def] released_booking_def)
next
  case False
  have c1: "assert_may_use_room s x r n = Inl e \<Longrightarrow> \<exists>c d. e = rejected c d" for x r n e
    by (rule eligibility_rejects)
  have c2: "assert_slot_open s t r = Inl e \<Longrightarrow> \<exists>c d. e = rejected c d" for t r e
    using assert_slot_open_Inl by blast
  have c3: "assert_quota_and_adjacency s x t r d n = Inl e \<Longrightarrow> \<exists>c d. e = rejected c d" for x t r d n e
    using assert_quota_Inl by blast
  have "clean (use_now room cx s)"
    using False assms unfolding clean_def
    by (auto simp: use_now_def Let_def current_slot_def walk_in_ok_def thenE_Inl bindE_Inl assert_slot_open_Inr
        room_availability_None assert_quota_Inr split: if_splits option.splits dest: c1 c2 c3)
  moreover have "use_now room cx s \<noteq> Inr x" for x
    using False assms
    by (auto simp: use_now_def Let_def current_slot_def walk_in_ok_def thenE_Inr assert_slot_open_Inr
        room_availability_None assert_quota_Inr split: if_splits option.splits)
  ultimately show ?thesis using False by (cases "use_now room cx s") (auto simp: clean_def)
qed

lemma use_now_evolves:
  assumes "well_formed s" "use_now room cx s = Inr (r, s')"
  shows "well_formed s' \<and> evolves s s'"
proof -
  obtain u where u: "ctx_actor cx = Some u"
    using assms(2) by (cases "ctx_actor cx") (auto simp: use_now_def Let_def thenE_Inr assert_may_use_room_def)
  let ?rel = "released_booking s u room (ctx_now cx)"
  let ?b = "walk_in_row u room cx (ensure_policy s) ?rel (fresh_pk (map b_pk (bookings s)))"
  let ?s1 = "(ensure_policy s)\<lparr>bookings := bookings s @ [?b]\<rparr>"
  from use_now_cases [OF u, of room s] assms(2)
  have ok: "walk_in_ok u room (ctx_now cx) s" and l: "logs ?s1 s'"
    by (auto split: if_splits)
  have wf: "well_formed (ensure_policy s)" using assms(1) by simp
  have run: "create_booking (walk_in_row u room cx (ensure_policy s) ?rel) (ensure_policy s) = Inr (?b, ?s1)"
    using create_walk_in_row [OF ok] by (simp add: Let_def)
  have "blocking_bookings (ensure_policy s) (u_pk u) (floor_to_slot (ctx_now cx)) = []"
    using ok by (simp add: walk_in_ok_def quota_ok_def blocking_bookings_def)
  with create_booking_evolves [OF wf run] logs_well_formed [OF l] logs_evolves [OF l, of s]
  show ?thesis by simp
qed

interpretation walk_in: booking_body "use_now room" for room
  by (rule booking_bodyI) (rule use_now_evolves)

section \<open>Properties\<close>

lemma set_checked_in_late:
  assumes "booking_check_error b = None" "b_status b = SCHEDULED" "b_slot_end b \<le> t"
  shows "booking_check_error (set_checked_in t p b) = Some ''booking_checkin_within_slot''"
  using assms by (auto simp: booking_check_error_def set_checked_in_def split: if_splits option.splits)

lemma check_in_late:
  assumes "well_formed s" "get_row b_pk pk (bookings s) = Some b" "checkable pk room staff cx s b"
    and "b_slot_end b \<le> ctx_now cx"
  shows "check_in pk room staff reason cx s = Inl (IntegrityError ''booking_checkin_within_slot'')"
proof -
  have b: "b_pk b = pk" "b \<in> set (bookings s)" using assms(2) by (auto dest: get_row_Some)
  have c: "staff \<or> actor_pk (ctx_actor cx) = Some (b_user b)" "b_status b = SCHEDULED"
    "b_slot_start b \<le> ctx_now cx" "assert_can_operate s (Some (user_of s (b_user b))) (ctx_now cx) = Inr ()"
    and r: "(case room of None \<Rightarrow> False | Some r \<Rightarrow> b_room b \<noteq> r_pk r) = False"
    using assms(3) by (auto simp: checkable_def split: option.splits)
  from assms(3) obtain d where d: "b_deadline b = Some d" "ctx_now cx < d" by (auto simp: checkable_def)
  have "booking_check_error b = None" using b(2) well_formed_live(1) [OF assms(1)] by blast
  then have upd: "update_booking pk (set_checked_in (ctx_now cx) p) (ensure_policy s) = Inl (IntegrityError ''booking_checkin_within_slot'')" for p
    using assms(2) by (simp add: update_booking_def booking_error_def set_checked_in_late [OF _ c(2) assms(4)])
  have owner: "(\<not> staff \<and> Some (b_user b) \<noteq> actor_pk (ctx_actor cx)) = False" using c(1) by auto
  show ?thesis
    unfolding check_in_def Let_def reload_booking_def assms(2) option.case bindE_simps owner r
    using c d upd b(1) by simp
qed

text \<open>C12: The check-in window. The owner's check-in at the room of the booking is admitted exactly when the row is
  still scheduled, the hour has started and its deadline has not come (start inclusive, deadline exclusive), and the
  account is in good standing and not suspended. What is not admitted ends in a clean rejection. What is admitted
  succeeds until the hour ends, and only past that end, which a deadline beyond the hour lets happen, does the
  table's own constraint refuse it with an integrity error.\<close>

theorem check_in_window:
  assumes "well_formed s" "b \<in> set (bookings s)"
    and "admitted = (actor_pk (ctx_actor cx) = Some (b_user b) \<and> b_room b = r_pk room \<and> b_status b = SCHEDULED
      \<and> b_slot_start b \<le> ctx_now cx \<and> (\<exists>d. b_deadline b = Some d \<and> ctx_now cx < d)
      \<and> account_block_code (Some (user_of s (b_user b))) = None
      \<and> \<not> is_suspended s (Some (user_of s (b_user b))) (ctx_now cx))"
  shows "((\<exists>r s'. check_in (b_pk b) (Some room) False reason cx s = Inr (r, s')) \<longleftrightarrow> admitted \<and> ctx_now cx < b_slot_end b)
    \<and> ((\<exists>c d. check_in (b_pk b) (Some room) False reason cx s = Inl (rejected c d)) \<longleftrightarrow> \<not> admitted)
    \<and> (check_in (b_pk b) (Some room) False reason cx s = Inl (IntegrityError ''booking_checkin_within_slot'')
         \<longleftrightarrow> admitted \<and> b_slot_end b \<le> ctx_now cx)"
proof -
  have row: "get_row b_pk (b_pk b) (bookings s) = Some b"
    by (rule bookings_ok_get_row [OF well_formedD(1) [OF assms(1)] assms(2)])
  have ck: "checkable (b_pk b) (Some room) False cx s b \<longleftrightarrow> admitted"
    unfolding assms(3) checkable_def assert_can_operate_Inr account_block_code_None is_suspended_iff user_of_pk by auto
  have c: "assert_can_operate s x n = Inl e \<Longrightarrow> \<exists>c d. e = rejected c d" for x n e
    by (rule eligibility_rejects)
  show ?thesis
  proof (cases "checkable (b_pk b) (Some room) False cx s b")
    case True
    show ?thesis
    proof (cases "ctx_now cx < b_slot_end b")
      case early: True
      obtain r s' where "check_in (b_pk b) (Some room) False reason cx s = Inr (r, s')"
        using check_in_succeeds [OF assms(1) row True early] by blast
      with True ck early show ?thesis by simp
    next
      case False
      with check_in_late [OF assms(1) row True] True ck show ?thesis by simp
    qed
  next
    case False
    have "check_in (b_pk b) (Some room) False reason cx s \<noteq> Inr (r, s')" for r s'
    proof
      assume "check_in (b_pk b) (Some room) False reason cx s = Inr (r, s')"
      then show False by (rule check_in_Inr) (use False row in auto)
    qed
    moreover have "clean (check_in (b_pk b) (Some room) False reason cx s)"
      using False row unfolding clean_def checkable_def
      by (auto simp: check_in_def Let_def reload_booking_def thenE_Inl split: if_splits option.splits dest: c)
    ultimately have "\<exists>c d. check_in (b_pk b) (Some room) False reason cx s = Inl (rejected c d)"
      unfolding clean_def by (metis obj_sumE surj_pair)
    then show ?thesis using False ck by auto
  qed
qed

theorem check_in_window_witness:
  "\<exists>r s'. check_in 1 (Some room_a) False [] (sample_ctx (at 10 14) alice) (one_booking_st (at 10 14) SCHEDULED) = Inr (r, s')"
proof -
  let ?s = "one_booking_st (at 10 14) SCHEDULED"
  let ?b = "sample_booking 1 1 1 10 SCHEDULED"
  have wf: "well_formed ?s" by (rule one_booking_well_formed) simp
  have b: "?b \<in> set (bookings ?s)" "b_pk ?b = 1" "b_user ?b = 1" "b_room ?b = 1" "b_status ?b = SCHEDULED"
    "b_deadline ?b = Some (at 10 15)" "b_slot_start ?b \<le> at 10 14" "at 10 14 < at 10 15"
    by (simp_all add: one_booking_st_def sample_booking_def at_def less_imp_le [OF us_pos(2)])
  have "at 10 14 < b_slot_end ?b"
    by (simp add: sample_booking_def at_def slot_start_for_def us_defs)
  moreover have "user_of ?s 1 = alice" "u_pk alice = 1" "r_pk room_a = 1"
    by (simp_all add: user_of_def get_row_def one_booking_st_def sample_st_def alice_def sample_user_def
        blank_user_def room_a_def sample_room_def blank_room_def)
  moreover have "account_block_code (Some alice) = None" "\<not> is_suspended ?s (Some alice) (at 10 14)"
    by (simp_all add: account_block_code_None account_ok_def email_is_verified_def is_suspended_iff suspended_at_def
        one_booking_st_def sample_tables) (simp_all add: alice_def sample_user_def blank_user_def)
  ultimately show ?thesis
    using check_in_window [where cx = "sample_ctx (at 10 14) alice" and room = room_a and reason = "[]", OF wf b(1) refl] b
    by (simp add: sample_ctx_def actor_pk_def)
qed

text \<open>What a check-in writes: exactly the row it was asked for, which was scheduled, is now in use
  with the time and the person recorded; so a row already forfeited, cancelled or finished is
  never taken back. No violation, suspension or notice is touched.\<close>

theorem check_in_effect:
  assumes "check_in pk room staff reason cx s = Inr (r, s')"
  shows "\<exists>b. get_row b_pk pk (bookings s) = Some b \<and> b_status b = SCHEDULED
    \<and> (staff \<or> actor_pk (ctx_actor cx) = Some (b_user b))
    \<and> bookings s' = update_row b_pk pk (\<lambda>b. b\<lparr>b_status := IN_USE, b_checked_in_at := Some (ctx_now cx),
          b_checked_in_by := actor_pk (ctx_actor cx)\<rparr>) (bookings s)
    \<and> violations s' = violations s \<and> suspensions s' = suspensions s"
  using assms
proof (rule check_in_Inr)
  fix b s1
  assume b: "get_row b_pk pk (bookings s) = Some b" "checkable pk room staff cx s b" and l: "logs s1 s'"
    and u: "update_booking pk (set_checked_in (ctx_now cx) (actor_pk (ctx_actor cx))) (ensure_policy s) = Inr s1"
  have "bookings s' = update_row b_pk pk (set_checked_in (ctx_now cx) (actor_pk (ctx_actor cx))) (bookings s)"
    using logs_frame(14) [OF l] update_booking_frame(21) [OF u] by simp
  with b logs_frame [OF l] update_booking_frame [OF u] show ?thesis
    by (auto simp: checkable_def set_checked_in_def [abs_def])
qed

theorem check_in_effect_witness:
  "\<exists>r s'. check_in 1 None True [] (sample_ctx (at 10 5) staff_member) (one_booking_st (at 10 5) SCHEDULED) = Inr (r, s')
     \<and> map b_status (bookings s') = [IN_USE]"
proof -
  let ?s = "one_booking_st (at 10 5) SCHEDULED"
  let ?b = "sample_booking 1 1 1 10 SCHEDULED"
  let ?cx = "sample_ctx (at 10 5) staff_member"
  have wf: "well_formed ?s" by (rule one_booking_well_formed) simp
  have b: "bookings ?s = [?b]" "b_pk ?b = 1" "b_status ?b = SCHEDULED" "b_user ?b = 1"
    "b_deadline ?b = Some (at 10 15)" "b_slot_start ?b \<le> at 10 5" "at 10 5 < at 10 15" "at 10 15 \<le> b_slot_end ?b"
    by (simp_all add: one_booking_st_def sample_booking_def at_def less_imp_le [OF us_pos(2)])
      (simp add: slot_start_for_def us_hour_def less_imp_le [OF us_pos(2)])
  have row: "get_row b_pk 1 (bookings ?s) = Some ?b" using b by (simp add: get_row_def)
  have "user_of ?s 1 = alice"
    by (simp add: user_of_def get_row_def one_booking_st_def sample_st_def alice_def sample_user_def blank_user_def)
  moreover have "assert_can_operate ?s (Some alice) (at 10 5) = Inr ()"
    by (simp add: assert_can_operate_Inr account_ok_def email_is_verified_def suspended_at_def
        one_booking_st_def sample_tables) (simp add: alice_def sample_user_def blank_user_def)
  ultimately have "checkable 1 None True ?cx ?s ?b" using b by (simp add: checkable_def sample_ctx_def)
  then obtain r s' where run: "check_in 1 None True [] ?cx ?s = Inr (r, s')"
    using check_in_succeeds [OF wf row, of None True ?cx "[]"] b by (auto simp: sample_ctx_def)
  with check_in_effect [OF run] b show ?thesis by (auto simp: update_row_def)
qed

text \<open>Walking in. The operation accepts exactly when the account may use the room, the room takes
  walk-ins, the calendar opens the running hour, nobody holds it and the quota rules allow it. It then
  inserts one row, in use from now, for the hour that contains now, which ends at that hour's
  original end: a late walk-in gets no more than what is left. Otherwise it rejects with a code.\<close>

theorem use_now_spec:
  assumes "ctx_actor cx = Some u"
  shows "if assert_may_use_room s (Some u) room (ctx_now cx) = Inr ()
       \<and> \<not> r_requires_approval room \<and> \<not> r_members_only room
       \<and> assert_slot_open s (floor_to_slot (ctx_now cx)) room = Inr ()
       \<and> \<not> room_hour_held s (r_pk room) (floor_to_slot (ctx_now cx))
       \<and> assert_quota_and_adjacency s (u_pk u) (floor_to_slot (ctx_now cx)) (Some (r_pk room)) None
            (Some (ctx_now cx)) = Inr ()
    then \<exists>r s' b. use_now room cx s = Inr (r, s') \<and> bookings s' = bookings s @ [b]
       \<and> b_user b = u_pk u \<and> b_room b = r_pk room \<and> b_status b = IN_USE
       \<and> is_hour_aligned (b_slot_start b) \<and> b_slot_end b = b_slot_start b + us_hour
       \<and> b_slot_start b \<le> ctx_now cx \<and> ctx_now cx < b_slot_end b
       \<and> b_checked_in_at b = Some (ctx_now cx)
       \<and> remaining_minutes (ctx_now cx) (b_slot_end b) \<le> 60
    else \<exists>c d. use_now room cx s = Inl (rejected c d)"
proof -
  have ok: "(assert_may_use_room s (Some u) room (ctx_now cx) = Inr ()
       \<and> \<not> r_requires_approval room \<and> \<not> r_members_only room
       \<and> assert_slot_open s (floor_to_slot (ctx_now cx)) room = Inr ()
       \<and> \<not> room_hour_held s (r_pk room) (floor_to_slot (ctx_now cx))
       \<and> assert_quota_and_adjacency s (u_pk u) (floor_to_slot (ctx_now cx)) (Some (r_pk room)) None
            (Some (ctx_now cx)) = Inr ()) = walk_in_ok u room (ctx_now cx) s"
    unfolding walk_in_ok_def assert_slot_open_Inr assert_quota_Inr by blast
  show ?thesis
  proof (cases "walk_in_ok u room (ctx_now cx) s")
    case False
    with use_now_cases [OF assms, of room s] show ?thesis unfolding ok by simp
  next
    case True
    let ?b = "walk_in_row u room cx (ensure_policy s)
            (released_booking s u room (ctx_now cx)) (fresh_pk (map b_pk (bookings s)))"
    from use_now_cases [OF assms, of room s] True obtain r s' where run: "use_now room cx s = Inr (r, s')"
      and l: "logs ((ensure_policy s)\<lparr>bookings := bookings s @ [?b]\<rparr>) s'" by auto
    have end1: "b_slot_end ?b = b_slot_start ?b + us_hour" by (simp add: slot_end_for_def SLOT_DELTA_us_hour)
    have le: "b_slot_start ?b \<le> ctx_now cx" "ctx_now cx < b_slot_end ?b"
      using floor_to_slot_le floor_to_slot_gt by simp_all
    have "b_slot_end ?b - ctx_now cx \<le> 60 * us_minute" using end1 le(1) by (simp add: us_hour_def)
    then have "(b_slot_end ?b - ctx_now cx) div us_minute \<le> 60 * us_minute div us_minute"
      by (rule zdiv_mono1) simp
    then have "remaining_minutes (ctx_now cx) (b_slot_end ?b) \<le> 60" by (simp add: remaining_minutes_def)
    with True run logs_frame(14) [OF l] end1 le show ?thesis
      unfolding ok by (auto intro!: exI [of _ ?b])
  qed
qed

theorem use_now_spec_witness:
  "\<exists>c d. use_now (room_a\<lparr>r_members_only := True\<rparr>) (sample_ctx (at 10 5) alice) (sample_st (at 10 5)) = Inl (rejected c d)"
  using use_now_spec [of "sample_ctx (at 10 5) alice" alice "sample_st (at 10 5)" "room_a\<lparr>r_members_only := True\<rparr>"]
  by (simp add: sample_ctx_def)

end
