(* ===== verification/Protocol.thy ===== *)
theory Protocol
  imports Reconciled Amendments Attendance
begin

text \<open>
  \<open>services/protocol.py\<close>: the transaction every operational write runs in. An attempt takes the
  control lock, reconciles, answers a repeated request from its idempotency record, and otherwise runs
  the body in a savepoint; \<open>run_operation\<close> repeats an attempt that failed for a transient reason.

  What the database does with the lock is a parameter: \<open>None\<close> when it is taken, otherwise the SQLSTATEs
  along the chain of causes and the text of the error. The digest of the fingerprint (SHA-256) is a
  parameter too; the canonical text it is applied to is modelled.
\<close>

section \<open>Fingerprints\<close>

definition hex_digit :: "nat \<Rightarrow> char" where
  "hex_digit n = (if n < 10 then char_of (48 + n) else char_of (87 + n))"

text \<open>The escapes of \<open>json.dumps\<close> with \<open>ensure_ascii\<close>; a model character is one of the first 256.\<close>

definition json_escape :: "char \<Rightarrow> string" where
  "json_escape c = (let n = of_char c in
     if c = CHR 0x22 \<or> c = CHR 0x5C then [CHR 0x5C, c]
     else if c = CHR 0x0A then [CHR 0x5C, CHR ''n'']
     else if c = CHR 0x0D then [CHR 0x5C, CHR ''r'']
     else if c = CHR 0x09 then [CHR 0x5C, CHR ''t'']
     else if c = CHR 0x0C then [CHR 0x5C, CHR ''f'']
     else if c = CHR 0x08 then [CHR 0x5C, CHR ''b'']
     else if 32 \<le> n \<and> n \<le> 126 then [c]
     else [CHR 0x5C, CHR ''u'', CHR ''0'', CHR ''0'', hex_digit (n div 16), hex_digit (n mod 16)])"

definition json_string :: "string \<Rightarrow> string" where
  "json_string t = [CHR 0x22] @ concat (map json_escape t) @ [CHR 0x22]"

text \<open>\<open>json.dumps(..., sort_keys=True, separators=(",", ":"), default=str)\<close>\<close>

fun json_text :: "pyval \<Rightarrow> string" where
  "json_text PNone = ''null''"
| "json_text (PBool b) = (if b then ''true'' else ''false'')"
| "json_text (PInt i) = show_int i"
| "json_text (PStr t) = json_string t"
| "json_text (PTime t) = json_string (map (\<lambda>c. if c = CHR ''T'' then CHR '' '' else c) t)"
| "json_text (PList vs) = ''['' @ join_with '','' (map json_text vs) @ '']''"
| "json_text (PDict d) = ''{'' @ join_with '','' (map (\<lambda>(k, t). json_string k @ '':'' @ t)
     (sort_key fst (map (\<lambda>(k, v). (k, json_text v)) d))) @ ''}''"

definition fingerprint_payload :: "(string \<Rightarrow> string) \<Rightarrow> dict \<Rightarrow> string" where
  "fingerprint_payload digest payload = digest (json_text (PDict payload))"

section \<open>Database errors\<close>

definition sqlstate :: "string option list \<Rightarrow> string option" where
  "sqlstate chain = (case filter (\<lambda>x. x \<noteq> None \<and> x \<noteq> Some '''') (take 4 chain) of [] \<Rightarrow> None | x # _ \<Rightarrow> x)"

definition is_lock_timeout :: "string option list \<Rightarrow> string \<Rightarrow> bool" where
  "is_lock_timeout chain text \<longleftrightarrow> sqlstate chain = Some ''55P03''
     \<or> contains ''lock timeout'' (lower text) \<or> contains ''could not obtain lock'' (lower text)"

definition acquire_control_lock :: "(string option list \<times> string) option \<Rightarrow> exn + unit" where
  "acquire_control_lock answer = (case answer of
       None \<Rightarrow> Inr ()
     | Some (chain, text) \<Rightarrow> if is_lock_timeout chain text then Inl LockUnavailable else Inl (OperationalError chain))"

definition classify_integrity_error :: "string \<Rightarrow> outcome" where
  "classify_integrity_error text =
    (if contains ''booking_room_slot_unique'' (lower text) then reject Code_SLOT_TAKEN []
     else if contains ''booking_user_slot_unique'' (lower text) then reject Code_ADJACENCY_CONFLICT []
     else if contains ''operation_request_user_operation_key_unique'' (lower text) then reject Code_BUSY []
     else reject Code_SLOT_TAKEN [])"

section \<open>One attempt\<close>

definition prior_request :: "st \<Rightarrow> nat \<Rightarrow> string \<Rightarrow> string \<Rightarrow> operation_request option" where
  "prior_request s user_pk operation key = List.find
     (\<lambda>r. or_user r = user_pk \<and> or_operation r = operation \<and> or_key r = key) (op_requests s)"

text \<open>\<open>if key and actor is not None and getattr(actor, "pk", None)\<close>\<close>

definition keyed :: "string option \<Rightarrow> actor \<Rightarrow> (string \<times> nat) option" where
  "keyed key actor = (case (key, actor) of (Some k, Some u) \<Rightarrow> if k = '''' then None else Some (k, u_pk u) | _ \<Rightarrow> None)"

text \<open>The body in its savepoint: whatever is not a success leaves the state as it was.\<close>

definition run_body :: "(ctx \<Rightarrow> st \<Rightarrow> exn + (outcome \<times> st)) \<Rightarrow> ctx \<Rightarrow> st \<Rightarrow> exn + (outcome \<times> st)" where
  "run_body body cx s = (case body cx s of
       Inr (r, s') \<Rightarrow> Inr (r, if ok r then s' else s)
     | Inl (OperationRejected r) \<Rightarrow> Inr (r, s)
     | Inl (IntegrityError text) \<Rightarrow> Inr (classify_integrity_error text, s)
     | Inl e \<Rightarrow> Inl e)"

definition store_request :: "nat \<Rightarrow> string \<Rightarrow> string \<Rightarrow> string \<Rightarrow> outcome \<Rightarrow> st \<Rightarrow> outcome \<times> st" where
  "store_request user_pk operation key fingerprint r s =
     (case prior_request s user_pk operation key of
        None \<Rightarrow> (r, s\<lparr>op_requests := op_requests s @
          [\<lparr>or_user = user_pk, or_operation = operation, or_key = key, or_payload_fingerprint = fingerprint,
            or_result = as_record r, or_created_at = wall_now s\<rparr>]\<rparr>)
      | Some prior \<Rightarrow> (if or_payload_fingerprint prior = fingerprint then replay (or_result prior)
          else reject Code_IDEMPOTENCY_PAYLOAD_MISMATCH [], s))"

text \<open>
  \<open>ReconciliationBacklog\<close> is caught inside the transaction, which then commits: the stages that had
  finished before the one over its budget are kept.
\<close>

definition reconcile_committed :: "time \<Rightarrow> actor \<Rightarrow> nat \<Rightarrow> st \<Rightarrow> st" where
  "reconcile_committed now actor budget s =
    (case reconcile_expired_approvals now budget actor s of Inl _ \<Rightarrow> s | Inr (_, s) \<Rightarrow>
     case reconcile_no_shows now budget actor s of Inl _ \<Rightarrow> s | Inr (_, s) \<Rightarrow>
     case start_staff_holds now budget actor s of Inl _ \<Rightarrow> s | Inr (_, s) \<Rightarrow>
     case reconcile_completions now budget actor s of Inl _ \<Rightarrow> s | Inr (_, s) \<Rightarrow> s)"

definition run_once ::
  "(string \<Rightarrow> string) \<Rightarrow> (string option list \<times> string) option \<Rightarrow> actor \<Rightarrow> string \<Rightarrow> dict
     \<Rightarrow> (ctx \<Rightarrow> st \<Rightarrow> exn + (outcome \<times> st)) \<Rightarrow> string option \<Rightarrow> st \<Rightarrow> exn + (outcome \<times> st)" where
  "run_once digest lock actor operation payload body key s =
    (case acquire_control_lock lock of
       Inl LockUnavailable \<Rightarrow> Inr (reject Code_BUSY [], s)
     | Inl e \<Rightarrow> Inl e
     | Inr _ \<Rightarrow>
       let now = clock_now s in
       case reconcile now actor None s of
         Inl ReconciliationBacklog \<Rightarrow>
           Inr (reject Code_BUSY [], reconcile_committed now actor (RECONCILE_BUDGET (conf s)) s)
       | Inl e \<Rightarrow> Inl e
       | Inr (summary, s) \<Rightarrow>
         let fingerprint = fingerprint_payload digest payload;
             prior = (case keyed key actor of None \<Rightarrow> None | Some (k, u) \<Rightarrow> prior_request s u operation k) in
         (case prior of
            Some p \<Rightarrow> if or_payload_fingerprint p \<noteq> fingerprint
                then Inr (reject Code_IDEMPOTENCY_PAYLOAD_MISMATCH [], s)
                else Inr (replay (or_result p), s)
          | None \<Rightarrow>
            bindE (run_body body \<lparr>ctx_now = now, ctx_actor = actor, ctx_payload = payload\<rparr> s) (\<lambda>(r, s).
              case (if ok r then keyed key actor else None) of
                None \<Rightarrow> Inr (r, s)
              | Some (k, u) \<Rightarrow> Inr (store_request u operation k fingerprint r s))))"

section \<open>Retries\<close>

definition TRANSIENT_SQLSTATES :: "string list" where
  "TRANSIENT_SQLSTATES = [''40001'', ''40P01'']"

definition MAX_TRANSIENT_RETRIES :: nat where "MAX_TRANSIENT_RETRIES = 2"

definition transient :: "exn + 'r \<Rightarrow> bool" where
  "transient r = (case r of
     Inl (OperationalError chain) \<Rightarrow> (case sqlstate chain of Some x \<Rightarrow> x \<in> set TRANSIENT_SQLSTATES | None \<Rightarrow> False)
   | _ \<Rightarrow> False)"

text \<open>The loop of \<open>run_operation\<close> from a given attempt on; \<open>run n\<close> is the n-th attempt.\<close>

function retry_from :: "nat \<Rightarrow> (nat \<Rightarrow> exn + 'r) \<Rightarrow> exn + 'r" where
  "retry_from attempt run =
     (if transient (run attempt) \<and> attempt \<le> MAX_TRANSIENT_RETRIES then retry_from (attempt + 1) run
      else run attempt)"
  by pat_completeness auto

termination
  by (relation "measure (\<lambda>(attempt, _). Suc MAX_TRANSIENT_RETRIES - attempt)") (auto simp: MAX_TRANSIENT_RETRIES_def)

declare retry_from.simps [simp del]

text \<open>Each attempt meets its own lock answer and database, since a failed one is rolled back and others
  may run in between.\<close>

definition run_operation ::
  "(string \<Rightarrow> string) \<Rightarrow> (nat \<Rightarrow> (string option list \<times> string) option) \<Rightarrow> actor \<Rightarrow> string \<Rightarrow> dict
     \<Rightarrow> (nat \<Rightarrow> ctx \<Rightarrow> st \<Rightarrow> exn + (outcome \<times> st)) \<Rightarrow> string option \<Rightarrow> (nat \<Rightarrow> st) \<Rightarrow> exn + (outcome \<times> st)" where
  "run_operation digest lock actor operation payload body key db =
     retry_from 1 (\<lambda>n. run_once digest (lock n) actor operation payload (body n) key (db n))"

definition prune_operation_requests :: "int \<Rightarrow> st \<Rightarrow> nat \<times> st" where
  "prune_operation_requests older_than_days s =
     (let cutoff = wall_now s - older_than_days * us_day
      in (length (filter (\<lambda>r. or_created_at r < cutoff) (op_requests s)),
          s\<lparr>op_requests := filter (\<lambda>r. \<not> or_created_at r < cutoff) (op_requests s)\<rparr>))"

text \<open>A service that answers with its data, or raises.\<close>

definition answering :: "(ctx \<Rightarrow> st \<Rightarrow> exn + (dict \<times> st)) \<Rightarrow> ctx \<Rightarrow> st \<Rightarrow> exn + (outcome \<times> st)" where
  "answering service cx s = bindE (service cx s) (\<lambda>(d, s). Inr (success d, s))"

section \<open>What reconciliation leaves when it stops\<close>

definition installed :: "st \<Rightarrow> bool" where
  "installed s \<longleftrightarrow> sound s \<and> policy_sane s"

lemma installedD: "installed s \<Longrightarrow> sound s" "installed s \<Longrightarrow> policy_sane s" "installed s \<Longrightarrow> well_formed s"
  by (simp_all add: installed_def sound_def)

lemma installed_requests: "installed (s\<lparr>op_requests := rs\<rparr>) = installed s"
proof -
  have "current_policy (s\<lparr>op_requests := rs\<rparr>) = current_policy s" by (rule current_policy_cong) simp_all
  then show ?thesis
    by (simp add: installed_def sound_def policy_sane_def sanctions_ok_def forfeits_def well_formed_def
        bookings_ok_def no_adjacent_def requests_advance_def keys_unique_def)
qed

text \<open>A state reached without touching policies, requests or settings.\<close>

definition advances :: "st \<Rightarrow> st \<Rightarrow> bool" where
  "advances s s' \<longleftrightarrow> evolves s s' \<and> op_requests s' = op_requests s \<and> conf s' = conf s
     \<and> current_policy s' = current_policy s"

lemma advances_refl [simp]: "advances s s"
  by (simp add: advances_def)

lemma advances_trans: "advances a b \<Longrightarrow> advances b c \<Longrightarrow> advances a c"
  by (auto simp: advances_def intro: evolves_trans)

lemma installed_advances: "installed s \<Longrightarrow> sound s' \<Longrightarrow> advances s s' \<Longrightarrow> installed s'"
  by (simp add: installed_def policy_sane_def advances_def)

lemma advances_quiet: "evolves s s' \<Longrightarrow> quiet (ensure_policy s) s' \<Longrightarrow> advances s s'"
  using quiet_facts [of "ensure_policy s" s'] by (simp add: advances_def)

lemma advances_plain: "evolves s s' \<Longrightarrow> plain s s' \<Longrightarrow> advances s s'"
  using quiet_facts [of s s'] by (simp add: advances_def plain_def)

lemma stage_keeps:
  assumes "sound s"
  shows "reconcile_expired_approvals now n actor s = Inr (k, s') \<Longrightarrow> sound s' \<and> advances s s'"
    and "start_staff_holds now n actor s = Inr (k, s') \<Longrightarrow> sound s' \<and> advances s s'"
    and "reconcile_completions now n actor s = Inr (k, s') \<Longrightarrow> sound s' \<and> advances s s'"
proof -
  show "reconcile_expired_approvals now n actor s = Inr (k, s') \<Longrightarrow> sound s' \<and> advances s s'"
  proof -
    assume r: "reconcile_expired_approvals now n actor s = Inr (k, s')"
    then have "length (filter (approval_expired now) (bookings s)) \<le> n"
      by (auto simp: reconcile_expired_approvals_def over_budget_def Let_def split: if_splits)
    from expired_run [OF assms this, of actor] r show ?thesis by (auto intro: advances_plain)
  qed
  show "start_staff_holds now n actor s = Inr (k, s') \<Longrightarrow> sound s' \<and> advances s s'"
  proof -
    assume r: "start_staff_holds now n actor s = Inr (k, s')"
    then have "length (filter (hold_starts now) (bookings s)) \<le> n"
      by (auto simp: start_staff_holds_def over_budget_def Let_def split: if_splits)
    from holds_run [OF assms this, of actor] r show ?thesis by (auto intro: advances_plain)
  qed
  show "reconcile_completions now n actor s = Inr (k, s') \<Longrightarrow> sound s' \<and> advances s s'"
  proof -
    assume r: "reconcile_completions now n actor s = Inr (k, s')"
    then have "length (filter (session_over now) (bookings s)) \<le> n"
      by (auto simp: reconcile_completions_def over_budget_def Let_def split: if_splits)
    from completions_run [OF assms this, of actor] r show ?thesis by (auto intro: advances_plain)
  qed
qed

lemma no_shows_keep:
  assumes "installed s" "reconcile_no_shows now n actor s = Inr (k, s')"
  shows "sound s' \<and> advances s s'"
proof -
  have "length (filter (no_show_due now) (bookings s)) \<le> n"
    using assms(2) by (auto simp: reconcile_no_shows_def over_budget_def split: if_splits)
  with no_shows_run [OF installedD(1) [OF assms(1)], of now n actor] installedD(2) [OF assms(1)] assms(2)
  show ?thesis by (auto simp: policy_sane_def intro: advances_quiet)
qed

lemma reconcile_keeps:
  assumes "installed s" "reconcile now actor b0 s = Inr (r, s')"
  shows "installed s' \<and> advances s s' \<and> reconciled now actor s s'"
proof -
  note i = installedD [OF assms(1)]
  have w: "within_budget now (budget_of s b0) s"
    using reconcile_backlog [OF i(1,2)] assms(2) by fastforce
  from reconcile_run [OF i(1,2) w, of actor] assms(2) have r: "reconciled now actor s s'" by simp
  then have "advances s s'" by (auto simp: reconciled_def intro: advances_quiet)
  with r installed_advances [OF assms(1)] show ?thesis by (auto simp: reconciled_def)
qed

lemma committed_keeps:
  assumes "installed s"
  shows "installed (reconcile_committed now actor n s) \<and> advances s (reconcile_committed now actor n s)"
proof -
  have 1: "installed s' \<and> advances s s'" if "reconcile_expired_approvals now n actor s = Inr (k, s')" for k s'
    using stage_keeps(1) [OF installedD(1) [OF assms] that] installed_advances [OF assms] by blast
  have 2: "installed s2 \<and> advances s s2" if s: "installed s1 \<and> advances s s1" "reconcile_no_shows now n actor s1 = Inr (k, s2)" for k s1 s2
    using no_shows_keep [OF _ s(2)] s(1) installed_advances advances_trans by blast
  have 3: "installed s2 \<and> advances s s2" if s: "installed s1 \<and> advances s s1" "start_staff_holds now n actor s1 = Inr (k, s2)" for k s1 s2
    using stage_keeps(2) [OF installedD(1) s(2)] s(1) installed_advances advances_trans by blast
  have 4: "installed s2 \<and> advances s s2" if s: "installed s1 \<and> advances s s1" "reconcile_completions now n actor s1 = Inr (k, s2)" for k s1 s2
    using stage_keeps(3) [OF installedD(1) s(2)] s(1) installed_advances advances_trans by blast
  show ?thesis
  proof (cases "reconcile_expired_approvals now n actor s")
    case (Inr x1)
    then obtain k1 s1 where e1: "reconcile_expired_approvals now n actor s = Inr (k1, s1)" by (cases x1) auto
    note i1 = 1 [OF e1]
    show ?thesis
    proof (cases "reconcile_no_shows now n actor s1")
      case (Inr x2)
      then obtain k2 s2 where e2: "reconcile_no_shows now n actor s1 = Inr (k2, s2)" by (cases x2) auto
      note i2 = 2 [OF i1 e2]
      show ?thesis
      proof (cases "start_staff_holds now n actor s2")
        case (Inr x3)
        then obtain k3 s3 where e3: "start_staff_holds now n actor s2 = Inr (k3, s3)" by (cases x3) auto
        note i3 = 3 [OF i2 e3]
        show ?thesis
          by (cases "reconcile_completions now n actor s3")
            (use i3 4 [OF i3] e1 e2 e3 in \<open>auto simp: reconcile_committed_def\<close>)
      qed (use i2 e1 e2 in \<open>simp add: reconcile_committed_def\<close>)
    qed (use i1 e1 in \<open>simp add: reconcile_committed_def\<close>)
  qed (use assms in \<open>simp add: reconcile_committed_def\<close>)
qed

section \<open>One attempt\<close>

lemma acquire_cases:
  "acquire_control_lock lock = Inr () \<or> acquire_control_lock lock = Inl LockUnavailable
     \<or> (\<exists>c. acquire_control_lock lock = Inl (OperationalError c))"
  by (auto simp: acquire_control_lock_def split: option.splits)

lemma run_body_Inr:
  assumes "run_body body cx s = Inr (r, s')"
  shows "(ok r \<and> body cx s = Inr (r, s')) \<or> s' = s"
  using assms by (auto simp: run_body_def split: sum.splits exn.splits if_splits)

text \<open>An attempt that got the lock and reconciled.\<close>

lemma run_once_cases:
  assumes "run_once digest lock actor operation payload body key s = Inr (r, s')"
  obtains (busy) "acquire_control_lock lock = Inl LockUnavailable" "r = reject Code_BUSY []" "s' = s"
  | (backlog) "acquire_control_lock lock = Inr ()" "reconcile (clock_now s) actor None s = Inl ReconciliationBacklog"
      "r = reject Code_BUSY []" "s' = reconcile_committed (clock_now s) actor (RECONCILE_BUDGET (conf s)) s"
  | (prior) d k u p where "acquire_control_lock lock = Inr ()" "reconcile (clock_now s) actor None s = Inr (d, s')"
      "keyed key actor = Some (k, u)" "prior_request s' u operation k = Some p"
      "r = (if or_payload_fingerprint p \<noteq> fingerprint_payload digest payload
         then reject Code_IDEMPOTENCY_PAYLOAD_MISMATCH [] else replay (or_result p))"
  | (ran) d s1 r0 s2 where "acquire_control_lock lock = Inr ()" "reconcile (clock_now s) actor None s = Inr (d, s1)"
      "\<And>k u. keyed key actor = Some (k, u) \<Longrightarrow> prior_request s1 u operation k = None"
      "run_body body \<lparr>ctx_now = clock_now s, ctx_actor = actor, ctx_payload = payload\<rparr> s1 = Inr (r0, s2)"
      "(r, s') = (case (if ok r0 then keyed key actor else None) of None \<Rightarrow> (r0, s2)
         | Some (k, u) \<Rightarrow> store_request u operation k (fingerprint_payload digest payload) r0 s2)"
proof (cases "acquire_control_lock lock")
  case (Inl e)
  then have "e = LockUnavailable" using assms acquire_cases [of lock] by (auto simp: run_once_def)
  with Inl assms show thesis by (intro busy) (auto simp: run_once_def)
next
  case (Inr u0)
  then have lock: "acquire_control_lock lock = Inr ()" by simp
  show thesis
  proof (cases "reconcile (clock_now s) actor None s")
    case (Inl e)
    with assms lock have "e = ReconciliationBacklog" by (cases e) (auto simp: run_once_def Let_def)
    with Inl assms lock show thesis by (intro backlog) (auto simp: run_once_def Let_def)
  next
    case (Inr x)
    then obtain d s1 where rec: "reconcile (clock_now s) actor None s = Inr (d, s1)" by (cases x) auto
    let ?prior = "case keyed key actor of None \<Rightarrow> None | Some (k, u) \<Rightarrow> prior_request s1 u operation k"
    show thesis
    proof (cases ?prior)
      case (Some p)
      then obtain k u where "keyed key actor = Some (k, u)" "prior_request s1 u operation k = Some p"
        by (auto split: option.splits)
      moreover from this assms lock rec have "s' = s1" and "r = (if or_payload_fingerprint p \<noteq> fingerprint_payload digest payload
         then reject Code_IDEMPOTENCY_PAYLOAD_MISMATCH [] else replay (or_result p))"
        by (auto simp: run_once_def Let_def split: if_splits)
      ultimately show thesis using lock rec by (intro prior) auto
    next
      case None
      then have "\<And>k u. keyed key actor = Some (k, u) \<Longrightarrow> prior_request s1 u operation k = None" by simp
      moreover have "bindE (run_body body \<lparr>ctx_now = clock_now s, ctx_actor = actor, ctx_payload = payload\<rparr> s1) (\<lambda>(r, s).
          case (if ok r then keyed key actor else None) of None \<Rightarrow> Inr (r, s)
          | Some (k, u) \<Rightarrow> Inr (store_request u operation k (fingerprint_payload digest payload) r s)) = Inr (r, s')"
        using assms lock rec None by (simp add: run_once_def Let_def)
      then obtain r0 s2 where
        "run_body body \<lparr>ctx_now = clock_now s, ctx_actor = actor, ctx_payload = payload\<rparr> s1 = Inr (r0, s2)"
        and rest: "(case (if ok r0 then keyed key actor else None) of None \<Rightarrow> Inr (r0, s2)
          | Some (k, u) \<Rightarrow> Inr (store_request u operation k (fingerprint_payload digest payload) r0 s2)) = (Inr (r, s') :: exn + _)"
        by (auto simp: bindE_Inr)
      moreover have "(r, s') = (case (if ok r0 then keyed key actor else None) of None \<Rightarrow> (r0, s2)
         | Some (k, u) \<Rightarrow> store_request u operation k (fingerprint_payload digest payload) r0 s2)"
        using rest by (cases "if ok r0 then keyed key actor else None") auto
      ultimately show thesis using lock rec by (intro ran)
    qed
  qed
qed

section \<open>Services that keep an installation sound\<close>

text \<open>
  The contract the protocol needs of a service: from an installed database it returns to one, its
  bookings only moved along their life cycle, and it leaves the idempotency records alone.
\<close>

locale service_body =
  fixes service :: "ctx \<Rightarrow> st \<Rightarrow> exn + (dict \<times> st)"
  assumes keeps: "installed s \<Longrightarrow> service cx s = Inr (d, s') \<Longrightarrow> installed s'"
    and moves: "installed s \<Longrightarrow> service cx s = Inr (d, s') \<Longrightarrow> evolves s s'"
    and requests: "installed s \<Longrightarrow> service cx s = Inr (d, s') \<Longrightarrow> op_requests s' = op_requests s"
begin

lemma in_savepoint:
  assumes "installed s" "run_body (answering service) cx s = Inr (r, s')"
  shows "installed s' \<and> evolves s s' \<and> op_requests s' = op_requests s"
  using run_body_Inr [OF assms(2)] assms(1) keeps moves requests
  by (auto simp: answering_def bindE_Inr)

text \<open>Storing the record of a success never meets another one: the lock is held.\<close>

lemma stored:
  assumes "installed s" "run_body (answering service) cx s = Inr (r, s')"
    and "\<And>k u. keyed key actor = Some (k, u) \<Longrightarrow> prior_request s u operation k = None"
  shows "(case (if ok r then keyed key actor else None) of None \<Rightarrow> (r, s')
      | Some (k, u) \<Rightarrow> store_request u operation k fp r s')
    = (r, case (if ok r then keyed key actor else None) of None \<Rightarrow> s'
        | Some (k, u) \<Rightarrow> s'\<lparr>op_requests := op_requests s' @ [\<lparr>or_user = u, or_operation = operation, or_key = k,
            or_payload_fingerprint = fp, or_result = as_record r, or_created_at = wall_now s'\<rparr>]\<rparr>)"
  using in_savepoint [OF assms(1,2)] assms(3)
  by (auto simp: store_request_def prior_request_def split: option.splits)

lemma attempt:
  assumes "installed s" "run_once digest lock actor operation payload (answering service) key s = Inr (r, s')"
  shows "installed s' \<and> evolves s s'"
  using assms(2)
proof (cases rule: run_once_cases)
  case busy
  with assms(1) show ?thesis by simp
next
  case backlog
  with committed_keeps [OF assms(1)] show ?thesis by (auto simp: advances_def)
next
  case (prior d k u p)
  with reconcile_keeps [OF assms(1)] show ?thesis by (auto simp: advances_def)
next
  case (ran d s1 r0 s2)
  have s1: "installed s1" "evolves s s1" using reconcile_keeps [OF assms(1) ran(2)] by (auto simp: advances_def)
  have s2: "installed s2" "evolves s s2"
    using in_savepoint [OF s1(1) ran(4)] evolves_trans [OF s1(2)] by auto
  have "evolves s (s2\<lparr>op_requests := rs\<rparr>) = evolves s s2" for rs by (rule evolves_bookings_cong(1)) simp
  with s2 ran(5) stored [OF s1(1) ran(4), of key actor operation "fingerprint_payload digest payload"] ran(3)
  show ?thesis by (auto simp: installed_requests split: option.splits if_splits)
qed

end

text \<open>A booking body that leaves the tables of sanctions, policies and requests alone.\<close>

definition guarded :: "st \<Rightarrow> st \<Rightarrow> bool" where
  "guarded s s' \<longleftrightarrow> violations s' = violations s \<and> suspensions s' = suspensions s
     \<and> current_policy s' = current_policy s \<and> op_requests s' = op_requests s \<and> conf s' = conf s"

lemma guarded_refl [simp]: "guarded s s" "guarded s (ensure_policy s)"
  by (simp_all add: guarded_def)

lemma guarded_trans: "guarded a b \<Longrightarrow> guarded b c \<Longrightarrow> guarded a c"
  by (simp add: guarded_def)

lemma guarded_plain: "plain s s' \<Longrightarrow> guarded s s'"
  using quiet_facts [of s s'] by (simp add: plain_def guarded_def)

lemma guarded_update_logs: "update_booking pk f s = Inr s1 \<Longrightarrow> logs s1 s' \<Longrightarrow> guarded s s'"
  using guarded_plain plain_update_logs by blast

lemma guarded_create_logs:
  assumes "logs (s\<lparr>bookings := bs\<rparr>) s'"
  shows "guarded s s'"
proof -
  have "plain s (s\<lparr>bookings := bs\<rparr>)" by (simp add: plain_def quiet_def)
  from guarded_plain [OF plain_trans [OF this plain_logs [OF assms]]] show ?thesis .
qed

lemma installed_guarded:
  assumes "installed s" "well_formed s'" "evolves s s'" "guarded s s'"
  shows "installed s'"
  using assms forfeits_plain [of s s'] sanctions_ok_cong [of s' s]
  by (simp add: installed_def sound_def guarded_def policy_sane_def)

lemma service_bodyI:
  assumes "booking_body service"
    and "\<And>s cx d s'. well_formed s \<Longrightarrow> service cx s = Inr (d, s') \<Longrightarrow> guarded s s'"
  shows "service_body service"
proof
  fix s cx d s' assume s: "installed s" and run: "service cx s = Inr (d, s')"
  note wf = installedD(3) [OF s]
  note g = assms(2) [OF wf run]
  show ev: "evolves s s'" by (rule booking_body.table_evolves [OF assms(1) wf run])
  show "installed s'"
    by (rule installed_guarded [OF s booking_body.keeps_well_formed [OF assms(1) wf run] ev g])
  show "op_requests s' = op_requests s" using g by (simp add: guarded_def)
qed

end
