(* ===== verification/Sanctions.thy ===== *)
theory Sanctions
  imports Protocol
begin

text \<open>
  \<open>services/sanctions.py\<close>: the violations and suspensions staff record by hand, and the bodies of the
  staff views (\<open>views/staff.py\<close>) that run them under the protocol. Each operation is an instance of
  \<open>service_body\<close>; the lemmas say what each writes, on every branch.
\<close>

section \<open>Violations\<close>

definition blank :: "string \<Rightarrow> bool" where
  "blank text \<longleftrightarrow> strip text = ''''"

definition manual_violation ::
  "policy_version \<Rightarrow> nat \<Rightarrow> string \<Rightarrow> bool \<Rightarrow> time \<Rightarrow> actor \<Rightarrow> nat option \<Rightarrow> nat \<Rightarrow> violation" where
  "manual_violation policy user_pk note_text counts_as_strike occurred_at actor incident pk = \<lparr>v_pk = pk,
     v_user = user_pk, v_booking = None, v_kind = MANUAL_KIND, v_occurred_at = occurred_at,
     v_expires_at = occurred_at + strike_window_days policy * us_day, v_counts_as_strike = counts_as_strike,
     v_actor = actor_pk actor, v_note = strip note_text, v_voided_at = None, v_voided_by = None,
     v_void_reason = '''', v_consumed_by = None, v_incident = incident\<rparr>"

definition record_manual_violation ::
  "nat \<Rightarrow> string \<Rightarrow> bool \<Rightarrow> time option \<Rightarrow> nat option \<Rightarrow> ctx \<Rightarrow> st \<Rightarrow> exn + (violation \<times> st)" where
  "record_manual_violation user_pk note_text counts_as_strike occurred_at0 incident cx s =
    (if blank note_text then Inl (rejected Code_INVALID_INPUT [])
     else let now = ctx_now cx; policy = current_policy s; s = ensure_policy s;
              occurred_at = (case occurred_at0 of None \<Rightarrow> now | Some t \<Rightarrow> t) in
       bindE (create_violation
           (manual_violation policy user_pk note_text counts_as_strike occurred_at (ctx_actor cx) incident) s)
         (\<lambda>(violation, s).
         let s = record_audit ''violation.recorded'' ''Violation'' (show_nat (v_pk violation)) (ctx_actor cx) ''''
               [(''user'', PNat user_pk), (''counts_as_strike'', PBool counts_as_strike),
                (''occurred_at'', PIso occurred_at), (''expires_at'', PIso (v_expires_at violation))] note_text s
         in bindE (apply_strike_thresholds now (ctx_actor cx) s) (\<lambda>(_, s). Inr (violation, s))))"

definition set_voided :: "time \<Rightarrow> nat option \<Rightarrow> string \<Rightarrow> violation \<Rightarrow> violation" where
  "set_voided now by_pk reason v = v\<lparr>v_voided_at := Some now, v_voided_by := by_pk, v_void_reason := reason\<rparr>"

definition void_violation :: "nat \<Rightarrow> string \<Rightarrow> ctx \<Rightarrow> st \<Rightarrow> exn + (dict \<times> st)" where
  "void_violation violation_pk reason cx s =
    (if blank reason then Inl (rejected Code_INVALID_INPUT [])
     else bindE (reload_row v_pk violation_pk (violations s)) (\<lambda>violation.
       if v_voided_at violation \<noteq> None
       then Inl (rejected Code_TERMINAL_STATUS [(''violation_id'', PNat (v_pk violation))])
       else let was_consumed_by = (case v_consumed_by violation of None \<Rightarrow> None
                                   | Some k \<Rightarrow> get_row sp_pk k (suspensions s)) in
       bindE (update_violation (v_pk violation) (set_voided (ctx_now cx) (actor_pk (ctx_actor cx)) (strip reason)) s) (\<lambda>s.
         let s = record_audit ''violation.voided'' ''Violation'' (show_nat (v_pk violation)) (ctx_actor cx) ''''
               [(''consumed_by_suspension'', opt_val (PNat \<circ> sp_pk) was_consumed_by),
                (''counts_as_strike'', PBool (v_counts_as_strike violation))] reason s;
             review_required = (case was_consumed_by of None \<Rightarrow> False | Some sp \<Rightarrow> sp_lifted_at sp = None);
             s = (case was_consumed_by of None \<Rightarrow> s
                  | Some sp \<Rightarrow> if sp_lifted_at sp = None
                      then enqueue ''sanction_applied'' (Some (user_of s (v_user violation)))
                        (''violation_voided_review:'' @ show_nat (v_pk violation))
                        [(''suspension_id'', PNat (sp_pk sp)), (''review'', PBool True), (''reason'', PStr reason),
                         (''starts_at'', PStr (isoformat (sp_starts_at sp))),
                         (''ends_at'', opt_val (PStr \<circ> isoformat) (sp_ends_at sp))] s
                      else s)
         in Inr ([(''violation_id'', PNat (v_pk violation)), (''review_required'', PBool review_required),
                  (''suspension_id'', opt_val (PNat \<circ> sp_pk) was_consumed_by)], s))))"

section \<open>Suspensions\<close>

definition set_end :: "time option \<Rightarrow> suspension \<Rightarrow> suspension" where
  "set_end ends_at sp = sp\<lparr>sp_ends_at := ends_at, sp_end_notified_at := None\<rparr>"

definition extend_or_shorten_suspension ::
  "nat \<Rightarrow> time option \<Rightarrow> string \<Rightarrow> bool \<Rightarrow> ctx \<Rightarrow> st \<Rightarrow> exn + (suspension \<times> st)" where
  "extend_or_shorten_suspension suspension_pk ends_at reason staff_override cx s =
    (if blank reason then Inl (rejected Code_INVALID_INPUT [])
     else bindE (reload_row sp_pk suspension_pk (suspensions s)) (\<lambda>suspension.
       if sp_lifted_at suspension \<noteq> None
       then Inl (rejected Code_TERMINAL_STATUS [(''suspension_id'', PNat (sp_pk suspension))])
       else if (case ends_at of None \<Rightarrow> False | Some e \<Rightarrow> e \<le> sp_starts_at suspension)
       then Inl (rejected Code_INVALID_INPUT [])
       else bindE (update_suspension (sp_pk suspension) (set_end ends_at) s) (\<lambda>s.
         Inr (set_end ends_at suspension,
           record_audit ''suspension.adjusted'' ''Suspension'' (show_nat (sp_pk suspension)) (ctx_actor cx) ''''
             [(''previous_ends_at'', opt_val PIso (sp_ends_at suspension)), (''ends_at'', opt_val PIso ends_at),
              (''staff_override'', PBool staff_override)] reason s))))"

definition set_lifted :: "time \<Rightarrow> nat option \<Rightarrow> string \<Rightarrow> suspension \<Rightarrow> suspension" where
  "set_lifted now by_pk reason sp = sp\<lparr>sp_lifted_at := Some now, sp_lifted_by := by_pk, sp_lift_reason := reason\<rparr>"

definition lift_suspension :: "nat \<Rightarrow> string \<Rightarrow> ctx \<Rightarrow> st \<Rightarrow> exn + (suspension \<times> st)" where
  "lift_suspension suspension_pk reason cx s =
    (if blank reason then Inl (rejected Code_INVALID_INPUT [])
     else bindE (reload_row sp_pk suspension_pk (suspensions s)) (\<lambda>suspension.
       if sp_lifted_at suspension \<noteq> None
       then Inl (rejected Code_TERMINAL_STATUS [(''suspension_id'', PNat (sp_pk suspension))])
       else let lift = set_lifted (ctx_now cx) (actor_pk (ctx_actor cx)) (strip reason) in
         bindE (update_suspension (sp_pk suspension) lift s) (\<lambda>s.
         let s = record_audit ''suspension.lifted'' ''Suspension'' (show_nat (sp_pk suspension)) (ctx_actor cx) ''''
               [(''lifted_at'', PIso (ctx_now cx)), (''consumed_strikes_remain'', PBool True)] reason s;
             s = enqueue ''sanction_lifted'' (Some (user_of s (sp_user suspension)))
               (''suspension_lifted:'' @ show_nat (sp_pk suspension))
               [(''suspension_id'', PNat (sp_pk suspension)), (''lifted_at'', PStr (isoformat (ctx_now cx))),
                (''reason'', PStr reason)] s
         in Inr (lift suspension, s))))"

definition cancel_one :: "user \<Rightarrow> string \<Rightarrow> ctx \<Rightarrow> booking \<Rightarrow> st \<Rightarrow> exn + st" where
  "cancel_one user reason cx booking s =
     bindE (update_booking (b_pk booking) (set_cancelled (ctx_now cx) (actor_pk (ctx_actor cx)) reason False) s) (\<lambda>s.
       let s = record_audit ''booking.cancelled'' ''Booking'' (show_nat (b_pk booking)) (ctx_actor cx) ''''
             [(''status'', PStr (status_value CANCELLED)), (''reason'', PStr reason)]
             ''Cancelled due to suspension; no additional penalty.'' s;
           room = room_of s (b_room booking)
       in Inr (enqueue ''booking_cancelled'' (Some user) (''booking_cancelled:'' @ show_nat (b_pk booking))
            [(''booking_id'', PNat (b_pk booking)), (''room_number'', PStr (r_number room)),
             (''room_label'', PStr (room_str room)), (''slot_start'', PStr (isoformat (b_slot_start booking))),
             (''slot_end'', PStr (isoformat (b_slot_end booking))), (''reason'', PStr reason)] s))"

definition cancel_scheduled :: "user \<Rightarrow> string \<Rightarrow> ctx \<Rightarrow> st \<Rightarrow> exn + (nat \<times> st)" where
  "cancel_scheduled user reason cx s =
     (let remaining = order_by b_slot_start (filter (\<lambda>b. b_user b = u_pk user \<and> unstarted b) (bookings s))
      in bindE (foldE (cancel_one user reason cx) remaining s) (\<lambda>s. Inr (length remaining, s)))"

definition manual_suspension :: "nat \<Rightarrow> string \<Rightarrow> time option \<Rightarrow> ctx \<Rightarrow> nat \<Rightarrow> suspension" where
  "manual_suspension user_pk reason ends_at cx pk = \<lparr>sp_pk = pk, sp_user = user_pk, sp_starts_at = ctx_now cx,
     sp_ends_at = ends_at, sp_lifted_at = None, sp_lifted_by = None, sp_lift_reason = '''',
     sp_reason = strip reason, sp_source = MANUAL, sp_created_by = actor_pk (ctx_actor cx),
     sp_start_notified_at = Some (ctx_now cx), sp_end_notified_at = None\<rparr>"

text \<open>\<open>Suspension.objects.active(now).filter(user=user).first()\<close>, in the order of \<open>Suspension.Meta\<close>.\<close>

definition suspension_in_force :: "time \<Rightarrow> st \<Rightarrow> nat \<Rightarrow> suspension option" where
  "suspension_in_force now s user_pk =
     first_row (order_by_desc sp_starts_at (filter (\<lambda>sp. suspension_active now sp \<and> sp_user sp = user_pk) (suspensions s)))"

definition apply_manual_suspension ::
  "nat \<Rightarrow> string \<Rightarrow> time option \<Rightarrow> ctx \<Rightarrow> st \<Rightarrow> exn + (suspension \<times> st)" where
  "apply_manual_suspension user_pk reason ends_at cx s =
    (if blank reason then Inl (rejected Code_INVALID_INPUT [])
     else let now = ctx_now cx in
     bindE (reload_row u_pk user_pk (users s)) (\<lambda>user.
       case suspension_in_force now s (u_pk user) of
         Some active \<Rightarrow> extend_or_shorten_suspension (sp_pk active) ends_at reason True cx s
       | None \<Rightarrow>
         if lte_null ends_at now then Inl (rejected Code_INVALID_INPUT [])
         else bindE (create_suspension (manual_suspension (u_pk user) reason ends_at cx) s) (\<lambda>(suspension, s).
           let s = record_audit ''suspension.applied'' ''Suspension'' (show_nat (sp_pk suspension)) (ctx_actor cx) ''''
                 [(''starts_at'', PIso now), (''ends_at'', opt_val PIso ends_at),
                  (''source'', PStr (suspension_source_value (sp_source suspension)))] reason s;
               s = enqueue ''sanction_applied'' (Some user) (''suspension_applied:'' @ show_nat (sp_pk suspension))
                 [(''suspension_id'', PNat (sp_pk suspension)), (''starts_at'', PStr (isoformat now)),
                  (''ends_at'', opt_val (PStr \<circ> isoformat) ends_at), (''reason'', PStr reason),
                  (''manual'', PBool True)] s
           in bindE (cancel_scheduled user ''SUSPENSION'' cx s) (\<lambda>(_, s). Inr (suspension, s)))))"

section \<open>What the pages show\<close>

definition consumed_strikes :: "suspension \<Rightarrow> st \<Rightarrow> violation list" where
  "consumed_strikes sp s = order_by_desc v_occurred_at (filter (\<lambda>v. v_consumed_by v = Some (sp_pk sp)) (violations s))"

definition pending_appeals :: "nat \<Rightarrow> st \<Rightarrow> (suspension \<times> violation list \<times> violation list) list" where
  "pending_appeals user_pk s =
     map (\<lambda>sp. (sp, consumed_strikes sp s, filter (\<lambda>v. v_voided_at v \<noteq> None) (consumed_strikes sp s)))
       (take 10 (order_by_desc sp_starts_at (filter (\<lambda>sp. sp_user sp = user_pk) (suspensions s))))"

record strike_figures =
  sf_eligible_count :: nat
  sf_threshold :: int
  sf_window_days :: int
  sf_upcoming :: "(violation \<times> time) list"
  sf_total_history :: nat
  sf_consumed :: nat

definition strike_summary :: "nat \<Rightarrow> time \<Rightarrow> st \<Rightarrow> strike_figures \<times> st" where
  "strike_summary user_pk now s =
     (let policy = current_policy s; s = ensure_policy s;
          eligible = filter (\<lambda>v. v_user v = user_pk) (eligible_strikes now s);
          upcoming = map (\<lambda>v. (v, v_expires_at v)) (order_by v_expires_at eligible)
      in (\<lparr>sf_eligible_count = length upcoming, sf_threshold = strike_threshold policy,
           sf_window_days = strike_window_days policy, sf_upcoming = upcoming,
           sf_total_history = length (filter (\<lambda>v. v_user v = user_pk) (violations s)),
           sf_consumed = length (filter (\<lambda>v. v_user v = user_pk \<and> v_consumed_by v \<noteq> None) (violations s))\<rparr>, s))"

section \<open>The bodies of the staff views\<close>

text \<open>\<open>_success(name=service(...).pk)\<close>\<close>

definition success_pk :: "string \<Rightarrow> ('a \<Rightarrow> nat) \<Rightarrow> (ctx \<Rightarrow> st \<Rightarrow> exn + ('a \<times> st)) \<Rightarrow> ctx \<Rightarrow> st \<Rightarrow> exn + (dict \<times> st)" where
  "success_pk name pk service cx s = bindE (service cx s) (\<lambda>(x, s). Inr ([(name, PNat (pk x))], s))"

definition record_violation_body :: "nat \<Rightarrow> string \<Rightarrow> bool \<Rightarrow> ctx \<Rightarrow> st \<Rightarrow> exn + (dict \<times> st)" where
  "record_violation_body user_pk note_text counts_as_strike =
     success_pk ''violation_id'' v_pk (record_manual_violation user_pk note_text counts_as_strike None None)"

definition manual_suspension_body :: "nat \<Rightarrow> string \<Rightarrow> time option \<Rightarrow> ctx \<Rightarrow> st \<Rightarrow> exn + (dict \<times> st)" where
  "manual_suspension_body user_pk reason ends_at =
     success_pk ''suspension_id'' sp_pk (apply_manual_suspension user_pk reason ends_at)"

definition adjust_suspension_body :: "nat \<Rightarrow> string \<Rightarrow> time option \<Rightarrow> ctx \<Rightarrow> st \<Rightarrow> exn + (dict \<times> st)" where
  "adjust_suspension_body suspension_pk reason ends_at =
     success_pk ''suspension_id'' sp_pk (extend_or_shorten_suspension suspension_pk ends_at reason True)"

definition lift_suspension_body :: "nat \<Rightarrow> string \<Rightarrow> ctx \<Rightarrow> st \<Rightarrow> exn + (dict \<times> st)" where
  "lift_suspension_body suspension_pk reason =
     success_pk ''suspension_id'' sp_pk (lift_suspension suspension_pk reason)"

section \<open>Every operation keeps an installation sound\<close>

lemma installed_quiet:
  assumes "installed s" "quiet s s' \<or> quiet (ensure_policy s) s'" "evolves s s'"
    and "well_formed s'" "sanctions_ok s'" "forfeits s'"
  shows "installed s' \<and> advances s s'"
proof -
  have "advances s s'"
    using assms(2) advances_quiet [OF assms(3)] assms(3) quiet_facts [of s s'] by (auto simp: advances_def)
  with installed_advances [OF assms(1)] assms(4-6) show ?thesis by (simp add: sound_def)
qed

text \<open>A write to the tables of sanctions, then logging.\<close>

lemma sanction_write:
  assumes s: "installed s" and q: "quiet s s1" and b: "bookings s1 = bookings s" "notifications s1 = notifications s"
    and ok: "sanctions_ok s1" and l: "logs s1 s'"
    and v: "\<And>v. v \<in> set (violations s1) \<Longrightarrow> v_kind v = NO_SHOW_KIND \<Longrightarrow>
       \<exists>w \<in> set (violations s). v_kind w = NO_SHOW_KIND \<and> v_booking w = v_booking v"
  shows "installed s' \<and> advances s s'"
proof (rule installed_quiet [OF s])
  note f = logs_frame [OF l]
  show "quiet s s' \<or> quiet (ensure_policy s) s'" using quiet_trans [OF q quiet_logs [OF l]] by simp
  show ev: "evolves s s'" by (rule evolves_same) (simp add: f b)
  show "well_formed s'" using logs_well_formed [OF l] well_formed_cong [OF b] installedD(3) [OF s] by simp
  show "sanctions_ok s'" using sanctions_ok_cong [of s' s1] f ok by simp
  show "forfeits s'"
    by (rule forfeits_evolves [OF soundD(3) [OF installedD(1) [OF s]] ev]) (use v f in auto)
qed

lemma set_end_pk [simp]: "sp_pk (set_end e sp) = sp_pk sp"
  by (simp add: set_end_def)

lemma set_lifted_pk [simp]: "sp_pk (set_lifted t p r sp) = sp_pk sp"
  by (simp add: set_lifted_def)

lemma set_voided_pk [simp]: "v_pk (set_voided t p r v) = v_pk v" "v_kind (set_voided t p r v) = v_kind v"
  "v_booking (set_voided t p r v) = v_booking v"
  by (simp_all add: set_voided_def)

lemma suspension_write:
  assumes "installed s" "update_suspension pk f s = Inr s1" "\<And>sp. sp_pk (f sp) = sp_pk sp" "logs s1 s'"
  shows "installed s' \<and> advances s s'"
proof (rule sanction_write [OF assms(1) _ _ _ _ assms(4)])
  note u = update_suspension_Inr(1) [OF assms(2)]
  show "quiet s s1" "bookings s1 = bookings s" "notifications s1 = notifications s" by (simp_all add: u quiet_def)
  show "sanctions_ok s1"
    by (rule update_suspension_ok [OF soundD(2) [OF installedD(1) [OF assms(1)]] assms(2,3)])
qed (auto simp: update_suspension_Inr(1) [OF assms(2)])

lemma violation_write:
  assumes "installed s" "update_violation pk f s = Inr s1" "\<And>v. v_pk (f v) = v_pk v"
    and "\<And>v. v_kind (f v) = v_kind v" "\<And>v. v_booking (f v) = v_booking v" and "logs s1 s'"
  shows "installed s' \<and> advances s s'"
proof (rule sanction_write [OF assms(1) _ _ _ _ assms(6)])
  note u = update_violation_Inr(1) [OF assms(2)]
  show "quiet s s1" "bookings s1 = bookings s" "notifications s1 = notifications s" by (simp_all add: u quiet_def)
  show "sanctions_ok s1"
    by (rule update_violation_ok [OF soundD(2) [OF installedD(1) [OF assms(1)]] assms(2,3)])
  fix v assume "v \<in> set (violations s1)" "v_kind v = NO_SHOW_KIND"
  then show "\<exists>w \<in> set (violations s). v_kind w = NO_SHOW_KIND \<and> v_booking w = v_booking v"
    by (auto simp: u set_update_row assms(4,5))
qed

lemma void_violation_Inr:
  assumes "void_violation pk reason cx s = Inr (d, s')"
  obtains v s1 where "get_row v_pk pk (violations s) = Some v" "v_voided_at v = None" "\<not> blank reason"
    "update_violation pk (set_voided (ctx_now cx) (actor_pk (ctx_actor cx)) (strip reason)) s = Inr s1"
    "logs s1 s'"
proof -
  from assms have nb: "\<not> blank reason" by (auto simp: void_violation_def split: if_splits)
  with assms obtain v where v: "get_row v_pk pk (violations s) = Some v"
    by (auto simp: void_violation_def bindE_Inr reload_row_def split: option.splits)
  then have pk: "v_pk v = pk" by (auto dest: get_row_Some)
  have vd: "v_voided_at v = None"
    using assms nb v by (cases "v_voided_at v") (auto simp: void_violation_def reload_row_def Let_def)
  from assms nb v vd pk obtain s1 where
    u: "update_violation pk (set_voided (ctx_now cx) (actor_pk (ctx_actor cx)) (strip reason)) s = Inr s1"
    by (auto simp: void_violation_def bindE_Inr reload_row_def Let_def)
  have "logs s1 s'"
    using assms nb v vd pk u
    by (cases "case v_consumed_by v of None \<Rightarrow> None | Some k \<Rightarrow> get_row sp_pk k (suspensions s)")
      (auto simp: void_violation_def reload_row_def Let_def)
  with that v vd nb u show thesis by blast
qed

lemma extend_Inr:
  assumes "extend_or_shorten_suspension pk ends_at reason ov cx s = Inr (x, s')"
  obtains sp s1 where "get_row sp_pk pk (suspensions s) = Some sp" "sp_lifted_at sp = None" "\<not> blank reason"
    "\<And>e. ends_at = Some e \<Longrightarrow> sp_starts_at sp < e"
    "update_suspension pk (set_end ends_at) s = Inr s1" "logs s1 s'" "x = set_end ends_at sp"
proof -
  from assms have nb: "\<not> blank reason" by (auto simp: extend_or_shorten_suspension_def split: if_splits)
  with assms obtain sp where sp: "get_row sp_pk pk (suspensions s) = Some sp"
    by (auto simp: extend_or_shorten_suspension_def bindE_Inr reload_row_def split: option.splits)
  then have pk: "sp_pk sp = pk" by (auto dest: get_row_Some)
  have l: "sp_lifted_at sp = None"
    using assms nb sp by (cases "sp_lifted_at sp") (auto simp: extend_or_shorten_suspension_def reload_row_def)
  have e: "sp_starts_at sp < e" if "ends_at = Some e" for e
    using assms nb sp l that by (auto simp: extend_or_shorten_suspension_def reload_row_def split: if_splits)
  then have "\<not> (case ends_at of None \<Rightarrow> False | Some e \<Rightarrow> e \<le> sp_starts_at sp)"
    by (cases ends_at) auto
  with assms nb sp l pk that e show thesis
    by (auto simp: extend_or_shorten_suspension_def bindE_Inr reload_row_def)
qed

lemma lift_Inr:
  assumes "lift_suspension pk reason cx s = Inr (x, s')"
  obtains sp s1 where "get_row sp_pk pk (suspensions s) = Some sp" "sp_lifted_at sp = None" "\<not> blank reason"
    "update_suspension pk (set_lifted (ctx_now cx) (actor_pk (ctx_actor cx)) (strip reason)) s = Inr s1" "logs s1 s'"
    "x = set_lifted (ctx_now cx) (actor_pk (ctx_actor cx)) (strip reason) sp"
proof -
  from assms have nb: "\<not> blank reason" by (auto simp: lift_suspension_def split: if_splits)
  with assms obtain sp where sp: "get_row sp_pk pk (suspensions s) = Some sp"
    by (auto simp: lift_suspension_def bindE_Inr reload_row_def split: option.splits)
  then have pk: "sp_pk sp = pk" by (auto dest: get_row_Some)
  have l: "sp_lifted_at sp = None"
    using assms nb sp by (cases "sp_lifted_at sp") (auto simp: lift_suspension_def reload_row_def)
  from assms nb sp l pk that show thesis
    by (auto simp: lift_suspension_def bindE_Inr reload_row_def Let_def)
qed

interpretation dismiss: row_sweep "cancel_one user reason cx"
  "set_cancelled (ctx_now cx) (actor_pk (ctx_actor cx)) reason False" unstarted "\<lambda>_. True" plain "\<lambda>_ _. True"
  for user reason cx
  by (rule plain_sweep) (auto simp: cancel_one_def unstarted_def set_cancelled_check Let_def
    intro: set_cancelled_evolves)

lemma dismissals_run:
  assumes "well_formed s"
  shows "\<exists>n s'. cancel_scheduled user ''SUSPENSION'' cx s = Inr (n, s')
    \<and> bookings s' = cancel_users (ctx_now cx) (ctx_actor cx) {u_pk user} (bookings s)
    \<and> well_formed s' \<and> evolves s s' \<and> plain s s'"
  using dismiss.sweep_query [OF assms TrueI, of "\<lambda>b. b_user b = u_pk user \<and> unstarted b" user "''SUSPENSION''" cx b_slot_start]
  by (auto simp: cancel_scheduled_def cancel_users_def cancelled_by_sanction_def Let_def)

lemma manual_suspension_pk [simp]: "sp_pk (manual_suspension u reason e cx pk) = pk"
  "(manual_suspension u reason e cx pk)\<lparr>sp_pk := pk'\<rparr> = manual_suspension u reason e cx pk'"
  by (simp_all add: manual_suspension_def)

lemma manual_violation_pk [simp]: "v_pk (manual_violation p u n c t a i pk) = pk"
  "(manual_violation p u n c t a i pk)\<lparr>v_pk := pk'\<rparr> = manual_violation p u n c t a i pk'"
  by (simp_all add: manual_violation_def)

lemma in_force_None: "suspension_in_force now s u = None \<longleftrightarrow> \<not> suspended_now now s u"
  by (auto simp: suspension_in_force_def suspended_now_def list_ex_iff filter_empty_conv)

lemma in_force_Some:
  "suspension_in_force now s u = Some sp \<Longrightarrow> sp \<in> set (suspensions s) \<and> suspension_active now sp \<and> sp_user sp = u"
  by (auto simp: suspension_in_force_def dest: first_row_Some)

lemma apply_manual_run:
  assumes s: "installed s" and nb: "\<not> blank reason" and row: "get_row u_pk u (users s) = Some user"
    and free: "\<not> suspended_now (ctx_now cx) s u" and e: "null_or_gt ends_at (ctx_now cx)"
  shows "\<exists>s' pk. apply_manual_suspension u reason ends_at cx s = Inr (manual_suspension u reason ends_at cx pk, s')
    \<and> suspensions s' = suspensions s @ [manual_suspension u reason ends_at cx pk] \<and> violations s' = violations s
    \<and> bookings s' = cancel_users (ctx_now cx) (ctx_actor cx) {u} (bookings s) \<and> installed s' \<and> advances s s'"
proof -
  from row have upk: "u_pk user = u" by (auto dest: get_row_Some)
  let ?pk = "fresh_pk (map sp_pk (suspensions s))"
  let ?sp = "manual_suspension u reason ends_at cx ?pk"
  let ?s1 = "s\<lparr>suspensions := suspensions s @ [?sp]\<rparr>"
  have "suspension_check_error ?sp = None"
    using e by (cases ends_at) (auto simp: suspension_check_error_def manual_suspension_def)
  then have c: "create_suspension (manual_suspension u reason ends_at cx) s = Inr (?sp, ?s1)"
    by (simp add: create_suspension_def Let_def)
  have nl: "\<not> lte_null ends_at (ctx_now cx)" using e by (cases ends_at) auto
  define s2 where "s2 = enqueue ''sanction_applied'' (Some user) (''suspension_applied:'' @ show_nat ?pk)
      [(''suspension_id'', PNat ?pk), (''starts_at'', PStr (isoformat (ctx_now cx))),
       (''ends_at'', opt_val (PStr \<circ> isoformat) ends_at), (''reason'', PStr reason), (''manual'', PBool True)]
    (record_audit ''suspension.applied'' ''Suspension'' (show_nat ?pk) (ctx_actor cx) ''''
      [(''starts_at'', PIso (ctx_now cx)), (''ends_at'', opt_val PIso ends_at),
       (''source'', PStr (suspension_source_value (sp_source ?sp)))] reason ?s1)"
  have l: "logs ?s1 s2" by (simp add: s2_def)
  note f = logs_frame [OF l]
  have wf2: "well_formed s2"
    using logs_well_formed [OF l] well_formed_cong [of ?s1 s] installedD(3) [OF s] by simp
  from dismissals_run [OF wf2, of user cx] obtain n s' where
    x: "cancel_scheduled user ''SUSPENSION'' cx s2 = Inr (n, s')"
      "bookings s' = cancel_users (ctx_now cx) (ctx_actor cx) {u} (bookings s2)"
      "well_formed s'" "evolves s2 s'" "plain s2 s'" by (auto simp: upk)
  have run: "apply_manual_suspension u reason ends_at cx s = Inr (?sp, s')"
    using nb row iffD2 [OF in_force_None free] nl c x(1)
    by (simp add: apply_manual_suspension_def reload_row_def Let_def upk s2_def)
  have same: "suspensions s' = suspensions s @ [?sp]" "violations s' = violations s"
    "bookings s' = cancel_users (ctx_now cx) (ctx_actor cx) {u} (bookings s)"
    using x(2,5) f by (simp_all add: plain_def)
  have ev: "evolves s s'" using x(4) f(14) evolves_bookings_cong(2) [of s2 s s'] by simp
  have "quiet s ?s1" by (simp add: quiet_def)
  then have q: "quiet s s'" using quiet_trans [OF quiet_trans [OF _ quiet_logs [OF l]]] x(5) by (simp add: plain_def)
  have "sanctions_ok s'"
    using create_suspension_ok [OF soundD(2) [OF installedD(1) [OF s]] c] sanctions_ok_cong [of s' ?s1] same by simp
  moreover have "forfeits s'" by (rule forfeits_plain [OF soundD(3) [OF installedD(1) [OF s]] ev same(2)])
  ultimately have "installed s' \<and> advances s s'" using installed_quiet [OF s _ ev x(3)] q by blast
  with run same show ?thesis by blast
qed

text \<open>A violation is recorded, then the thresholds are applied.\<close>

lemma record_manual_run:
  assumes s: "installed s" and nb: "\<not> blank note_text"
  shows "\<exists>s' pk. let v = manual_violation (current_policy s) u note_text counts
        (case occ of None \<Rightarrow> ctx_now cx | Some t \<Rightarrow> t) (ctx_actor cx) inc pk in
    record_manual_violation u note_text counts occ inc cx s = Inr (v, s')
    \<and> (\<exists>w \<in> set (violations s'). unconsumed w = v) \<and> installed s' \<and> advances s s'
    \<and> (\<forall>x. 0 < strike_total (ctx_now cx) s' x \<and> strike_threshold (current_policy s) \<le> int (strike_total (ctx_now cx) s' x)
         \<longrightarrow> suspended_now (ctx_now cx) s' x)"
proof -
  let ?pk = "fresh_pk (map v_pk (violations s))"
  let ?t = "case occ of None \<Rightarrow> ctx_now cx | Some t \<Rightarrow> t"
  let ?v = "manual_violation (current_policy s) u note_text counts ?t (ctx_actor cx) inc ?pk"
  let ?s1 = "(ensure_policy s)\<lparr>violations := violations s @ [?v]\<rparr>"
  have pos: "0 < strike_window_days (current_policy s)" "0 < auto_suspension_days (current_policy s)"
    using installedD(2) [OF s] by (simp_all add: policy_sane_def)
  have "violation_error (violations s) ?v = None"
    using pos(1) us_pos(4)
    by (simp add: violation_error_None violation_check_error_def manual_violation_def same_no_show_def)
  then have c: "create_violation (manual_violation (current_policy s) u note_text counts ?t (ctx_actor cx) inc) (ensure_policy s)
      = Inr (?v, ?s1)"
    by (simp add: create_violation_def Let_def)
  define s2 where "s2 = record_audit ''violation.recorded'' ''Violation'' (show_nat ?pk) (ctx_actor cx) ''''
      [(''user'', PNat u), (''counts_as_strike'', PBool counts), (''occurred_at'', PIso ?t),
       (''expires_at'', PIso (v_expires_at ?v))] note_text ?s1"
  have l: "logs ?s1 s2" by (simp add: s2_def)
  note f = logs_frame [OF l]
  have e: "installed (ensure_policy s)" using s by (simp add: installed_def policy_sane_def)
  have "installed s2 \<and> advances (ensure_policy s) s2"
  proof (rule sanction_write [OF e _ _ _ _ l])
    show "sanctions_ok ?s1"
      by (rule create_violation_ok [OF soundD(2) [OF installedD(1) [OF e]] c])
  qed (auto simp: quiet_def manual_violation_def)
  then have i2: "installed s2" and a2: "advances (ensure_policy s) s2" by simp_all
  have a: "advances s s2" using a2 by (simp add: advances_def)
  have p2: "current_policy s2 = current_policy s" using a by (simp add: advances_def)
  from thresholds_run [OF soundD [OF installedD(1) [OF i2]], of "ctx_now cx" "ctx_actor cx"] pos p2
  obtain n s' where th: "apply_strike_thresholds (ctx_now cx) (ctx_actor cx) s2 = Inr (n, s')"
      "well_formed s'" "sanctions_ok s'" "forfeits s'" "sanctions_grow (ctx_now cx) (ctx_actor cx) (ensure_policy s2) s'"
      "\<forall>x. 0 < strike_total (ctx_now cx) s' x \<and> strike_threshold (current_policy s) \<le> int (strike_total (ctx_now cx) s' x)
         \<longrightarrow> suspended_now (ctx_now cx) s' x" by auto
  have "evolves s2 s'" "quiet (ensure_policy s2) s'" using th(5) by (simp_all add: sanctions_grow_def)
  with installed_quiet [OF i2 _ _ th(2-4)] have k: "installed s' \<and> advances s2 s'" by blast
  have "?v \<in> set (violations (ensure_policy s2))" by (simp add: f)
  then obtain w where w: "w \<in> set (violations s')" "unconsumed w = unconsumed ?v"
    using th(5) unfolding sanctions_grow_def by blast
  moreover have "unconsumed ?v = ?v" by (simp add: unconsumed_def manual_violation_def)
  moreover have "record_manual_violation u note_text counts occ inc cx s = Inr (?v, s')"
    using nb c th(1) by (simp add: record_manual_violation_def Let_def s2_def)
  ultimately show ?thesis
    using k th(6) advances_trans [OF a] unfolding Let_def by (intro exI [of _ s'] exI [of _ ?pk]) auto
qed

section \<open>The views' bodies under the protocol\<close>

lemma success_pk_Inr:
  "success_pk name pk service cx s = Inr (d, s') \<longleftrightarrow> (\<exists>x. service cx s = Inr (x, s') \<and> d = [(name, PNat (pk x))])"
  by (auto simp: success_pk_def bindE_Inr)

lemma service_body_advances:
  assumes "\<And>s cx d s'. installed s \<Longrightarrow> service cx s = Inr (d, s') \<Longrightarrow> installed s' \<and> advances s s'"
  shows "service_body service"
  by unfold_locales (use assms in \<open>auto simp: advances_def\<close>)

interpretation void_service: service_body "void_violation pk reason" for pk reason
  by (rule service_body_advances, erule void_violation_Inr, rule violation_write, assumption, assumption) simp_all

interpretation adjust_service: service_body "adjust_suspension_body pk reason ends_at" for pk reason ends_at
proof (rule service_body_advances)
  fix s cx d s' assume s: "installed s" and run: "adjust_suspension_body pk reason ends_at cx s = Inr (d, s')"
  then obtain x where "extend_or_shorten_suspension pk ends_at reason True cx s = Inr (x, s')"
    by (auto simp: adjust_suspension_body_def success_pk_Inr)
  then show "installed s' \<and> advances s s'"
    by (rule extend_Inr) (rule suspension_write [OF s], assumption, simp_all)
qed

interpretation lift_service: service_body "lift_suspension_body pk reason" for pk reason
proof (rule service_body_advances)
  fix s cx d s' assume s: "installed s" and run: "lift_suspension_body pk reason cx s = Inr (d, s')"
  then obtain x where "lift_suspension pk reason cx s = Inr (x, s')"
    by (auto simp: lift_suspension_body_def success_pk_Inr)
  then show "installed s' \<and> advances s s'"
    by (rule lift_Inr) (rule suspension_write [OF s], assumption, simp_all)
qed

interpretation suspend_service: service_body "manual_suspension_body u reason ends_at" for u reason ends_at
proof (rule service_body_advances)
  fix s cx d s' assume s: "installed s" and "manual_suspension_body u reason ends_at cx s = Inr (d, s')"
  then obtain x where run: "apply_manual_suspension u reason ends_at cx s = Inr (x, s')"
    by (auto simp: manual_suspension_body_def success_pk_Inr)
  then have nb: "\<not> blank reason" by (auto simp: apply_manual_suspension_def split: if_splits)
  with run obtain user where row: "get_row u_pk u (users s) = Some user"
    by (auto simp: apply_manual_suspension_def reload_row_def Let_def split: option.splits)
  then have upk: "u_pk user = u" by (auto dest: get_row_Some)
  show "installed s' \<and> advances s s'"
  proof (cases "suspension_in_force (ctx_now cx) s u")
    case None
    then have "\<not> lte_null ends_at (ctx_now cx)"
      using run nb row upk by (auto simp: apply_manual_suspension_def reload_row_def Let_def split: if_splits)
    then have "null_or_gt ends_at (ctx_now cx)" by (cases ends_at) auto
    from apply_manual_run [OF s nb row _ this] None run show ?thesis by (auto simp: in_force_None)
  next
    case (Some active)
    with run nb row upk have "extend_or_shorten_suspension (sp_pk active) ends_at reason True cx s = Inr (x, s')"
      by (simp add: apply_manual_suspension_def reload_row_def Let_def)
    then show ?thesis by (rule extend_Inr) (rule suspension_write [OF s], assumption, simp_all)
  qed
qed

interpretation strike_service: service_body "record_violation_body u note_text counts" for u note_text counts
proof (rule service_body_advances)
  fix s cx d s' assume s: "installed s" and run: "record_violation_body u note_text counts cx s = Inr (d, s')"
  then obtain x where r: "record_manual_violation u note_text counts None None cx s = Inr (x, s')"
    by (auto simp: record_violation_body_def success_pk_Inr)
  then have "\<not> blank note_text" by (auto simp: record_manual_violation_def split: if_splits)
  from record_manual_run [OF s this, where u = u and counts = counts and occ = None and cx = cx and inc = None] r show "installed s' \<and> advances s s'"
    by (auto simp: Let_def)
qed

section \<open>A sample office\<close>

text \<open>Alice holds room A at ten; it is nine o'clock; \<open>sanction_st\<close> adds suspensions and outbox rows.\<close>

lemma open_installed: "installed (one_booking_st (at 9 0) SCHEDULED)"
proof -
  let ?s = "one_booking_st (at 9 0) SCHEDULED"
  have "policies ?s = []" "conf ?s = default_settings" by (simp_all add: one_booking_st_def sample_st_def)
  then have "policy_sane ?s"
    by (simp add: policy_sane_def current_policy_def latest_policy_def initial_policy_def order_by_desc_def
        strike_window_days_def auto_suspension_days_def snapshot_int_def snapshot_from_settings_def default_settings_def)
  moreover have "well_formed ?s" by (rule one_booking_well_formed) simp
  moreover have "violations ?s = []" "suspensions ?s = []" by (simp_all add: one_booking_st_def sample_st_def)
  ultimately show ?thesis by (simp add: installed_def sound_def sanctions_ok_def forfeits_def)
qed

definition sanction_st :: "suspension list \<Rightarrow> notification list \<Rightarrow> st" where
  "sanction_st sps ns = (one_booking_st (at 9 0) SCHEDULED)\<lparr>suspensions := sps, notifications := ns\<rparr>"

lemma sanction_st_frame [simp]:
  "suspensions (sanction_st sps ns) = sps" "notifications (sanction_st sps ns) = ns"
  "violations (sanction_st sps ns) = []" "users (sanction_st sps ns) = [alice, bob, staff_member]"
  "bookings (sanction_st sps ns) = [sample_booking 1 1 1 10 SCHEDULED]" "clock_now (sanction_st sps ns) = at 9 0"
  by (simp_all add: sanction_st_def one_booking_st_def sample_st_def)

lemma sanction_st_installed:
  assumes "distinct (map sp_pk sps)" "\<forall>sp \<in> set sps. suspension_check_error sp = None"
    and "distinct (map n_dedupe_key ns)" "distinct (map n_pk ns)"
  shows "installed (sanction_st sps ns)"
proof -
  let ?s = "one_booking_st (at 9 0) SCHEDULED"
  have "current_policy (sanction_st sps ns) = current_policy ?s"
    by (rule current_policy_cong) (simp_all add: sanction_st_def)
  moreover have "well_formed (sanction_st sps ns)"
    using installedD(3) [OF open_installed] assms(3,4)
    by (simp add: sanction_st_def well_formed_def bookings_ok_def no_adjacent_def requests_advance_def keys_unique_def)
  ultimately show ?thesis
    using installedD(2) [OF open_installed] assms(1,2)
    by (simp add: installed_def sound_def policy_sane_def sanctions_ok_def forfeits_def)
qed

definition alice_suspended :: "nat \<Rightarrow> time \<Rightarrow> time \<Rightarrow> suspension_source \<Rightarrow> suspension" where
  "alice_suspended pk t e src = \<lparr>sp_pk = pk, sp_user = 1, sp_starts_at = t, sp_ends_at = Some e, sp_lifted_at = None,
     sp_lifted_by = None, sp_lift_reason = '''', sp_reason = ''late'', sp_source = src, sp_created_by = None,
     sp_start_notified_at = Some t, sp_end_notified_at = Some e\<rparr>"

definition office_cx :: ctx where
  "office_cx = \<lparr>ctx_now = at 9 0, ctx_actor = Some staff_member, ctx_payload = []\<rparr>"

section \<open>Properties\<close>

text \<open>C21: A suspension by staff. For a person who is not suspended, a reason and an end that is not over
  give a new suspension from now on, in force at once; every reservation of the person that has not
  started is cancelled without a late mark, nobody else's booking is touched, and no strike is spent.\<close>

theorem apply_manual_suspension_effect:
  assumes "installed s" "\<not> blank reason" "get_row u_pk u (users s) = Some user"
    and "\<not> suspended_now (ctx_now cx) s u" "null_or_gt ends_at (ctx_now cx)"
  shows "\<exists>s' pk. apply_manual_suspension u reason ends_at cx s = Inr (manual_suspension u reason ends_at cx pk, s')
    \<and> suspensions s' = suspensions s @ [manual_suspension u reason ends_at cx pk]
    \<and> suspended_now (ctx_now cx) s' u \<and> violations s' = violations s
    \<and> bookings s' = map (\<lambda>b. if b_user b = u \<and> b_status b \<in> {PENDING_APPROVAL, SCHEDULED}
         then set_cancelled (ctx_now cx) (actor_pk (ctx_actor cx)) ''SUSPENSION'' False b else b) (bookings s)"
proof -
  from apply_manual_run [OF assms] obtain s' pk where
    r: "apply_manual_suspension u reason ends_at cx s = Inr (manual_suspension u reason ends_at cx pk, s')"
      "suspensions s' = suspensions s @ [manual_suspension u reason ends_at cx pk]" "violations s' = violations s"
      "bookings s' = cancel_users (ctx_now cx) (ctx_actor cx) {u} (bookings s)" by blast
  have "suspended_now (ctx_now cx) s' u"
    using assms(5) by (simp add: suspended_now_def r(2) suspension_active_def manual_suspension_def)
  with r show ?thesis by (auto simp: cancel_users_def cancelled_by_sanction_def unstarted_def)
qed

theorem apply_manual_suspension_effect_witness:
  "\<exists>s' x. apply_manual_suspension 1 ''noise'' None office_cx (sanction_st [] []) = Inr (x, s')
    \<and> suspended_now (at 9 0) s' 1 \<and> map b_status (bookings s') = [CANCELLED]"
proof -
  have "installed (sanction_st [] [])" by (rule sanction_st_installed) simp_all
  moreover have "\<not> blank ''noise''" by (simp add: blank_def strip_def py_space_def)
  moreover have "get_row u_pk 1 (users (sanction_st [] [])) = Some alice" by (simp add: get_row_def sample_defs)
  ultimately have "\<exists>s' pk. apply_manual_suspension 1 ''noise'' None office_cx (sanction_st [] [])
      = Inr (manual_suspension 1 ''noise'' None office_cx pk, s')
    \<and> suspensions s' = suspensions (sanction_st [] []) @ [manual_suspension 1 ''noise'' None office_cx pk]
    \<and> suspended_now (ctx_now office_cx) s' 1 \<and> violations s' = violations (sanction_st [] [])
    \<and> bookings s' = map (\<lambda>b. if b_user b = 1 \<and> b_status b \<in> {PENDING_APPROVAL, SCHEDULED}
         then set_cancelled (ctx_now office_cx) (actor_pk (ctx_actor office_cx)) ''SUSPENSION'' False b else b)
         (bookings (sanction_st [] []))"
    by (rule apply_manual_suspension_effect) (simp_all add: suspended_now_def)
  then show ?thesis by (auto simp: office_cx_def sample_booking_def)
qed

text \<open>A lifted sanction does not come back. Lifting ends the suspension for every later moment and
  leaves the strikes as they are, those it has spent included; so a person whose remaining strikes are
  below the threshold gets no new suspension when the thresholds are applied next.\<close>

theorem lift_suspension_effect:
  assumes "installed s" "lift_suspension pk reason cx s = Inr (x, s')"
    and "int (strike_total now s (sp_user x)) < strike_threshold (current_policy s)"
  shows "violations s' = violations s \<and> \<not> suspension_active t x \<and> x \<in> set (suspensions s')
    \<and> (\<exists>n s2. apply_strike_thresholds now actor s' = Inr (n, s2)
         \<and> filter (\<lambda>sp. sp_user sp = sp_user x) (suspensions s2) = filter (\<lambda>sp. sp_user sp = sp_user x) (suspensions s'))"
  using assms(2)
proof (rule lift_Inr)
  fix sp s1 assume sp: "get_row sp_pk pk (suspensions s) = Some sp"
    and u: "update_suspension pk (set_lifted (ctx_now cx) (actor_pk (ctx_actor cx)) (strip reason)) s = Inr s1"
    and l: "logs s1 s'" and x: "x = set_lifted (ctx_now cx) (actor_pk (ctx_actor cx)) (strip reason) sp"
  note f = logs_frame [OF l] update_suspension_Inr(1) [OF u]
  have i: "installed s'" "advances s s'" using suspension_write [OF assms(1) u _ l] by simp_all
  have "sp \<in> set (suspensions s)" "sp_pk sp = pk" using sp by (auto dest: get_row_Some)
  then have mem: "x \<in> set (suspensions s')" by (auto simp: f x set_update_row)
  have total: "strike_total now s' y = strike_total now s y" for y by (simp add: strike_total_def f)
  have "current_policy s' = current_policy s" using i(2) by (simp add: advances_def)
  with thresholds_run [OF soundD [OF installedD(1) [OF i(1)]], of now actor] installedD(2) [OF i(1)] obtain n s2 new where
    r: "apply_strike_thresholds now actor s' = Inr (n, s2)" "suspensions s2 = suspensions s' @ new"
      "\<forall>y \<in> set new. strike_threshold (current_policy s) \<le> int (strike_total now s (sp_user y))"
    by (auto simp: policy_sane_def total)
  have "filter (\<lambda>y. sp_user y = sp_user x) new = []"
    using r(3) assms(3) by (auto simp: filter_empty_conv)
  with r(1,2) mem show ?thesis by (simp add: f x suspension_active_def set_lifted_def)
qed

lemma filter_unique_key:
  "distinct (map key xs) \<Longrightarrow> List.find (\<lambda>x. key x = k) xs = Some y \<Longrightarrow> filter (\<lambda>x. key x = k) xs = [y]"
  by (induction xs) (auto simp: filter_empty_conv image_iff split: if_splits)

lemma notify_keeps_queued:
  assumes "foldE (notify_finished now) rows s = Inr t" "queued s k = Some n"
  shows "queued t k = Some n"
proof (rule foldE_invariant [where P = "\<lambda>s. queued s k = Some n", OF assms])
  fix x s s' assume q: "queued s k = Some n" and "notify_finished now x s = Inr s'"
  then obtain s1 m where u: "update_suspension (sp_pk x) (set_end_notified now) s = Inr s1"
    and s': "s' = (\<lambda>(kind, rc, dk, pl). enqueue kind rc dk pl) m s1"
    by (auto simp: notify_finished_def bindE_Inr)
  have "queued s1 k = Some n" using q update_suspension_Inr(1) [OF u] by (simp add: queued_def)
  then show "queued s' k = Some n" unfolding s' by (rule outbox.put_keeps)
qed

text \<open>The end of an adjusted suspension passes in silence. Adjusting a suspension clears the mark of
  the end notice, so that a fresh one is sent; but the notice is queued under the same key as the
  first. When that one is in the outbox, a later run marks the suspension as notified again and the
  outbox still holds the old notice, and only that one, under the key.\<close>

theorem adjusted_end_is_silent:
  assumes "installed s" "extend_or_shorten_suspension pk ends_at reason ov cx s = Inr (x, s')"
    and "queued s (''suspension_ended:'' @ show_nat pk) = Some n" "lte_null ends_at now"
  shows "sp_end_notified_at x = None
    \<and> (\<exists>m s2. notify_finished_suspensions now s' = Inr (m, s2) \<and> set_end_notified now x \<in> set (suspensions s2)
         \<and> filter (\<lambda>n. n_dedupe_key n = ''suspension_ended:'' @ show_nat pk) (notifications s2) = [n])"
  using assms(2)
proof (rule extend_Inr)
  fix sp s1 assume sp: "get_row sp_pk pk (suspensions s) = Some sp" "sp_lifted_at sp = None"
    and u: "update_suspension pk (set_end ends_at) s = Inr s1"
    and l: "logs s1 s'" and x: "x = set_end ends_at sp"
  let ?k = "''suspension_ended:'' @ show_nat pk"
  have i: "installed s'" using suspension_write [OF assms(1) u _ l] by simp
  have "s' = record_audit ''suspension.adjusted'' ''Suspension'' (show_nat (sp_pk sp)) (ctx_actor cx) ''''
      [(''previous_ends_at'', opt_val PIso (sp_ends_at sp)), (''ends_at'', opt_val PIso ends_at),
       (''staff_override'', PBool ov)] reason s1"
    using assms(2) sp u get_row_Some [OF sp(1)]
    by (auto simp: extend_or_shorten_suspension_def reload_row_def split: if_splits)
  then have "notifications s' = notifications s1" by simp
  then have q: "queued s' ?k = Some n"
    using assms(3) update_suspension_Inr(1) [OF u] by (simp add: queued_def)
  have "sp \<in> set (suspensions s)" "sp_pk sp = pk" using sp by (auto dest: get_row_Some)
  then have mem: "x \<in> set (suspensions s')"
    by (auto simp: logs_frame [OF l] update_suspension_Inr(1) [OF u] x set_update_row)
  have fin: "finished now x" using sp(2) assms(4) by (simp add: finished_def x set_end_def)
  from notify_run [OF soundD(1,2) [OF installedD(1) [OF i]], of now]
  obtain s2 where r: "notify_finished_suspensions now s' = Inr (length (filter (finished now) (suspensions s')), s2)"
      "suspensions s2 = map (\<lambda>sp. if finished now sp then set_end_notified now sp else sp) (suspensions s')"
      "well_formed s2"
    by blast
  let ?rows = "order_by_desc sp_starts_at (filter (finished now) (suspensions s'))"
  have "bindE (foldE (notify_finished now) ?rows s') (\<lambda>s. Inr (length ?rows, s)) = (Inr (length ?rows, s2) :: exn + _)"
    using r(1) foldE_counted [where P = "\<lambda>_. True" and c = "\<lambda>_. False" and f = "notify_finished now"
        and skip = "\<lambda>_ _. False" and xs = ?rows and n = 0 and s = s']
    by (simp add: notify_finished_suspensions_def Let_def)
  then have "foldE (notify_finished now) ?rows s' = Inr s2" by (auto simp: bindE_Inr)
  from notify_keeps_queued [OF this q] have q2: "queued s2 ?k = Some n" .
  have "distinct (map n_dedupe_key (notifications s2))" using well_formedD(3) [OF r(3)] by (simp add: keys_unique_def)
  with q2 have "filter (\<lambda>n. n_dedupe_key n = ?k) (notifications s2) = [n]"
    by (simp add: queued_def filter_unique_key)
  moreover have "set_end_notified now x \<in> set (suspensions s2)" using mem fin by (auto simp: r(2))
  ultimately show ?thesis using r(1) by (simp add: x set_end_def)
qed

text \<open>An automatic suspension cannot be made indefinite, and the answer says something else. The form
  offers an end that may be left blank; for a person under an automatic suspension the write then
  breaks the constraint that an automatic sanction has an end, and the protocol, which takes an
  unknown constraint for the booking table's, answers that the slot is taken. Nothing is changed.\<close>

theorem indefinite_on_automatic:
  assumes "installed s" "\<not> blank reason" "get_row u_pk u (users s) = Some user"
    and "suspension_in_force (ctx_now cx) s u = Some sp" "sp_source sp = AUTO"
  shows "run_body (answering (manual_suspension_body u reason None)) cx s = Inr (reject Code_SLOT_TAKEN [], s)"
proof -
  have upk: "u_pk user = u" using assms(3) by (auto dest: get_row_Some)
  have mem: "sp \<in> set (suspensions s)" and l: "sp_lifted_at sp = None"
    using in_force_Some [OF assms(4)] by (simp_all add: suspension_active_def)
  have row: "get_row sp_pk (sp_pk sp) (suspensions s) = Some sp"
    by (rule get_row_unique [OF sanctions_okD(2) [OF soundD(2) [OF installedD(1) [OF assms(1)]]] mem])
  have "suspension_check_error (set_end None sp) = Some ''suspension_auto_requires_end''"
    using assms(5) by (simp add: suspension_check_error_def set_end_def)
  then have "apply_manual_suspension u reason None cx s = Inl (IntegrityError ''suspension_auto_requires_end'')"
    using assms(2-4) l upk row
    by (simp add: apply_manual_suspension_def extend_or_shorten_suspension_def reload_row_def update_suspension_def)
  moreover have "classify_integrity_error ''suspension_auto_requires_end'' = reject Code_SLOT_TAKEN []"
    by code_simp
  ultimately show ?thesis
    by (simp add: run_body_def answering_def manual_suspension_body_def success_pk_def)
qed

text \<open>A sanction that is over can be brought back beside another. The end of a suspension that has
  passed can still be moved into the future, whoever else's decision is in force by then, and the
  person is then under two suspensions at once.\<close>

theorem adjusting_stacks:
  assumes "extend_or_shorten_suspension pk (Some e) reason ov cx s = Inr (x, s')" "ctx_now cx < e"
    and "sp_starts_at x \<le> ctx_now cx" "other \<in> set (suspensions s)" "sp_pk other \<noteq> pk" "suspension_active (ctx_now cx) other"
  shows "suspension_active (ctx_now cx) x \<and> x \<in> set (suspensions s') \<and> other \<in> set (suspensions s') \<and> other \<noteq> x"
  using assms(1)
proof (rule extend_Inr)
  fix sp s1 assume sp: "get_row sp_pk pk (suspensions s) = Some sp" "sp_lifted_at sp = None"
    and u: "update_suspension pk (set_end (Some e)) s = Inr s1" and l: "logs s1 s'" and x: "x = set_end (Some e) sp"
  have "sp \<in> set (suspensions s)" "sp_pk sp = pk" using sp(1) by (auto dest: get_row_Some)
  then have "x \<in> set (suspensions s')" "other \<in> set (suspensions s')" "other \<noteq> x"
    using assms(4,5) by (auto simp: logs_frame [OF l] update_suspension_Inr(1) [OF u] x set_update_row)
  moreover have "suspension_active (ctx_now cx) x"
    using sp(2) assms(2,3) by (simp add: suspension_active_def x set_end_def)
  ultimately show ?thesis by blast
qed

lemma office_reason: "\<not> blank ''noise''"
  by (simp add: blank_def strip_def py_space_def)

lemma alice_row: "get_row u_pk 1 (users (sanction_st sps ns)) = Some alice"
  by (simp add: get_row_def sample_defs)

lemma alice_check: "t < e \<Longrightarrow> suspension_check_error (alice_suspended pk t e src) = None"
  by (simp add: suspension_check_error_def alice_suspended_def)

definition alice_told :: notification where
  "alice_told = \<lparr>n_pk = 1, n_kind = ''sanction_lifted'', n_recipient = Some 1, n_recipient_email = '''',
     n_language = ''th'', n_payload = [], n_dedupe_key = ''suspension_ended:'' @ show_nat 1, n_due_at = at 8 0,
     n_next_attempt_at = at 8 0, n_lease_until = None, n_lease_token = None, n_attempts = 0, n_status = N_SENT,
     n_sent_at = Some (at 8 1), n_last_error = ''''\<rparr>"

text \<open>Alice was suspended from seven to eight and told so; at nine staff extend it to eleven.\<close>

lemma told_installed: "installed (sanction_st [alice_suspended 1 (at 7 0) (at 8 0) MANUAL] [alice_told])"
  by (rule sanction_st_installed) (simp_all add: alice_check at_def us_defs)

lemma told_extended: "\<exists>x s'. extend_or_shorten_suspension 1 (Some (at 11 0)) ''noise'' True office_cx
    (sanction_st (alice_suspended 1 (at 7 0) (at 8 0) MANUAL # sps) ns) = Inr (x, s') \<and> sp_starts_at x = at 7 0"
  using office_reason
  by (simp add: extend_or_shorten_suspension_def reload_row_def get_row_def update_suspension_def set_end_def
      suspension_check_error_def alice_suspended_def at_def us_defs)

theorem lift_suspension_effect_witness:
  "\<exists>x s'. lift_suspension 1 ''noise'' office_cx (sanction_st [alice_suspended 1 (at 7 0) (at 11 0) AUTO] []) = Inr (x, s')
    \<and> \<not> suspension_active (at 9 0) x"
proof -
  let ?s = "sanction_st [alice_suspended 1 (at 7 0) (at 11 0) AUTO] []"
  have i: "installed ?s" by (rule sanction_st_installed) (simp_all add: alice_check at_def us_defs)
  obtain x s' where r: "lift_suspension 1 ''noise'' office_cx ?s = Inr (x, s')" "sp_user x = 1"
    using office_reason
    by (simp add: lift_suspension_def reload_row_def get_row_def update_suspension_def set_lifted_def Let_def
        suspension_check_error_def alice_suspended_def at_def us_defs)
  have "current_policy ?s = current_policy (one_booking_st (at 9 0) SCHEDULED)"
    by (rule current_policy_cong) (simp_all add: sanction_st_def)
  moreover have "policies (one_booking_st (at 9 0) SCHEDULED) = []" "conf (one_booking_st (at 9 0) SCHEDULED) = default_settings"
    by (simp_all add: one_booking_st_def sample_st_def)
  ultimately have "int (strike_total (at 9 0) ?s (sp_user x)) < strike_threshold (current_policy ?s)"
    by (simp add: strike_total_def strike_threshold_def current_policy_def latest_policy_def initial_policy_def
        order_by_desc_def snapshot_int_def snapshot_from_settings_def default_settings_def)
  from lift_suspension_effect [OF i r(1) this, of "at 9 0" None] r(1) show ?thesis by blast
qed

theorem adjusted_end_is_silent_witness:
  "\<exists>x s' m s2. extend_or_shorten_suspension 1 (Some (at 11 0)) ''noise'' True office_cx
      (sanction_st [alice_suspended 1 (at 7 0) (at 8 0) MANUAL] [alice_told]) = Inr (x, s')
    \<and> notify_finished_suspensions (at 12 0) s' = Inr (m, s2)
    \<and> filter (\<lambda>n. n_dedupe_key n = ''suspension_ended:'' @ show_nat 1) (notifications s2) = [alice_told]"
proof -
  let ?s = "sanction_st [alice_suspended 1 (at 7 0) (at 8 0) MANUAL] [alice_told]"
  from told_extended obtain x s' where r: "extend_or_shorten_suspension 1 (Some (at 11 0)) ''noise'' True office_cx ?s = Inr (x, s')"
    by blast
  have "queued ?s (''suspension_ended:'' @ show_nat 1) = Some alice_told" by (simp add: queued_def alice_told_def)
  moreover have "lte_null (Some (at 11 0)) (at 12 0)" by (simp add: at_def us_defs)
  ultimately show ?thesis using adjusted_end_is_silent [OF told_installed r] r by blast
qed

theorem indefinite_on_automatic_witness:
  "run_body (answering (manual_suspension_body 1 ''noise'' None)) office_cx
      (sanction_st [alice_suspended 1 (at 7 0) (at 11 0) AUTO] [])
    = Inr (reject Code_SLOT_TAKEN [], sanction_st [alice_suspended 1 (at 7 0) (at 11 0) AUTO] [])"
proof (rule indefinite_on_automatic [OF _ office_reason alice_row])
  show "installed (sanction_st [alice_suspended 1 (at 7 0) (at 11 0) AUTO] [])"
    by (rule sanction_st_installed) (simp_all add: alice_check at_def us_defs)
  show "suspension_in_force (ctx_now office_cx) (sanction_st [alice_suspended 1 (at 7 0) (at 11 0) AUTO] []) 1
      = Some (alice_suspended 1 (at 7 0) (at 11 0) AUTO)"
    by (simp add: suspension_in_force_def suspension_active_def alice_suspended_def office_cx_def at_def us_defs
        order_by_desc_def)
qed (simp add: alice_suspended_def)

theorem adjusting_stacks_witness:
  "\<exists>x s'. extend_or_shorten_suspension 1 (Some (at 11 0)) ''noise'' True office_cx
      (sanction_st [alice_suspended 1 (at 7 0) (at 8 0) MANUAL, alice_suspended 2 (at 8 30) (at 10 0) AUTO] []) = Inr (x, s')
    \<and> suspension_active (at 9 0) x \<and> suspension_active (at 9 0) (alice_suspended 2 (at 8 30) (at 10 0) AUTO)"
proof -
  let ?b = "alice_suspended 2 (at 8 30) (at 10 0) AUTO"
  let ?s = "sanction_st [alice_suspended 1 (at 7 0) (at 8 0) MANUAL, ?b] []"
  from told_extended obtain x s' where r: "extend_or_shorten_suspension 1 (Some (at 11 0)) ''noise'' True office_cx ?s = Inr (x, s')"
    "sp_starts_at x = at 7 0" by blast
  have b: "?b \<in> set (suspensions ?s)" "sp_pk ?b \<noteq> 1" "suspension_active (ctx_now office_cx) ?b"
    by (simp_all add: suspension_active_def office_cx_def alice_suspended_def at_def us_defs slot_start_for_def)
  have "ctx_now office_cx < at 11 0" "sp_starts_at x \<le> ctx_now office_cx" by (simp_all add: r(2) office_cx_def at_def us_defs)
  from adjusting_stacks [OF r(1) this b] r(1) b(3) show ?thesis by (auto simp: office_cx_def)
qed

end
