(* ===== verification/Maintenance.thy ===== *)
theory Maintenance
  imports Sanctions
begin

text \<open>
  \<open>services/maintenance.py\<close>, with \<open>set_audience\<close> of \<open>services/rooms.py\<close>: closures with their preview,
  sessions ended or reviewed by staff, the calendar of single dates, who may reserve a room, the
  retirement of rooms and accounts, and new policy versions. The batches of cancellations and review
  flags are interpretations of \<open>row_sweep\<close>; every body is an instance of \<open>service_body\<close>.
\<close>

section \<open>Closures\<close>

text \<open>\<open>Booking.in_progress\<close>, and the form of it in the preview.\<close>

definition in_progress :: "st \<Rightarrow> booking \<Rightarrow> bool" where
  "in_progress s b = (b_status b = IN_USE
     \<or> (b_is_staff_booking b \<and> b_status b = SCHEDULED \<and> b_slot_start b \<le> clock_now s))"

definition in_progress_at :: "time \<Rightarrow> booking \<Rightarrow> bool" where
  "in_progress_at now b = (b_status b = IN_USE \<or> (b_is_staff_booking b \<and> b_slot_start b \<le> now))"

record closure_preview =
  cp_scheduled :: "booking list"
  cp_in_use :: "booking list"

definition closure_affects :: "nat option \<Rightarrow> time \<Rightarrow> time \<Rightarrow> booking \<Rightarrow> bool" where
  "closure_affects room_pk starts_at ends_at b = ((room_pk = None \<or> room_pk = Some (b_room b))
     \<and> b_status b \<in> {PENDING_APPROVAL, SCHEDULED, IN_USE} \<and> b_slot_start b < ends_at \<and> b_slot_end b > starts_at)"

definition preview_closure :: "nat option \<Rightarrow> time \<Rightarrow> time \<Rightarrow> st \<Rightarrow> exn + closure_preview" where
  "preview_closure room_pk starts_at ends_at s =
    (if ends_at \<le> starts_at then Inl (rejected Code_INVALID_INPUT [])
     else let affected = order_by b_slot_start (filter (closure_affects room_pk starts_at ends_at) (bookings s));
              now = clock_now s
       in Inr \<lparr>cp_scheduled = filter (\<lambda>b. b_status b \<in> {PENDING_APPROVAL, SCHEDULED} \<and> \<not> in_progress_at now b) affected,
               cp_in_use = filter (in_progress_at now) affected\<rparr>)"

definition cancel_closed :: "string \<Rightarrow> nat \<Rightarrow> ctx \<Rightarrow> booking \<Rightarrow> st \<Rightarrow> exn + st" where
  "cancel_closed reason closure_pk cx booking s =
     bindE (update_booking (b_pk booking) (set_cancelled (ctx_now cx) (actor_pk (ctx_actor cx)) ''CLOSURE'' False) s) (\<lambda>s.
       let s = record_audit ''booking.cancelled'' ''Booking'' (show_nat (b_pk booking)) (ctx_actor cx) ''''
             [(''status'', PStr (status_value CANCELLED)), (''reason'', PStr ''CLOSURE''),
              (''closure_id'', PNat closure_pk)] reason s;
           room = room_of s (b_room booking)
       in Inr (enqueue ''booking_cancelled'' (Some (user_of s (b_user booking)))
            (''booking_cancelled:'' @ show_nat (b_pk booking))
            [(''booking_id'', PNat (b_pk booking)), (''room_number'', PStr (r_number room)),
             (''room_label'', PStr (room_str room)), (''slot_start'', PStr (isoformat (b_slot_start booking))),
             (''slot_end'', PStr (isoformat (b_slot_end booking))), (''reason'', PStr ''CLOSURE''),
             (''closure_reason'', PStr reason)] s))"

definition set_flagged :: "string \<Rightarrow> booking \<Rightarrow> booking" where
  "set_flagged note_text b = b\<lparr>b_needs_review := True, b_review_note := note_text\<rparr>"

definition flag_session :: "string \<Rightarrow> booking \<Rightarrow> st \<Rightarrow> exn + st" where
  "flag_session note_text booking s = update_booking (b_pk booking) (set_flagged note_text) s"

definition new_closure :: "room option \<Rightarrow> time \<Rightarrow> time \<Rightarrow> string \<Rightarrow> bool \<Rightarrow> ctx \<Rightarrow> nat \<Rightarrow> closure" where
  "new_closure room starts_at ends_at reason acknowledged cx pk = \<lparr>c_pk = pk, c_room = map_option r_pk room,
     c_starts_at = starts_at, c_ends_at = ends_at, c_reason = strip reason, c_created_by = actor_pk (ctx_actor cx),
     c_revoked_at = None, c_revoked_by = None, c_revoked_reason = '''', c_acknowledged_in_use = acknowledged\<rparr>"

definition create_closure ::
  "room option \<Rightarrow> time \<Rightarrow> time \<Rightarrow> string \<Rightarrow> bool \<Rightarrow> ctx \<Rightarrow> st \<Rightarrow> exn + (closure \<times> st)" where
  "create_closure room starts_at ends_at reason acknowledged_in_use cx s =
    (if blank reason then Inl (rejected Code_INVALID_INPUT [])
     else if ends_at \<le> starts_at then Inl (rejected Code_INVALID_INPUT [])
     else bindE (preview_closure (map_option r_pk room) starts_at ends_at s) (\<lambda>preview.
       if cp_in_use preview \<noteq> [] \<and> \<not> acknowledged_in_use
       then Inl (rejected Code_INVALID_INPUT [(''requires_acknowledgement'', PBool True),
              (''in_use_count'', PNat (length (cp_in_use preview)))])
       else let closure = new_closure room starts_at ends_at reason acknowledged_in_use cx
                  (fresh_pk (map c_pk (closures s)));
                s = s\<lparr>closures := closures s @ [closure]\<rparr> in
       bindE (foldE (cancel_closed reason (c_pk closure) cx) (cp_scheduled preview) s) (\<lambda>s.
       bindE (foldE (flag_session (''Room closed during an active session ('' @ strip reason
            @ ''). Confirm on site whether the student was asked to leave.'')) (cp_in_use preview) s) (\<lambda>s.
         Inr (closure, record_audit ''closure.created'' ''Closure'' (show_nat (c_pk closure)) (ctx_actor cx) ''''
           [(''room'', opt_val (PStr \<circ> r_number) room), (''all_rooms'', PBool (room = None)),
            (''starts_at'', PIso starts_at), (''ends_at'', PIso ends_at),
            (''cancelled'', PNat (length (cp_scheduled preview))),
            (''flagged_in_use'', PNat (length (cp_in_use preview)))] reason s)))))"

definition set_revoked :: "time \<Rightarrow> nat option \<Rightarrow> string \<Rightarrow> closure \<Rightarrow> closure" where
  "set_revoked now by_pk reason c = c\<lparr>c_revoked_at := Some now, c_revoked_by := by_pk, c_revoked_reason := reason\<rparr>"

definition revoke_closure :: "nat \<Rightarrow> string \<Rightarrow> ctx \<Rightarrow> st \<Rightarrow> exn + (closure \<times> st)" where
  "revoke_closure closure_pk reason cx s =
    (if blank reason then Inl (rejected Code_INVALID_INPUT [])
     else bindE (reload_row c_pk closure_pk (closures s)) (\<lambda>closure.
       if c_revoked_at closure \<noteq> None
       then Inl (rejected Code_TERMINAL_STATUS [(''closure_id'', PNat (c_pk closure))])
       else let revoke = set_revoked (ctx_now cx) (actor_pk (ctx_actor cx)) (strip reason)
         in Inr (revoke closure, record_audit ''closure.revoked'' ''Closure'' (show_nat (c_pk closure)) (ctx_actor cx) ''''
              [(''restores_bookings'', PBool False), (''makes_slots_reusable'', PBool False)] reason
              (s\<lparr>closures := update_row c_pk (c_pk closure) revoke (closures s)\<rparr>))))"

section \<open>Sessions\<close>

definition set_evacuated :: "time \<Rightarrow> string \<Rightarrow> booking \<Rightarrow> booking" where
  "set_evacuated now reason b = b\<lparr>b_status := COMPLETED, b_actual_end := Some now, b_completion_reason := reason,
     b_needs_review := False, b_review_note := ''''\<rparr>"

definition complete_session_early :: "nat \<Rightarrow> string \<Rightarrow> ctx \<Rightarrow> st \<Rightarrow> exn + (booking \<times> st)" where
  "complete_session_early booking_pk reason cx s =
    (if blank reason then Inl (rejected Code_INVALID_INPUT [])
     else bindE (reload_booking booking_pk s) (\<lambda>booking.
       if b_status booking \<noteq> IN_USE
       then Inl (rejected Code_TERMINAL_STATUS [(''booking_id'', PNat (b_pk booking))])
       else let finish = set_evacuated (ctx_now cx) (strip reason) in
         bindE (update_booking (b_pk booking) finish s) (\<lambda>s.
           Inr (finish booking, record_audit ''booking.completed_early'' ''Booking'' (show_nat (b_pk booking))
             (ctx_actor cx) '''' [(''actual_end'', PIso (ctx_now cx)), (''slot_end'', PIso (b_slot_end booking))]
             reason s))))"

definition set_reviewed :: "string \<Rightarrow> booking \<Rightarrow> booking" where
  "set_reviewed note_text b = b\<lparr>b_needs_review := False, b_review_note := note_text\<rparr>"

definition resolve_review :: "nat \<Rightarrow> string \<Rightarrow> ctx \<Rightarrow> st \<Rightarrow> exn + (booking \<times> st)" where
  "resolve_review booking_pk note_text cx s =
    (if blank note_text then Inl (rejected Code_INVALID_INPUT [])
     else bindE (reload_booking booking_pk s) (\<lambda>booking.
       bindE (update_booking (b_pk booking) (set_reviewed (strip note_text)) s) (\<lambda>s.
         Inr (set_reviewed (strip note_text) booking,
           record_audit ''booking.review_resolved'' ''Booking'' (show_nat (b_pk booking)) (ctx_actor cx) ''''
             [] note_text s))))"

section \<open>The calendar\<close>

text \<open>
  The CHECK constraints of \<open>CalendarOverride\<close> in the order of their names, with the ones a
  \<open>PositiveSmallIntegerField\<close> adds; a number the column cannot hold is a \<open>DataError\<close>.
\<close>

definition override_error :: "calendar_override \<Rightarrow> string option" where
  "override_error ov =
    (if (case co_close_hour ov of None \<Rightarrow> False | Some h \<Rightarrow> h > 24) then Some ''calendar_override_close_hour_valid''
     else if co_is_open ov \<and> \<not> (case (co_open_hour ov, co_close_hour ov) of (Some a, Some b) \<Rightarrow> a < b | _ \<Rightarrow> False)
       then Some ''calendar_override_hours_consistent''
     else if (case co_open_hour ov of None \<Rightarrow> False | Some h \<Rightarrow> h > 23) then Some ''calendar_override_open_hour_valid''
     else if (case co_close_hour ov of None \<Rightarrow> False | Some h \<Rightarrow> h < 0) then Some ''core_calendaroverride_close_hour_check''
     else if (case co_open_hour ov of None \<Rightarrow> False | Some h \<Rightarrow> h < 0) then Some ''core_calendaroverride_open_hour_check''
     else None)"

definition smallint :: "int option \<Rightarrow> bool" where
  "smallint h = (case h of None \<Rightarrow> True | Some x \<Rightarrow> - 32768 \<le> x \<and> x \<le> 32767)"

definition save_override :: "calendar_override \<Rightarrow> st \<Rightarrow> exn + st" where
  "save_override ov s =
    (if \<not> smallint (co_open_hour ov) \<or> \<not> smallint (co_close_hour ov) then Inl DatabaseError
     else case override_error ov of
       Some n \<Rightarrow> Inl (IntegrityError n)
     | None \<Rightarrow> Inr (s\<lparr>overrides := (if list_ex (\<lambda>o'. co_pk o' = co_pk ov) (overrides s)
          then update_row co_pk (co_pk ov) (\<lambda>_. ov) (overrides s) else overrides s @ [ov])\<rparr>))"

definition set_calendar_override ::
  "date \<Rightarrow> bool \<Rightarrow> int option \<Rightarrow> int option \<Rightarrow> string \<Rightarrow> ctx \<Rightarrow> st \<Rightarrow> exn + (calendar_override \<times> st)" where
  "set_calendar_override d is_open open_hour close_hour reason cx s =
    (if (case (close_hour, open_hour) of (Some c, Some x) \<Rightarrow> c \<le> x | _ \<Rightarrow> False)
     then Inl (rejected Code_INVALID_INPUT [])
     else if is_open \<and> (open_hour = None \<or> close_hour = None) then Inl (rejected Code_INVALID_INPUT [])
     else let found = List.find (\<lambda>ov. co_local_date ov = d) (overrides s);
              pk = (case found of Some ov \<Rightarrow> co_pk ov | None \<Rightarrow> fresh_pk (map co_pk (overrides s)));
              ov = \<lparr>co_pk = pk, co_local_date = d, co_is_open = is_open,
                    co_open_hour = (if is_open then open_hour else None),
                    co_close_hour = (if is_open then close_hour else None), co_reason = reason,
                    co_created_by = actor_pk (ctx_actor cx)\<rparr> in
       bindE (save_override ov s) (\<lambda>s.
         Inr (ov, record_audit (if found = None then ''calendar.override_set'' else ''calendar.override_replaced'')
           ''CalendarOverride'' (show_nat pk) (ctx_actor cx) ''''
           [(''local_date'', PTime (date_isoformat d)), (''is_open'', PBool is_open), (''open_hour'', opt_val PInt open_hour),
            (''close_hour'', opt_val PInt close_hour)] reason s)))"

section \<open>Who may reserve a room\<close>

definition scope_value :: "reservation_scope \<Rightarrow> string" where
  "scope_value sc = (case sc of EVERYONE \<Rightarrow> ''EVERYONE'' | LISTED \<Rightarrow> ''LISTED'')"

definition scope_of :: "string \<Rightarrow> reservation_scope option" where
  "scope_of v = List.find (\<lambda>sc. scope_value sc = v) [EVERYONE, LISTED]"

definition all_categories :: "category list" where
  "all_categories = [PIANO, PERCUSSION, STRINGS, WOODWIND, BRASS, VOICE, GUITAR, HARP, OTHER, UNKNOWN]"

definition category_of :: "string \<Rightarrow> category option" where
  "category_of v = List.find (\<lambda>c. category_value c = v) all_categories"

text \<open>\<open>set_audience\<close>; \<open>sorted(set(...))\<close> of the names and the rows they stand for.\<close>

definition set_audience :: "nat \<Rightarrow> reservation_scope \<Rightarrow> string list \<Rightarrow> st \<Rightarrow> dict \<times> st" where
  "set_audience room_pk scope categories s =
    (let before_scope = r_reservation_scope (room_of s room_pk);
         before = sort (map (category_value \<circ> ac_category) (filter (\<lambda>a. ac_room a = room_pk) (room_categories s)));
         wanted = sort (remdups categories);
         kept = filter (\<lambda>a. ac_room a \<noteq> room_pk \<or> category_value (ac_category a) \<in> set wanted) (room_categories s);
         rows = fold (\<lambda>c rows. if \<lparr>ac_room = room_pk, ac_category = c\<rparr> \<in> set rows then rows
            else rows @ [\<lparr>ac_room = room_pk, ac_category = c\<rparr>]) (List.map_filter category_of wanted) kept
     in ([(''scope_before'', PStr (scope_value before_scope)), (''scope_after'', PStr (scope_value scope)),
          (''categories_before'', PList (map PStr before)), (''categories_after'', PList (map PStr wanted))],
         s\<lparr>rooms := update_row r_pk room_pk (\<lambda>r. r\<lparr>r_reservation_scope := scope\<rparr>) (rooms s),
           room_categories := rows\<rparr>))"

definition set_room_audience :: "nat \<Rightarrow> string \<Rightarrow> string list \<Rightarrow> ctx \<Rightarrow> st \<Rightarrow> exn + (dict \<times> st)" where
  "set_room_audience room_pk scope categories cx s =
    (case scope_of scope of
       None \<Rightarrow> Inl (rejected Code_INVALID_INPUT [])
     | Some sc \<Rightarrow>
       let unknown = sort (filter (\<lambda>c. category_of c = None) (remdups categories)) in
       if unknown \<noteq> [] then Inl (rejected Code_INVALID_INPUT [(''unknown_categories'', PList (map PStr unknown))])
       else bindE (reload_row r_pk room_pk (rooms s)) (\<lambda>room.
         let (changes, s) = set_audience (r_pk room) sc categories s;
             s = ctx_audit ''room.audience_changed'' ''Room'' (show_nat (r_pk room)) (ctx_actor cx)
               ((''room'', PStr (r_number room)) # changes) ''Staff changed who may reserve this room.'' s
         in Inr ((''room_id'', PNat (r_pk room)) # changes, s)))"

section \<open>Retiring rooms and accounts\<close>

definition cancel_retired :: "room \<Rightarrow> ctx \<Rightarrow> booking \<Rightarrow> st \<Rightarrow> exn + st" where
  "cancel_retired room cx booking s =
     bindE (update_booking (b_pk booking)
         (set_cancelled (ctx_now cx) (actor_pk (ctx_actor cx)) ''ROOM_DEACTIVATED'' False) s) (\<lambda>s.
       Inr (enqueue ''booking_cancelled'' (Some (user_of s (b_user booking)))
            (''booking_cancelled:'' @ show_nat (b_pk booking))
            [(''booking_id'', PNat (b_pk booking)), (''room_number'', PStr (r_number room)),
             (''room_label'', PStr (room_str room)), (''slot_start'', PStr (isoformat (b_slot_start booking))),
             (''slot_end'', PStr (isoformat (b_slot_end booking))), (''reason'', PStr ''ROOM_DEACTIVATED'')] s))"

definition retirement :: "nat \<Rightarrow> nat \<Rightarrow> dict" where
  "retirement cancelled flagged = [(''cancelled'', PNat cancelled), (''flagged_in_use'', PNat flagged)]"

definition deactivate_room :: "nat \<Rightarrow> string \<Rightarrow> ctx \<Rightarrow> st \<Rightarrow> exn + (dict \<times> st)" where
  "deactivate_room room_pk reason cx s =
    (if blank reason then Inl (rejected Code_INVALID_INPUT [])
     else bindE (reload_row r_pk room_pk (rooms s)) (\<lambda>room0.
       let room = room0\<lparr>r_is_active := False\<rparr>;
           s = s\<lparr>rooms := update_row r_pk (r_pk room) (\<lambda>r. r\<lparr>r_is_active := False\<rparr>) (rooms s)\<rparr>;
           scheduled = order_by_desc b_slot_start (filter (\<lambda>b. b_room b = r_pk room \<and> unstarted b) (bookings s)) in
       bindE (foldE (cancel_retired room cx) scheduled s) (\<lambda>s.
       let flagged = order_by_desc b_slot_start (filter (\<lambda>b. b_room b = r_pk room \<and> b_status b = IN_USE) (bookings s)) in
       bindE (foldE (flag_session (''Room deactivated during an active session ('' @ reason @ '').'')) flagged s) (\<lambda>s.
         Inr ([(''cancelled'', PNat (length scheduled)), (''flagged'', PNat (length flagged))],
           record_audit ''room.deactivated'' ''Room'' (show_nat (r_pk room)) (ctx_actor cx) ''''
             (retirement (length scheduled) (length flagged)) reason s)))))"

definition cancel_quietly :: "ctx \<Rightarrow> booking \<Rightarrow> st \<Rightarrow> exn + st" where
  "cancel_quietly cx booking s = update_booking (b_pk booking)
     (set_cancelled (ctx_now cx) (actor_pk (ctx_actor cx)) ''ACCOUNT_DEACTIVATED'' False) s"

definition deactivate_account :: "nat \<Rightarrow> string \<Rightarrow> ctx \<Rightarrow> st \<Rightarrow> exn + (dict \<times> st)" where
  "deactivate_account user_pk reason cx s =
    (if blank reason then Inl (rejected Code_INVALID_INPUT [])
     else bindE (reload_row u_pk user_pk (users s)) (\<lambda>user.
       if u_is_superuser user then Inl (rejected Code_INVALID_INPUT [])
       else let s = s\<lparr>users := update_row u_pk (u_pk user) (\<lambda>u. u\<lparr>u_is_active := False\<rparr>) (users s)\<rparr>;
           scheduled = order_by_desc b_slot_start (filter (\<lambda>b. b_user b = u_pk user \<and> unstarted b) (bookings s)) in
       bindE (foldE (cancel_quietly cx) scheduled s) (\<lambda>s.
       let flagged = order_by_desc b_slot_start (filter (\<lambda>b. b_user b = u_pk user \<and> b_status b = IN_USE) (bookings s)) in
       bindE (foldE (flag_session (''Account deactivated during an active session ('' @ reason @ '').'')) flagged s) (\<lambda>s.
         Inr ([(''cancelled'', PNat (length scheduled)), (''flagged'', PNat (length flagged))],
           record_audit ''account.deactivated'' ''User'' (show_nat (u_pk user)) (ctx_actor cx) ''''
             (retirement (length scheduled) (length flagged)) reason s)))))"

section \<open>Policy versions\<close>

definition policy_limits :: "(string \<times> int \<times> int) list" where
  "policy_limits = [(''horizon_days'', 1, 60), (''daily_quota'', 1, 10), (''max_upcoming_hours'', 1, 20),
     (''checkin_grace_minutes'', 1, 59), (''strike_window_days'', 1, 365), (''strike_threshold'', 1, 10),
     (''auto_suspension_days'', 1, 90), (''reminder_lead_minutes'', 1, 180)]"

text \<open>\<open>exc.messages\<close> of the first check that fails.\<close>

definition policy_messages :: "dict \<Rightarrow> string list" where
  "policy_messages merged =
    (case List.find (\<lambda>(name, lo, hi). \<not> positive_int merged name lo hi) policy_limits of
       Some (name, lo, hi) \<Rightarrow> [''Must be a whole number between '' @ show_int lo @ '' and '' @ show_int hi @ ''.'']
     | None \<Rightarrow> [''Must be a bare domain name.''])"

definition update_policy :: "dict \<Rightarrow> string \<Rightarrow> string \<Rightarrow> ctx \<Rightarrow> st \<Rightarrow> exn + (policy_version \<times> st)" where
  "update_policy snapshot label note_text cx s =
    (case create_policy_version snapshot (ctx_actor cx) label note_text s of
       Inl ValidationError \<Rightarrow> Inl (rejected Code_INVALID_INPUT [(''errors'', PList (map PStr
          (policy_messages (merge_editable snapshot (snapshot_from_settings (conf s))))))])
     | Inl e \<Rightarrow> Inl e
     | Inr (policy, s) \<Rightarrow> Inr (policy, record_audit ''policy.version_created'' ''PolicyVersion''
         (show_nat (pv_pk policy)) (ctx_actor cx) ''''
         [(''version'', PInt (pv_version policy)), (''snapshot'', PDict (pv_snapshot policy))]
         (or_text note_text label) s))"

definition active_suspensions :: "time \<Rightarrow> st \<Rightarrow> suspension list" where
  "active_suspensions now s = order_by (\<lambda>sp. (sp_ends_at sp = None, sp_ends_at sp)) (filter (suspension_active now) (suspensions s))"

definition reviews_pending :: "st \<Rightarrow> booking list" where
  "reviews_pending s = order_by_desc b_slot_start (filter (\<lambda>b. b_needs_review b \<and> b_status b = IN_USE) (bookings s))"

definition slot_date_bounds :: "date \<Rightarrow> time \<times> time" where
  "slot_date_bounds d = (slot_start_for d 0, slot_start_for d 0 + us_hour * 24)"

section \<open>The bodies of the staff views\<close>

definition create_closure_body :: "room option \<Rightarrow> time \<Rightarrow> time \<Rightarrow> string \<Rightarrow> bool \<Rightarrow> ctx \<Rightarrow> st \<Rightarrow> exn + (dict \<times> st)" where
  "create_closure_body room starts_at ends_at reason acknowledged =
     success_pk ''closure_id'' c_pk (create_closure room starts_at ends_at reason acknowledged)"

definition revoke_closure_body :: "nat \<Rightarrow> string \<Rightarrow> ctx \<Rightarrow> st \<Rightarrow> exn + (dict \<times> st)" where
  "revoke_closure_body closure_pk reason = success_pk ''closure_id'' c_pk (revoke_closure closure_pk reason)"

definition complete_early_body :: "nat \<Rightarrow> string \<Rightarrow> ctx \<Rightarrow> st \<Rightarrow> exn + (dict \<times> st)" where
  "complete_early_body booking_pk reason = success_pk ''booking_id'' b_pk (complete_session_early booking_pk reason)"

definition resolve_review_body :: "nat \<Rightarrow> string \<Rightarrow> ctx \<Rightarrow> st \<Rightarrow> exn + (dict \<times> st)" where
  "resolve_review_body booking_pk note_text = success_pk ''booking_id'' b_pk (resolve_review booking_pk note_text)"

definition set_override_body :: "date \<Rightarrow> bool \<Rightarrow> int option \<Rightarrow> int option \<Rightarrow> string \<Rightarrow> ctx \<Rightarrow> st \<Rightarrow> exn + (dict \<times> st)" where
  "set_override_body d is_open open_hour close_hour reason =
     success_pk ''override_id'' co_pk (set_calendar_override d is_open open_hour close_hour reason)"

definition update_policy_body :: "dict \<Rightarrow> string \<Rightarrow> ctx \<Rightarrow> st \<Rightarrow> exn + (dict \<times> st)" where
  "update_policy_body snapshot note_text cx s =
     bindE (update_policy snapshot ''Staff edit'' note_text cx s) (\<lambda>(p, s). Inr ([(''version'', PInt (pv_version p))], s))"

section \<open>Every body keeps an installation sound\<close>

lemma bindE_id [simp]: "bindE m Inr = m" "bindE m (\<lambda>x. Inr x) = m"
  by (cases m; simp)+

lemma installed_same:
  assumes "bookings s' = bookings s" "violations s' = violations s" "suspensions s' = suspensions s"
    "policies s' = policies s" "conf s' = conf s" "keys_unique s \<Longrightarrow> keys_unique s'" "installed s"
  shows "installed s' \<and> evolves s s'"
proof -
  have "well_formed s'" "well_formed s"
    using assms(1,6,7) by (auto simp: installed_def sound_def well_formed_def bookings_ok_def no_adjacent_def
        requests_advance_def)
  moreover have "current_policy s' = current_policy s" by (rule current_policy_cong [OF assms(4,5)])
  moreover have ev: "evolves s s'" by (rule evolves_same [OF assms(1)])
  ultimately show ?thesis
    using assms forfeits_plain [OF _ ev] sanctions_ok_cong [of s' s]
    by (simp add: installed_def sound_def policy_sane_def)
qed

text \<open>A write to tables the invariant does not read, then row writes and logging.\<close>

definition aside :: "st \<Rightarrow> st \<Rightarrow> bool" where
  "aside s s0 \<longleftrightarrow> bookings s0 = bookings s \<and> violations s0 = violations s \<and> suspensions s0 = suspensions s
     \<and> policies s0 = policies s \<and> conf s0 = conf s \<and> notifications s0 = notifications s \<and> op_requests s0 = op_requests s"

lemma aside_plain:
  assumes s: "installed s" and a: "aside s s0" and "well_formed s'" "evolves s0 s'" "plain s0 s'"
  shows "installed s' \<and> advances s s'"
proof -
  have keys: "keys_unique s \<Longrightarrow> keys_unique s0" using a by (simp add: aside_def keys_unique_def)
  have i0: "installed s0" "evolves s s0"
    using installed_same [where s = s and s' = s0] a keys s by (auto simp: aside_def)
  have g: "guarded s0 s'" by (rule guarded_plain [OF assms(5)])
  have "current_policy s0 = current_policy s" using a by (intro current_policy_cong) (simp_all add: aside_def)
  with g a evolves_trans [OF i0(2) assms(4)] installed_guarded [OF i0(1) assms(3,4) g] show ?thesis
    by (simp add: advances_def guarded_def aside_def)
qed

lemma aside_well_formed: "aside s s0 \<Longrightarrow> well_formed s0 = well_formed s"
  by (rule well_formed_cong) (simp_all add: aside_def)

lemma aside_logs:
  assumes "installed s" "aside s s0" "logs s0 s'"
  shows "installed s' \<and> advances s s'"
proof (rule aside_plain [OF assms(1,2)])
  show "well_formed s'"
    using logs_well_formed [OF assms(3)] aside_well_formed [OF assms(2)] installedD(3) [OF assms(1)] by simp
  show "evolves s0 s'" by (simp add: logs_evolves [OF assms(3)])
  show "plain s0 s'" by (rule plain_logs [OF assms(3)])
qed

lemma set_flagged_round: "row_evolves b (set_flagged note_text b)"
  "booking_check_error b = None \<Longrightarrow> booking_check_error (set_flagged note_text b) = None"
proof -
  show "row_evolves b (set_flagged note_text b)"
    by (rule row_evolves_step) (simp_all add: set_flagged_def same_identity_def)
  show "booking_check_error b = None \<Longrightarrow> booking_check_error (set_flagged note_text b) = None"
    by (auto simp: booking_check_None set_flagged_def)
qed

interpretation shut: row_sweep "cancel_closed reason k cx"
  "set_cancelled (ctx_now cx) (actor_pk (ctx_actor cx)) ''CLOSURE'' False" unstarted "\<lambda>_. True" plain "\<lambda>_ _. True"
  for reason k cx
  by (rule plain_sweep) (auto simp: cancel_closed_def unstarted_def set_cancelled_check Let_def
    intro: set_cancelled_evolves)

interpretation retire: row_sweep "cancel_retired room cx"
  "set_cancelled (ctx_now cx) (actor_pk (ctx_actor cx)) ''ROOM_DEACTIVATED'' False" unstarted "\<lambda>_. True" plain "\<lambda>_ _. True"
  for room cx
  by (rule plain_sweep) (auto simp: cancel_retired_def unstarted_def set_cancelled_check
    intro: set_cancelled_evolves)

interpretation drop: row_sweep "cancel_quietly cx"
  "set_cancelled (ctx_now cx) (actor_pk (ctx_actor cx)) ''ACCOUNT_DEACTIVATED'' False" unstarted "\<lambda>_. True" plain "\<lambda>_ _. True"
  for cx
  by (rule plain_sweep [where log = "\<lambda>_ s. s"]) (auto simp: cancel_quietly_def unstarted_def set_cancelled_check
    intro: set_cancelled_evolves)

interpretation flag: row_sweep "flag_session note_text" "set_flagged note_text" "\<lambda>_. True" "\<lambda>_. True" plain "\<lambda>_ _. True"
  for note_text
  by (rule plain_sweep [where log = "\<lambda>_ s. s"]) (auto simp: flag_session_def set_flagged_round, auto simp: set_flagged_def)

text \<open>Cancel the rows of \<open>P\<close>, then flag those of \<open>Q\<close>, as they were read before.\<close>

definition retired_row :: "(booking \<Rightarrow> bool) \<Rightarrow> (booking \<Rightarrow> bool) \<Rightarrow> ctx \<Rightarrow> string \<Rightarrow> string \<Rightarrow> booking \<Rightarrow> booking" where
  "retired_row P Q cx reason note_text b =
    (if P b then set_cancelled (ctx_now cx) (actor_pk (ctx_actor cx)) reason False b
     else if Q b then set_flagged note_text b else b)"

lemma cancel_then_flag:
  assumes "row_sweep step (set_cancelled (ctx_now cx) (actor_pk (ctx_actor cx)) reason False) unstarted (\<lambda>_. True) plain (\<lambda>_ _. True)"
    and wf: "well_formed s" and P: "\<And>b. P b \<Longrightarrow> unstarted b" and PQ: "\<And>b. P b \<Longrightarrow> \<not> Q b"
    and rows: "distinct xs" "set xs = {b \<in> set (bookings s). P b}" "distinct ys" "set ys = {b \<in> set (bookings s). Q b}"
  shows "\<exists>s1 s2. foldE step xs s = Inr s1 \<and> foldE (flag_session note_text) ys s1 = Inr s2
    \<and> bookings s1 = map (\<lambda>b. if P b then set_cancelled (ctx_now cx) (actor_pk (ctx_actor cx)) reason False b else b) (bookings s)
    \<and> bookings s2 = map (retired_row P Q cx reason note_text) (bookings s)
    \<and> well_formed s2 \<and> evolves s s2 \<and> plain s s2"
proof -
  from row_sweep.sweep_all [OF assms(1) wf TrueI rows(1,2)] P obtain s1 where
    s1: "foldE step xs s = Inr s1"
      "bookings s1 = map (\<lambda>b. if P b then set_cancelled (ctx_now cx) (actor_pk (ctx_actor cx)) reason False b else b) (bookings s)"
      "well_formed s1" "evolves s s1" "plain s s1" by blast
  note ok = well_formedD(1) [OF wf]
  have inj: "a = b" if "a \<in> set (bookings s)" "b \<in> set (bookings s)" "b_pk a = b_pk b" for a b
    using bookings_ok_unique [OF ok that(1,2)] that(3) by simp
  have "distinct (map b_pk ys)" using rows(3,4) inj by (auto simp: distinct_map inj_on_def)
  moreover have "get_row b_pk (b_pk b) (bookings s1) = Some b \<and> True" if "b \<in> set ys" for b
  proof -
    have b: "b \<in> set (bookings s)" "\<not> P b" using that rows(4) PQ by auto
    then have "b \<in> set (bookings s1)" unfolding s1(2) by (force simp: image_iff)
    then show ?thesis using bookings_ok_get_row [OF well_formedD(1) [OF s1(3)]] by simp
  qed
  ultimately obtain s2 where s2: "foldE (flag_session note_text) ys s1 = Inr s2"
      "bookings s2 = map (\<lambda>b. if b_pk b \<in> b_pk ` set ys then set_flagged note_text b else b) (bookings s1)"
      "well_formed s2" "evolves s1 s2" "plain s1 s2"
    using flag.sweep [OF s1(3) TrueI, of ys note_text] by blast
  have keys: "b_pk b \<in> b_pk ` set ys \<longleftrightarrow> Q b" if "b \<in> set (bookings s)" for b
    using that inj rows(4) by auto
  have "bookings s2 = map (retired_row P Q cx reason note_text) (bookings s)"
    unfolding s2(2) s1(2) using keys PQ by (auto simp: retired_row_def)
  with s1 s2 evolves_trans [OF s1(4) s2(4)] plain_trans [OF s1(5) s2(5)] show ?thesis by blast
qed

lemma closure_run:
  assumes s: "installed s" and nb: "\<not> blank reason" and t: "starts_at < ends_at"
    and ack: "ack \<or> filter (\<lambda>b. closure_affects (map_option r_pk room) starts_at ends_at b
        \<and> in_progress_at (clock_now s) b) (bookings s) = []"
  shows "\<exists>s' pk. let c = new_closure room starts_at ends_at reason ack cx pk in
    create_closure room starts_at ends_at reason ack cx s = Inr (c, s') \<and> closures s' = closures s @ [c]
    \<and> bookings s' = map (retired_row
         (\<lambda>b. closure_affects (map_option r_pk room) starts_at ends_at b \<and> \<not> in_progress_at (clock_now s) b)
         (\<lambda>b. closure_affects (map_option r_pk room) starts_at ends_at b \<and> in_progress_at (clock_now s) b) cx ''CLOSURE''
         (''Room closed during an active session ('' @ strip reason
            @ ''). Confirm on site whether the student was asked to leave.'')) (bookings s)
    \<and> installed s' \<and> advances s s'"
proof -
  let ?A = "closure_affects (map_option r_pk room) starts_at ends_at" and ?I = "in_progress_at (clock_now s)"
  let ?pk = "fresh_pk (map c_pk (closures s))"
  let ?c = "new_closure room starts_at ends_at reason ack cx ?pk"
  let ?s0 = "s\<lparr>closures := closures s @ [?c]\<rparr>"
  let ?xs = "filter (\<lambda>b. b_status b \<in> {PENDING_APPROVAL, SCHEDULED} \<and> \<not> ?I b) (order_by b_slot_start (filter ?A (bookings s)))"
  let ?ys = "filter ?I (order_by b_slot_start (filter ?A (bookings s)))"
  let ?note = "''Room closed during an active session ('' @ strip reason
      @ ''). Confirm on site whether the student was asked to leave.''"
  have a: "aside s ?s0" by (simp add: aside_def)
  have wf: "well_formed s" "well_formed ?s0" using installedD(3) [OF s] aside_well_formed [OF a] by simp_all
  have wait: "b_status b \<in> {PENDING_APPROVAL, SCHEDULED}" if "?A b" "\<not> ?I b" for b
    using that by (auto simp: closure_affects_def in_progress_at_def)
  have "\<exists>s1 s2. foldE (cancel_closed reason ?pk cx) ?xs ?s0 = Inr s1 \<and> foldE (flag_session ?note) ?ys s1 = Inr s2
    \<and> bookings s1 = map (\<lambda>b. if ?A b \<and> \<not> ?I b then set_cancelled (ctx_now cx) (actor_pk (ctx_actor cx)) ''CLOSURE'' False b
        else b) (bookings ?s0)
    \<and> bookings s2 = map (retired_row (\<lambda>b. ?A b \<and> \<not> ?I b) (\<lambda>b. ?A b \<and> ?I b) cx ''CLOSURE'' ?note) (bookings ?s0)
    \<and> well_formed s2 \<and> evolves ?s0 s2 \<and> plain ?s0 s2"
    by (rule cancel_then_flag [OF shut.row_sweep_axioms wf(2)])
      (use wait distinct_bookings [OF wf(1)] in \<open>auto simp: unstarted_def\<close>)
  then obtain s1 s2 where r: "foldE (cancel_closed reason ?pk cx) ?xs ?s0 = Inr s1" "foldE (flag_session ?note) ?ys s1 = Inr s2"
    "bookings s2 = map (retired_row (\<lambda>b. ?A b \<and> \<not> ?I b) (\<lambda>b. ?A b \<and> ?I b) cx ''CLOSURE'' ?note) (bookings s)"
    "well_formed s2" "evolves ?s0 s2" "plain ?s0 s2" by auto
  have "closures s2 = closures s @ [?c]" using r(6) by (simp add: plain_def quiet_def)
  define s' where "s' = record_audit ''closure.created'' ''Closure'' (show_nat ?pk) (ctx_actor cx) ''''
    [(''room'', opt_val (PStr \<circ> r_number) room), (''all_rooms'', PBool (room = None)), (''starts_at'', PIso starts_at),
     (''ends_at'', PIso ends_at), (''cancelled'', PNat (length ?xs)), (''flagged_in_use'', PNat (length ?ys))] reason s2"
  have l: "logs s2 s'" by (simp add: s'_def)
  have "?ys = [] \<or> ack" using ack by (auto simp: filter_empty_conv)
  then have run: "create_closure room starts_at ends_at reason ack cx s = Inr (?c, s')"
    using nb t r(1,2)
    by (auto simp: create_closure_def preview_closure_def Let_def s'_def new_closure_def)
  have "installed s' \<and> advances s s'"
  proof (rule aside_plain [OF s a])
    show "well_formed s'" by (rule logs_well_formed [OF l r(4)])
    show "evolves ?s0 s'" using r(5) by (simp add: logs_evolves [OF l])
    show "plain ?s0 s'" by (rule plain_trans [OF r(6) plain_logs [OF l]])
  qed
  moreover have "closures s' = closures s @ [?c]" "bookings s' = bookings s2"
    using r(6) by (simp_all add: s'_def plain_def quiet_def)
  ultimately show ?thesis using run r(3) unfolding Let_def by (intro exI [of _ s'] exI [of _ ?pk]) simp
qed

lemma retire_then_flag:
  assumes "row_sweep step (set_cancelled (ctx_now cx) (actor_pk (ctx_actor cx)) reason False) unstarted (\<lambda>_. True) plain (\<lambda>_ _. True)"
    and wf: "well_formed s" and P: "\<And>b. P b \<Longrightarrow> unstarted b" and Q: "\<And>b. Q b \<Longrightarrow> b_status b = IN_USE"
  shows "\<exists>s1 s2. foldE step (order_by_desc b_slot_start (filter P (bookings s))) s = Inr s1
    \<and> foldE (flag_session note_text) (order_by_desc b_slot_start (filter Q (bookings s1))) s1 = Inr s2
    \<and> bookings s2 = map (retired_row P Q cx reason note_text) (bookings s)
    \<and> well_formed s2 \<and> evolves s s2 \<and> plain s s2"
proof -
  have PQ: "\<not> Q b" if "P b" for b using P [OF that] Q [of b] by (auto simp: unstarted_def)
  let ?xs = "order_by_desc b_slot_start (filter P (bookings s))"
  have xs: "distinct ?xs" "set ?xs = {b \<in> set (bookings s). P b}" using distinct_bookings [OF wf] by auto
  from row_sweep.sweep_all [OF assms(1) wf TrueI xs] P obtain s1 where
    s1: "foldE step ?xs s = Inr s1"
      "bookings s1 = map (\<lambda>b. if P b then set_cancelled (ctx_now cx) (actor_pk (ctx_actor cx)) reason False b else b) (bookings s)"
      "well_formed s1" by blast
  let ?ys = "order_by_desc b_slot_start (filter Q (bookings s1))"
  have "\<not> Q (set_cancelled t p r l b)" for t p r l b using Q [of "set_cancelled t p r l b"] by auto
  then have ys: "distinct ?ys" "set ?ys = {b \<in> set (bookings s). Q b}"
    using distinct_bookings [OF s1(3)] PQ by (auto simp: s1(2))
  from cancel_then_flag [OF assms(1) wf P PQ xs ys] s1(1) show ?thesis by auto
qed

lemma room_run:
  assumes s: "installed s" and nb: "\<not> blank reason" and row: "get_row r_pk room_pk (rooms s) = Some room"
  shows "\<exists>d s'. deactivate_room room_pk reason cx s = Inr (d, s')
    \<and> rooms s' = update_row r_pk room_pk (\<lambda>r. r\<lparr>r_is_active := False\<rparr>) (rooms s)
    \<and> bookings s' = map (retired_row (\<lambda>b. b_room b = room_pk \<and> unstarted b) (\<lambda>b. b_room b = room_pk \<and> b_status b = IN_USE)
         cx ''ROOM_DEACTIVATED'' (''Room deactivated during an active session ('' @ reason @ '').'')) (bookings s)
    \<and> installed s' \<and> advances s s'"
proof -
  let ?P = "\<lambda>b. b_room b = room_pk \<and> unstarted b" and ?Q = "\<lambda>b. b_room b = room_pk \<and> b_status b = IN_USE"
  let ?note = "''Room deactivated during an active session ('' @ reason @ '').''"
  let ?s0 = "s\<lparr>rooms := update_row r_pk room_pk (\<lambda>r. r\<lparr>r_is_active := False\<rparr>) (rooms s)\<rparr>"
  have pk: "r_pk room = room_pk" using row by (auto dest: get_row_Some)
  have a: "aside s ?s0" by (simp add: aside_def)
  have wf: "well_formed ?s0" using installedD(3) [OF s] aside_well_formed [OF a] by simp
  from retire_then_flag [OF retire.row_sweep_axioms wf, of ?P ?Q "room\<lparr>r_is_active := False\<rparr>" cx ?note]
  obtain s1 s2 where r: "foldE (cancel_retired (room\<lparr>r_is_active := False\<rparr>) cx)
      (order_by_desc b_slot_start (filter ?P (bookings ?s0))) ?s0 = Inr s1"
    "foldE (flag_session ?note) (order_by_desc b_slot_start (filter ?Q (bookings s1))) s1 = Inr s2"
    "bookings s2 = map (retired_row ?P ?Q cx ''ROOM_DEACTIVATED'' ?note) (bookings s)"
    "well_formed s2" "evolves ?s0 s2" "plain ?s0 s2" by auto
  obtain d s' where run: "deactivate_room room_pk reason cx s = Inr (d, s')" and l: "logs s2 s'"
    using nb row pk r(1,2) by (simp add: deactivate_room_def reload_row_def Let_def)
  have "installed s' \<and> advances s s'"
  proof (rule aside_plain [OF s a])
    show "well_formed s'" by (rule logs_well_formed [OF l r(4)])
    show "evolves ?s0 s'" using r(5) by (simp add: logs_evolves [OF l])
    show "plain ?s0 s'" by (rule plain_trans [OF r(6) plain_logs [OF l]])
  qed
  moreover have "rooms s' = rooms ?s0" "bookings s' = bookings s2"
    using r(6) logs_frame [OF l] by (simp_all add: plain_def quiet_def)
  ultimately show ?thesis using run r(3) by auto
qed

lemma account_run:
  assumes s: "installed s" and nb: "\<not> blank reason" and row: "get_row u_pk user_pk (users s) = Some user"
    and su: "\<not> u_is_superuser user"
  shows "\<exists>d s'. deactivate_account user_pk reason cx s = Inr (d, s')
    \<and> users s' = update_row u_pk user_pk (\<lambda>u. u\<lparr>u_is_active := False\<rparr>) (users s)
    \<and> bookings s' = map (retired_row (\<lambda>b. b_user b = user_pk \<and> unstarted b) (\<lambda>b. b_user b = user_pk \<and> b_status b = IN_USE)
         cx ''ACCOUNT_DEACTIVATED'' (''Account deactivated during an active session ('' @ reason @ '').'')) (bookings s)
    \<and> installed s' \<and> advances s s'"
proof -
  let ?P = "\<lambda>b. b_user b = user_pk \<and> unstarted b" and ?Q = "\<lambda>b. b_user b = user_pk \<and> b_status b = IN_USE"
  let ?note = "''Account deactivated during an active session ('' @ reason @ '').''"
  let ?s0 = "s\<lparr>users := update_row u_pk user_pk (\<lambda>u. u\<lparr>u_is_active := False\<rparr>) (users s)\<rparr>"
  have pk: "u_pk user = user_pk" using row by (auto dest: get_row_Some)
  have a: "aside s ?s0" by (simp add: aside_def)
  have wf: "well_formed ?s0" using installedD(3) [OF s] aside_well_formed [OF a] by simp
  from retire_then_flag [OF drop.row_sweep_axioms wf, of ?P ?Q cx ?note]
  obtain s1 s2 where r: "foldE (cancel_quietly cx) (order_by_desc b_slot_start (filter ?P (bookings ?s0))) ?s0 = Inr s1"
    "foldE (flag_session ?note) (order_by_desc b_slot_start (filter ?Q (bookings s1))) s1 = Inr s2"
    "bookings s2 = map (retired_row ?P ?Q cx ''ACCOUNT_DEACTIVATED'' ?note) (bookings s)"
    "well_formed s2" "evolves ?s0 s2" "plain ?s0 s2" by auto
  obtain d s' where run: "deactivate_account user_pk reason cx s = Inr (d, s')" and l: "logs s2 s'"
    using nb row pk su r(1,2) by (simp add: deactivate_account_def reload_row_def Let_def)
  have "installed s' \<and> advances s s'"
  proof (rule aside_plain [OF s a])
    show "well_formed s'" by (rule logs_well_formed [OF l r(4)])
    show "evolves ?s0 s'" using r(5) by (simp add: logs_evolves [OF l])
    show "plain ?s0 s'" by (rule plain_trans [OF r(6) plain_logs [OF l]])
  qed
  moreover have "users s' = users ?s0" "bookings s' = bookings s2"
    using r(6) logs_frame [OF l] by (simp_all add: plain_def quiet_def)
  ultimately show ?thesis using run r(3) by auto
qed

section \<open>The contract of the protocol\<close>

interpretation closure_service: service_body "create_closure_body room starts_at ends_at reason ack"
  for room starts_at ends_at reason ack
proof (rule service_body_advances)
  fix s cx d s' assume s: "installed s" and "create_closure_body room starts_at ends_at reason ack cx s = Inr (d, s')"
  then obtain c where run: "create_closure room starts_at ends_at reason ack cx s = Inr (c, s')"
    by (auto simp: create_closure_body_def success_pk_Inr)
  then have nb: "\<not> blank reason" and t: "starts_at < ends_at" by (auto simp: create_closure_def split: if_splits)
  have "ack \<or> filter (\<lambda>b. closure_affects (map_option r_pk room) starts_at ends_at b
      \<and> in_progress_at (clock_now s) b) (bookings s) = []"
  proof (rule ccontr)
    assume n: "\<not> ?thesis"
    then have "filter (in_progress_at (clock_now s)) (order_by b_slot_start
        (filter (closure_affects (map_option r_pk room) starts_at ends_at) (bookings s))) \<noteq> []"
      by (auto simp: filter_empty_conv)
    with n run nb t show False by (auto simp: create_closure_def preview_closure_def Let_def)
  qed
  from closure_run [OF s nb t this, of cx] run show "installed s' \<and> advances s s'" by (auto simp: Let_def)
qed

interpretation revoke_service: service_body "revoke_closure_body pk reason" for pk reason
proof (rule service_body_advances)
  fix s cx d s' assume s: "installed s" and "revoke_closure_body pk reason cx s = Inr (d, s')"
  then have "\<exists>s0. aside s s0 \<and> logs s0 s'"
    by (clarsimp simp: revoke_closure_body_def success_pk_Inr revoke_closure_def bindE_Inr Let_def split: if_splits)
      (rule exI, rule conjI [rotated], rule logs_record_audit, rule logs_refl, simp add: aside_def)
  with aside_logs [OF s] show "installed s' \<and> advances s s'" by blast
qed

interpretation retire_room_service: service_body "deactivate_room pk reason" for pk reason
proof (rule service_body_advances)
  fix s cx d s' assume s: "installed s" and run: "deactivate_room pk reason cx s = Inr (d, s')"
  then have nb: "\<not> blank reason" by (auto simp: deactivate_room_def split: if_splits)
  with run obtain room where "get_row r_pk pk (rooms s) = Some room"
    by (auto simp: deactivate_room_def bindE_Inr reload_row_def split: option.splits)
  from room_run [OF s nb this, of cx] run show "installed s' \<and> advances s s'" by auto
qed

interpretation retire_account_service: service_body "deactivate_account pk reason" for pk reason
proof (rule service_body_advances)
  fix s cx d s' assume s: "installed s" and run: "deactivate_account pk reason cx s = Inr (d, s')"
  then have nb: "\<not> blank reason" by (auto simp: deactivate_account_def split: if_splits)
  with run obtain user where u: "get_row u_pk pk (users s) = Some user"
    by (auto simp: deactivate_account_def bindE_Inr reload_row_def split: option.splits)
  with run nb have "\<not> u_is_superuser user"
    by (auto simp: deactivate_account_def reload_row_def split: if_splits)
  from account_run [OF s nb u this, of cx] run show "installed s' \<and> advances s s'" by auto
qed

interpretation audience_service: service_body "set_room_audience pk scope categories" for pk scope categories
proof (rule service_body_advances)
  fix s cx d s' assume s: "installed s" and "set_room_audience pk scope categories cx s = Inr (d, s')"
  then have "\<exists>s0. aside s s0 \<and> logs s0 s'"
    by (clarsimp simp: set_room_audience_def bindE_Inr Let_def set_audience_def split: option.splits if_splits)
      (rule exI, rule conjI [rotated], rule logs_ctx_audit, rule logs_refl, simp add: aside_def)
  with aside_logs [OF s] show "installed s' \<and> advances s s'" by blast
qed

interpretation override_service: service_body "set_override_body d is_open h1 h2 reason" for d is_open h1 h2 reason
proof (rule service_body_advances)
  fix s cx r s' assume s: "installed s" and "set_override_body d is_open h1 h2 reason cx s = Inr (r, s')"
  then obtain ov s1 where "save_override ov s = Inr s1" "logs s1 s'"
    by (auto simp: set_override_body_def success_pk_Inr set_calendar_override_def bindE_Inr Let_def split: if_splits)
  moreover from this obtain os where "s1 = s\<lparr>overrides := os\<rparr>"
    by (auto simp: save_override_def split: if_splits option.splits)
  ultimately show "installed s' \<and> advances s s'" using aside_logs [OF s, of s1 s'] by (simp add: aside_def)
qed

lemma row_write:
  assumes s: "installed s" and u: "update_booking pk f s = Inr s1" and l: "logs s1 s'"
    and e: "\<And>b. get_row b_pk pk (bookings s) = Some b \<Longrightarrow> row_evolves b (f b)" and pk: "\<And>b. b_pk (f b) = b_pk b"
  shows "installed s' \<and> advances s s'"
proof -
  have k: "well_formed s' \<and> evolves s s'" by (rule update_logs_evolves [OF installedD(3) [OF s] u l e pk])
  have g: "guarded s s'" by (rule guarded_update_logs [OF u l])
  from installed_guarded [OF s _ _ g] k g show ?thesis by (simp add: advances_def guarded_def)
qed

interpretation evacuate_service: service_body "complete_early_body pk reason" for pk reason
proof (rule service_body_advances)
  fix s cx d s' assume s: "installed s" and "complete_early_body pk reason cx s = Inr (d, s')"
  then obtain b s1 where b: "get_row b_pk pk (bookings s) = Some b" "b_status b = IN_USE"
    and u: "update_booking pk (set_evacuated (ctx_now cx) (strip reason)) s = Inr s1" and l: "logs s1 s'"
    by (auto simp: complete_early_body_def success_pk_Inr complete_session_early_def bindE_Inr Let_def
        reload_booking_Inr split: if_splits dest: get_row_Some)
  show "installed s' \<and> advances s s'"
    by (rule row_write [OF s u l])
      (use b in \<open>auto simp: set_evacuated_def same_identity_def intro!: row_evolves_step lifecycle.complete\<close>)
qed

interpretation review_service: service_body "resolve_review_body pk note_text" for pk note_text
proof (rule service_body_advances)
  fix s cx d s' assume s: "installed s" and "resolve_review_body pk note_text cx s = Inr (d, s')"
  then obtain s1 where u: "update_booking pk (set_reviewed (strip note_text)) s = Inr s1" and l: "logs s1 s'"
    by (auto simp: resolve_review_body_def success_pk_Inr resolve_review_def bindE_Inr
        reload_booking_Inr split: if_splits dest: get_row_Some)
  show "installed s' \<and> advances s s'"
    by (rule row_write [OF s u l]) (auto simp: set_reviewed_def same_identity_def intro!: row_evolves_step)
qed

section \<open>Policy versions\<close>

lemma validate_policy_Inr:
  assumes "validate_policy cf snapshot base = Inr v" "(name, lo, hi) \<in> set policy_limits"
  shows "\<exists>i. map_of v name = Some (PInt i) \<and> lo \<le> i \<and> i \<le> hi"
proof -
  let ?m = "merge_editable snapshot base"
  have v: "v = dict_set ''last_slot_hour'' (PInt (LAST_SLOT_START_HOUR cf))
       (dict_set ''opening_hour'' (PInt (OPENING_SLOT_START_HOUR cf)) (dict_set ''slot_minutes'' (PInt (SLOT_MINUTES cf)) ?m))"
    and p: "\<forall>(name, lo, hi) \<in> set policy_limits. positive_int ?m name lo hi"
    using assms(1) by (auto simp: validate_policy_def Let_def policy_limits_def split: if_splits)
  have "positive_int ?m name lo hi" using p assms(2) by auto
  then obtain i where i: "map_of ?m name = Some (PInt i)" "lo \<le> i" "i \<le> hi"
    by (auto simp: positive_int_def split: option.splits pyval.splits)
  have "name \<notin> {''last_slot_hour'', ''opening_hour'', ''slot_minutes''}"
    using assms(2) by (auto simp: policy_limits_def)
  then have "map_of v name = map_of ?m name" by (simp add: v map_of_dict_set)
  with i show ?thesis by auto
qed

lemma update_policy_Inr:
  assumes "update_policy snapshot label note_text cx s = Inr (p, s')"
  obtains s1 where "create_policy_version snapshot (ctx_actor cx) label note_text s = Inr (p, s1)" "logs s1 s'"
    "\<exists>ps. s1 = s\<lparr>policies := ps\<rparr>" "validate_policy (conf s) snapshot (snapshot_from_settings (conf s)) = Inr (pv_snapshot p)"
proof -
  from assms obtain s1 where c: "create_policy_version snapshot (ctx_actor cx) label note_text s = Inr (p, s1)" "logs s1 s'"
    by (auto simp: update_policy_def split: sum.splits exn.splits)
  moreover from c(1) have "\<exists>ps. s1 = s\<lparr>policies := ps\<rparr>"
    "validate_policy (conf s) snapshot (snapshot_from_settings (conf s)) = Inr (pv_snapshot p)"
    by (auto simp: create_policy_version_def bindE_Inr Let_def)
  ultimately show thesis by (rule that)
qed

lemma update_policy_keeps:
  assumes s: "installed s" and run: "update_policy snapshot label note_text cx s = Inr (p, s')"
  shows "installed s' \<and> evolves s s' \<and> op_requests s' = op_requests s \<and> current_policy s' = p"
  using run
proof (rule update_policy_Inr)
  fix s1 assume c: "create_policy_version snapshot (ctx_actor cx) label note_text s = Inr (p, s1)" and l: "logs s1 s'"
    and ps: "\<exists>ps. s1 = s\<lparr>policies := ps\<rparr>"
    and v: "validate_policy (conf s) snapshot (snapshot_from_settings (conf s)) = Inr (pv_snapshot p)"
  note f = logs_frame [OF l]
  have "current_policy s1 = p" using create_policy_version_latest(1) [OF c] by (simp add: current_policy_def)
  moreover have "current_policy s' = current_policy s1" by (rule current_policy_cong) (simp_all add: f)
  ultimately have cur: "current_policy s' = p" by simp
  have "0 < strike_window_days p" "0 < auto_suspension_days p"
    using validate_policy_Inr [OF v, of "''strike_window_days''" 1 365] validate_policy_Inr [OF v, of "''auto_suspension_days''" 1 90]
    by (auto simp: strike_window_days_def auto_suspension_days_def snapshot_int_def policy_limits_def)
  then have "policy_sane s'" by (simp add: policy_sane_def cur)
  moreover have ev: "evolves s s'" by (rule evolves_same) (use f ps in auto)
  moreover have "well_formed s1 = well_formed s" using ps by (intro well_formed_cong) auto
  then have "well_formed s'" using logs_well_formed [OF l] installedD(3) [OF s] by simp
  moreover have "violations s' = violations s" "suspensions s' = suspensions s" "op_requests s' = op_requests s"
    using f ps by auto
  ultimately show ?thesis
    using cur sanctions_ok_cong [of s' s] forfeits_plain [OF _ ev] installedD(1) [OF s]
    by (simp add: installed_def sound_def)
qed

interpretation policy_service: service_body "update_policy_body snapshot note_text" for snapshot note_text
proof -
  have "installed s' \<and> evolves s s' \<and> op_requests s' = op_requests s"
    if s: "installed s" and run: "update_policy_body snapshot note_text cx s = Inr (d, s')" for s cx d s'
  proof -
    from run obtain p where "update_policy snapshot ''Staff edit'' note_text cx s = Inr (p, s')"
      by (auto simp: update_policy_body_def bindE_Inr)
    from update_policy_keeps [OF s this] show ?thesis by blast
  qed
  then show "service_body (update_policy_body snapshot note_text)" by unfold_locales blast+
qed

section \<open>Properties\<close>

lemma closed_by: "c \<in> set (closures s) \<Longrightarrow> closure_hits t (slot_end_for t) (r_pk r) c \<Longrightarrow>
    assert_slot_open s t r = Inl (rejected Code_CLOSED [])"
  by (auto simp: assert_slot_open_def is_slot_closed_def active_closures_def filter_empty_conv split: option.splits)

text \<open>C22: A closure does what its preview says. With a reason, a proper interval and the acknowledgement it
  asks for when somebody is in the room, it cancels, without a late mark, every reservation of the
  scope that touches the interval and has not begun, flags for review every session that has, leaves
  all other bookings alone, and from then on no hour that touches the interval can be booked there.\<close>

theorem create_closure_effect:
  assumes "installed s" "\<not> blank reason" "starts_at < ends_at"
    and "ack \<or> filter (\<lambda>b. closure_affects (map_option r_pk room) starts_at ends_at b
        \<and> in_progress_at (clock_now s) b) (bookings s) = []"
  shows "\<exists>c s'. create_closure room starts_at ends_at reason ack cx s = Inr (c, s') \<and> installed s'
    \<and> bookings s' = map (\<lambda>b. if \<not> closure_affects (map_option r_pk room) starts_at ends_at b then b
         else if in_progress_at (clock_now s) b then set_flagged (''Room closed during an active session ('' @ strip reason
            @ ''). Confirm on site whether the student was asked to leave.'') b
         else set_cancelled (ctx_now cx) (actor_pk (ctx_actor cx)) ''CLOSURE'' False b) (bookings s)
    \<and> (\<forall>r t. room \<in> {None, Some r} \<and> t < ends_at \<and> starts_at < slot_end_for t
         \<longrightarrow> assert_slot_open s' t r = Inl (rejected Code_CLOSED []))"
proof -
  from closure_run [OF assms, of cx] obtain s' pk where
    r: "create_closure room starts_at ends_at reason ack cx s = Inr (new_closure room starts_at ends_at reason ack cx pk, s')"
      "closures s' = closures s @ [new_closure room starts_at ends_at reason ack cx pk]" "installed s'"
    and b: "bookings s' = map (retired_row
         (\<lambda>b. closure_affects (map_option r_pk room) starts_at ends_at b \<and> \<not> in_progress_at (clock_now s) b)
         (\<lambda>b. closure_affects (map_option r_pk room) starts_at ends_at b \<and> in_progress_at (clock_now s) b) cx ''CLOSURE''
         (''Room closed during an active session ('' @ strip reason
            @ ''). Confirm on site whether the student was asked to leave.'')) (bookings s)"
    by (auto simp: Let_def)
  have "assert_slot_open s' t r = Inl (rejected Code_CLOSED [])"
    if "room \<in> {None, Some r}" "t < ends_at" "starts_at < slot_end_for t" for r t
    by (rule closed_by [of "new_closure room starts_at ends_at reason ack cx pk"])
      (use that r(2) in \<open>auto simp: closure_hits_def new_closure_def\<close>)
  moreover have "retired_row (\<lambda>b. A b \<and> \<not> I b) (\<lambda>b. A b \<and> I b) cx ''CLOSURE'' n
      = (\<lambda>b. if \<not> A b then b else if I b then set_flagged n b
          else set_cancelled (ctx_now cx) (actor_pk (ctx_actor cx)) ''CLOSURE'' False b)" for A I n
    by (auto simp: retired_row_def)
  ultimately show ?thesis using r b by (intro exI [of _ s'] exI) auto
qed

theorem create_closure_effect_witness:
  "\<exists>c s'. create_closure (Some room_a) (at 9 0) (at 12 0) ''flood'' False office_cx (sanction_st [] []) = Inr (c, s')
    \<and> map b_status (bookings s') = [CANCELLED]
    \<and> assert_slot_open s' (at 11 0) room_a = Inl (rejected Code_CLOSED [])"
proof -
  let ?s = "sanction_st [] []"
  have i: "installed ?s" by (rule sanction_st_installed) simp_all
  have nb: "\<not> blank ''flood''" by (simp add: blank_def strip_def py_space_def)
  have t: "at 9 0 < at 12 0" "at 11 0 < at 12 0" "at 9 0 < slot_end_for (at 11 0)"
    by (simp_all add: at_def us_defs slot_end_for_def slot_start_for_def SLOT_DELTA_def)
  have "False \<or> filter (\<lambda>b. closure_affects (map_option r_pk (Some room_a)) (at 9 0) (at 12 0) b
        \<and> in_progress_at (clock_now ?s) b) (bookings ?s) = []"
    by (simp add: in_progress_at_def sample_booking_def)
  from create_closure_effect [OF i nb t(1) this, of office_cx] obtain c s' where
    r: "create_closure (Some room_a) (at 9 0) (at 12 0) ''flood'' False office_cx ?s = Inr (c, s')"
    and b: "bookings s' = map (\<lambda>b. if \<not> closure_affects (map_option r_pk (Some room_a)) (at 9 0) (at 12 0) b then b
         else if in_progress_at (clock_now ?s) b then set_flagged (''Room closed during an active session ('' @ strip ''flood''
            @ ''). Confirm on site whether the student was asked to leave.'') b
         else set_cancelled (ctx_now office_cx) (actor_pk (ctx_actor office_cx)) ''CLOSURE'' False b) (bookings ?s)"
    and c: "\<forall>r t. Some room_a \<in> {None, Some r} \<and> t < at 12 0 \<and> at 9 0 < slot_end_for t
         \<longrightarrow> assert_slot_open s' t r = Inl (rejected Code_CLOSED [])" by blast
  have "closure_affects (map_option r_pk (Some room_a)) (at 9 0) (at 12 0) (sample_booking 1 1 1 10 SCHEDULED)"
    by (simp add: closure_affects_def sample_booking_def room_a_def sample_room_def blank_room_def at_def us_defs slot_start_for_def)
  then have "map b_status (bookings s') = [CANCELLED]"
    by (simp add: b in_progress_at_def) (simp add: sample_booking_def)
  moreover have "assert_slot_open s' (at 11 0) room_a = Inl (rejected Code_CLOSED [])" using c t by blast
  ultimately show ?thesis using r by (intro exI [of _ c] exI [of _ s'] conjI)
qed

text \<open>C23: Every policy staff can make is a sane one. A new version is the current one from then on, later than
  all others, which are kept as they are; each of its numbers is within the limits of the form, so the
  reconciler never meets an empty strike window or a suspension of no days.\<close>

theorem update_policy_in_bounds:
  assumes "installed s" "update_policy snapshot label note_text cx s = Inr (p, s')"
  shows "installed s' \<and> current_policy s' = p \<and> policies s' = policies s @ [p]
    \<and> list_all (\<lambda>q. pv_version q < pv_version p) (policies s)
    \<and> list_all (\<lambda>(name, lo, hi). \<exists>i. map_of (pv_snapshot p) name = Some (PInt i) \<and> lo \<le> i \<and> i \<le> hi) policy_limits"
  using assms(2)
proof (rule update_policy_Inr)
  fix s1 assume c: "create_policy_version snapshot (ctx_actor cx) label note_text s = Inr (p, s1)" and l: "logs s1 s'"
    and v: "validate_policy (conf s) snapshot (snapshot_from_settings (conf s)) = Inr (pv_snapshot p)"
  have "policies s' = policies s @ [p]" using create_policy_version_latest(2) [OF c] logs_frame(12) [OF l] by simp
  moreover have "list_all (\<lambda>q. pv_version q < pv_version p) (policies s)"
    using create_policy_version_latest(3) [OF c] by (simp add: list_all_iff)
  moreover have "list_all (\<lambda>(name, lo, hi). \<exists>i. map_of (pv_snapshot p) name = Some (PInt i) \<and> lo \<le> i \<and> i \<le> hi) policy_limits"
    using validate_policy_Inr [OF v] by (auto simp: list_all_iff)
  ultimately show ?thesis using update_policy_keeps [OF assms] by blast
qed

theorem update_policy_in_bounds_witness:
  "\<exists>p s'. update_policy [(''daily_quota'', PInt 3)] ''Staff edit'' '''' office_cx (sanction_st [] []) = Inr (p, s')
    \<and> current_policy s' = p \<and> list_all (\<lambda>q. pv_version q < pv_version p) (policies (sanction_st [] []))"
proof -
  have i: "installed (sanction_st [] [])" by (rule sanction_st_installed) simp_all
  have cf: "conf (sanction_st [] []) = default_settings" by (simp add: sanction_st_def one_booking_st_def sample_st_def)
  have "\<exists>v. validate_policy default_settings [(''daily_quota'', PInt 3)] (snapshot_from_settings default_settings) = Inr v"
    by (simp add: validate_policy_def merge_editable_def EDITABLE_POLICY_FIELDS_def snapshot_from_settings_def
        positive_int_def valid_domain_def default_settings_def contains_def)
  then obtain p s' where "update_policy [(''daily_quota'', PInt 3)] ''Staff edit'' '''' office_cx (sanction_st [] []) = Inr (p, s')"
    by (auto simp: update_policy_def create_policy_version_def cf Let_def)
  with update_policy_in_bounds [OF i this] show ?thesis by blast
qed

lemma first_row_filter_update:
  assumes "distinct (map key xs)" "List.find P xs = Some x" "P y"
  shows "first_row (filter P (update_row key (key x) (\<lambda>_. y) xs)) = Some y"
  using assms(1,2)
proof (induction xs)
  case (Cons z zs)
  show ?case
  proof (cases "P z")
    case True
    with Cons.prems assms(3) show ?thesis by (simp add: update_row_def)
  next
    case False
    with Cons.prems have "x \<in> set zs" by (auto simp: find_Some_iff)
    then have "key x \<in> key ` set zs" by simp
    then have "key z \<noteq> key x" using Cons.prems(1) by auto
    with False Cons show ?thesis by (simp add: update_row_def)
  qed
qed simp

lemma filter_update_row_other:
  assumes "distinct (map key xs)" "x \<in> set xs" "\<not> P x" "\<not> P y"
  shows "filter P (update_row key (key x) (\<lambda>_. y) xs) = filter P xs"
  using assms(1,2)
proof (induction xs)
  case (Cons z zs)
  have "z = x" if "key z = key x" using Cons.prems that by auto
  moreover have "filter P (update_row key (key x) (\<lambda>_. y) zs) = filter P zs"
  proof (cases "x \<in> set zs")
    case False
    with Cons.prems have "z = x" "\<forall>w \<in> set zs. key w \<noteq> key x" by (auto simp: image_iff)
    then show ?thesis by (simp add: update_row_same)
  qed (use Cons in simp)
  ultimately show ?case using assms(3,4) by (auto simp: update_row_def)
qed simp

text \<open>The calendar answers what was set. After a successful change of a date the day has exactly the
  hours given, or is closed; every other date keeps its hours, and opening hours stay hours of one
  day, whatever number was typed.\<close>

theorem set_calendar_override_roundtrip:
  assumes "distinct (map co_pk (overrides s))" "set_calendar_override d is_open h1 h2 reason cx s = Inr (ov, s')"
  shows "day_hours s' d = (if is_open then Some (hour_or_zero h1, hour_or_zero h2) else None)
    \<and> (d' \<noteq> d \<longrightarrow> day_hours s' d' = day_hours s d') \<and> (hours_ok s \<longrightarrow> hours_ok s') \<and> distinct (map co_pk (overrides s'))"
proof -
  let ?found = "List.find (\<lambda>ov. co_local_date ov = d) (overrides s)"
  let ?pk = "case ?found of Some ov \<Rightarrow> co_pk ov | None \<Rightarrow> fresh_pk (map co_pk (overrides s))"
  from assms(2) obtain s1 where ov: "ov = \<lparr>co_pk = ?pk, co_local_date = d, co_is_open = is_open,
      co_open_hour = (if is_open then h1 else None), co_close_hour = (if is_open then h2 else None), co_reason = reason,
      co_created_by = actor_pk (ctx_actor cx)\<rparr>"
    and sv: "save_override ov s = Inr s1" and l: "logs s1 s'"
    by (auto simp: set_calendar_override_def bindE_Inr Let_def split: if_splits)
  have e: "override_error ov = None" using sv by (auto simp: save_override_def split: if_splits option.splits)
  have s1: "s1 = s\<lparr>overrides := overrides s1\<rparr>" using sv by (auto simp: save_override_def split: if_splits option.splits)
  have rows: "overrides s1 = (case ?found of None \<Rightarrow> overrides s @ [ov] | Some x \<Rightarrow> update_row co_pk (co_pk x) (\<lambda>_. ov) (overrides s))"
  proof (cases ?found)
    case None
    then have "\<not> list_ex (\<lambda>x. co_pk x = co_pk ov) (overrides s)"
      using fresh_pk_notin [of "map co_pk (overrides s)"] by (auto simp: ov list_ex_iff image_iff)
    with sv None show ?thesis by (auto simp: save_override_def split: if_splits option.splits)
  next
    case (Some x)
    have "co_pk ov = co_pk x" by (simp add: ov Some)
    moreover have "x \<in> set (overrides s)" using Some by (auto simp: find_Some_iff)
    ultimately have "list_ex (\<lambda>x. co_pk x = co_pk ov) (overrides s)" by (auto simp: list_ex_iff)
    with sv Some \<open>co_pk ov = co_pk x\<close> show ?thesis by (auto simp: save_override_def split: if_splits option.splits)
  qed
  have date: "co_local_date ov = d" "co_pk ov = ?pk" by (simp_all add: ov)
  have "conf s1 = conf s" by (subst s1) simp
  then have fr: "conf s' = conf s" "overrides s' = overrides s1" by (simp_all add: logs_frame [OF l])
  have open_hours: "0 \<le> hour_or_zero (co_open_hour ov) \<and> hour_or_zero (co_close_hour ov) \<le> 24"
    using e by (auto simp: override_error_def hour_or_zero_def split: if_splits option.splits)
  have "day_hours s' d = (if is_open then Some (hour_or_zero h1, hour_or_zero h2) else None)
    \<and> (d' \<noteq> d \<longrightarrow> day_hours s' d' = day_hours s d') \<and> set (overrides s') \<subseteq> insert ov (set (overrides s))
    \<and> distinct (map co_pk (overrides s'))"
  proof (cases ?found)
    case None
    have "fresh_pk (map co_pk (overrides s)) \<notin> co_pk ` set (overrides s)"
      using fresh_pk_notin [of "map co_pk (overrides s)"] by simp
    moreover have "filter (\<lambda>x. co_local_date x = d) (overrides s) = []"
      using None by (auto simp: find_None_iff filter_empty_conv)
    ultimately show ?thesis using None assms(1) by (simp add: fr rows day_hours_def date cong: option.case_cong) (simp add: ov fr cong: option.case_cong)
  next
    case (Some x)
    then have x: "x \<in> set (overrides s)" "co_local_date x = d" by (auto simp: find_Some_iff)
    have pk: "co_pk ov = co_pk x" using Some by (simp add: date)
    have "first_row (filter (\<lambda>x. co_local_date x = d) (overrides s')) = Some ov"
      using first_row_filter_update [OF assms(1) Some, of ov] Some by (simp add: fr rows date)
    moreover have "filter (\<lambda>x. co_local_date x = d') (overrides s') = filter (\<lambda>x. co_local_date x = d') (overrides s)" if "d' \<noteq> d"
      using filter_update_row_other [OF assms(1) x(1), of "\<lambda>x. co_local_date x = d'" ov] x(2) that Some by (simp add: fr rows date)
    moreover have "map co_pk (overrides s') = map co_pk (overrides s)"
      using Some pk by (simp add: fr rows update_row_def)
    moreover have "set (overrides s') \<subseteq> insert ov (set (overrides s))"
      using Some by (auto simp: fr rows set_update_row)
    ultimately show ?thesis using assms(1) by (simp add: day_hours_def fr cong: option.case_cong) (simp add: ov)
  qed
  moreover have "hours_ok s'" if "hours_ok s" "set (overrides s') \<subseteq> insert ov (set (overrides s))"
    using that open_hours by (auto simp: hours_ok_def fr)
  ultimately show ?thesis by blast
qed

theorem set_calendar_override_roundtrip_witness:
  "\<exists>ov s'. set_calendar_override monday True (Some 10) (Some 12) ''exam'' office_cx (sanction_st [] []) = Inr (ov, s')
    \<and> day_hours s' monday = Some (10, 12)"
proof -
  let ?s = "sanction_st [] []"
  have o: "overrides ?s = []" by (simp add: sanction_st_def one_booking_st_def sample_st_def)
  obtain ov s' where r: "set_calendar_override monday True (Some 10) (Some 12) ''exam'' office_cx ?s = Inr (ov, s')"
    by (simp add: set_calendar_override_def save_override_def override_error_def smallint_def o Let_def)
  have "distinct (map co_pk (overrides ?s))" by (simp add: o)
  from set_calendar_override_roundtrip [OF this r] r show ?thesis by (auto simp: hour_or_zero_def)
qed

end
