(* ===== verification/Incidents.thy ===== *)
theory Incidents
  imports Maintenance
begin

text \<open>
  \<open>services/incidents.py\<close>: a recorded incident links the bookings of its interval and rooms, cancels
  those that were not used without penalty, and lets staff void the strikes already recorded. The
  loop over the bookings is an interpretation of \<open>row_sweep\<close>. What an incident means to the
  reconciler is stated with \<open>incident_covers\<close> of theory Reconcile.
\<close>

section \<open>Definitions\<close>

text \<open>\<open>ServiceIncident.covers\<close>; a missing room is \<open>None\<close>.\<close>

definition covers :: "service_incident \<Rightarrow> time \<Rightarrow> time \<Rightarrow> nat option \<Rightarrow> bool" where
  "covers i slot_start slot_end room_pk =
    (if slot_end \<le> si_starts_at i \<or> slot_start \<ge> si_ends_at i then False
     else case room_pk of None \<Rightarrow> True | Some r \<Rightarrow> si_rooms i = [] \<or> r \<in> set (si_rooms i))"

definition incident_affects :: "nat list \<Rightarrow> time \<Rightarrow> time \<Rightarrow> booking \<Rightarrow> bool" where
  "incident_affects room_ids starts_at ends_at b = (b_slot_start b < ends_at \<and> b_slot_end b > starts_at
     \<and> b_status b \<in> {PENDING_APPROVAL, SCHEDULED, NO_SHOW} \<and> (room_ids = [] \<or> b_room b \<in> set room_ids))"

text \<open>What the loop writes to a row: the link, and unless the row is a no-show or nothing is to be
  cancelled, the cancellation.\<close>

definition set_joined :: "nat \<Rightarrow> bool \<Rightarrow> time \<Rightarrow> nat option \<Rightarrow> booking \<Rightarrow> booking" where
  "set_joined incident_pk cancel now by_pk b =
    (let b1 = b\<lparr>b_incident := Some incident_pk\<rparr> in
     if b_status b = NO_SHOW then b1
     else if \<not> cancel then b1
     else set_cancelled now by_pk ''SERVICE_INCIDENT'' False b1)"

definition tell_joined :: "bool \<Rightarrow> string \<Rightarrow> booking \<Rightarrow> st \<Rightarrow> st" where
  "tell_joined cancels reason booking s =
    (if b_status booking = NO_SHOW \<or> \<not> cancels then s
     else let room = room_of s (b_room booking) in
       enqueue ''booking_cancelled'' (Some (user_of s (b_user booking))) (''booking_cancelled:'' @ show_nat (b_pk booking))
         [(''booking_id'', PNat (b_pk booking)), (''room_number'', PStr (r_number room)),
          (''room_label'', PStr (room_str room)), (''slot_start'', PStr (isoformat (b_slot_start booking))),
          (''slot_end'', PStr (isoformat (b_slot_end booking))), (''reason'', PStr ''SERVICE_INCIDENT''),
          (''incident_reason'', PStr reason)] s)"

definition join_incident :: "nat \<Rightarrow> bool \<Rightarrow> string \<Rightarrow> ctx \<Rightarrow> booking \<Rightarrow> st \<Rightarrow> exn + st" where
  "join_incident incident_pk cancels reason cx booking s =
     bindE (update_booking (b_pk booking)
         (set_joined incident_pk cancels (ctx_now cx) (actor_pk (ctx_actor cx))) s)
       (\<lambda>s. Inr (tell_joined cancels reason booking s))"

definition new_incident :: "time \<Rightarrow> time \<Rightarrow> room list \<Rightarrow> string \<Rightarrow> ctx \<Rightarrow> nat \<Rightarrow> service_incident" where
  "new_incident starts_at ends_at scope reason cx pk = \<lparr>si_pk = pk, si_starts_at = starts_at, si_ends_at = ends_at,
     si_rooms = remdups (map r_pk scope), si_reason = strip reason, si_created_by = actor_pk (ctx_actor cx)\<rparr>"

definition create_incident :: "time \<Rightarrow> time \<Rightarrow> room list \<Rightarrow> string \<Rightarrow> bool \<Rightarrow> ctx \<Rightarrow> st \<Rightarrow> exn + (dict \<times> st)" where
  "create_incident starts_at ends_at scope reason cancels cx s =
    (if blank reason then Inl (rejected Code_INVALID_INPUT [])
     else if ends_at \<le> starts_at then Inl (rejected Code_INVALID_INPUT [])
     else let incident = new_incident starts_at ends_at scope reason cx (fresh_pk (map si_pk (incidents s)));
              s = s\<lparr>incidents := incidents s @ [incident]\<rparr>;
              affected = order_by_desc b_slot_start
                (filter (incident_affects (si_rooms incident) starts_at ends_at) (bookings s));
              existing_no_shows = length (filter (\<lambda>b. b_status b = NO_SHOW) affected);
              cancelled = (if cancels then length affected - existing_no_shows else 0) in
       bindE (foldE (join_incident (si_pk incident) cancels reason cx) affected s) (\<lambda>s.
         let s = record_audit ''incident.created'' ''ServiceIncident'' (show_nat (si_pk incident)) (ctx_actor cx) ''''
               [(''starts_at'', PIso starts_at), (''ends_at'', PIso ends_at),
                (''rooms'', PList (map PNat (sort (si_rooms incident)))), (''cancelled'', PNat cancelled),
                (''existing_no_shows'', PNat existing_no_shows)] reason s
         in Inr ([(''incident_id'', PNat (si_pk incident)), (''cancelled'', PNat cancelled),
                  (''existing_no_shows'', PNat existing_no_shows)], s)))"

definition set_voided_for :: "nat \<Rightarrow> time \<Rightarrow> nat option \<Rightarrow> string \<Rightarrow> violation \<Rightarrow> violation" where
  "set_voided_for incident_pk now by_pk reason v = (set_voided now by_pk reason v)\<lparr>v_incident := Some incident_pk\<rparr>"

text \<open>\<open>incident.rooms.all()\<close> asks the database for the rooms of the key.\<close>

definition incident_rooms :: "st \<Rightarrow> nat \<Rightarrow> nat list" where
  "incident_rooms s pk = (case get_row si_pk pk (incidents s) of None \<Rightarrow> [] | Some i \<Rightarrow> si_rooms i)"

definition incident_strike :: "service_incident \<Rightarrow> st \<Rightarrow> violation \<Rightarrow> bool" where
  "incident_strike incident s v = (v_kind v = NO_SHOW_KIND \<and> v_voided_at v = None
     \<and> list_ex (\<lambda>b. v_booking v = Some (b_pk b) \<and> b_slot_start b < si_ends_at incident
          \<and> b_slot_end b > si_starts_at incident \<and> b_status b = NO_SHOW
          \<and> (incident_rooms s (si_pk incident) = [] \<or> b_room b \<in> set (incident_rooms s (si_pk incident)))) (bookings s))"

definition unlifted_sanction :: "st \<Rightarrow> violation \<Rightarrow> nat option" where
  "unlifted_sanction s v = (case v_consumed_by v of None \<Rightarrow> None | Some k \<Rightarrow>
     (case get_row sp_pk k (suspensions s) of None \<Rightarrow> None
      | Some sp \<Rightarrow> if sp_lifted_at sp = None then Some k else None))"

definition void_incident_violations :: "service_incident \<Rightarrow> string \<Rightarrow> ctx \<Rightarrow> st \<Rightarrow> exn + (dict \<times> st)" where
  "void_incident_violations incident reason cx s =
    (if blank reason then Inl (rejected Code_INVALID_INPUT [])
     else let rows = order_by_desc v_occurred_at (filter (incident_strike incident s) (violations s));
              suspensions_to_review = sort (remdups (List.map_filter (unlifted_sanction s) rows)) in
       bindE (foldE (\<lambda>violation. update_violation (v_pk violation)
            (set_voided_for (si_pk incident) (ctx_now cx) (actor_pk (ctx_actor cx)) (strip reason))) rows s) (\<lambda>s.
         let s = record_audit ''incident.violations_voided'' ''ServiceIncident'' (show_nat (si_pk incident)) (ctx_actor cx) ''''
               [(''voided'', PNat (length rows)),
                (''suspensions_to_review'', PList (map PNat suspensions_to_review))] reason s
         in Inr ([(''voided'', PNat (length rows)),
                  (''suspensions_to_review'', PList (map PNat suspensions_to_review))], s)))"

definition sanctions_under_review :: "st \<Rightarrow> suspension list" where
  "sanctions_under_review s = order_by_desc sp_starts_at (filter (\<lambda>sp. suspension_active (clock_now s) sp
     \<and> list_ex (\<lambda>v. v_consumed_by v = Some (sp_pk sp) \<and> v_voided_at v \<noteq> None) (violations s)) (suspensions s))"

section \<open>Recording an incident\<close>

lemma set_joined_simps [simp]:
  "b_pk (set_joined k c t p b) = b_pk b" "b_room (set_joined k c t p b) = b_room b"
  "b_slot_start (set_joined k c t p b) = b_slot_start b" "b_slot_end (set_joined k c t p b) = b_slot_end b"
  "b_user (set_joined k c t p b) = b_user b"
  by (simp_all add: set_joined_def set_cancelled_def Let_def)

lemma set_joined_round:
  assumes "b_status b \<in> {PENDING_APPROVAL, SCHEDULED, NO_SHOW}" "booking_check_error b = None"
  shows "row_evolves b (set_joined k c t p b)" "booking_check_error (set_joined k c t p b) = None"
proof -
  let ?b1 = "b\<lparr>b_incident := Some k\<rparr>"
  have b1: "row_evolves b ?b1" "booking_check_error ?b1 = None"
    using assms(2) by (auto simp: same_identity_def booking_check_None intro: row_evolves_step)
  show "row_evolves b (set_joined k c t p b)"
    using assms(1) b1(1) set_cancelled_evolves [of ?b1] row_evolves_trans [OF b1(1)]
    by (auto simp: set_joined_def Let_def)
  show "booking_check_error (set_joined k c t p b) = None"
    using b1(2) set_cancelled_check [OF b1(2)] by (simp add: set_joined_def Let_def)
qed

interpretation join: row_sweep "join_incident k c reason cx" "set_joined k c (ctx_now cx) (actor_pk (ctx_actor cx))"
  "\<lambda>b. b_status b \<in> {PENDING_APPROVAL, SCHEDULED, NO_SHOW}" "\<lambda>_. True" plain "\<lambda>_ _. True" for k c reason cx
  by (rule plain_sweep [where log = "tell_joined c reason"])
    (auto simp: join_incident_def tell_joined_def Let_def intro: set_joined_round)

lemma incident_run:
  assumes s: "installed s" and nb: "\<not> blank reason" and t: "starts_at < ends_at"
  shows "\<exists>d s' pk. create_incident starts_at ends_at rs reason cancel cx s = Inr (d, s')
    \<and> incidents s' = incidents s @ [new_incident starts_at ends_at rs reason cx pk]
    \<and> bookings s' = map (\<lambda>b. if incident_affects (map r_pk rs) starts_at ends_at b
         then set_joined pk cancel (ctx_now cx) (actor_pk (ctx_actor cx)) b else b) (bookings s)
    \<and> installed s' \<and> advances s s'"
proof -
  let ?pk = "fresh_pk (map si_pk (incidents s))"
  let ?i = "new_incident starts_at ends_at rs reason cx ?pk"
  let ?s0 = "s\<lparr>incidents := incidents s @ [?i]\<rparr>"
  let ?P = "incident_affects (si_rooms ?i) starts_at ends_at"
  let ?rows = "order_by_desc b_slot_start (filter ?P (bookings s))"
  have P: "?P = incident_affects (map r_pk rs) starts_at ends_at"
    by (auto simp: incident_affects_def new_incident_def fun_eq_iff)
  have a: "aside s ?s0" by (simp add: aside_def)
  have wf: "well_formed ?s0" using installedD(3) [OF s] aside_well_formed [OF a] by simp
  have rows: "distinct ?rows" "set ?rows = {b \<in> set (bookings ?s0). ?P b}"
    using distinct_bookings [OF wf] by auto
  have due: "b_status b \<in> {PENDING_APPROVAL, SCHEDULED, NO_SHOW}" if "?P b" for b
    using that by (simp add: incident_affects_def)
  from join.sweep_all [OF wf TrueI rows, of ?pk cancel reason cx] due obtain s1 where
    r: "foldE (join_incident ?pk cancel reason cx) ?rows ?s0 = Inr s1"
      "bookings s1 = map (\<lambda>b. if ?P b then set_joined ?pk cancel (ctx_now cx) (actor_pk (ctx_actor cx)) b else b) (bookings s)"
      "well_formed s1" "evolves ?s0 s1" "plain ?s0 s1" by auto
  obtain d s' where run: "create_incident starts_at ends_at rs reason cancel cx s = Inr (d, s')" and l: "logs s1 s'"
  proof -
    have "si_pk ?i = ?pk" by (simp add: new_incident_def)
    with nb t r(1) that show thesis by (simp add: create_incident_def Let_def)
  qed
  have "installed s' \<and> advances s s'"
  proof (rule aside_plain [OF s a])
    show "well_formed s'" by (rule logs_well_formed [OF l r(3)])
    show "evolves ?s0 s'" using r(4) by (simp add: logs_evolves [OF l])
    show "plain ?s0 s'" by (rule plain_trans [OF r(5) plain_logs [OF l]])
  qed
  moreover have "incidents s' = incidents s @ [?i]" "bookings s' = bookings s1"
    using r(5) logs_frame [OF l] by (simp_all add: plain_def quiet_def)
  ultimately show ?thesis using run r(2) P by auto
qed

section \<open>Voiding the strikes of an incident\<close>

lemma update_violations_run:
  assumes "sanctions_ok s" "distinct (map v_pk rows)"
    and "\<And>v. v \<in> set rows \<Longrightarrow> get_row v_pk (v_pk v) (violations s) = Some v \<and> violation_check_error (f v) = None"
    and f: "\<And>v. v_pk (f v) = v_pk v" "\<And>v. v_kind (f v) = v_kind v" "\<And>v. v_booking (f v) = v_booking v"
  shows "foldE (\<lambda>v. update_violation (v_pk v) f) rows s
      = Inr (s\<lparr>violations := map (\<lambda>v. if v_pk v \<in> v_pk ` set rows then f v else v) (violations s)\<rparr>)
    \<and> sanctions_ok (s\<lparr>violations := map (\<lambda>v. if v_pk v \<in> v_pk ` set rows then f v else v) (violations s)\<rparr>)"
  using assms(1-3)
proof (induction rows arbitrary: s)
  case Nil
  then show ?case by simp
next
  case (Cons r rows)
  have r: "get_row v_pk (v_pk r) (violations s) = Some r" "violation_check_error (f r) = None"
    using Cons.prems(3) [of r] by simp_all
  have rm: "r \<in> set (violations s)" using r(1) by (auto dest: get_row_Some)
  have "\<not> same_no_show (f r) w" if "w \<in> set (violations s)" "v_pk w \<noteq> v_pk r" for w
    using sanctions_okD(5) [OF Cons.prems(1) rm that(1)] that(2) by (auto simp: same_no_show_def f)
  then have "violation_error (filter (\<lambda>x. v_pk x \<noteq> v_pk r) (violations s)) (f r) = None"
    using r(2) by (simp add: violation_error_None)
  with r(1) have u: "update_violation (v_pk r) f s = Inr (s\<lparr>violations := update_row v_pk (v_pk r) f (violations s)\<rparr>)"
    (is "_ = Inr ?s1") by (simp add: update_violation_def)
  have ok: "sanctions_ok ?s1" by (rule update_violation_ok [OF Cons.prems(1) u f(1)])
  have rows: "get_row v_pk (v_pk v) (violations ?s1) = Some v \<and> violation_check_error (f v) = None" if "v \<in> set rows" for v
  proof -
    have "v_pk v \<in> v_pk ` set rows" using that by simp
    moreover have "v_pk r \<notin> v_pk ` set rows" using Cons.prems(2) by simp
    ultimately have "v_pk v \<noteq> v_pk r" by metis
    with Cons.prems(3) [of v] that show ?thesis by (simp add: get_row_update_row f)
  qed
  from Cons.IH [OF ok _ rows] Cons.prems(2) have
    t: "foldE (\<lambda>v. update_violation (v_pk v) f) rows ?s1
      = Inr (?s1\<lparr>violations := map (\<lambda>v. if v_pk v \<in> v_pk ` set rows then f v else v) (violations ?s1)\<rparr>)"
      "sanctions_ok (?s1\<lparr>violations := map (\<lambda>v. if v_pk v \<in> v_pk ` set rows then f v else v) (violations ?s1)\<rparr>)" by auto
  have "map (\<lambda>v. if v_pk v \<in> v_pk ` set rows then f v else v) (violations ?s1)
      = map (\<lambda>v. if v_pk v \<in> v_pk ` set (r # rows) then f v else v) (violations s)"
    using Cons.prems(2) by (auto simp: update_row_def f)
  with t u show ?case by simp
qed

lemma set_voided_for_simps [simp]:
  "v_pk (set_voided_for k t p r v) = v_pk v" "v_kind (set_voided_for k t p r v) = v_kind v"
  "v_booking (set_voided_for k t p r v) = v_booking v" "v_voided_at (set_voided_for k t p r v) = Some t"
  by (simp_all add: set_voided_for_def set_voided_def)

lemma set_voided_for_check:
  "violation_check_error v = None \<Longrightarrow> violation_check_error (set_voided_for k t p r v) = None"
  by (auto simp: violation_check_error_def set_voided_for_def set_voided_def split: if_splits)

lemma void_incident_run:
  assumes s: "installed s" and nb: "\<not> blank reason"
  shows "\<exists>d s'. void_incident_violations incident reason cx s = Inr (d, s')
    \<and> violations s' = map (\<lambda>v. if incident_strike incident s v
         then set_voided_for (si_pk incident) (ctx_now cx) (actor_pk (ctx_actor cx)) (strip reason) v else v) (violations s)
    \<and> bookings s' = bookings s \<and> suspensions s' = suspensions s \<and> incidents s' = incidents s
    \<and> installed s' \<and> advances s s'"
proof -
  let ?f = "set_voided_for (si_pk incident) (ctx_now cx) (actor_pk (ctx_actor cx)) (strip reason)"
  let ?rows = "order_by_desc v_occurred_at (filter (incident_strike incident s) (violations s))"
  note ok = soundD(2) [OF installedD(1) [OF s]]
  note d = sanctions_okD(1) [OF ok]
  have "distinct ?rows" "set ?rows \<subseteq> set (violations s)" using d by (auto simp: distinct_map)
  then have dist: "distinct (map v_pk ?rows)" using d unfolding distinct_map by (auto intro: inj_on_subset)
  have rows: "get_row v_pk (v_pk v) (violations s) = Some v \<and> violation_check_error (?f v) = None" if "v \<in> set ?rows" for v
    using that get_row_unique [OF d] set_voided_for_check [OF sanctions_okD(3) [OF ok]] by auto
  have keys: "v_pk v \<in> v_pk ` set ?rows \<longleftrightarrow> incident_strike incident s v" if "v \<in> set (violations s)" for v
    using inj_on_image_mem_iff [of v_pk "set (violations s)" v "set ?rows"] d that by (simp add: distinct_map)
  let ?vs = "map (\<lambda>v. if v_pk v \<in> v_pk ` set ?rows then ?f v else v) (violations s)"
  let ?s1 = "s\<lparr>violations := ?vs\<rparr>"
  have run1: "foldE (\<lambda>v. update_violation (v_pk v) ?f) ?rows s = Inr ?s1" and ok1: "sanctions_ok ?s1"
    using update_violations_run [OF ok dist rows] by simp_all
  have vs: "?vs = map (\<lambda>v. if incident_strike incident s v then ?f v else v) (violations s)"
    using keys by (intro map_cong) auto
  obtain d s' where run: "void_incident_violations incident reason cx s = Inr (d, s')" and l: "logs ?s1 s'"
    using nb run1 by (simp add: void_incident_violations_def Let_def)
  have "installed s' \<and> advances s s'"
  proof (rule sanction_write [OF s _ _ _ ok1 l])
    show "quiet s ?s1" "bookings ?s1 = bookings s" "notifications ?s1 = notifications s" by (simp_all add: quiet_def)
    fix v assume "v \<in> set (violations ?s1)" "v_kind v = NO_SHOW_KIND"
    then show "\<exists>w \<in> set (violations s). v_kind w = NO_SHOW_KIND \<and> v_booking w = v_booking v"
      by (auto split: if_splits)
  qed
  then show ?thesis using run logs_frame [OF l] vs by simp
qed

interpretation incident_service: service_body "create_incident starts_at ends_at scope reason cancels"
  for starts_at ends_at scope reason cancels
proof (rule service_body_advances)
  fix s cx d s' assume s: "installed s" and run: "create_incident starts_at ends_at scope reason cancels cx s = Inr (d, s')"
  then have "\<not> blank reason" "starts_at < ends_at" by (auto simp: create_incident_def split: if_splits)
  from incident_run [OF s this, of scope cancels cx] run show "installed s' \<and> advances s s'" by auto
qed

interpretation void_incident_service: service_body "void_incident_violations incident reason" for incident reason
proof (rule service_body_advances)
  fix s cx d s' assume s: "installed s" and run: "void_incident_violations incident reason cx s = Inr (d, s')"
  then have "\<not> blank reason" by (auto simp: void_incident_violations_def split: if_splits)
  from void_incident_run [OF s this, of incident cx] run show "installed s' \<and> advances s s'" by auto
qed

section \<open>Properties\<close>

text \<open>An incident protects. Recording it links every booking of its interval and rooms that was waiting,
  scheduled or already forfeited; with cancelling chosen the first two are cancelled without a late
  mark. From then on the reconciler forfeits no booking of that interval and those rooms, at any time.\<close>

theorem create_incident_effect:
  assumes "installed s" "\<not> blank reason" "starts_at < ends_at"
  shows "\<exists>d s' pk. create_incident starts_at ends_at scope reason cancels cx s = Inr (d, s') \<and> installed s'
    \<and> bookings s' = map (\<lambda>b. if \<not> incident_affects (map r_pk scope) starts_at ends_at b then b
         else if b_status b = NO_SHOW \<or> \<not> cancels then b\<lparr>b_incident := Some pk\<rparr>
         else set_cancelled (ctx_now cx) (actor_pk (ctx_actor cx)) ''SERVICE_INCIDENT'' False (b\<lparr>b_incident := Some pk\<rparr>))
         (bookings s)
    \<and> (\<forall>b now. b_slot_start b < ends_at \<and> starts_at < b_slot_end b \<and> (scope = [] \<or> b_room b \<in> r_pk ` set scope)
         \<longrightarrow> \<not> forfeited now s' b)"
proof -
  from incident_run [OF assms, of scope cancels cx] obtain d s' pk where
    r: "create_incident starts_at ends_at scope reason cancels cx s = Inr (d, s')" "installed s'"
      "incidents s' = incidents s @ [new_incident starts_at ends_at scope reason cx pk]"
      "bookings s' = map (\<lambda>b. if incident_affects (map r_pk scope) starts_at ends_at b
         then set_joined pk cancels (ctx_now cx) (actor_pk (ctx_actor cx)) b else b) (bookings s)" by blast
  have "\<not> forfeited now s' b"
    if "b_slot_start b < ends_at" "starts_at < b_slot_end b" "scope = [] \<or> b_room b \<in> r_pk ` set scope" for b now
  proof -
    have "incident_covers s' b" using that by (auto simp: incident_covers_def r(3) new_incident_def)
    then show ?thesis by (simp add: forfeited_def)
  qed
  then show ?thesis using r(1,2,4)
    by (intro exI [of _ d] exI [of _ s'] exI [of _ pk]) (auto simp: set_joined_def Let_def)
qed

text \<open>Voiding is complete and no more. After staff void the strikes of an incident none of its no-shows
  counts any more, every other violation is as before, no sanction is lifted and no attendance is
  changed; the strikes keep the sanction they were spent on.\<close>

theorem void_incident_effect:
  assumes "installed s" "\<not> blank reason"
  shows "\<exists>d s'. void_incident_violations incident reason cx s = Inr (d, s') \<and> installed s'
    \<and> violations s' = map (\<lambda>v. if incident_strike incident s v
         then set_voided_for (si_pk incident) (ctx_now cx) (actor_pk (ctx_actor cx)) (strip reason) v else v) (violations s)
    \<and> list_all (\<lambda>v. \<not> incident_strike incident s' v) (violations s')
    \<and> map v_consumed_by (violations s') = map v_consumed_by (violations s)
    \<and> bookings s' = bookings s \<and> suspensions s' = suspensions s"
proof -
  from void_incident_run [OF assms, of incident cx] obtain d s' where
    r: "void_incident_violations incident reason cx s = Inr (d, s')" "installed s'" "bookings s' = bookings s"
      "suspensions s' = suspensions s" "incidents s' = incidents s"
    and v: "violations s' = map (\<lambda>v. if incident_strike incident s v
         then set_voided_for (si_pk incident) (ctx_now cx) (actor_pk (ctx_actor cx)) (strip reason) v else v) (violations s)"
    by blast
  have same: "incident_strike incident s' w = incident_strike incident s w" for w
    by (simp add: incident_strike_def incident_rooms_def r(3,5))
  have "list_all (\<lambda>v. \<not> incident_strike incident s' v) (violations s')"
    by (auto simp: list_all_iff same v) (simp add: incident_strike_def)
  moreover have "map v_consumed_by (violations s') = map v_consumed_by (violations s)"
    by (simp add: v set_voided_for_def set_voided_def)
  ultimately show ?thesis using r v by blast
qed

text \<open>C24: An excused hour is never settled. A reservation whose deadline has passed inside an incident that
  did not cancel it is left as it was by every reconciliation, unless a suspension cancels it; it stays
  due from then on, so it keeps its place in the budget of each later run.\<close>

theorem excused_hour_stays:
  assumes "installed s" "b \<in> set (bookings s)" "no_show_due now b" "incident_covers s b"
    and "reconcile now actor None s = Inr (d, s')" "now \<le> later"
  shows "(b \<in> set (bookings s') \<or> cancelled_by_sanction now actor b \<in> set (bookings s')) \<and> no_show_due later b"
proof -
  have "settle now s b = b"
    using assms(3,4) by (auto simp: settle_def forfeited_def no_show_due_def approval_expired_def hold_starts_def session_over_def)
  then have mem: "b \<in> set (map (settle now s) (bookings s))" using assms(2) by force
  from reconcile_keeps [OF assms(1,5)] obtain U where
    "bookings s' = cancel_users now actor U (map (settle now s) (bookings s))" by (auto simp: reconciled_def)
  with mem have "b \<in> set (bookings s') \<or> cancelled_by_sanction now actor b \<in> set (bookings s')"
    unfolding cancel_users_def set_map [of "\<lambda>b. if b_user b \<in> U \<and> unstarted b then cancelled_by_sanction now actor b else b"]
    by (auto simp: image_iff)
  moreover have "no_show_due later b" using assms(3,6) lte_null_mono by (auto simp: no_show_due_def)
  ultimately show ?thesis by blast
qed

section \<open>A sample incident\<close>

lemma flood_reason: "\<not> blank ''flood''"
  by (simp add: blank_def strip_def py_space_def)

theorem create_incident_effect_witness:
  "\<exists>d s'. create_incident (at 9 0) (at 12 0) [room_a] ''flood'' True office_cx (sanction_st [] []) = Inr (d, s')
    \<and> map b_status (bookings s') = [CANCELLED] \<and> \<not> forfeited (at 11 0) s' (sample_booking 1 1 1 10 SCHEDULED)"
proof -
  let ?s = "sanction_st [] []" and ?b = "sample_booking 1 1 1 10 SCHEDULED"
  have i: "installed ?s" by (rule sanction_st_installed) simp_all
  have t: "at 9 0 < at 12 0" by (simp add: at_def us_defs slot_start_for_def)
  have b: "b_slot_start ?b < at 12 0" "at 9 0 < b_slot_end ?b" "b_room ?b \<in> r_pk ` set [room_a]" "b_status ?b = SCHEDULED"
    by (simp_all add: sample_booking_def room_a_def sample_room_def blank_room_def at_def us_defs slot_start_for_def)
  from create_incident_effect [OF i flood_reason t, of "[room_a]" True office_cx] obtain d s' pk where
    r: "create_incident (at 9 0) (at 12 0) [room_a] ''flood'' True office_cx ?s = Inr (d, s')"
    and bk: "bookings s' = map (\<lambda>b. if \<not> incident_affects (map r_pk [room_a]) (at 9 0) (at 12 0) b then b
         else if b_status b = NO_SHOW \<or> \<not> True then b\<lparr>b_incident := Some pk\<rparr>
         else set_cancelled (ctx_now office_cx) (actor_pk (ctx_actor office_cx)) ''SERVICE_INCIDENT'' False
           (b\<lparr>b_incident := Some pk\<rparr>)) (bookings ?s)"
    and f: "\<And>b now. b_slot_start b < at 12 0 \<and> at 9 0 < b_slot_end b \<and> ([room_a] = [] \<or> b_room b \<in> r_pk ` set [room_a])
         \<Longrightarrow> \<not> forfeited now s' b" by blast
  have "incident_affects (map r_pk [room_a]) (at 9 0) (at 12 0) ?b" using b by (simp add: incident_affects_def)
  with b(4) have "map b_status (bookings s') = [CANCELLED]" by (simp add: bk)
  moreover have "\<not> forfeited (at 11 0) s' ?b" using b(1-3) by (intro f) simp
  ultimately show ?thesis using r by (intro exI [of _ d] exI [of _ s'] conjI)
qed

text \<open>Alice forfeited ten o'clock and got a strike; the flood is recorded afterwards.\<close>

definition flood :: service_incident where
  "flood = \<lparr>si_pk = 1, si_starts_at = at 9 0, si_ends_at = at 12 0, si_rooms = [], si_reason = ''flood'', si_created_by = None\<rparr>"

definition flood_strike :: violation where
  "flood_strike = \<lparr>v_pk = 1, v_user = 1, v_booking = Some 1, v_kind = NO_SHOW_KIND, v_occurred_at = at 10 15,
     v_expires_at = at 10 15 + 30 * us_day, v_counts_as_strike = True, v_actor = None, v_note = '''', v_voided_at = None,
     v_voided_by = None, v_void_reason = '''', v_consumed_by = None, v_incident = None\<rparr>"

definition flood_st :: st where
  "flood_st = (one_booking_st (at 12 0) NO_SHOW)\<lparr>incidents := [flood], violations := [flood_strike]\<rparr>"

lemma flood_st_frame [simp]: "violations flood_st = [flood_strike]" "suspensions flood_st = []"
  "bookings flood_st = [sample_booking 1 1 1 10 NO_SHOW]" "incidents flood_st = [flood]" "policies flood_st = []"
  "conf flood_st = default_settings"
  by (simp_all add: flood_st_def one_booking_st_def sample_st_def)

lemma flood_installed: "installed flood_st"
proof -
  have "well_formed flood_st"
    unfolding flood_st_def
    by (rule iffD2 [OF well_formed_cong one_booking_well_formed [of NO_SHOW "at 12 0"]]) simp_all
  moreover have "policy_sane flood_st"
    by (simp add: policy_sane_def current_policy_def latest_policy_def initial_policy_def order_by_desc_def
        strike_window_days_def auto_suspension_days_def snapshot_int_def snapshot_from_settings_def default_settings_def)
  moreover have "sanctions_ok flood_st"
    by (simp add: sanctions_ok_def violation_check_error_def flood_strike_def us_defs)
  moreover have "forfeits flood_st" by (simp add: forfeits_def flood_strike_def sample_booking_def)
  ultimately show ?thesis by (simp add: installed_def sound_def)
qed

theorem void_incident_effect_witness:
  "\<exists>d s'. void_incident_violations flood ''flood'' office_cx flood_st = Inr (d, s')
    \<and> map v_voided_at (violations s') = [Some (at 9 0)]"
proof -
  from void_incident_effect [OF flood_installed flood_reason, of flood office_cx] obtain d s' where
    r: "void_incident_violations flood ''flood'' office_cx flood_st = Inr (d, s')"
    and v: "violations s' = map (\<lambda>v. if incident_strike flood flood_st v
         then set_voided_for (si_pk flood) (ctx_now office_cx) (actor_pk (ctx_actor office_cx)) (strip ''flood'') v else v)
         (violations flood_st)" by blast
  have "incident_strike flood flood_st flood_strike"
    by (simp add: incident_strike_def incident_rooms_def get_row_def flood_def flood_strike_def sample_booking_def
        at_def us_defs slot_start_for_def)
  then have "map v_voided_at (violations s') = [Some (at 9 0)]" by (simp add: v office_cx_def)
  then show ?thesis using r by (intro exI [of _ d] exI [of _ s'] conjI)
qed

theorem excused_hour_stays_witness:
  "\<exists>d s'. reconcile (at 11 0) None None (missed_st\<lparr>incidents := [flood]\<rparr>) = Inr (d, s')
    \<and> no_show_due (at 12 0) (sample_booking 1 1 1 10 SCHEDULED)"
proof -
  let ?s = "missed_st\<lparr>incidents := [flood]\<rparr>" and ?b = "sample_booking 1 1 1 10 SCHEDULED"
  have "installed missed_st" using missed_st_facts(1,2) by (simp add: installed_def)
  then have i: "installed ?s" using installed_same [of ?s missed_st] by (simp add: keys_unique_def)
  have "within_budget (at 11 0) (budget_of ?s None) ?s" using missed_st_facts(3) by (simp add: within_budget_def budget_of_def)
  from reconcile_run [OF installedD(1,2) [OF i] this, of None] obtain d s' where
    r: "reconcile (at 11 0) None None ?s = Inr (d, s')" by blast
  have m: "?b \<in> set (bookings ?s)" using missed_st_facts(4) by simp
  have due: "no_show_due (at 11 0) ?b" using missed_st_facts(5) by (simp add: forfeited_def)
  have "incident_covers ?s ?b"
    by (simp add: incident_covers_def flood_def sample_booking_def at_def us_defs slot_start_for_def)
  from excused_hour_stays [OF i m due this r, of "at 12 0"] r show ?thesis
    by (auto simp: at_def us_defs slot_start_for_def)
qed

end
