(* ===== verification/Accounts.thy ===== *)
theory Accounts
  imports Incidents
begin

text \<open>
  The accounts of \<open>services/identity.py\<close>: who may register, when an account is approved without staff,
  and what staff decide about one. Django's validators of user names is a parameter. A service that gets a
  \<open>User\<close> instance gets a copy of the row, as the room of a reservation is one; it writes the named
  columns of the row with that key.
\<close>

section \<open>Addresses\<close>

definition normalize_email :: "string \<Rightarrow> string" where
  "normalize_email email = lower (strip email)"

text \<open>Normalising an address twice is normalising it once: no character becomes or stops being a space.\<close>

lemma py_space_lower_char [simp]: "py_space (lower_char c) = py_space c"
  by (cases "of_char c < (256 :: nat)") (auto simp: py_space_def lower_char_def Let_def)

lemma strip_lower: "strip (lower s) = lower (strip s)"
  by (simp add: strip_def lower_def rev_map dropWhile_map o_def)

lemma normalize_email_twice [simp]: "normalize_email (normalize_email e) = normalize_email e"
  by (simp add: normalize_email_def strip_lower)

lemma lower_normalize_email [simp]: "lower (normalize_email e) = normalize_email e"
  by (simp add: normalize_email_def)

text \<open>\<open>rpartition("@")[2]\<close>: what follows the last at sign, all of the text when there is none.\<close>

definition email_domain :: "string \<Rightarrow> string" where
  "email_domain email = rev (takeWhile (\<lambda>c. c \<noteq> CHR ''@'') (rev (normalize_email email)))"

definition institution_domain :: "st \<Rightarrow> string" where
  "institution_domain s = or_text (case map_of (pv_snapshot (current_policy s)) ''institution_email_domain'' of
     Some (PStr d) \<Rightarrow> d | _ \<Rightarrow> '''') (INSTITUTION_EMAIL_DOMAIN (conf s))"

text \<open>The first policy version, which the code would write here if there is none, is read as \<open>current_policy\<close> and not written.\<close>

definition email_domain_allowed :: "string \<Rightarrow> st \<Rightarrow> bool" where
  "email_domain_allowed email s = (email_domain email = lower (institution_domain s))"

text \<open>\<open>iexact\<close>.\<close>

definition same_text :: "string \<Rightarrow> string \<Rightarrow> bool" where
  "same_text a b = (lower a = lower b)"

definition roster_claims_id :: "string \<Rightarrow> st \<Rightarrow> bool" where
  "roster_claims_id institutional_id s =
     list_ex (\<lambda>r. es_institutional_id r = strip institutional_id \<and> es_is_active r) (roster s)"

definition room_list_vouches_for :: "string \<Rightarrow> st \<Rightarrow> bool" where
  "room_list_vouches_for email s = list_ex (\<lambda>m. rm_email m = normalize_email email
     \<and> r_members_only (room_of s (rm_room m)) \<and> r_is_active (room_of s (rm_room m))) (room_members s)"

definition registration_email_allowed :: "string \<Rightarrow> string \<Rightarrow> st \<Rightarrow> bool" where
  "registration_email_allowed institutional_id email s =
    (if email_domain_allowed email s then True
     else if list_ex (\<lambda>r. es_institutional_id r = strip institutional_id
       \<and> same_text (es_email r) (normalize_email email) \<and> es_is_active r) (roster s) then True
     else room_list_vouches_for email s \<and> \<not> roster_claims_id institutional_id s)"

section \<open>Approval without staff\<close>

definition ROSTER_MATCH_REASON :: string where
  "ROSTER_MATCH_REASON = ''Automatic match against the active department roster.''"

text \<open>\<open>save(update_fields=...)\<close> of a row that is gone raises.\<close>

definition save_user :: "nat \<Rightarrow> (user \<Rightarrow> user) \<Rightarrow> st \<Rightarrow> exn + st" where
  "save_user pk f s = (if pk \<in> u_pk ` set (users s) then Inr (s\<lparr>users := update_row u_pk pk f (users s)\<rparr>)
     else Inl DatabaseError)"

definition eligibility_value :: "eligibility \<Rightarrow> string" where
  "eligibility_value e = (case e of PENDING \<Rightarrow> ''PENDING'' | APPROVED \<Rightarrow> ''APPROVED'' | NOT_APPROVED \<Rightarrow> ''REJECTED'')"

definition set_eligibility :: "eligibility \<Rightarrow> time \<Rightarrow> string \<Rightarrow> user \<Rightarrow> user" where
  "set_eligibility e now reason u = u\<lparr>u_eligibility := e, u_eligibility_decided_at := Some now, u_eligibility_reason := reason\<rparr>"

definition decision_key :: "nat \<Rightarrow> time \<Rightarrow> string" where
  "decision_key pk now = ''eligibility_decision:'' @ show_nat pk @ '':'' @ isoformat now"

definition auto_approve :: "user \<Rightarrow> string \<Rightarrow> string \<Rightarrow> st \<Rightarrow> exn + (eligibility \<times> st)" where
  "auto_approve user reason label s =
    (let now = clock_now s; write = set_eligibility APPROVED now reason in
     bindE (save_user (u_pk user) write s) (\<lambda>s.
       let s = record_audit ''eligibility.approved'' ''User'' (show_nat (u_pk user)) None label
             [(''eligibility'', PStr ''APPROVED'')] reason s;
           s = enqueue ''eligibility_decision'' (Some (write user)) (decision_key (u_pk user) now)
             [(''decision'', PStr ''APPROVED''), (''reason'', PStr reason)] s
       in Inr (APPROVED, s)))"

definition roster_match :: "user \<Rightarrow> st \<Rightarrow> eligible_student option" where
  "roster_match user s = first_row (order_by es_institutional_id (filter
     (\<lambda>r. es_institutional_id r = u_username user \<and> same_text (es_email r) (u_email user) \<and> es_is_active r) (roster s)))"

definition link_account :: "nat \<Rightarrow> nat \<Rightarrow> st \<Rightarrow> st" where
  "link_account entry_pk user_pk s = s\<lparr>roster := update_row es_pk entry_pk
     (\<lambda>r. r\<lparr>es_account := Some user_pk, es_updated_at := wall_now s\<rparr>) (roster s)\<rparr>"

definition apply_roster_eligibility :: "user \<Rightarrow> st \<Rightarrow> exn + (eligibility \<times> st)" where
  "apply_roster_eligibility user s =
    (case roster_match user s of
       Some entry \<Rightarrow>
         let s = (if es_account entry = None then link_account (es_pk entry) (u_pk user) s else s)
         in auto_approve user ROSTER_MATCH_REASON ''roster-match'' s
     | None \<Rightarrow>
         if u_eligibility user = PENDING \<and> email_is_verified user \<and> room_list_vouches_for (u_email user) s
           \<and> \<not> roster_claims_id (u_username user) s
         then auto_approve user ROOM_LIST_REASON ''room-list-match'' s
         else Inr (u_eligibility user, s))"

text \<open>The candidates are read before the loop; each is checked against the lists when its turn comes.\<close>

definition approve_listed :: "user \<Rightarrow> nat \<times> st \<Rightarrow> exn + (nat \<times> st)" where
  "approve_listed user acc = (let (approved, s) = acc in
     if room_list_vouches_for (u_email user) s \<and> \<not> roster_claims_id (u_username user) s
     then bindE (auto_approve user ROOM_LIST_REASON ''room-list-match'' s) (\<lambda>(_, s). Inr (approved + 1, s))
     else Inr (approved, s))"

definition listed_candidate :: "string list \<Rightarrow> user \<Rightarrow> bool" where
  "listed_candidate wanted u = (u_eligibility u = PENDING \<and> u_is_active u \<and> u_email_verified_at u \<noteq> None
     \<and> lower (u_email u) \<in> set wanted)"

definition approve_room_listed_accounts :: "string list \<Rightarrow> st \<Rightarrow> exn + (nat \<times> st)" where
  "approve_room_listed_accounts emails s =
     foldE approve_listed (filter (listed_candidate (map normalize_email emails)) (users s)) (0, s)"

section \<open>Staff decisions\<close>

definition decision_of :: "string \<Rightarrow> eligibility option" where
  "decision_of v = List.find (\<lambda>e. eligibility_value e = v) [APPROVED, NOT_APPROVED]"

definition decide_eligibility :: "user \<Rightarrow> string \<Rightarrow> string \<Rightarrow> actor \<Rightarrow> st \<Rightarrow> exn + (user \<times> st)" where
  "decide_eligibility user decision reason actor s =
    (case decision_of decision of
       None \<Rightarrow> Inl (rejected Code_INVALID_INPUT [])
     | Some e \<Rightarrow>
       if blank reason then Inl (rejected Code_INVALID_INPUT [])
       else let now = clock_now s;
                write = (\<lambda>u. (set_eligibility e now (strip reason) u)\<lparr>u_eligibility_decided_by := actor_pk actor\<rparr>) in
         bindE (save_user (u_pk user) write s) (\<lambda>s.
           let s = record_audit (''eligibility.'' @ lower decision) ''User'' (show_nat (u_pk user)) actor ''''
                 [(''eligibility'', PStr decision)] reason s;
               s = enqueue ''eligibility_decision'' (Some (write user)) (decision_key (u_pk user) now)
                 [(''decision'', PStr decision), (''reason'', PStr reason)] s
           in Inr (write user, s)))"

text \<open>What a student may declare: every category but \<open>UNKNOWN\<close>.\<close>

definition declarable :: "string \<Rightarrow> category option" where
  "declarable v = (case category_of v of Some c \<Rightarrow> if c = UNKNOWN then None else Some c | None \<Rightarrow> None)"

definition category_text :: "category option \<Rightarrow> string" where
  "category_text c = (case c of None \<Rightarrow> '''' | Some c \<Rightarrow> category_value c)"

definition set_declared_category :: "user \<Rightarrow> string \<Rightarrow> actor \<Rightarrow> st \<Rightarrow> exn + (user \<times> st)" where
  "set_declared_category user declared actor s =
    (let declared = strip declared in
     if declared \<noteq> '''' \<and> declarable declared = None then Inl (rejected Code_INVALID_INPUT [])
     else let before = u_declared_category user;
              write = (\<lambda>u. u\<lparr>u_declared_category := declarable declared, u_declared_category_confirmed := (declared \<noteq> '''')\<rparr>) in
       bindE (save_user (u_pk user) write s) (\<lambda>s.
         Inr (write user, record_audit ''user.declared_category_set'' ''User'' (show_nat (u_pk user)) actor ''''
           [(''before'', PStr (category_text before)), (''after'', PStr declared)] '''' s)))"

definition correct_institutional_id :: "(string \<Rightarrow> bool) \<Rightarrow> user \<Rightarrow> string \<Rightarrow> string \<Rightarrow> actor \<Rightarrow> st \<Rightarrow> exn + (user \<times> st)" where
  "correct_institutional_id username_ok user institutional_id reason actor s =
    (let institutional_id = strip institutional_id; reason = strip reason in
     if institutional_id = '''' \<or> reason = '''' \<or> length institutional_id > 64 then Inl (rejected Code_INVALID_INPUT [])
     else if institutional_id = u_username user \<or> list_ex py_space institutional_id then Inl (rejected Code_INVALID_INPUT [])
     else if \<not> username_ok institutional_id then Inl (rejected Code_INVALID_INPUT [])
     else if u_is_superuser user \<or> u_is_operational_staff user \<or> u_is_teacher user then Inl (rejected Code_INVALID_INPUT [])
     else if list_ex (\<lambda>r. es_account r = Some (u_pk user)) (roster s) then Inl (rejected Code_INVALID_INPUT [])
     else if list_ex (\<lambda>r. es_institutional_id r = institutional_id \<and> es_is_active r
         \<and> \<not> same_text (es_email r) (u_email user)) (roster s) then Inl (rejected Code_DUPLICATE_ACCOUNT [])
     else if list_ex (\<lambda>u. u_username u = institutional_id \<and> u_pk u \<noteq> u_pk user) (users s)
     then Inl (rejected Code_DUPLICATE_ACCOUNT [])
     else let before = u_username user; write = (\<lambda>u. u\<lparr>u_username := institutional_id\<rparr>) in
       bindE (save_user (u_pk user) write s) (\<lambda>s.
         Inr (write user, record_audit ''user.institutional_id_corrected'' ''User'' (show_nat (u_pk user)) actor ''''
           [(''before'', PStr before), (''after'', PStr institutional_id)] reason s)))"

text \<open>The bodies the staff views run.\<close>

definition decide_eligibility_body :: "user \<Rightarrow> string \<Rightarrow> string \<Rightarrow> ctx \<Rightarrow> st \<Rightarrow> exn + (dict \<times> st)" where
  "decide_eligibility_body user decision reason =
     success_pk ''user_id'' u_pk (\<lambda>cx. decide_eligibility user decision reason (ctx_actor cx))"

definition declared_category_body :: "user \<Rightarrow> string \<Rightarrow> ctx \<Rightarrow> st \<Rightarrow> exn + (dict \<times> st)" where
  "declared_category_body user declared =
     success_pk ''user_id'' u_pk (\<lambda>cx. set_declared_category user declared (ctx_actor cx))"

definition correct_id_body :: "(string \<Rightarrow> bool) \<Rightarrow> user \<Rightarrow> string \<Rightarrow> string \<Rightarrow> ctx \<Rightarrow> st \<Rightarrow> exn + (dict \<times> st)" where
  "correct_id_body username_ok user institutional_id reason =
     success_pk ''user_id'' u_pk (\<lambda>cx. correct_institutional_id username_ok user institutional_id reason (ctx_actor cx))"

section \<open>Writes outside the bookings\<close>

text \<open>What an account or a room list service leaves alone: the bookings, the sanctions, the policies and the
  records of the protocol. Every such service keeps an installation sound.\<close>

definition elsewhere :: "st \<Rightarrow> st \<Rightarrow> bool" where
  "elsewhere s s' \<longleftrightarrow> bookings s' = bookings s \<and> violations s' = violations s \<and> suspensions s' = suspensions s
     \<and> policies s' = policies s \<and> conf s' = conf s \<and> op_requests s' = op_requests s
     \<and> clock_now s' = clock_now s \<and> wall_now s' = wall_now s \<and> (keys_unique s \<longrightarrow> keys_unique s')"

lemma elsewhere_refl [simp]: "elsewhere s s"
  by (simp add: elsewhere_def)

lemma elsewhere_trans: "elsewhere a b \<Longrightarrow> elsewhere b c \<Longrightarrow> elsewhere a c"
  by (simp add: elsewhere_def)

lemma elsewhere_logs: "logs s s' \<Longrightarrow> elsewhere s s'"
  by (simp add: elsewhere_def logs_def)

lemma elsewhere_steps [intro, simp]:
  assumes "elsewhere s s'"
  shows "elsewhere s (record_audit a t i ac l ch r s')" "elsewhere s (ctx_audit a t i ac ch r s')"
    "elsewhere s (enqueue k rc d p s')" "elsewhere s (s'\<lparr>users := us\<rparr>)" "elsewhere s (s'\<lparr>roster := rs\<rparr>)"
    "elsewhere s (s'\<lparr>rooms := ro\<rparr>)" "elsewhere s (s'\<lparr>room_members := ms\<rparr>)" "elsewhere s (s'\<lparr>room_admins := ra\<rparr>)"
    "elsewhere s (s'\<lparr>room_categories := rc'\<rparr>)" "elsewhere s (s'\<lparr>weekly_blocks := wb\<rparr>)" "elsewhere s (s'\<lparr>invitations := iv\<rparr>)"
proof -
  note t = elsewhere_trans [OF assms]
  show "elsewhere s (record_audit a t i ac l ch r s')" "elsewhere s (ctx_audit a t i ac ch r s')"
    "elsewhere s (enqueue k rc d p s')"
    by (rule t, rule elsewhere_logs, simp)+
qed (use assms in \<open>simp_all add: elsewhere_def keys_unique_def\<close>)

lemma elsewhere_keeps:
  assumes "installed s" "elsewhere s s'"
  shows "installed s' \<and> advances s s'"
proof -
  have "current_policy s' = current_policy s" using assms(2) by (intro current_policy_cong) (simp_all add: elsewhere_def)
  with installed_same [of s' s] assms show ?thesis by (simp add: elsewhere_def advances_def)
qed

lemma service_body_elsewhere:
  assumes "\<And>s cx d s'. service cx s = Inr (d, s') \<Longrightarrow> elsewhere s s'"
  shows "service_body service"
  by (rule service_body_advances) (use elsewhere_keeps assms in blast)

lemma save_user_Inr:
  "save_user pk f s = Inr s' \<longleftrightarrow> pk \<in> u_pk ` set (users s) \<and> s' = s\<lparr>users := update_row u_pk pk f (users s)\<rparr>"
  by (auto simp: save_user_def)

lemma auto_approve_Inr:
  assumes "auto_approve u reason label s = Inr (e, s')"
  shows "e = APPROVED" "elsewhere s s'" "roster s' = roster s" "room_members s' = room_members s" "rooms s' = rooms s"
    "users s' = update_row u_pk (u_pk u) (set_eligibility APPROVED (clock_now s) reason) (users s)"
    "invitations s' = invitations s"
  using assms by (auto simp: auto_approve_def Let_def bindE_Inr save_user_Inr)

lemma auto_approve_run:
  "u_pk u \<in> u_pk ` set (users s) \<Longrightarrow> \<exists>s'. auto_approve u reason label s = Inr (APPROVED, s')"
  by (simp add: auto_approve_def Let_def save_user_def)

lemma decide_eligibility_elsewhere: "decide_eligibility u decision reason a s = Inr (x, s') \<Longrightarrow> elsewhere s s'"
  by (auto simp: decide_eligibility_def Let_def bindE_Inr save_user_Inr split: option.splits if_splits)

lemma set_declared_category_elsewhere: "set_declared_category u c a s = Inr (x, s') \<Longrightarrow> elsewhere s s'"
  by (auto simp: set_declared_category_def Let_def bindE_Inr save_user_Inr split: if_splits)

lemma correct_institutional_id_elsewhere: "correct_institutional_id uok u i r a s = Inr (x, s') \<Longrightarrow> elsewhere s s'"
  by (auto simp: correct_institutional_id_def Let_def bindE_Inr save_user_Inr split: if_splits)

interpretation eligibility_service: service_body "decide_eligibility_body u decision reason" for u decision reason
  by (rule service_body_elsewhere) (auto simp: decide_eligibility_body_def success_pk_Inr dest: decide_eligibility_elsewhere)

interpretation declared_service: service_body "declared_category_body u declared" for u declared
  by (rule service_body_elsewhere) (auto simp: declared_category_body_def success_pk_Inr dest: set_declared_category_elsewhere)

interpretation correct_id_service: service_body "correct_id_body uok u i reason" for uok u i reason
  by (rule service_body_elsewhere) (auto simp: correct_id_body_def success_pk_Inr dest: correct_institutional_id_elsewhere)

section \<open>Who is approved without staff\<close>

definition on_roster :: "st \<Rightarrow> user \<Rightarrow> bool" where
  "on_roster s u \<longleftrightarrow> (\<exists>r \<in> set (roster s). es_institutional_id r = u_username u \<and> same_text (es_email r) (u_email u) \<and> es_is_active r)"

definition vouched_for :: "st \<Rightarrow> user \<Rightarrow> bool" where
  "vouched_for s u \<longleftrightarrow> room_list_vouches_for (u_email u) s \<and> \<not> roster_claims_id (u_username u) s"

lemma roster_match_iff: "roster_match u s = None \<longleftrightarrow> \<not> on_roster s u"
  by (auto simp: roster_match_def on_roster_def filter_empty_conv)

lemma roster_match_Some:
  "roster_match u s = Some r \<Longrightarrow> r \<in> set (roster s) \<and> es_institutional_id r = u_username u
    \<and> same_text (es_email r) (u_email u) \<and> es_is_active r"
  by (auto simp: roster_match_def dest!: first_row_Some)

definition automatic_reason :: "st \<Rightarrow> user \<Rightarrow> string option" where
  "automatic_reason s u = (if on_roster s u then Some ROSTER_MATCH_REASON
     else if u_eligibility u = PENDING \<and> email_is_verified u \<and> vouched_for s u then Some ROOM_LIST_REASON else None)"

lemma apply_roster_eligibility_run:
  assumes "u_pk u \<in> u_pk ` set (users s)"
  shows "\<exists>s'. apply_roster_eligibility u s = Inr (if automatic_reason s u = None then u_eligibility u else APPROVED, s')
    \<and> elsewhere s s' \<and> rooms s' = rooms s \<and> room_members s' = room_members s \<and> invitations s' = invitations s
    \<and> users s' = (case automatic_reason s u of None \<Rightarrow> users s
        | Some reason \<Rightarrow> update_row u_pk (u_pk u) (set_eligibility APPROVED (clock_now s) reason) (users s))
    \<and> roster s' = (case roster_match u s of None \<Rightarrow> roster s | Some r \<Rightarrow> if es_account r \<noteq> None then roster s
        else update_row es_pk (es_pk r) (\<lambda>r. r\<lparr>es_account := Some (u_pk u), es_updated_at := wall_now s\<rparr>) (roster s))"
proof (cases "roster_match u s")
  case None
  then have n: "\<not> on_roster s u" by (simp add: roster_match_iff)
  show ?thesis
  proof (cases "u_eligibility u = PENDING \<and> email_is_verified u \<and> vouched_for s u")
    case True
    obtain s' where run: "auto_approve u ROOM_LIST_REASON ''room-list-match'' s = Inr (APPROVED, s')"
      using auto_approve_run [OF assms] by blast
    have "apply_roster_eligibility u s = Inr (APPROVED, s')"
      using None True run by (simp add: apply_roster_eligibility_def vouched_for_def)
    with auto_approve_Inr [OF run] n True None show ?thesis by (simp add: automatic_reason_def)
  next
    case False
    then have "apply_roster_eligibility u s = Inr (u_eligibility u, s)"
      using None by (auto simp: apply_roster_eligibility_def vouched_for_def)
    with n False None show ?thesis by (auto simp: automatic_reason_def)
  qed
next
  case (Some r)
  then have y: "on_roster s u" using roster_match_iff [of u s] by simp
  let ?s = "if es_account r = None then link_account (es_pk r) (u_pk u) s else s"
  have e: "elsewhere s ?s" "users ?s = users s" "rooms ?s = rooms s" "room_members ?s = room_members s"
    "invitations ?s = invitations s" by (auto simp: link_account_def)
  have cl: "clock_now ?s = clock_now s" by (simp add: link_account_def)
  obtain s' where run: "auto_approve u ROSTER_MATCH_REASON ''roster-match'' ?s = Inr (APPROVED, s')"
    using auto_approve_run [of u ?s] assms e(2) by auto
  have "apply_roster_eligibility u s = Inr (APPROVED, s')"
    using Some run by (simp add: apply_roster_eligibility_def Let_def)
  moreover have "roster ?s = (if es_account r \<noteq> None then roster s
      else update_row es_pk (es_pk r) (\<lambda>r. r\<lparr>es_account := Some (u_pk u), es_updated_at := wall_now s\<rparr>) (roster s))"
    by (simp add: link_account_def)
  moreover note auto_approve_Inr [OF run] elsewhere_trans [OF e(1) auto_approve_Inr(2) [OF run]]
  ultimately show ?thesis using y Some e(2-5) cl by (simp add: automatic_reason_def del: link_account_def)
qed

text \<open>The loop over the listed accounts, as one map of the table.\<close>

lemma approve_listed_loop:
  assumes "distinct (map u_pk xs)" "u_pk ` set xs \<subseteq> u_pk ` set (users s)"
  shows "\<exists>s'. foldE approve_listed xs (n, s) = Inr (n + length (filter (vouched_for s) xs), s') \<and> elsewhere s s'
    \<and> roster s' = roster s \<and> room_members s' = room_members s \<and> rooms s' = rooms s \<and> invitations s' = invitations s
    \<and> users s' = map (\<lambda>u. if u_pk u \<in> u_pk ` set (filter (vouched_for s) xs)
         then set_eligibility APPROVED (clock_now s) ROOM_LIST_REASON u else u) (users s)"
  using assms
proof (induction xs arbitrary: n s)
  case Nil
  then show ?case by simp
next
  case (Cons x xs)
  have v: "vouched_for s' = vouched_for s" if "roster s' = roster s" "room_members s' = room_members s" "rooms s' = rooms s" for s'
    using that by (auto simp: fun_eq_iff vouched_for_def room_list_vouches_for_def roster_claims_id_def room_of_def)
  show ?case
  proof (cases "vouched_for s x")
    case False
    then have "approve_listed x (n, s) = Inr (n, s)" by (auto simp: approve_listed_def vouched_for_def)
    with Cons.IH [of s n] Cons.prems False show ?thesis by simp
  next
    case True
    have "u_pk x \<in> u_pk ` set (users s)" using Cons.prems(2) by simp
    then obtain t where run: "auto_approve x ROOM_LIST_REASON ''room-list-match'' s = Inr (APPROVED, t)"
      using auto_approve_run by blast
    note t = auto_approve_Inr [OF run]
    have step: "approve_listed x (n, s) = Inr (n + 1, t)" using True run by (simp add: approve_listed_def vouched_for_def)
    have pks: "u_pk ` set (users t) = u_pk ` set (users s)"
      unfolding t(6) set_map [symmetric] by (subst keys_update_row) (simp_all add: set_eligibility_def)
    then have "u_pk ` set xs \<subseteq> u_pk ` set (users t)" using Cons.prems(2) by auto
    from Cons.IH [OF _ this, of "n + 1"] Cons.prems(1) obtain s' where
      r: "foldE approve_listed xs (n + 1, t) = Inr (n + 1 + length (filter (vouched_for s) xs), s')" "elsewhere t s'"
      "roster s' = roster t" "room_members s' = room_members t" "rooms s' = rooms t" "invitations s' = invitations t"
      "users s' = map (\<lambda>u. if u_pk u \<in> u_pk ` set (filter (vouched_for s) xs)
         then set_eligibility APPROVED (clock_now t) ROOM_LIST_REASON u else u) (users t)"
      by (auto simp: v [OF t(3,4,5)])
    have x: "u_pk x \<notin> u_pk ` set (filter (vouched_for s) xs)" using Cons.prems(1) by auto
    have cl: "clock_now t = clock_now s" using t(2) by (simp add: elsewhere_def)
    have "users s' = map (\<lambda>u. if u_pk u \<in> u_pk ` set (filter (vouched_for s) (x # xs))
         then set_eligibility APPROVED (clock_now s) ROOM_LIST_REASON u else u) (users s)"
      unfolding r(7) t(6) cl update_row_def using x True by (auto simp: set_eligibility_def)
    with r(1-6) t step True elsewhere_trans [OF t(2) r(2)] show ?thesis by simp
  qed
qed

end
