(* ===== verification/Identity.thy ===== *)
theory Identity
  imports Accounts
begin

text \<open>
  The account life cycle of \<open>services/identity.py\<close>: registration by an emailed link, single-use links with
  generations, passwords, changes of address and invitations by staff, with the bodies of the two staff views that
  hand out a link. SHA-256, the random token of a link, the password hasher, Django's password validators (the
  messages they answer, none when the password is accepted) and the path of the activation page are parameters.

  Registration and password reset are called outside a transaction, each part committing on its own; their
  definitions return the state they leave behind beside the outcome, also after a failure.
\<close>

section \<open>Links\<close>

definition VERIFICATION_TTL :: int where "VERIFICATION_TTL = 3 * 24 * us_hour"
definition ACTIVATION_TTL :: int where "ACTIVATION_TTL = 14 * 24 * us_hour"
definition PASSWORD_RESET_TTL :: int where "PASSWORD_RESET_TTL = 2 * us_hour"
definition MANUAL_LINK_TTL :: int where "MANUAL_LINK_TTL = 24 * us_hour"

definition latest_generation :: "st \<Rightarrow> nat \<Rightarrow> invitation_purpose \<Rightarrow> nat option" where
  "latest_generation s pk purpose = map_option iv_generation (first_row (order_by_desc (int \<circ> iv_generation)
     (filter (\<lambda>i. iv_user i = pk \<and> iv_purpose i = purpose) (invitations s))))"

definition is_open_link :: "nat \<Rightarrow> invitation_purpose \<Rightarrow> invitation \<Rightarrow> bool" where
  "is_open_link pk purpose i = (iv_user i = pk \<and> iv_purpose i = purpose \<and> iv_used_at i = None \<and> iv_revoked_at i = None)"

text \<open>The unique constraints of \<open>Invitation\<close>.\<close>

definition invitation_error :: "invitation list \<Rightarrow> invitation \<Rightarrow> string option" where
  "invitation_error others i =
    (if list_ex (\<lambda>x. iv_user x = iv_user i \<and> iv_purpose x = iv_purpose i \<and> iv_generation x = iv_generation i) others
       then Some ''invitation_user_purpose_generation_unique''
     else if list_ex (\<lambda>x. iv_token_digest x = iv_token_digest i) others then Some ''invitation_token_digest_unique''
     else None)"

definition superseded :: "nat \<Rightarrow> invitation_purpose \<Rightarrow> time \<Rightarrow> invitation \<Rightarrow> invitation" where
  "superseded pk purpose now i = (if is_open_link pk purpose i then i\<lparr>iv_revoked_at := Some now\<rparr> else i)"

definition new_invitation :: "(string \<Rightarrow> string) \<Rightarrow> string \<Rightarrow> user \<Rightarrow> invitation_purpose \<Rightarrow> int \<Rightarrow> actor \<Rightarrow> st \<Rightarrow> invitation" where
  "new_invitation digest raw_token user purpose ttl actor s =
     \<lparr>iv_pk = fresh_pk (map iv_pk (invitations s)), iv_user = u_pk user, iv_token_digest = digest raw_token,
      iv_generation = (case latest_generation s (u_pk user) purpose of None \<Rightarrow> 0 | Some g \<Rightarrow> g) + 1,
      iv_purpose = purpose, iv_expires_at = clock_now s + ttl, iv_used_at = None, iv_revoked_at = None,
      iv_created_by = actor_pk actor\<rparr>"

definition create_invitation :: "(string \<Rightarrow> string) \<Rightarrow> string \<Rightarrow> user \<Rightarrow> invitation_purpose \<Rightarrow> int \<Rightarrow> actor \<Rightarrow> st
    \<Rightarrow> exn + (invitation \<times> st)" where
  "create_invitation digest raw_token user purpose ttl actor s =
    (let i = new_invitation digest raw_token user purpose ttl actor s;
         rows = map (superseded (u_pk user) purpose (wall_now s)) (invitations s)
     in case invitation_error rows i of
          Some n \<Rightarrow> Inl (IntegrityError n)
        | None \<Rightarrow> Inr (i, record_audit ''invitation.created'' ''Invitation'' (show_nat (iv_pk i)) actor ''''
            [(''purpose'', PStr (purpose_value purpose)), (''generation'', PNat (iv_generation i)),
             (''expires_at'', PTime (isoformat (iv_expires_at i)))] '''' (s\<lparr>invitations := rows @ [i]\<rparr>)))"

text \<open>The query both redemptions make, and \<open>find_invitation\<close>, which the pages make first.\<close>

definition invitation_of :: "(string \<Rightarrow> string) \<Rightarrow> string \<Rightarrow> invitation_purpose option \<Rightarrow> st \<Rightarrow> invitation option" where
  "invitation_of digest raw_token purpose s = first_row (filter
     (\<lambda>i. iv_token_digest i = digest raw_token \<and> (purpose = None \<or> purpose = Some (iv_purpose i))) (invitations s))"

definition find_invitation :: "(string \<Rightarrow> string) \<Rightarrow> string \<Rightarrow> invitation_purpose option \<Rightarrow> st \<Rightarrow> invitation option" where
  "find_invitation digest raw_token purpose s =
     (if raw_token = '''' then None else invitation_of digest raw_token purpose s)"

definition invitation_is_current :: "invitation \<Rightarrow> st \<Rightarrow> bool" where
  "invitation_is_current i s = (latest_generation s (iv_user i) (iv_purpose i) = Some (iv_generation i))"

definition assert_redeemable :: "invitation option \<Rightarrow> invitation_purpose option \<Rightarrow> st \<Rightarrow> exn + invitation" where
  "assert_redeemable invitation purpose s = (case invitation of
       None \<Rightarrow> Inl (rejected Code_INVALID_TOKEN [])
     | Some i \<Rightarrow>
       if purpose \<noteq> None \<and> purpose \<noteq> Some (iv_purpose i) then Inl (rejected Code_INVALID_TOKEN [])
       else if \<not> invitation_is_current i s then Inl (rejected Code_TOKEN_EXPIRED [])
       else if iv_revoked_at i \<noteq> None then Inl (rejected Code_TOKEN_EXPIRED [])
       else if iv_used_at i \<noteq> None then Inl (rejected Code_TOKEN_USED [])
       else if iv_expires_at i \<le> clock_now s then Inl (rejected Code_TOKEN_EXPIRED [])
       else Inr i)"

text \<open>\<open>used_at = clock.now()\<close>, saved.\<close>

definition set_used :: "nat \<Rightarrow> st \<Rightarrow> st" where
  "set_used pk s = s\<lparr>invitations := update_row iv_pk pk (\<lambda>i. i\<lparr>iv_used_at := Some (clock_now s)\<rparr>) (invitations s)\<rparr>"

section \<open>Accounts\<close>

text \<open>
  \<open>create_user\<close> with \<open>password=None\<close>: the row gets no usable password. Text longer than its column is an error of
  the database, and so is a user name or an address that is taken. Its callers have checked that neither is blank.
\<close>

definition create_user :: "(nat \<Rightarrow> user) \<Rightarrow> st \<Rightarrow> exn + (user \<times> st)" where
  "create_user mk s =
    (let pk = fresh_pk (map u_pk (users s)); u0 = mk pk;
         u = u0\<lparr>u_pk := pk, u_username := strip (u_username u0), u_email := normalize_email (u_email u0), u_password := None\<rparr>
     in if length (u_username u) > 64 \<or> length (u_email u) > 254 \<or> length (u_name_th u) > 200 then Inl DatabaseError
        else if list_ex (\<lambda>v. u_username v = u_username u) (users s) then Inl (IntegrityError ''core_user_username_key'')
        else if list_ex (\<lambda>v. u_email v = u_email u) (users s) then Inl (IntegrityError ''core_user_email_key'')
        else Inr (u, s\<lparr>users := users s @ [u]\<rparr>))"

definition no_duplicate :: "exn + 'a \<Rightarrow> exn + 'a" where
  "no_duplicate m = (case m of Inl (IntegrityError n) \<Rightarrow> Inl (rejected Code_DUPLICATE_ACCOUNT []) | m \<Rightarrow> m)"

text \<open>The checks of \<open>start_registration\<close> and its first transaction.\<close>

definition register_account :: "string \<Rightarrow> string \<Rightarrow> string \<Rightarrow> string \<Rightarrow> st \<Rightarrow> exn + (user \<times> st)" where
  "register_account institutional_id email name declared_category s =
    (let institutional_id = strip institutional_id; email = normalize_email email; name = strip name;
         declared_category = strip declared_category in
     if institutional_id = '''' \<or> email = '''' \<or> name = '''' then Inl (rejected Code_INVALID_INPUT [])
     else if \<not> registration_email_allowed institutional_id email s then Inl (rejected Code_DOMAIN_NOT_ALLOWED [])
     else if declared_category \<noteq> '''' \<and> declarable declared_category = None then Inl (rejected Code_INVALID_INPUT [])
     else if list_ex (\<lambda>u. u_username u = institutional_id) (users s) then Inl (rejected Code_DUPLICATE_ACCOUNT [])
     else if list_ex (\<lambda>u. same_text (u_email u) email) (users s) then Inl (rejected Code_DUPLICATE_ACCOUNT [])
     else no_duplicate (create_user (\<lambda>pk. (blank_user pk)\<lparr>u_username := institutional_id, u_email := email, u_name_th := name,
            u_eligibility := PENDING, u_is_active := True, u_declared_category := declarable declared_category\<rparr>) s))"

definition send_verification :: "(string \<Rightarrow> string) \<Rightarrow> string \<Rightarrow> user \<Rightarrow> actor \<Rightarrow> dict \<Rightarrow> (st \<Rightarrow> st)
    \<Rightarrow> st \<Rightarrow> exn + (invitation \<times> st)" where
  "send_verification digest raw_token user actor extra note_it s =
     bindE (create_invitation digest raw_token user EMAIL_VERIFICATION VERIFICATION_TTL actor s) (\<lambda>(i, s).
       Inr (i, enqueue ''email_verification'' (Some user) (''email_verification:'' @ show_nat (iv_pk i))
         ([(''invitation_id'', PNat (iv_pk i)), (''token'', PStr raw_token)] @ extra) (note_it s)))"

definition start_registration :: "(string \<Rightarrow> string) \<Rightarrow> string \<Rightarrow> string \<Rightarrow> string \<Rightarrow> string \<Rightarrow> string \<Rightarrow> actor
    \<Rightarrow> st \<Rightarrow> (exn + invitation) \<times> st" where
  "start_registration digest raw_token institutional_id email name declared_category actor s =
    (case register_account institutional_id email name declared_category s of
       Inl e \<Rightarrow> (Inl e, s)
     | Inr (user, s1) \<Rightarrow>
       (case send_verification digest raw_token user actor [(''institutional_id'', PStr (strip institutional_id))]
          (record_audit ''account.registered'' ''User'' (show_nat (u_pk user)) None ''self-registration''
             [(''institutional_id'', PStr (strip institutional_id)), (''eligibility'', PStr (eligibility_value (u_eligibility user))),
              (''declared_category'', PStr (strip declared_category))] '''') s1 of
          Inl e \<Rightarrow> (Inl e, s1)
        | Inr (i, s2) \<Rightarrow> (Inr i, s2)))"

definition resend_verification :: "(string \<Rightarrow> string) \<Rightarrow> string \<Rightarrow> user \<Rightarrow> actor \<Rightarrow> st \<Rightarrow> exn + (invitation \<times> st)" where
  "resend_verification digest raw_token user actor s =
    (if list_ex (\<lambda>u. u_pk u = u_pk user \<and> u_email_verified_at u \<noteq> None) (users s) then Inl (rejected Code_INVALID_INPUT [])
     else send_verification digest raw_token user actor [] id s)"

text \<open>
  \<open>email_verified_at\<close> is stamped, the audit row written and the eligibility assessed: the end of both redemptions
  of a verification link. The instance it hands back holds what was written to its row.
\<close>

definition confirm_email :: "user \<Rightarrow> st \<Rightarrow> exn + (user \<times> st)" where
  "confirm_email user s =
    (let verified = (\<lambda>u. u\<lparr>u_email_verified_at := Some (clock_now s)\<rparr>) in
     bindE (save_user (u_pk user) verified s) (\<lambda>s.
       let user = verified user;
           s = record_audit ''account.email_verified'' ''User'' (show_nat (u_pk user)) (Some user) ''''
                 [(''email'', PStr (u_email user))] '''' s in
       bindE (apply_roster_eligibility user s) (\<lambda>(_, s). Inr (user_of s (u_pk user), s))))"

definition verify_email :: "(string \<Rightarrow> string) \<Rightarrow> string \<Rightarrow> st \<Rightarrow> exn + (user \<times> invitation \<times> st)" where
  "verify_email digest raw_token s =
     bindE (assert_redeemable (find_invitation digest raw_token (Some EMAIL_VERIFICATION) s) None s) (\<lambda>i.
       bindE (confirm_email (user_of s (iv_user i)) (set_used (iv_pk i) s)) (\<lambda>(u, s). Inr (u, i\<lparr>iv_used_at := Some (clock_now s)\<rparr>, s)))"

section \<open>Passwords\<close>

definition store_password :: "(string \<Rightarrow> string) \<Rightarrow> (string \<Rightarrow> user \<Rightarrow> string list) \<Rightarrow> user \<Rightarrow> string \<Rightarrow> string
    \<Rightarrow> st \<Rightarrow> exn + (user \<times> st)" where
  "store_password hasher validators user password via s =
    (if validators password user \<noteq> []
     then Inl (rejected Code_INVALID_INPUT [(''errors'', PList (map PStr (validators password user)))])
     else let write = (\<lambda>u. u\<lparr>u_password := Some (hasher password)\<rparr>) in
       bindE (save_user (u_pk user) write s) (\<lambda>s.
         Inr (write user, record_audit ''account.password_set'' ''User'' (show_nat (u_pk user)) (Some (write user)) ''''
           [(''via'', PStr via)] '''' s)))"

definition set_initial_password :: "(string \<Rightarrow> string) \<Rightarrow> (string \<Rightarrow> string) \<Rightarrow> (string \<Rightarrow> user \<Rightarrow> string list)
    \<Rightarrow> nat \<Rightarrow> string \<Rightarrow> string \<Rightarrow> invitation_purpose \<Rightarrow> st \<Rightarrow> exn + st" where
  "set_initial_password digest hasher validators user_pk password raw_token purpose s =
     bindE (assert_redeemable (invitation_of digest raw_token (Some purpose) s) (Some purpose) s) (\<lambda>i.
       if iv_user i \<noteq> user_pk then Inl (rejected Code_INVALID_TOKEN [])
       else bindE (store_password hasher validators (user_of s (iv_user i)) password (purpose_value purpose) s) (\<lambda>(_, s).
         Inr (set_used (iv_pk i) s)))"

definition complete_registration :: "(string \<Rightarrow> string) \<Rightarrow> (string \<Rightarrow> string) \<Rightarrow> (string \<Rightarrow> user \<Rightarrow> string list)
    \<Rightarrow> string \<Rightarrow> string \<Rightarrow> st \<Rightarrow> exn + (user \<times> st)" where
  "complete_registration digest hasher validators raw_token password s =
     bindE (assert_redeemable (invitation_of digest raw_token (Some EMAIL_VERIFICATION) s) (Some EMAIL_VERIFICATION) s) (\<lambda>i.
       bindE (store_password hasher validators (user_of s (iv_user i)) password (purpose_value EMAIL_VERIFICATION) s) (\<lambda>(u, s).
         confirm_email u (set_used (iv_pk i) s)))"

text \<open>One account of \<open>start_password_reset\<close>; each invitation commits on its own.\<close>

definition request_reset :: "(string \<Rightarrow> string) \<Rightarrow> string \<Rightarrow> user \<Rightarrow> st \<Rightarrow> exn + st" where
  "request_reset digest raw_token user s =
     bindE (create_invitation digest raw_token user PASSWORD_RESET PASSWORD_RESET_TTL None s) (\<lambda>(i, s).
       Inr (record_audit ''account.password_reset_requested'' ''User'' (show_nat (u_pk user)) None ''self-service''
              [(''invitation_generation'', PNat (iv_generation i))] ''''
           (enqueue ''password_reset'' (Some user) (''password_reset:'' @ show_nat (iv_pk i))
              [(''invitation_id'', PNat (iv_pk i)), (''token'', PStr raw_token)] s)))"

fun request_resets :: "(string \<Rightarrow> string) \<Rightarrow> (nat \<Rightarrow> string) \<Rightarrow> user list \<Rightarrow> st \<Rightarrow> (exn + unit) \<times> st" where
  "request_resets digest token [] s = (Inr (), s)"
| "request_resets digest token (u # us) s = (case request_reset digest (token (u_pk u)) u s of
     Inl e \<Rightarrow> (Inl e, s) | Inr s' \<Rightarrow> request_resets digest token us s')"

definition start_password_reset :: "(string \<Rightarrow> string) \<Rightarrow> (nat \<Rightarrow> string) \<Rightarrow> string \<Rightarrow> st \<Rightarrow> (exn + unit) \<times> st" where
  "start_password_reset digest token email s =
    (let normalized = normalize_email email in
     if normalized = '''' \<or> CHR ''@'' \<notin> set normalized then (Inr (), s)
     else request_resets digest token (filter (\<lambda>u. same_text (u_email u) normalized \<and> u_is_active u) (users s)) s)"

definition issue_password_link :: "(string \<Rightarrow> string) \<Rightarrow> string \<Rightarrow> user \<Rightarrow> actor \<Rightarrow> st \<Rightarrow> exn + (invitation \<times> st)" where
  "issue_password_link digest raw_token user actor s =
    (if (case actor of None \<Rightarrow> True | Some a \<Rightarrow> \<not> u_is_superuser a) then Inl (rejected Code_INVALID_INPUT [])
     else if \<not> u_is_active user \<or> u_is_superuser user \<or> \<not> (u_is_operational_staff user \<or> u_is_teacher user)
     then Inl (rejected Code_INVALID_INPUT [])
     else bindE (create_invitation digest raw_token user ACCOUNT_ACTIVATION MANUAL_LINK_TTL actor s) (\<lambda>(i, s).
       Inr (i, record_audit ''account.password_link_issued'' ''User'' (show_nat (u_pk user)) actor ''''
         [(''invitation_generation'', PNat (iv_generation i))] '''' s)))"

section \<open>Changes of address and invitations\<close>

definition change_email :: "(string \<Rightarrow> string) \<Rightarrow> string \<Rightarrow> user \<Rightarrow> string \<Rightarrow> actor \<Rightarrow> st \<Rightarrow> exn + (user \<times> st)" where
  "change_email digest raw_token user new_email actor s =
    (let new_email = normalize_email new_email in
     if new_email = '''' \<or> CHR ''@'' \<notin> set new_email then Inl (rejected Code_INVALID_INPUT [])
     else if \<not> registration_email_allowed (u_username user) new_email s then Inl (rejected Code_DOMAIN_NOT_ALLOWED [])
     else if list_ex (\<lambda>u. same_text (u_email u) new_email \<and> u_pk u \<noteq> u_pk user) (users s)
     then Inl (rejected Code_DUPLICATE_ACCOUNT [])
     else let write = (\<lambda>u. u\<lparr>u_email := new_email, u_email_verified_at := None, u_eligibility := PENDING,
                              u_eligibility_decided_at := None, u_eligibility_reason := ''''\<rparr>) in
       if length new_email > 254 then Inl DatabaseError
       else bindE (save_user (u_pk user) write s) (\<lambda>s.
         bindE (resend_verification digest raw_token (write user) actor
           (record_audit ''account.email_changed'' ''User'' (show_nat (u_pk user)) (if actor = None then Some (write user) else actor) ''''
             [(''from'', PStr (u_email user)), (''to'', PStr new_email)] '''' s)) (\<lambda>(_, s). Inr (write user, s))))"

text \<open>The account an invitation is for: the one that has the ID, or a new one.\<close>

definition invited_user :: "string \<Rightarrow> string \<Rightarrow> string \<Rightarrow> bool \<Rightarrow> bool \<Rightarrow> st \<Rightarrow> exn + (user \<times> bool \<times> st)" where
  "invited_user institutional_id email name staff teacher s =
    (case first_row (filter (\<lambda>u. u_username u = institutional_id) (users s)) of
       Some user \<Rightarrow> if lower (u_email user) \<noteq> email then Inl (rejected Code_DUPLICATE_ACCOUNT []) else Inr (user, False, s)
     | None \<Rightarrow>
       if list_ex (\<lambda>u. same_text (u_email u) email) (users s) then Inl (rejected Code_DUPLICATE_ACCOUNT [])
       else bindE (create_user (\<lambda>pk. (blank_user pk)\<lparr>u_username := institutional_id, u_email := email, u_name_th := name,
              u_eligibility := APPROVED, u_is_operational_staff := staff, u_is_teacher := teacher,
              u_email_verified_at := Some (clock_now s)\<rparr>) s) (\<lambda>(u, s). Inr (u, True, s)))"

definition invite_account :: "(string \<Rightarrow> string) \<Rightarrow> string \<Rightarrow> string \<Rightarrow> string \<Rightarrow> string \<Rightarrow> actor \<Rightarrow> bool \<Rightarrow> bool \<Rightarrow> string
    \<Rightarrow> st \<Rightarrow> exn + ((user \<times> invitation) \<times> st)" where
  "invite_account digest raw_token institutional_id email name actor staff teacher reason s =
    (let email = normalize_email email; institutional_id = strip institutional_id;
         institutional_id = (if institutional_id = '''' \<and> (staff \<or> teacher) then email else institutional_id) in
     if institutional_id = '''' \<or> email = '''' then Inl (rejected Code_INVALID_INPUT [])
     else bindE (invited_user institutional_id email name staff teacher s) (\<lambda>(user, created, s).
       bindE (create_invitation digest raw_token user ACCOUNT_ACTIVATION ACTIVATION_TTL actor s) (\<lambda>(i, s).
         let s = record_audit ''account.invited'' ''User'' (show_nat (u_pk user)) actor ''''
               [(''staff'', PBool staff), (''teacher'', PBool teacher), (''created'', PBool created)] reason s;
             s = enqueue ''invitation'' (Some user) (''invitation:'' @ show_nat (iv_pk i))
               [(''invitation_id'', PNat (iv_pk i)), (''token'', PStr raw_token), (''staff'', PBool staff)] s
         in Inr ((user, i), s))))"

text \<open>The bodies of the two views that show a link. \<open>site\<close> is \<open>SITE_BASE_URL\<close>, \<open>path\<close> the URL of the activation page.\<close>

definition activation_link :: "string \<Rightarrow> (string \<Rightarrow> string) \<Rightarrow> string \<Rightarrow> string" where
  "activation_link site path raw_token = rev (dropWhile (\<lambda>c. c = CHR ''/'') (rev site)) @ path raw_token"

definition invite_body :: "(string \<Rightarrow> string) \<Rightarrow> string \<Rightarrow> (string \<Rightarrow> string) \<Rightarrow> string \<Rightarrow> string \<Rightarrow> string \<Rightarrow> string \<Rightarrow> bool \<Rightarrow> bool
    \<Rightarrow> ctx \<Rightarrow> st \<Rightarrow> exn + (dict \<times> st)" where
  "invite_body digest site path raw_token institutional_id email name staff teacher cx s =
     bindE (invite_account digest raw_token institutional_id email name (ctx_actor cx) staff teacher '''' s) (\<lambda>((user, i), s).
       Inr ([(''user_id'', PNat (u_pk user)), (''invitation_id'', PNat (iv_pk i)),
             (''link'', PStr (activation_link site path raw_token))], s))"

definition password_link_body :: "(string \<Rightarrow> string) \<Rightarrow> string \<Rightarrow> (string \<Rightarrow> string) \<Rightarrow> string \<Rightarrow> user
    \<Rightarrow> ctx \<Rightarrow> st \<Rightarrow> exn + (dict \<times> st)" where
  "password_link_body digest site path raw_token user cx s =
     bindE (issue_password_link digest raw_token user (ctx_actor cx) s) (\<lambda>(i, s).
       Inr ([(''link'', PStr (activation_link site path raw_token)), (''expires_at'', PTime (isoformat (iv_expires_at i)))], s))"

section \<open>Generations\<close>

lemma sorted_desc_first:
  assumes "first_row (order_by_desc key xs) = Some x" "y \<in> set xs"
  shows "key y \<le> key x"
proof -
  have s: "sorted (map (\<lambda>x. - key x) (order_by_desc key xs))" by (simp add: order_by_desc_def)
  from assms(1) obtain ys where ys: "order_by_desc key xs = x # ys" by (cases "order_by_desc key xs") auto
  have "y \<in> set (order_by_desc key xs)" using assms(2) by simp
  with s show ?thesis unfolding ys by auto
qed

lemma latest_generation_Some:
  assumes "latest_generation s pk purpose = Some g"
  shows "\<exists>i \<in> set (invitations s). iv_user i = pk \<and> iv_purpose i = purpose \<and> iv_generation i = g"
    and "\<And>i. i \<in> set (invitations s) \<Longrightarrow> iv_user i = pk \<Longrightarrow> iv_purpose i = purpose \<Longrightarrow> iv_generation i \<le> g"
proof -
  let ?xs = "filter (\<lambda>i. iv_user i = pk \<and> iv_purpose i = purpose) (invitations s)"
  from assms obtain x where x: "first_row (order_by_desc (int \<circ> iv_generation) ?xs) = Some x" "iv_generation x = g"
    by (auto simp: latest_generation_def)
  show "\<exists>i \<in> set (invitations s). iv_user i = pk \<and> iv_purpose i = purpose \<and> iv_generation i = g"
    using first_row_Some [OF x(1)] x(2) by auto
  show "iv_generation i \<le> g" if "i \<in> set (invitations s)" "iv_user i = pk" "iv_purpose i = purpose" for i
    using sorted_desc_first [OF x(1), of i] that x(2) by simp
qed

lemma latest_generation_None:
  "latest_generation s pk purpose = None \<longleftrightarrow> (\<forall>i \<in> set (invitations s). \<not> (iv_user i = pk \<and> iv_purpose i = purpose))"
  by (auto simp: latest_generation_def filter_empty_conv)

lemma latest_generationI:
  assumes "i \<in> set (invitations s)" "iv_user i = pk" "iv_purpose i = purpose"
    and "\<And>j. j \<in> set (invitations s) \<Longrightarrow> iv_user j = pk \<Longrightarrow> iv_purpose j = purpose \<Longrightarrow> iv_generation j \<le> iv_generation i"
  shows "latest_generation s pk purpose = Some (iv_generation i)"
proof (cases "latest_generation s pk purpose")
  case None
  with assms(1-3) show ?thesis by (auto simp: latest_generation_None)
next
  case (Some g)
  from latest_generation_Some [OF this] assms have "g = iv_generation i" by (metis le_antisym)
  with Some show ?thesis by simp
qed

text \<open>The new generation is above every generation of its account and purpose.\<close>

lemma new_generation:
  assumes "i \<in> set (invitations s)" "iv_user i = u_pk user" "iv_purpose i = purpose"
  shows "iv_generation i < iv_generation (new_invitation digest raw_token user purpose ttl actor s)"
proof (cases "latest_generation s (u_pk user) purpose")
  case None
  with assms show ?thesis by (auto simp: latest_generation_None)
next
  case (Some g)
  with latest_generation_Some(2) [OF Some assms] show ?thesis by (simp add: new_invitation_def)
qed

lemma superseded_simps [simp]:
  "iv_pk (superseded pk p t i) = iv_pk i" "iv_user (superseded pk p t i) = iv_user i"
  "iv_purpose (superseded pk p t i) = iv_purpose i" "iv_generation (superseded pk p t i) = iv_generation i"
  "iv_token_digest (superseded pk p t i) = iv_token_digest i" "iv_used_at (superseded pk p t i) = iv_used_at i"
  "iv_expires_at (superseded pk p t i) = iv_expires_at i"
  by (simp_all add: superseded_def)

lemma new_invitation_simps [simp]:
  "iv_pk (new_invitation d r u p ttl a s) = fresh_pk (map iv_pk (invitations s))"
  "iv_user (new_invitation d r u p ttl a s) = u_pk u" "iv_purpose (new_invitation d r u p ttl a s) = p"
  "iv_token_digest (new_invitation d r u p ttl a s) = d r"
  "iv_expires_at (new_invitation d r u p ttl a s) = clock_now s + ttl"
  "iv_used_at (new_invitation d r u p ttl a s) = None" "iv_revoked_at (new_invitation d r u p ttl a s) = None"
  by (simp_all add: new_invitation_def)

text \<open>The only failure of \<open>create_invitation\<close> is a token whose digest is stored already.\<close>

lemma create_invitation_cases:
  "create_invitation digest raw u purpose ttl actor s =
    (if digest raw \<in> iv_token_digest ` set (invitations s) then Inl (IntegrityError ''invitation_token_digest_unique'')
     else Inr (new_invitation digest raw u purpose ttl actor s,
       record_audit ''invitation.created'' ''Invitation'' (show_nat (fresh_pk (map iv_pk (invitations s)))) actor ''''
         [(''purpose'', PStr (purpose_value purpose)),
          (''generation'', PNat (iv_generation (new_invitation digest raw u purpose ttl actor s))),
          (''expires_at'', PTime (isoformat (clock_now s + ttl)))] ''''
         (s\<lparr>invitations := map (superseded (u_pk u) purpose (wall_now s)) (invitations s)
            @ [new_invitation digest raw u purpose ttl actor s]\<rparr>)))"
proof -
  let ?i = "new_invitation digest raw u purpose ttl actor s"
  have "\<not> list_ex (\<lambda>x. iv_user x = iv_user ?i \<and> iv_purpose x = iv_purpose ?i \<and> iv_generation x = iv_generation ?i)
      (map (superseded (u_pk u) purpose (wall_now s)) (invitations s))"
    using new_generation [of _ s u purpose digest raw ttl actor] by (fastforce simp: list_ex_iff)
  then show ?thesis by (auto simp: create_invitation_def Let_def invitation_error_def list_ex_iff intro: rev_image_eqI)
qed

lemma create_invitation_Inr:
  assumes "create_invitation digest raw u purpose ttl actor s = Inr (i, s')"
  shows "i = new_invitation digest raw u purpose ttl actor s" "digest raw \<notin> iv_token_digest ` set (invitations s)"
    "invitations s' = map (superseded (u_pk u) purpose (wall_now s)) (invitations s) @ [i]"
    "users s' = users s" "elsewhere s s'" "roster s' = roster s" "rooms s' = rooms s" "room_members s' = room_members s"
  using assms by (auto simp: create_invitation_cases split: if_splits)

section \<open>Redemption\<close>

lemma assert_redeemable_Inr:
  "assert_redeemable m p s = Inr i \<longleftrightarrow> m = Some i \<and> (p = None \<or> p = Some (iv_purpose i)) \<and> invitation_is_current i s
     \<and> iv_revoked_at i = None \<and> iv_used_at i = None \<and> clock_now s < iv_expires_at i"
  by (auto simp: assert_redeemable_def split: option.splits if_splits)

lemma invitation_of_Some:
  "invitation_of digest raw p s = Some i \<Longrightarrow> i \<in> set (invitations s) \<and> iv_token_digest i = digest raw
     \<and> (p = None \<or> p = Some (iv_purpose i))"
  by (auto simp: invitation_of_def dest!: first_row_Some)

lemma invitation_of_cong: "invitations s' = invitations s \<Longrightarrow> invitation_of digest raw p s' = invitation_of digest raw p s"
  by (simp add: invitation_of_def)

lemma invitation_is_current_cong: "invitations s' = invitations s \<Longrightarrow> invitation_is_current i s' = invitation_is_current i s"
  by (simp add: invitation_is_current_def latest_generation_def)

text \<open>The row of a fresh link is found by its token and is the current one of its account and purpose.\<close>

lemma fresh_link:
  assumes "create_invitation digest raw u purpose ttl actor s = Inr (i, s')" "invitations s2 = invitations s'"
  shows "invitation_of digest raw (Some purpose) s2 = Some i" "invitation_is_current i s2"
    "clock_now s2 < clock_now s + ttl \<Longrightarrow> assert_redeemable (Some i) (Some purpose) s2 = Inr i"
proof -
  note c = create_invitation_Inr [OF assms(1)]
  have none: "\<And>x. x \<in> set (invitations s) \<Longrightarrow> iv_token_digest x \<noteq> digest raw" using c(2) by (metis image_eqI)
  show "invitation_of digest raw (Some purpose) s2 = Some i"
    unfolding invitation_of_def assms(2) c(3) using c(1) none by (simp add: filter_empty_conv)
  have "latest_generation s2 (u_pk u) purpose = Some (iv_generation i)"
  proof (rule latest_generationI)
    fix j
    assume "j \<in> set (invitations s2)" and j: "iv_user j = u_pk u" "iv_purpose j = purpose"
    then consider "j = i" | x where "x \<in> set (invitations s)" "j = superseded (u_pk u) purpose (wall_now s) x"
      using assms(2) c(3) by auto
    then show "iv_generation j \<le> iv_generation i"
      by cases (use j c(1) new_generation [of _ s u purpose digest raw ttl actor] in \<open>auto simp: less_imp_le\<close>)
  qed (use assms(2) c(1,3) in simp_all)
  then show cur: "invitation_is_current i s2" using c(1) by (simp add: invitation_is_current_def)
  show "assert_redeemable (Some i) (Some purpose) s2 = Inr i" if "clock_now s2 < clock_now s + ttl"
    using cur that c(1) by (simp add: assert_redeemable_Inr)
qed

text \<open>An older link of the account for the purpose is still found, and answers that it has expired.\<close>

lemma older_link:
  assumes "create_invitation digest raw u purpose ttl actor s = Inr (i, s')" "invitations s2 = invitations s'"
    and "invitation_of digest old_raw (Some purpose) s = Some old" "iv_user old = u_pk u"
  shows "assert_redeemable (invitation_of digest old_raw (Some purpose) s2) (Some purpose) s2 = Inl (rejected Code_TOKEN_EXPIRED [])"
proof -
  note c = create_invitation_Inr [OF assms(1)] and o' = invitation_of_Some [OF assms(3)]
  let ?p = "\<lambda>x. iv_token_digest x = digest old_raw \<and> purpose = iv_purpose x"
  from assms(3) obtain xs where xs: "filter ?p (invitations s) = old # xs"
    by (cases "filter ?p (invitations s)") (auto simp: invitation_of_def first_row_def)
  have "filter ?p (invitations s2) = map (superseded (u_pk u) purpose (wall_now s)) (filter ?p (invitations s)) @ filter ?p [i]"
    unfolding assms(2) c(3) by (simp add: filter_map o_def)
  then have found: "invitation_of digest old_raw (Some purpose) s2 = Some (superseded (u_pk u) purpose (wall_now s) old)"
    unfolding invitation_of_def by (simp add: xs)
  have "iv_generation old < iv_generation i"
    using new_generation [of old s u purpose digest raw ttl actor] o' assms(4) c(1) by auto
  then have "\<not> invitation_is_current (superseded (u_pk u) purpose (wall_now s) old) s2"
    using fresh_link(2) [OF assms(1,2)] o' assms(4) c(1) by (auto simp: invitation_is_current_def)
  with found o' show ?thesis by (simp add: assert_redeemable_def)
qed

section \<open>What every account service keeps\<close>

text \<open>
  Names, addresses, tokens and generations are unique, every link belongs to an account, and an account has at
  most one link open for a purpose.
\<close>

definition one_open_link :: "invitation list \<Rightarrow> bool" where
  "one_open_link rows \<longleftrightarrow> (\<forall>i \<in> set rows. \<forall>j \<in> set rows. is_open_link (iv_user i) (iv_purpose i) i
     \<longrightarrow> is_open_link (iv_user i) (iv_purpose i) j \<longrightarrow> i = j)"

definition links_ok :: "nat set \<Rightarrow> invitation list \<Rightarrow> bool" where
  "links_ok owners rows \<longleftrightarrow> distinct (map iv_pk rows) \<and> distinct (map iv_token_digest rows)
     \<and> distinct (map (\<lambda>i. (iv_user i, iv_purpose i, iv_generation i)) rows)
     \<and> (\<forall>i \<in> set rows. iv_user i \<in> owners) \<and> one_open_link rows"

definition names_ok :: "user list \<Rightarrow> bool" where
  "names_ok us \<longleftrightarrow> distinct (map u_pk us) \<and> distinct (map u_username us) \<and> distinct (map (\<lambda>u. lower (u_email u)) us)"

definition accounts_ok :: "st \<Rightarrow> bool" where
  "accounts_ok s \<longleftrightarrow> names_ok (users s) \<and> links_ok (u_pk ` set (users s)) (invitations s)"

lemma accounts_ok_cong: "users s' = users s \<Longrightarrow> invitations s' = invitations s \<Longrightarrow> accounts_ok s' = accounts_ok s"
  by (simp add: accounts_ok_def)

lemma superseded_closed: "\<not> is_open_link pk p (superseded pk p t i)"
  by (auto simp: superseded_def is_open_link_def)

lemma superseded_open: "is_open_link k q (superseded pk p t i) \<Longrightarrow> superseded pk p t i = i"
  by (auto simp: superseded_def is_open_link_def)

lemma create_invitation_ok:
  assumes "create_invitation digest raw u purpose ttl actor s = Inr (i, s')" "accounts_ok s" "u_pk u \<in> u_pk ` set (users s)"
  shows "accounts_ok s'"
proof -
  note c = create_invitation_Inr [OF assms(1)]
  let ?f = "superseded (u_pk u) purpose (wall_now s)"
  from assms(2) have l: "links_ok (u_pk ` set (users s)) (invitations s)" by (simp add: accounts_ok_def)
  have "one_open_link (map ?f (invitations s) @ [i])"
    unfolding one_open_link_def
  proof (intro ballI impI)
    fix x y
    assume m: "x \<in> set (map ?f (invitations s) @ [i])" "y \<in> set (map ?f (invitations s) @ [i])"
      and o': "is_open_link (iv_user x) (iv_purpose x) x" "is_open_link (iv_user x) (iv_purpose x) y"
    have old: "z \<in> set (invitations s)" if "z \<in> set (map ?f (invitations s))" "is_open_link k q z" for z k q
      using that superseded_open by fastforce
    have new: "x = i \<longleftrightarrow> y = i"
    proof
      assume "x = i"
      then have "is_open_link (u_pk u) purpose y" using o'(2) c(1) by simp
      then show "y = i" using m(2) superseded_closed by auto
    next
      assume "y = i"
      then have "is_open_link (u_pk u) purpose x" using o' c(1) by (simp add: is_open_link_def)
      then show "x = i" using m(1) superseded_closed by auto
    qed
    show "x = y"
    proof (cases "x = i")
      case True
      with new show ?thesis by simp
    next
      case False
      with new m have "x \<in> set (map ?f (invitations s))" "y \<in> set (map ?f (invitations s))" by auto
      with old o' have "x \<in> set (invitations s)" "y \<in> set (invitations s)" by blast+
      with l o' show ?thesis unfolding links_ok_def one_open_link_def by blast
    qed
  qed
  moreover have "(u_pk u, purpose, iv_generation i) \<notin> (\<lambda>i. (iv_user i, iv_purpose i, iv_generation i)) ` set (invitations s)"
    using new_generation [of _ s u purpose digest raw ttl actor] c(1) by force
  moreover have "fresh_pk (map iv_pk (invitations s)) \<notin> iv_pk ` set (invitations s)"
    using fresh_pk_notin [of "map iv_pk (invitations s)"] by simp
  ultimately have "links_ok (u_pk ` set (users s)) (map ?f (invitations s) @ [i])"
    using l c(1,2) assms(3) by (simp add: links_ok_def o_def)
  with assms(2) c(3,4) show ?thesis by (simp add: accounts_ok_def)
qed

lemma set_used_frame [simp]:
  "users (set_used pk s) = users s" "roster (set_used pk s) = roster s" "rooms (set_used pk s) = rooms s"
  "room_members (set_used pk s) = room_members s" "clock_now (set_used pk s) = clock_now s"
  "wall_now (set_used pk s) = wall_now s" "elsewhere t s \<Longrightarrow> elsewhere t (set_used pk s)"
  by (simp_all add: set_used_def)

lemma set_used_ok:
  assumes "accounts_ok s"
  shows "accounts_ok (set_used pk s)"
proof -
  let ?f = "\<lambda>i. if iv_pk i = pk then i\<lparr>iv_used_at := Some (clock_now s)\<rparr> else i"
  have same: "iv_pk (?f i) = iv_pk i" "iv_user (?f i) = iv_user i" "iv_purpose (?f i) = iv_purpose i"
    "iv_generation (?f i) = iv_generation i" "iv_token_digest (?f i) = iv_token_digest i"
    "is_open_link k p (?f i) \<Longrightarrow> ?f i = i" for i k p by (auto simp: is_open_link_def)
  have "one_open_link (map ?f (invitations s))" if "one_open_link (invitations s)"
    unfolding one_open_link_def
  proof (intro ballI impI)
    fix x y
    assume "x \<in> set (map ?f (invitations s))" "y \<in> set (map ?f (invitations s))"
      and o': "is_open_link (iv_user x) (iv_purpose x) x" "is_open_link (iv_user x) (iv_purpose x) y"
    then obtain i j where ij: "i \<in> set (invitations s)" "x = ?f i" "j \<in> set (invitations s)" "y = ?f j" by auto
    with o' same(6) have "x = i" "y = j" by metis+
    with ij(1,3) o' that show "x = y" unfolding one_open_link_def by blast
  qed
  with assms show ?thesis
    unfolding accounts_ok_def links_ok_def set_used_def update_row_def by (auto simp: o_def same(1-5) cong: if_cong)
qed

section \<open>Writes to accounts\<close>

text \<open>A write that leaves the keys, the names and the addresses of the accounts.\<close>

lemma accounts_ok_map:
  assumes "accounts_ok s" "users s' = map f (users s)" "invitations s' = invitations s"
    and "\<And>u. u_pk (f u) = u_pk u" "\<And>u. u_username (f u) = u_username u" "\<And>u. u_email (f u) = u_email u"
  shows "accounts_ok s'"
  using assms by (simp add: accounts_ok_def names_ok_def o_def image_image)

lemma accounts_ok_update:
  assumes "accounts_ok s" "users s' = update_row u_pk pk f (users s)" "invitations s' = invitations s"
    and "\<And>u. u_pk (f u) = u_pk u" "\<And>u. u_username (f u) = u_username u" "\<And>u. u_email (f u) = u_email u"
  shows "accounts_ok s'"
  by (rule accounts_ok_map [OF assms(1) assms(2) [unfolded update_row_def] assms(3)]) (simp_all add: assms)

text \<open>One name or address changes to a text no other account has.\<close>

lemma distinct_update_row:
  assumes "distinct (map key xs)" "distinct (map v xs)" "\<And>x. key (f x) = key x"
    and "\<And>x. v (f x) = a" "\<And>x. x \<in> set xs \<Longrightarrow> key x \<noteq> k \<Longrightarrow> v x \<noteq> a"
  shows "distinct (map v (update_row key k f xs))"
  using assms by (induction xs) (auto simp: update_row_def image_iff)

lemma create_user_Inr:
  assumes "create_user mk s = Inr (u, s')"
  shows "u_pk u = fresh_pk (map u_pk (users s))" "s' = s\<lparr>users := users s @ [u]\<rparr>" "u_password u = None"
    "u_username u \<notin> u_username ` set (users s)" "elsewhere s s'"
    "u_username u = strip (u_username (mk (u_pk u)))" "u_email u = normalize_email (u_email (mk (u_pk u)))"
    "u = (mk (u_pk u))\<lparr>u_pk := u_pk u, u_username := u_username u, u_email := u_email u, u_password := None\<rparr>"
proof -
  let ?pk = "fresh_pk (map u_pk (users s))"
  let ?u = "(mk ?pk)\<lparr>u_pk := ?pk, u_username := strip (u_username (mk ?pk)), u_email := normalize_email (u_email (mk ?pk)),
    u_password := None\<rparr>"
  have u: "u = ?u" and s: "s' = s\<lparr>users := users s @ [?u]\<rparr>" and free: "\<forall>v \<in> set (users s). u_username v \<noteq> u_username ?u"
    using assms by (auto simp: create_user_def Let_def list_ex_iff split: if_splits)
  show pk: "u_pk u = ?pk" and "u_password u = None" unfolding u by simp_all
  show "s' = s\<lparr>users := users s @ [u]\<rparr>" using s unfolding u [symmetric] .
  show "u_username u \<notin> u_username ` set (users s)" using free unfolding u [symmetric] by auto
  show "elsewhere s s'" unfolding s by simp
  show "u_username u = strip (u_username (mk (u_pk u)))" "u_email u = normalize_email (u_email (mk (u_pk u)))"
    unfolding pk unfolding u by simp_all
  show "u = (mk (u_pk u))\<lparr>u_pk := u_pk u, u_username := u_username u, u_email := u_email u, u_password := None\<rparr>"
    unfolding pk unfolding u by simp
qed

lemma create_user_ok:
  assumes "create_user mk s = Inr (u, s')" "accounts_ok s"
    and "\<And>v. v \<in> set (users s) \<Longrightarrow> \<not> same_text (u_email v) (u_email u)"
  shows "accounts_ok s'"
proof -
  note c = create_user_Inr [OF assms(1)]
  have "u_pk u \<notin> u_pk ` set (users s)" using fresh_pk_notin [of "map u_pk (users s)"] c(1) by simp
  moreover have "lower (u_email u) \<notin> (\<lambda>u. lower (u_email u)) ` set (users s)"
    using assms(3) by (fastforce simp: same_text_def)
  ultimately have "names_ok (users s @ [u])" using assms(2) c(4) by (simp add: accounts_ok_def names_ok_def)
  moreover have "links_ok (u_pk ` set (users s @ [u])) (invitations s)" using assms(2) by (simp add: accounts_ok_def links_ok_def)
  ultimately show ?thesis unfolding c(2) by (simp add: accounts_ok_def)
qed

text \<open>What the operations made of these writes leave alone.\<close>

lemma send_verification_Inr:
  assumes "send_verification digest raw u actor extra note_it s = Inr (i, s')" "\<And>s. logs s (note_it s)"
  shows "\<exists>s1. create_invitation digest raw u EMAIL_VERIFICATION VERIFICATION_TTL actor s = Inr (i, s1) \<and> logs s1 s'"
proof -
  from assms(1) obtain s1 where c: "create_invitation digest raw u EMAIL_VERIFICATION VERIFICATION_TTL actor s = Inr (i, s1)"
    and s': "s' = enqueue ''email_verification'' (Some u) (''email_verification:'' @ show_nat (iv_pk i))
         ([(''invitation_id'', PNat (iv_pk i)), (''token'', PStr raw)] @ extra) (note_it s1)"
    by (auto simp: send_verification_def bindE_Inr)
  have "logs s1 s'" unfolding s' by (rule logs_trans [OF assms(2)]) simp
  with c show ?thesis by blast
qed

lemma logs_accounts: "logs s s' \<Longrightarrow> users s' = users s \<and> invitations s' = invitations s \<and> roster s' = roster s
    \<and> rooms s' = rooms s \<and> room_members s' = room_members s \<and> clock_now s' = clock_now s \<and> conf s' = conf s"
  by (simp add: logs_def)

lemma send_verification_ok:
  assumes "send_verification digest raw u actor extra note_it s = Inr (i, s')" "\<And>s. logs s (note_it s)"
  shows "elsewhere s s'" "accounts_ok s \<Longrightarrow> u_pk u \<in> u_pk ` set (users s) \<Longrightarrow> accounts_ok s'"
proof -
  obtain s1 where c: "create_invitation digest raw u EMAIL_VERIFICATION VERIFICATION_TTL actor s = Inr (i, s1)" and l: "logs s1 s'"
    using send_verification_Inr [OF assms] by blast
  show "elsewhere s s'" by (rule elsewhere_trans [OF create_invitation_Inr(5) [OF c] elsewhere_logs [OF l]])
  show "accounts_ok s'" if "accounts_ok s" "u_pk u \<in> u_pk ` set (users s)"
    using create_invitation_ok [OF c that] accounts_ok_cong [of s' s1] logs_accounts [OF l] by simp
qed

lemma resend_verification_ok:
  assumes "resend_verification digest raw u actor s = Inr (i, s')"
  shows "elsewhere s s'" "accounts_ok s \<Longrightarrow> u_pk u \<in> u_pk ` set (users s) \<Longrightarrow> accounts_ok s'"
  using assms send_verification_ok [of digest raw u actor "[]" id s i s']
  by (auto simp: resend_verification_def split: if_splits)

lemma register_account_Inr:
  assumes "register_account iid email name cat s = Inr (u, s')"
  shows "s' = s\<lparr>users := users s @ [u]\<rparr>" "u_pk u = fresh_pk (map u_pk (users s))"
    "u_username u = strip iid" "u_email u = normalize_email email" "u_name_th u = strip name"
    "u_declared_category u = declarable (strip cat)" "u_eligibility u = PENDING" "u_password u = None"
    "u_email_verified_at u = None" "\<not> u_is_superuser u" "\<not> u_is_operational_staff u" "\<not> u_is_teacher u" "u_is_active u"
    "registration_email_allowed (strip iid) (normalize_email email) s" "strip iid \<noteq> ''''"
    "elsewhere s s'" "accounts_ok s \<Longrightarrow> accounts_ok s'"
proof -
  let ?mk = "\<lambda>pk. (blank_user pk)\<lparr>u_username := strip iid, u_email := normalize_email email, u_name_th := strip name,
            u_eligibility := PENDING, u_is_active := True, u_declared_category := declarable (strip cat)\<rparr>"
  have m: "create_user ?mk s = Inr (u, s')" "registration_email_allowed (strip iid) (normalize_email email) s" "strip iid \<noteq> ''''"
    and free: "\<And>v. v \<in> set (users s) \<Longrightarrow> \<not> same_text (u_email v) (normalize_email email)"
    using assms by (auto simp: register_account_def Let_def no_duplicate_def list_ex_iff split: if_splits sum.splits exn.splits)
  note c = create_user_Inr [OF m(1)]
  show "s' = s\<lparr>users := users s @ [u]\<rparr>" "u_pk u = fresh_pk (map u_pk (users s))" "elsewhere s s'" "u_password u = None"
    by (rule c)+
  show name: "u_username u = strip iid" "u_email u = normalize_email email" using c(6,7) by simp_all
  show "u_name_th u = strip name" "u_declared_category u = declarable (strip cat)" "u_eligibility u = PENDING"
    "u_email_verified_at u = None" "\<not> u_is_superuser u" "\<not> u_is_operational_staff u" "\<not> u_is_teacher u" "u_is_active u"
    by (subst c(8), simp add: blank_user_def)+
  show "registration_email_allowed (strip iid) (normalize_email email) s" "strip iid \<noteq> ''''" by (fact m(2,3))+
  show "accounts_ok s'" if "accounts_ok s" by (rule create_user_ok [OF m(1) that]) (use free name(2) in simp)
qed

section \<open>Every operation is safe\<close>

definition account_safe :: "st \<Rightarrow> st \<Rightarrow> bool" where
  "account_safe s s' \<longleftrightarrow> elsewhere s s' \<and> (accounts_ok s \<longrightarrow> accounts_ok s')"

lemma account_safe_refl [simp]: "account_safe s s"
  by (simp add: account_safe_def)

lemma account_safe_trans: "account_safe a b \<Longrightarrow> account_safe b c \<Longrightarrow> account_safe a c"
  using elsewhere_trans by (auto simp: account_safe_def)

lemma account_safe_logs: "logs s s' \<Longrightarrow> account_safe s s'"
  using accounts_ok_cong [of s' s] logs_accounts [of s s'] elsewhere_logs by (auto simp: account_safe_def)

lemma account_safe_steps [intro, simp]:
  assumes "account_safe s s'"
  shows "account_safe s (record_audit a t i ac l ch r s')" "account_safe s (enqueue k rc d p s')" "account_safe s (set_used pk s')"
proof -
  show "account_safe s (record_audit a t i ac l ch r s')" "account_safe s (enqueue k rc d p s')"
    by (rule account_safe_trans [OF assms account_safe_logs], simp)+
  show "account_safe s (set_used pk s')" using assms set_used_ok by (simp add: account_safe_def)
qed

lemma account_safe_save:
  assumes "save_user pk f s = Inr s'" "\<And>u. u_pk (f u) = u_pk u" "\<And>u. u_username (f u) = u_username u" "\<And>u. u_email (f u) = u_email u"
  shows "account_safe s s'"
  using assms(1) accounts_ok_update [where s' = s' and f = f, OF _ _ _ assms(2-4)] by (auto simp: account_safe_def save_user_Inr)

lemma account_safe_invitation:
  "create_invitation digest raw u purpose ttl actor s = Inr (i, s') \<Longrightarrow> u_pk u \<in> u_pk ` set (users s) \<Longrightarrow> account_safe s s'"
  using create_invitation_ok create_invitation_Inr(5) by (auto simp: account_safe_def)

lemma account_safe_roster:
  assumes "apply_roster_eligibility u s = Inr (e, s')" "u_pk u \<in> u_pk ` set (users s)"
  shows "account_safe s s'"
proof -
  from apply_roster_eligibility_run [OF assms(2)] assms(1)
  have r: "elsewhere s s'" "invitations s' = invitations s"
    "users s' = (case automatic_reason s u of None \<Rightarrow> users s
        | Some reason \<Rightarrow> update_row u_pk (u_pk u) (set_eligibility APPROVED (clock_now s) reason) (users s))" by auto
  have "accounts_ok s'" if "accounts_ok s"
  proof (cases "automatic_reason s u")
    case None
    with r that show ?thesis using accounts_ok_cong [of s' s] by simp
  next
    case (Some reason)
    show ?thesis
      by (rule accounts_ok_update [OF that, where f = "set_eligibility APPROVED (clock_now s) reason"])
        (use r Some in \<open>simp_all add: set_eligibility_def\<close>)
  qed
  with r(1) show ?thesis by (simp add: account_safe_def)
qed

lemma save_user_pks:
  assumes "save_user pk f s = Inr s'" "\<And>u. u_pk (f u) = u_pk u"
  shows "u_pk ` set (users s') = u_pk ` set (users s)" "pk \<in> u_pk ` set (users s)"
proof -
  have "map u_pk (users s') = map u_pk (users s)" using assms by (auto simp: save_user_Inr keys_update_row)
  then show "u_pk ` set (users s') = u_pk ` set (users s)" by (metis set_map)
  show "pk \<in> u_pk ` set (users s)" using assms(1) by (simp add: save_user_Inr)
qed

lemma account_safe_confirm:
  assumes "confirm_email u s = Inr (x, s')"
  shows "account_safe s s'"
proof -
  let ?f = "\<lambda>u. u\<lparr>u_email_verified_at := Some (clock_now s)\<rparr>"
  from assms obtain s1 e where s1: "save_user (u_pk u) ?f s = Inr s1"
    and run: "apply_roster_eligibility (?f u) (record_audit ''account.email_verified'' ''User'' (show_nat (u_pk u)) (Some (?f u)) ''''
      [(''email'', PStr (u_email u))] '''' s1) = Inr (e, s')"
    by (auto simp: confirm_email_def Let_def bindE_Inr)
  have "account_safe s s1" by (rule account_safe_save [OF s1]) simp_all
  moreover have "u_pk (?f u) \<in> u_pk ` set (users s1)" using save_user_pks [OF s1] by simp
  ultimately show ?thesis by (intro account_safe_trans [OF _ account_safe_roster [OF run]]) simp_all
qed

lemma store_password_Inr:
  assumes "store_password hasher validators u password via s = Inr (x, s')"
  shows "\<exists>s1. save_user (u_pk u) (\<lambda>u. u\<lparr>u_password := Some (hasher password)\<rparr>) s = Inr s1 \<and> logs s1 s'"
    "x = u\<lparr>u_password := Some (hasher password)\<rparr>" "validators password u = []"
  using assms by (auto simp: store_password_def Let_def bindE_Inr split: if_splits)

lemma account_safe_password:
  assumes "store_password hasher validators u password via s = Inr (x, s')"
  shows "account_safe s s'"
proof -
  from store_password_Inr(1) [OF assms] obtain s1 where
    s1: "save_user (u_pk u) (\<lambda>u. u\<lparr>u_password := Some (hasher password)\<rparr>) s = Inr s1" and l: "logs s1 s'" by blast
  have "account_safe s s1" by (rule account_safe_save [OF s1]) simp_all
  then show ?thesis by (rule account_safe_trans [OF _ account_safe_logs [OF l]])
qed

lemma account_safe_send:
  assumes "send_verification digest raw u actor extra note_it s = Inr (i, s')" "\<And>s. logs s (note_it s)" "u_pk u \<in> u_pk ` set (users s)"
  shows "account_safe s s'"
  using send_verification_ok [OF assms(1,2)] assms(3) by (simp add: account_safe_def)

lemma account_safe_registration:
  assumes "start_registration digest raw iid email name cat actor s = (r, s')"
  shows "account_safe s s'"
proof (cases "register_account iid email name cat s")
  case (Inl e)
  with assms show ?thesis by (simp add: start_registration_def)
next
  case (Inr p)
  obtain u s1 where p: "p = (u, s1)" by (cases p)
  note reg = register_account_Inr [OF Inr [unfolded p]]
  have s1: "account_safe s s1" using reg(16,17) by (simp add: account_safe_def)
  let ?note = "record_audit ''account.registered'' ''User'' (show_nat (u_pk u)) None ''self-registration''
     [(''institutional_id'', PStr (strip iid)), (''eligibility'', PStr (eligibility_value (u_eligibility u))),
      (''declared_category'', PStr (strip cat))] ''''"
  show ?thesis
  proof (cases "send_verification digest raw u actor [(''institutional_id'', PStr (strip iid))] ?note s1")
    case (Inl e)
    with assms s1 \<open>register_account iid email name cat s = Inr p\<close> show ?thesis by (simp add: start_registration_def p)
  next
    case (Inr q)
    obtain i s2 where q: "q = (i, s2)" by (cases q)
    have "account_safe s1 s2"
      by (rule account_safe_send [OF Inr [unfolded q]]) (use reg(1) in simp_all)
    with s1 have "account_safe s s2" by (rule account_safe_trans)
    then show ?thesis
      using assms Inr \<open>register_account iid email name cat s = Inr p\<close> by (simp add: start_registration_def p q)
  qed
qed

lemma account_safe_verify:
  assumes "verify_email digest raw s = Inr (u, i, s')"
  shows "account_safe s s'"
proof -
  from assms obtain i0 :: invitation where c: "confirm_email (user_of s (iv_user i0)) (set_used (iv_pk i0) s) = Inr (u, s')"
    by (auto simp: verify_email_def bindE_Inr)
  show ?thesis by (rule account_safe_trans [OF account_safe_steps(3) [OF account_safe_refl] account_safe_confirm [OF c]])
qed

lemma account_safe_set_password:
  assumes "set_initial_password digest hasher validators pk password raw purpose s = Inr s'"
  shows "account_safe s s'"
  using assms account_safe_password by (auto simp: set_initial_password_def bindE_Inr split: if_splits)

lemma account_safe_complete:
  assumes "complete_registration digest hasher validators raw password s = Inr (u, s')"
  shows "account_safe s s'"
proof -
  from assms obtain i :: invitation and x s1 where
    p: "store_password hasher validators (user_of s (iv_user i)) password (purpose_value EMAIL_VERIFICATION) s = Inr (x, s1)"
    and c: "confirm_email x (set_used (iv_pk i) s1) = Inr (u, s')"
    by (auto simp: complete_registration_def bindE_Inr simp del: purpose_value.simps)
  have "account_safe s (set_used (iv_pk i) s1)" by (rule account_safe_steps(3) [OF account_safe_password [OF p]])
  then show ?thesis by (rule account_safe_trans [OF _ account_safe_confirm [OF c]])
qed

lemma request_reset_Inr:
  assumes "request_reset digest raw u s = Inr s'"
  shows "\<exists>i s1. create_invitation digest raw u PASSWORD_RESET PASSWORD_RESET_TTL None s = Inr (i, s1) \<and> logs s1 s'"
  using assms by (auto simp: request_reset_def bindE_Inr)

lemma account_safe_resets:
  assumes "request_resets digest token us s = (r, s')" "u_pk ` set us \<subseteq> u_pk ` set (users s)"
  shows "account_safe s s'"
  using assms
proof (induction us arbitrary: s)
  case Nil
  then show ?case by simp
next
  case (Cons u us)
  show ?case
  proof (cases "request_reset digest (token (u_pk u)) u s")
    case (Inl e)
    with Cons.prems show ?thesis by simp
  next
    case (Inr s1)
    from request_reset_Inr [OF this] obtain i t where
      c: "create_invitation digest (token (u_pk u)) u PASSWORD_RESET PASSWORD_RESET_TTL None s = Inr (i, t)" and l: "logs t s1" by blast
    have "account_safe s t" by (rule account_safe_invitation [OF c]) (use Cons.prems(2) in simp)
    then have one: "account_safe s s1" by (rule account_safe_trans [OF _ account_safe_logs [OF l]])
    have "users s1 = users s" using create_invitation_Inr(4) [OF c] logs_accounts [OF l] by simp
    then have "account_safe s1 s'" using Cons.IH [of s1] Cons.prems Inr by simp
    with one show ?thesis by (rule account_safe_trans)
  qed
qed

lemma account_safe_reset:
  assumes "start_password_reset digest token email s = (r, s')"
  shows "account_safe s s'"
  using assms account_safe_resets [of digest token _ s r s'] by (fastforce simp: start_password_reset_def Let_def split: if_splits)

lemma account_safe_link:
  assumes "issue_password_link digest raw u actor s = Inr (i, s')" "u_pk u \<in> u_pk ` set (users s)"
  shows "account_safe s s'"
  using assms account_safe_invitation by (auto simp: issue_password_link_def bindE_Inr split: if_splits)

text \<open>A change of address: nobody else has the new one.\<close>

lemma account_safe_change:
  assumes "change_email digest raw u new_email actor s = Inr (x, s')"
  shows "account_safe s s'"
proof -
  let ?new = "normalize_email new_email"
  let ?f = "\<lambda>u. u\<lparr>u_email := ?new, u_email_verified_at := None, u_eligibility := PENDING,
                   u_eligibility_decided_at := None, u_eligibility_reason := ''''\<rparr>"
  from assms have free: "\<And>v. v \<in> set (users s) \<Longrightarrow> u_pk v \<noteq> u_pk u \<Longrightarrow> \<not> same_text (u_email v) ?new"
    by (auto simp: change_email_def Let_def list_ex_iff split: if_splits)
  let ?note = "record_audit ''account.email_changed'' ''User'' (show_nat (u_pk u)) (if actor = None then Some (?f u) else actor) ''''
     [(''from'', PStr (u_email u)), (''to'', PStr ?new)] ''''"
  from assms obtain s1 i where s1: "save_user (u_pk u) ?f s = Inr s1"
    and resend: "resend_verification digest raw (?f u) actor (?note s1) = Inr (i, s')"
    by (auto simp: change_email_def Let_def bindE_Inr simp del: if_split split: if_splits)
  define t where "t = ?note s1"
  have t: "logs s1 t" by (simp add: t_def)
  note resend = resend [folded t_def]
  have us: "users s1 = update_row u_pk (u_pk u) ?f (users s)" "invitations s1 = invitations s" "elsewhere s s1"
    using s1 by (auto simp: save_user_Inr)
  have "accounts_ok s1" if ok: "accounts_ok s"
  proof -
    from ok have n: "names_ok (users s)" by (simp add: accounts_ok_def)
    have "distinct (map (\<lambda>u. lower (u_email u)) (update_row u_pk (u_pk u) ?f (users s)))"
      by (rule distinct_update_row [where a = ?new]) (use n free in \<open>auto simp: names_ok_def same_text_def\<close>)
    moreover have "map u_pk (users s1) = map u_pk (users s)" "map u_username (users s1) = map u_username (users s)"
      unfolding us(1) by (simp_all add: update_row_def)
    ultimately have "names_ok (users s1)" using n us(1) by (simp add: names_ok_def)
    moreover have "u_pk ` set (users s1) = u_pk ` set (users s)" using save_user_pks(1) [OF s1] by simp
    ultimately show ?thesis using ok us(2) by (simp add: accounts_ok_def)
  qed
  then have one: "account_safe s s1" using us(3) by (simp add: account_safe_def)
  have pks: "u_pk (?f u) \<in> u_pk ` set (users t)" using save_user_pks [OF s1] logs_accounts [OF t] by simp
  have "account_safe t s'" using resend_verification_ok [OF resend] pks by (simp add: account_safe_def)
  then show ?thesis using one account_safe_logs [OF t] account_safe_trans by blast
qed

lemma invited_user_cases:
  assumes "invited_user iid email name staff teacher s = Inr (u, created, s')"
  shows "(\<not> created \<and> s' = s \<and> u \<in> set (users s) \<and> u_username u = iid)
    \<or> (created \<and> create_user (\<lambda>pk. (blank_user pk)\<lparr>u_username := iid, u_email := email, u_name_th := name,
              u_eligibility := APPROVED, u_is_operational_staff := staff, u_is_teacher := teacher,
              u_email_verified_at := Some (clock_now s)\<rparr>) s = Inr (u, s')
        \<and> (\<forall>v \<in> set (users s). \<not> same_text (u_email v) email))"
  using assms by (auto simp: invited_user_def bindE_Inr list_ex_iff split: option.splits if_splits dest!: first_row_Some)

lemma account_safe_invited:
  assumes "invited_user iid (normalize_email email) name staff teacher s = Inr (u, created, s')"
  shows "account_safe s s'" "u \<in> set (users s')"
proof -
  note cases = invited_user_cases [OF assms]
  have new: "account_safe s s' \<and> u \<in> set (users s')"
    if c: "create_user mk s = Inr (u, s')" and e: "u_email (mk (u_pk u)) = normalize_email email"
      and free: "\<forall>v \<in> set (users s). \<not> same_text (u_email v) (normalize_email email)" for mk
  proof -
    note f = create_user_Inr [OF c]
    have "accounts_ok s'" if "accounts_ok s" by (rule create_user_ok [OF c that]) (use f(7) e free in simp)
    with f(2,5) show ?thesis by (auto simp: account_safe_def)
  qed
  from cases have "account_safe s s' \<and> u \<in> set (users s')"
    by (elim disjE conjE) (use new in \<open>simp_all\<close>)
  then show "account_safe s s'" "u \<in> set (users s')" by simp_all
qed

lemma account_safe_invite:
  assumes "invite_account digest raw iid email name actor staff teacher reason s = Inr ((u, i), s')"
  shows "account_safe s s'"
proof -
  from assms obtain iid' s1 s2 created where inv: "invited_user iid' (normalize_email email) name staff teacher s = Inr (u, created, s1)"
    and c: "create_invitation digest raw u ACCOUNT_ACTIVATION ACTIVATION_TTL actor s1 = Inr (i, s2)" and l: "logs s2 s'"
    by (auto simp: invite_account_def Let_def bindE_Inr split: if_splits)
  note one = account_safe_invited [OF inv]
  have "account_safe s1 s2" by (rule account_safe_invitation [OF c]) (use one(2) in simp)
  with one(1) account_safe_logs [OF l] show ?thesis using account_safe_trans by blast
qed

lemma account_safe_decide: "decide_eligibility u decision reason a s = Inr (x, s') \<Longrightarrow> account_safe s s'"
  by (auto simp: decide_eligibility_def Let_def bindE_Inr split: option.splits if_splits
      intro!: account_safe_steps elim!: account_safe_save simp: set_eligibility_def)

lemma account_safe_category: "set_declared_category u c a s = Inr (x, s') \<Longrightarrow> account_safe s s'"
  by (auto simp: set_declared_category_def Let_def bindE_Inr split: if_splits
      intro!: account_safe_steps elim!: account_safe_save)

lemma account_safe_correct:
  assumes "correct_institutional_id uok u new_id reason a s = Inr (x, s')"
  shows "account_safe s s'"
proof -
  let ?new = "strip new_id"
  let ?f = "\<lambda>u. u\<lparr>u_username := ?new\<rparr>"
  from assms obtain s1 where s1: "save_user (u_pk u) ?f s = Inr s1" and l: "logs s1 s'"
    by (auto simp: correct_institutional_id_def Let_def bindE_Inr split: if_splits)
  from assms have free: "\<And>v. v \<in> set (users s) \<Longrightarrow> u_pk v \<noteq> u_pk u \<Longrightarrow> u_username v \<noteq> ?new"
    by (auto simp: correct_institutional_id_def Let_def list_ex_iff split: if_splits)
  have us: "users s1 = update_row u_pk (u_pk u) ?f (users s)" "invitations s1 = invitations s" "elsewhere s s1"
    using s1 by (auto simp: save_user_Inr)
  have "accounts_ok s1" if ok: "accounts_ok s"
  proof -
    from ok have n: "names_ok (users s)" by (simp add: accounts_ok_def)
    have "distinct (map u_username (update_row u_pk (u_pk u) ?f (users s)))"
      by (rule distinct_update_row [where a = ?new]) (use n free in \<open>auto simp: names_ok_def\<close>)
    moreover have "map u_pk (users s1) = map u_pk (users s)"
      "map (\<lambda>u. lower (u_email u)) (users s1) = map (\<lambda>u. lower (u_email u)) (users s)"
      unfolding us(1) by (simp_all add: update_row_def)
    ultimately have "names_ok (users s1)" using n us(1) by (simp add: names_ok_def)
    moreover have "u_pk ` set (users s1) = u_pk ` set (users s)" using save_user_pks(1) [OF s1] by simp
    ultimately show ?thesis using ok us(2) by (simp add: accounts_ok_def)
  qed
  then have "account_safe s s1" using us(3) by (simp add: account_safe_def)
  then show ?thesis using account_safe_logs [OF l] account_safe_trans by blast
qed

text \<open>The services of the accounts as one relation. An instance a service gets is a copy of a row that is there.\<close>

inductive account_step :: "st \<Rightarrow> st \<Rightarrow> bool" where
  register: "start_registration digest raw iid email name cat actor s = (r, s') \<Longrightarrow> account_step s s'"
| resend: "resend_verification digest raw u actor s = Inr (i, s') \<Longrightarrow> u_pk u \<in> u_pk ` set (users s) \<Longrightarrow> account_step s s'"
| verify: "verify_email digest raw s = Inr (u, i, s') \<Longrightarrow> account_step s s'"
| complete: "complete_registration digest hasher validators raw password s = Inr (u, s') \<Longrightarrow> account_step s s'"
| set_password: "set_initial_password digest hasher validators pk password raw purpose s = Inr s' \<Longrightarrow> account_step s s'"
| reset: "start_password_reset digest token email s = (r, s') \<Longrightarrow> account_step s s'"
| link: "issue_password_link digest raw u actor s = Inr (i, s') \<Longrightarrow> u_pk u \<in> u_pk ` set (users s) \<Longrightarrow> account_step s s'"
| change: "change_email digest raw u new_email actor s = Inr (u', s') \<Longrightarrow> account_step s s'"
| invite: "invite_account digest raw iid email name actor staff teacher reason s = Inr ((u, i), s') \<Longrightarrow> account_step s s'"
| decide: "decide_eligibility u decision reason a s = Inr (u', s') \<Longrightarrow> account_step s s'"
| declared: "set_declared_category u c a s = Inr (u', s') \<Longrightarrow> account_step s s'"
| correct: "correct_institutional_id uok u new_id reason a s = Inr (u', s') \<Longrightarrow> account_step s s'"

lemma account_step_safe: "account_step s s' \<Longrightarrow> account_safe s s'"
  by (induction rule: account_step.induct)
    (auto dest: account_safe_registration account_safe_verify account_safe_complete account_safe_set_password account_safe_reset
      account_safe_link account_safe_change account_safe_invite account_safe_decide account_safe_category account_safe_correct
      resend_verification_ok simp: account_safe_def [of _ _] split: if_splits)

interpretation invite_service: service_body "invite_body digest site path raw iid email name staff teacher"
  for digest site path raw iid email name staff teacher
  by (rule service_body_elsewhere) (auto simp: invite_body_def bindE_Inr dest!: account_safe_invite simp: account_safe_def)

interpretation password_link_service: service_body "password_link_body digest site path raw u" for digest site path raw u
  by (rule service_body_elsewhere)
    (auto simp: password_link_body_def issue_password_link_def bindE_Inr split: if_splits dest!: create_invitation_Inr(5))

section \<open>What a completed registration writes\<close>

lemma update_row_twice:
  assumes "\<And>x. key (f x) = key x"
  shows "update_row key k g (update_row key k f xs) = update_row key k (g \<circ> f) xs"
  by (simp add: update_row_def assms)

lemma latest_generation_iff:
  "latest_generation s pk p = Some g \<longleftrightarrow> (\<exists>i \<in> set (invitations s). iv_user i = pk \<and> iv_purpose i = p \<and> iv_generation i = g)
     \<and> (\<forall>i \<in> set (invitations s). iv_user i = pk \<longrightarrow> iv_purpose i = p \<longrightarrow> iv_generation i \<le> g)"
  using latest_generation_Some [of s pk p g] latest_generationI [of _ s pk p] by blast

lemma current_used:
  assumes "invitations s' = update_row iv_pk pk (\<lambda>i. i\<lparr>iv_used_at := Some t\<rparr>) (invitations s)" "invitation_is_current i s"
    and "iv_user j = iv_user i" "iv_purpose j = iv_purpose i" "iv_generation j = iv_generation i"
  shows "invitation_is_current j s'"
proof -
  let ?f = "\<lambda>i. if iv_pk i = pk then i\<lparr>iv_used_at := Some t\<rparr> else i"
  have same: "iv_user (?f x) = iv_user x" "iv_purpose (?f x) = iv_purpose x" "iv_generation (?f x) = iv_generation x" for x
    by simp_all
  have "(\<exists>x \<in> set (invitations s'). P (iv_user x) (iv_purpose x) (iv_generation x))
      = (\<exists>x \<in> set (invitations s). P (iv_user x) (iv_purpose x) (iv_generation x))"
    "(\<forall>x \<in> set (invitations s'). P (iv_user x) (iv_purpose x) (iv_generation x))
      = (\<forall>x \<in> set (invitations s). P (iv_user x) (iv_purpose x) (iv_generation x))" for P
    unfolding assms(1) update_row_def set_map ball_simps bex_simps same by simp_all
  note moved = this
  show ?thesis
    using assms(2) unfolding invitation_is_current_def assms(3-5) latest_generation_iff
    using moved(1) [of "\<lambda>a b c. a = iv_user i \<and> b = iv_purpose i \<and> c = iv_generation i"]
      moved(2) [of "\<lambda>a b c. a = iv_user i \<longrightarrow> b = iv_purpose i \<longrightarrow> c \<le> iv_generation i"] by simp
qed

text \<open>A link that has been used answers so, whenever it is tried again.\<close>

lemma used_link:
  assumes "invitation_of digest raw (Some purpose) s = Some i" "assert_redeemable (Some i) (Some purpose) s = Inr i"
    and "invitations s' = update_row iv_pk (iv_pk i) (\<lambda>i. i\<lparr>iv_used_at := Some t\<rparr>) (invitations s)"
  shows "assert_redeemable (invitation_of digest raw (Some purpose) s') (Some purpose) s' = Inl (rejected Code_TOKEN_USED [])"
proof -
  let ?P = "\<lambda>x. iv_token_digest x = digest raw \<and> purpose = iv_purpose x"
  let ?f = "\<lambda>i. i\<lparr>iv_used_at := Some t\<rparr>"
  note m = invitation_of_Some [OF assms(1)] and r = assms(2) [unfolded assert_redeemable_Inr]
  from assms(1) obtain xs where xs: "filter ?P (invitations s) = i # xs"
    by (cases "filter ?P (invitations s)") (auto simp: invitation_of_def)
  have "filter ?P (invitations s') = map (\<lambda>x. if iv_pk x = iv_pk i then ?f x else x) (filter ?P (invitations s))"
    unfolding assms(3) update_row_def by (simp add: filter_map o_def if_distrib [of iv_token_digest] if_distrib [of iv_purpose] cong: if_cong)
  then have found: "invitation_of digest raw (Some purpose) s' = Some (?f i)"
    unfolding invitation_of_def by (simp add: xs)
  have "invitation_is_current (?f i) s'" by (rule current_used [OF assms(3)]) (use r in simp_all)
  with found r show ?thesis by (simp add: assert_redeemable_def)
qed

lemma automatic_reason_cong:
  assumes "roster s' = roster s" "rooms s' = rooms s" "room_members s' = room_members s"
  shows "automatic_reason s' u = automatic_reason s u"
proof -
  have "on_roster s' u = on_roster s u" by (simp add: on_roster_def assms)
  moreover have "vouched_for s' u = vouched_for s u"
    by (simp add: vouched_for_def room_list_vouches_for_def roster_claims_id_def room_of_def assms)
  ultimately show ?thesis by (simp add: automatic_reason_def)
qed

text \<open>The account as a completed registration leaves it.\<close>

definition assessed :: "st \<Rightarrow> user \<Rightarrow> user" where
  "assessed s u = (case automatic_reason s u of None \<Rightarrow> u | Some reason \<Rightarrow> set_eligibility APPROVED (clock_now s) reason u)"

lemma assessed_simps [simp]:
  "u_pk (assessed s u) = u_pk u" "u_password (assessed s u) = u_password u" "u_email (assessed s u) = u_email u"
  "u_username (assessed s u) = u_username u" "u_email_verified_at (assessed s u) = u_email_verified_at u"
  "u_eligibility (assessed s u) = (if automatic_reason s u = None then u_eligibility u else APPROVED)"
  by (auto simp: assessed_def set_eligibility_def split: option.splits)

lemma confirm_email_run:
  assumes "u \<in> set (users s)" "distinct (map u_pk (users s))"
  shows "\<exists>s'. confirm_email u s = Inr (assessed s (u\<lparr>u_email_verified_at := Some (clock_now s)\<rparr>), s')
    \<and> users s' = update_row u_pk (u_pk u) (\<lambda>_. assessed s (u\<lparr>u_email_verified_at := Some (clock_now s)\<rparr>)) (users s)
    \<and> invitations s' = invitations s \<and> clock_now s' = clock_now s"
proof -
  let ?f = "\<lambda>u. u\<lparr>u_email_verified_at := Some (clock_now s)\<rparr>"
  let ?g = "assessed s (?f u)"
  define s1 where "s1 = record_audit ''account.email_verified'' ''User'' (show_nat (u_pk u)) (Some (?f u)) ''''
      [(''email'', PStr (u_email u))] '''' (s\<lparr>users := update_row u_pk (u_pk u) ?f (users s)\<rparr>)"
  have s1: "users s1 = update_row u_pk (u_pk u) ?f (users s)" "roster s1 = roster s" "rooms s1 = rooms s"
    "room_members s1 = room_members s" "invitations s1 = invitations s" "clock_now s1 = clock_now s" by (simp_all add: s1_def)
  have save: "save_user (u_pk u) ?f s = Inr (s\<lparr>users := update_row u_pk (u_pk u) ?f (users s)\<rparr>)"
    using assms(1) by (simp add: save_user_Inr)
  have "u_pk (?f u) \<in> u_pk ` set (users s1)" using save_user_pks [OF save] s1(1) by simp
  from apply_roster_eligibility_run [OF this] obtain e s' where
    run: "apply_roster_eligibility (?f u) s1 = Inr (e, s')" and k: "elsewhere s1 s'" "invitations s' = invitations s1"
    and us: "users s' = (case automatic_reason s1 (?f u) of None \<Rightarrow> users s1
        | Some reason \<Rightarrow> update_row u_pk (u_pk (?f u)) (set_eligibility APPROVED (clock_now s1) reason) (users s1))" by blast
  have ar: "automatic_reason s1 (?f u) = automatic_reason s (?f u)" by (rule automatic_reason_cong [OF s1(2-4)])
  have us': "users s' = update_row u_pk (u_pk u) (\<lambda>_. ?g) (users s)"
  proof (cases "automatic_reason s (?f u)")
    case None
    then have "users s' = update_row u_pk (u_pk u) ?f (users s)" using us ar s1(1) by simp
    also have "\<dots> = update_row u_pk (u_pk u) (\<lambda>_. ?f u) (users s)" by (rule update_row_const [OF assms(2,1)])
    finally show ?thesis using None by (simp add: assessed_def)
  next
    case (Some reason)
    then have "users s' = update_row u_pk (u_pk u) (set_eligibility APPROVED (clock_now s) reason \<circ> ?f) (users s)"
      using us ar s1 by (simp add: update_row_twice)
    also have "\<dots> = update_row u_pk (u_pk u) (\<lambda>_. (set_eligibility APPROVED (clock_now s) reason \<circ> ?f) u) (users s)"
      by (rule update_row_const [OF assms(2,1)])
    finally show ?thesis using Some by (simp add: assessed_def)
  qed
  have "?g \<in> set (users s')" "distinct (map u_pk (users s'))"
    unfolding us' using assms by (auto simp: set_update_row) (simp add: update_row_def o_def if_distrib cong: if_cong)
  then have "user_of s' (u_pk u) = ?g" using get_row_unique [of u_pk "users s'" ?g] by (simp add: user_of_def)
  then have "confirm_email u s = Inr (?g, s')"
    using run save unfolding s1_def by (simp add: confirm_email_def Let_def)
  moreover have "clock_now s' = clock_now s" using k(1) s1(6) by (simp add: elsewhere_def)
  ultimately show ?thesis using us' k(2) s1(5) by (intro exI [of _ s'] conjI) simp_all
qed

text \<open>The row as \<open>complete_registration\<close> leaves it: a password, a verified address, and approval when the lists give it.\<close>

definition registered :: "(string \<Rightarrow> string) \<Rightarrow> string \<Rightarrow> st \<Rightarrow> user \<Rightarrow> user" where
  "registered hasher password s u = assessed s (u\<lparr>u_password := Some (hasher password), u_email_verified_at := Some (clock_now s)\<rparr>)"

lemma registered_simps [simp]:
  "u_pk (registered hasher password s u) = u_pk u" "u_password (registered hasher password s u) = Some (hasher password)"
  "u_email_verified_at (registered hasher password s u) = Some (clock_now s)"
  "u_email (registered hasher password s u) = u_email u" "u_username (registered hasher password s u) = u_username u"
  by (simp_all add: registered_def)

lemma registered_eligibility:
  "u_eligibility (registered hasher password s u) =
    (if on_roster s u \<or> u_eligibility u = PENDING \<and> vouched_for s u then APPROVED else u_eligibility u)"
  by (auto simp: registered_def automatic_reason_def on_roster_def vouched_for_def email_is_verified_def)

lemma accounts_okD:
  assumes "accounts_ok s"
  shows "distinct (map u_pk (users s))" "distinct (map iv_pk (invitations s))"
    "i \<in> set (invitations s) \<Longrightarrow> user_of s (iv_user i) \<in> set (users s)"
proof -
  show d: "distinct (map u_pk (users s))" "distinct (map iv_pk (invitations s))"
    using assms by (simp_all add: accounts_ok_def names_ok_def links_ok_def)
  show "user_of s (iv_user i) \<in> set (users s)" if "i \<in> set (invitations s)"
  proof -
    from that assms obtain v where v: "v \<in> set (users s)" "u_pk v = iv_user i" by (fastforce simp: accounts_ok_def links_ok_def)
    then have "user_of s (iv_user i) = v" using get_row_unique [OF d(1) v(1)] by (simp add: user_of_def)
    with v show ?thesis by simp
  qed
qed

lemma complete_registration_run:
  assumes ok: "accounts_ok s" and i: "invitation_of digest raw (Some EMAIL_VERIFICATION) s = Some i"
    and r: "assert_redeemable (Some i) (Some EMAIL_VERIFICATION) s = Inr i"
    and "validators password (user_of s (iv_user i)) = []"
  shows "\<exists>s'. complete_registration digest hasher validators raw password s = Inr (registered hasher password s (user_of s (iv_user i)), s')
    \<and> users s' = update_row u_pk (iv_user i) (\<lambda>_. registered hasher password s (user_of s (iv_user i))) (users s)
    \<and> invitations s' = update_row iv_pk (iv_pk i) (\<lambda>i. i\<lparr>iv_used_at := Some (clock_now s)\<rparr>) (invitations s)"
proof -
  let ?u = "user_of s (iv_user i)"
  let ?p = "\<lambda>u. u\<lparr>u_password := Some (hasher password)\<rparr>"
  note m = invitation_of_Some [OF i] and d = accounts_okD [OF ok]
  have u: "?u \<in> set (users s)" using d(3) m by blast
  then have owner: "iv_user i \<in> u_pk ` set (users s)" by (rule rev_image_eqI) simp
  define s1 where "s1 = set_used (iv_pk i) (record_audit ''account.password_set'' ''User'' (show_nat (iv_user i)) (Some (?p ?u)) ''''
      [(''via'', PStr (purpose_value EMAIL_VERIFICATION))] '''' (s\<lparr>users := update_row u_pk (iv_user i) ?p (users s)\<rparr>))"
  have us: "users s1 = update_row u_pk (iv_user i) (\<lambda>_. ?p ?u) (users s)" "clock_now s1 = clock_now s"
    "roster s1 = roster s" "rooms s1 = rooms s" "room_members s1 = room_members s"
    "invitations s1 = update_row iv_pk (iv_pk i) (\<lambda>i. i\<lparr>iv_used_at := Some (clock_now s)\<rparr>) (invitations s)"
    using update_row_const [OF d(1) u, of ?p] by (simp_all add: s1_def set_used_def)
  have "?p ?u \<in> set (users s1)" using u unfolding us(1) by (auto simp: set_update_row)
  moreover have "distinct (map u_pk (users s1))"
    using d(1) unfolding us(1) by (simp add: update_row_def o_def if_distrib cong: if_cong)
  ultimately obtain s' where run: "confirm_email (?p ?u) s1 = Inr (assessed s1 ((?p ?u)\<lparr>u_email_verified_at := Some (clock_now s1)\<rparr>), s')"
    and s': "users s' = update_row u_pk (u_pk (?p ?u)) (\<lambda>_. assessed s1 ((?p ?u)\<lparr>u_email_verified_at := Some (clock_now s1)\<rparr>)) (users s1)"
      "invitations s' = invitations s1"
    using confirm_email_run by blast
  have g: "assessed s1 ((?p ?u)\<lparr>u_email_verified_at := Some (clock_now s1)\<rparr>) = registered hasher password s ?u"
    unfolding registered_def assessed_def us(2) automatic_reason_cong [OF us(3-5)] by simp
  have "complete_registration digest hasher validators raw password s = Inr (registered hasher password s ?u, s')"
    using i r assms(4) owner run unfolding g
    by (simp add: complete_registration_def store_password_def save_user_def s1_def Let_def)
  moreover have "users s' = update_row u_pk (iv_user i) (\<lambda>_. registered hasher password s ?u) (users s)"
    unfolding s'(1) g us(1) by (simp add: update_row_def)
  ultimately show ?thesis using s'(2) us(6) by (intro exI [of _ s'] conjI) simp_all
qed

section \<open>Properties\<close>

text \<open>C31: Whatever the account services do, in any order and with anything else in between that leaves the accounts
  alone, no two accounts share a user name or, up to case, an address, and no account has two links for a purpose that
  could both be redeemed.\<close>

theorem accounts_stay_unique:
  assumes "rtranclp (\<lambda>a b. account_step a b \<or> (users b = users a \<and> invitations b = invitations a)) s s'" "accounts_ok s"
  shows "distinct (map u_username (users s')) \<and> distinct (map (\<lambda>u. lower (u_email u)) (users s'))
    \<and> (\<forall>i \<in> set (invitations s'). \<forall>j \<in> set (invitations s'). iv_user i = iv_user j \<longrightarrow> iv_purpose i = iv_purpose j
        \<longrightarrow> assert_redeemable (Some i) None s' = Inr i \<longrightarrow> assert_redeemable (Some j) None s' = Inr j \<longrightarrow> i = j)"
proof -
  from assms have "accounts_ok s'"
  proof (induction rule: rtranclp_induct)
    case (step a b)
    then show ?case using account_step_safe accounts_ok_cong [of b a] by (auto simp: account_safe_def)
  qed
  then have ok: "names_ok (users s')" "one_open_link (invitations s')" by (simp_all add: accounts_ok_def links_ok_def)
  then show ?thesis by (auto simp: names_ok_def one_open_link_def is_open_link_def assert_redeemable_Inr)
qed

text \<open>C33: Of the links an account was sent for a purpose only the newest works, and only until it expires: a new link is
  found by its token and redeemable before its time is up, and every older one answers that it has expired.\<close>

theorem newest_link_only:
  assumes "create_invitation digest raw u purpose ttl actor s = Inr (i, s1)" "raw \<noteq> ''''" "invitations s' = invitations s1"
  shows "assert_redeemable (find_invitation digest raw (Some purpose) s') (Some purpose) s'
       = (if clock_now s' < clock_now s + ttl then Inr i else Inl (rejected Code_TOKEN_EXPIRED []))
    \<and> (\<forall>old_raw old. find_invitation digest old_raw (Some purpose) s = Some old \<and> iv_user old = u_pk u \<longrightarrow>
         assert_redeemable (find_invitation digest old_raw (Some purpose) s') (Some purpose) s' = Inl (rejected Code_TOKEN_EXPIRED []))"
proof (intro conjI allI impI)
  note f = fresh_link [OF assms(1,3)] and c = create_invitation_Inr(1) [OF assms(1)]
  show "assert_redeemable (find_invitation digest raw (Some purpose) s') (Some purpose) s'
       = (if clock_now s' < clock_now s + ttl then Inr i else Inl (rejected Code_TOKEN_EXPIRED []))"
    using f c assms(2) by (simp add: find_invitation_def assert_redeemable_def)
  fix old_raw old
  assume old: "find_invitation digest old_raw (Some purpose) s = Some old \<and> iv_user old = u_pk u"
  then show "assert_redeemable (find_invitation digest old_raw (Some purpose) s') (Some purpose) s' = Inl (rejected Code_TOKEN_EXPIRED [])"
    using older_link [OF assms(1,3), of old_raw old] by (simp add: find_invitation_def split: if_splits)
qed

text \<open>Redeeming a verification link sets the password, stamps the address as verified and approves the account exactly when
  the roster has its ID with its address, or it was pending and a room list vouches for it; no other account changes, and the
  same link is refused from then on. A password the validators refuse is reported and leaves the link as it was.\<close>

theorem complete_registration_effect:
  assumes "accounts_ok s" "invitation_of digest raw (Some EMAIL_VERIFICATION) s = Some i"
    and "assert_redeemable (Some i) (Some EMAIL_VERIFICATION) s = Inr i" "u = user_of s (iv_user i)"
  shows "if validators password u \<noteq> []
    then complete_registration digest hasher validators raw password s
      = Inl (rejected Code_INVALID_INPUT [(''errors'', PList (map PStr (validators password u)))])
    else \<exists>u' s'. complete_registration digest hasher validators raw password s = Inr (u', s')
      \<and> users s' = update_row u_pk (u_pk u) (\<lambda>_. u') (users s) \<and> u_pk u' = u_pk u \<and> u_password u' = Some (hasher password)
      \<and> u_email_verified_at u' = Some (clock_now s)
      \<and> u_eligibility u' = (if on_roster s u \<or> u_eligibility u = PENDING \<and> vouched_for s u then APPROVED else u_eligibility u)
      \<and> (\<forall>t password'. complete_registration digest hasher validators raw password' (s'\<lparr>clock_now := t\<rparr>)
           = Inl (rejected Code_TOKEN_USED []))"
proof (cases "validators password u = []")
  case False
  then show ?thesis using assms(2-4) by (simp add: complete_registration_def store_password_def)
next
  case True
  from complete_registration_run [where hasher = hasher and validators = validators and password = password, OF assms(1-3) True [unfolded assms(4)]] obtain s' where
    run: "complete_registration digest hasher validators raw password s = Inr (registered hasher password s u, s')"
      "users s' = update_row u_pk (u_pk u) (\<lambda>_. registered hasher password s u) (users s)"
    and iv: "invitations s' = update_row iv_pk (iv_pk i) (\<lambda>i. i\<lparr>iv_used_at := Some (clock_now s)\<rparr>) (invitations s)"
    unfolding assms(4) user_of_pk by blast
  have "complete_registration digest hasher validators raw password' (s'\<lparr>clock_now := t\<rparr>) = Inl (rejected Code_TOKEN_USED [])"
    for t password'
    using used_link [OF assms(2,3), of "s'\<lparr>clock_now := t\<rparr>" "clock_now s"] iv by (simp add: complete_registration_def)
  with run True show ?thesis by (auto simp: registered_eligibility intro!: exI)
qed

text \<open>C32: A student who registers and follows the emailed link within three days gets the account: one row is added, with the
  ID and address typed, no password and no privilege; redeeming the link gives it the password and verifies the address,
  and it is approved exactly when the roster matches or a room list vouches for it.\<close>

theorem registration_roundtrip:
  assumes "accounts_ok s" "start_registration digest raw iid email name cat actor s = (Inr i, s1)"
    and "t < clock_now s + 3 * 24 * us_hour" "\<And>u. validators password u = []"
  shows "\<exists>u u' s'. users s1 = users s @ [u] \<and> u_username u = strip iid \<and> u_email u = normalize_email email
    \<and> u_password u = None \<and> u_email_verified_at u = None \<and> \<not> u_is_superuser u \<and> \<not> u_is_operational_staff u \<and> \<not> u_is_teacher u
    \<and> complete_registration digest hasher validators raw password (s1\<lparr>clock_now := t\<rparr>) = Inr (u', s') \<and> users s' = users s @ [u']
    \<and> u_password u' = Some (hasher password) \<and> u_email_verified_at u' = Some t
    \<and> (u_eligibility u' = APPROVED \<longleftrightarrow> on_roster s u \<or> vouched_for s u)"
proof -
  obtain u s0 where reg: "register_account iid email name cat s = Inr (u, s0)"
    using assms(2) by (cases "register_account iid email name cat s") (auto simp: start_registration_def)
  note g = register_account_Inr [OF reg]
  let ?note = "record_audit ''account.registered'' ''User'' (show_nat (u_pk u)) None ''self-registration''
     [(''institutional_id'', PStr (strip iid)), (''eligibility'', PStr (eligibility_value (u_eligibility u))),
      (''declared_category'', PStr (strip cat))] ''''"
  have send: "send_verification digest raw u actor [(''institutional_id'', PStr (strip iid))] ?note s0 = Inr (i, s1)"
    using assms(2) reg by (auto simp: start_registration_def split: sum.splits)
  obtain s2 where c: "create_invitation digest raw u EMAIL_VERIFICATION VERIFICATION_TTL actor s0 = Inr (i, s2)" and l: "logs s2 s1"
    using send_verification_Inr [OF send] by auto
  note ci = create_invitation_Inr [OF c] and lo = logs_accounts [OF l]
  let ?s = "s1\<lparr>clock_now := t\<rparr>"
  have us: "users ?s = users s @ [u]" "clock_now s0 = clock_now s" using ci(4) lo g(1) by simp_all
  have ok: "accounts_ok ?s"
    using account_safe_registration [OF assms(2)] assms(1) accounts_ok_cong [of ?s s1] by (simp add: account_safe_def)
  have iv: "invitation_of digest raw (Some EMAIL_VERIFICATION) ?s = Some i"
    "assert_redeemable (Some i) (Some EMAIL_VERIFICATION) ?s = Inr i" "iv_user i = u_pk u"
    using fresh_link [OF c, of ?s] lo assms(3) us(2) ci(1) by (simp_all add: VERIFICATION_TTL_def)
  have uo: "user_of ?s (iv_user i) = u"
    using get_row_unique [OF accounts_okD(1) [OF ok], of u] us(1) iv(3) by (simp add: user_of_def)
  from complete_registration_run [where hasher = hasher and validators = validators and password = password, OF ok iv(1,2) assms(4)] obtain s' where
    run: "complete_registration digest hasher validators raw password ?s = Inr (registered hasher password ?s u, s')"
    and us': "users s' = update_row u_pk (u_pk u) (\<lambda>_. registered hasher password ?s u) (users s @ [u])"
    unfolding us(1) [symmetric] iv(3) [symmetric] uo by blast
  have "\<forall>x \<in> set (users s). u_pk x \<noteq> u_pk u" using g(2) fresh_pk_notin [of "map u_pk (users s)"] by force
  then have "update_row u_pk (u_pk u) (\<lambda>_. registered hasher password ?s u) (users s @ [u]) = users s @ [registered hasher password ?s u]"
    by (auto simp: update_row_def intro!: map_idI)
  moreover have same: "roster ?s = roster s" "rooms ?s = rooms s" "room_members ?s = room_members s"
    using ci(6-8) lo g(1) by simp_all
  have "on_roster ?s u = on_roster s u" "vouched_for ?s u = vouched_for s u"
    by (simp_all only: on_roster_def vouched_for_def room_list_vouches_for_def roster_claims_id_def room_of_def same)
  moreover have "users s1 = users s @ [u]" using us(1) by simp
  ultimately show ?thesis using run us' g(3-12)
    by (intro exI [of _ u] exI [of _ "registered hasher password ?s u"] exI [of _ s'] conjI) (simp_all add: registered_eligibility)
qed

text \<open>An invitation by staff leaves every existing account as it is, and the account it makes, when the ID is new, is approved,
  without a password and never a superuser; the activation link it sends is redeemable for that account for fourteen days.\<close>

theorem invite_account_effect:
  assumes "invite_account digest raw iid email name actor staff teacher reason s = Inr ((u, i), s')"
  shows "((users s' = users s \<and> u \<in> set (users s)) \<or> (users s' = users s @ [u] \<and> \<not> u_is_superuser u \<and> u_password u = None
      \<and> u_eligibility u = APPROVED \<and> u_is_operational_staff u = staff \<and> u_is_teacher u = teacher))
    \<and> iv_user i = u_pk u \<and> (\<forall>t < clock_now s + 14 * 24 * us_hour.
      assert_redeemable (invitation_of digest raw (Some ACCOUNT_ACTIVATION) s') (Some ACCOUNT_ACTIVATION) (s'\<lparr>clock_now := t\<rparr>) = Inr i)"
proof -
  from assms obtain iid' s1 s2 created where inv: "invited_user iid' (normalize_email email) name staff teacher s = Inr (u, created, s1)"
    and c: "create_invitation digest raw u ACCOUNT_ACTIVATION ACTIVATION_TTL actor s1 = Inr (i, s2)" and l: "logs s2 s'"
    by (auto simp: invite_account_def Let_def bindE_Inr split: if_splits)
  note ci = create_invitation_Inr [OF c] and lo = logs_accounts [OF l]
  have cl: "clock_now s1 = clock_now s" using account_safe_invited(1) [OF inv] by (simp add: account_safe_def elsewhere_def)
  have link: "assert_redeemable (invitation_of digest raw (Some ACCOUNT_ACTIVATION) s') (Some ACCOUNT_ACTIVATION) (s'\<lparr>clock_now := t\<rparr>) = Inr i"
    if "t < clock_now s + 14 * 24 * us_hour" for t
    using fresh_link(1) [OF c, of s'] fresh_link(3) [OF c, of "s'\<lparr>clock_now := t\<rparr>"] lo that cl
    by (simp add: ACTIVATION_TTL_def)
  have "(users s1 = users s \<and> u \<in> set (users s)) \<or> (users s1 = users s @ [u] \<and> \<not> u_is_superuser u \<and> u_password u = None
      \<and> u_eligibility u = APPROVED \<and> u_is_operational_staff u = staff \<and> u_is_teacher u = teacher)"
    using invited_user_cases [OF inv]
  proof (elim disjE conjE)
    assume "create_user (\<lambda>pk. (blank_user pk)\<lparr>u_username := iid', u_email := normalize_email email, u_name_th := name,
              u_eligibility := APPROVED, u_is_operational_staff := staff, u_is_teacher := teacher,
              u_email_verified_at := Some (clock_now s)\<rparr>) s = Inr (u, s1)"
    from create_user_Inr [OF this] show ?thesis
      by (intro disjI2 conjI) (simp, (subst \<open>u = _\<close>, simp add: blank_user_def)+)
  qed simp
  with ci(1,4) lo link show ?thesis by simp
qed

section \<open>Witnesses\<close>

definition new_student :: "st \<Rightarrow> (exn + invitation) \<times> st" where
  "new_student s = start_registration id ''tok'' ''u3'' ''u3@student.chula.ac.th'' ''Mali'' '''' None s"

lemma sample_accounts_ok: "accounts_ok (sample_st (at 9 0))"
  by code_simp

lemma sample_registration: "\<exists>i s1. new_student (sample_st (at 9 0)) = (Inr i, s1)"
proof -
  have "\<not> isl (fst (new_student (sample_st (at 9 0))))" by code_simp
  then show ?thesis by (cases "new_student (sample_st (at 9 0))") (auto simp: isl_def split: sum.splits intro: sum.exhaust_sel)
qed

theorem accounts_stay_unique_witness: "distinct (map u_username (users (snd (new_student (sample_st (at 9 0))))))"
proof -
  obtain i s1 where run: "new_student (sample_st (at 9 0)) = (Inr i, s1)" using sample_registration by blast
  have "account_step (sample_st (at 9 0)) s1" using run unfolding new_student_def by (rule account_step.register)
  then show ?thesis
    using accounts_stay_unique [OF r_into_rtranclp sample_accounts_ok, of s1] run by simp
qed

theorem registration_roundtrip_witness:
  "\<exists>u u' s'. users (snd (new_student (sample_st (at 9 0)))) = users (sample_st (at 9 0)) @ [u]
    \<and> complete_registration id id (\<lambda>_ _. []) ''tok'' ''secret'' ((snd (new_student (sample_st (at 9 0))))\<lparr>clock_now := at 10 0\<rparr>) = Inr (u', s')
    \<and> u_password u' = Some ''secret''"
proof -
  obtain i s1 where run: "new_student (sample_st (at 9 0)) = (Inr i, s1)" using sample_registration by blast
  have "at 10 0 < clock_now (sample_st (at 9 0)) + 3 * 24 * us_hour" by code_simp
  from registration_roundtrip [where hasher = id and validators = "\<lambda>_ _. []" and password = "''secret''",
      OF sample_accounts_ok run [unfolded new_student_def] this refl] run show ?thesis by auto
qed

definition waiting_link :: invitation where
  "waiting_link = \<lparr>iv_pk = 1, iv_user = 1, iv_token_digest = ''old'', iv_generation = 1, iv_purpose = EMAIL_VERIFICATION,
     iv_expires_at = at 20 0, iv_used_at = None, iv_revoked_at = None, iv_created_by = None\<rparr>"

definition waiting_st :: st where
  "waiting_st = (sample_st (at 9 0))\<lparr>invitations := [waiting_link]\<rparr>"

lemma waiting_facts:
  "accounts_ok waiting_st" "invitation_of id ''old'' (Some EMAIL_VERIFICATION) waiting_st = Some waiting_link"
  "assert_redeemable (Some waiting_link) (Some EMAIL_VERIFICATION) waiting_st = Inr waiting_link"
  "user_of waiting_st (iv_user waiting_link) = alice"
  by code_simp+

theorem complete_registration_effect_witness:
  "\<exists>u' s'. complete_registration id id (\<lambda>_ _. []) ''old'' ''secret'' waiting_st = Inr (u', s')
    \<and> complete_registration id id (\<lambda>_ _. []) ''old'' ''other'' (s'\<lparr>clock_now := at 10 0\<rparr>) = Inl (rejected Code_TOKEN_USED [])"
  using complete_registration_effect [where hasher = id and validators = "\<lambda>_ _. []" and password = "''secret''",
      OF waiting_facts(1-3) waiting_facts(4) [symmetric]] by auto

theorem newest_link_only_witness:
  "\<exists>i s1. create_invitation id ''new'' alice EMAIL_VERIFICATION VERIFICATION_TTL None waiting_st = Inr (i, s1)
    \<and> assert_redeemable (find_invitation id ''old'' (Some EMAIL_VERIFICATION) s1) (Some EMAIL_VERIFICATION) s1 = Inl (rejected Code_TOKEN_EXPIRED [])"
proof -
  obtain i s1 where run: "create_invitation id ''new'' alice EMAIL_VERIFICATION VERIFICATION_TTL None waiting_st = Inr (i, s1)"
    by (simp add: create_invitation_cases waiting_st_def waiting_link_def)
  have "find_invitation id ''old'' (Some EMAIL_VERIFICATION) waiting_st = Some waiting_link \<and> iv_user waiting_link = u_pk alice"
    using waiting_facts(2) by (simp add: find_invitation_def waiting_link_def sample_defs)
  with newest_link_only [OF run _ refl] run show ?thesis by (intro exI [of _ i] exI [of _ s1] conjI) simp_all
qed

theorem invite_account_effect_witness:
  "\<exists>u i s'. invite_account id ''tok'' ''t7'' ''t7@chula.ac.th'' ''Nok'' (Some staff_member) False True '''' (sample_st (at 9 0)) = Inr ((u, i), s')
    \<and> iv_user i = u_pk u"
proof -
  have "\<not> isl (invite_account id ''tok'' ''t7'' ''t7@chula.ac.th'' ''Nok'' (Some staff_member) False True '''' (sample_st (at 9 0)))"
    by code_simp
  then obtain x s' where "invite_account id ''tok'' ''t7'' ''t7@chula.ac.th'' ''Nok'' (Some staff_member) False True '''' (sample_st (at 9 0))
      = Inr (x, s')" by (cases "invite_account id ''tok'' ''t7'' ''t7@chula.ac.th'' ''Nok'' (Some staff_member) False True '''' (sample_st (at 9 0))") auto
  moreover obtain u i where "x = (u, i)" by (cases x)
  ultimately have run: "invite_account id ''tok'' ''t7'' ''t7@chula.ac.th'' ''Nok'' (Some staff_member) False True '''' (sample_st (at 9 0))
      = Inr ((u, i), s')" by simp
  from invite_account_effect [OF run] run show ?thesis by blast
qed

text \<open>A staff rejection does not last when the roster gains the person: redeeming a link approves the account again.\<close>

lemma rejection_is_overturned:
  assumes "u_eligibility u = NOT_APPROVED" "on_roster s u"
  shows "u_eligibility (registered hasher password s u) = APPROVED"
  using assms by (simp add: registered_eligibility)

end
