(* ===== verification/Rooms.thy ===== *)
theory Rooms
  imports Identity
begin

text \<open>
  The access lists of members-only rooms (\<open>services/room_access.py\<close>) and the management of rooms
  (\<open>services/rooms.py\<close>): pasted rows, adding and removing people, the profile and the administrators of a room.
  Django's \<open>validate_email\<close> is a parameter. The room a service gets is a copy of its row.
\<close>

section \<open>Pasted rows\<close>

text \<open>\<open>str.splitlines()\<close>: a carriage return and a line feed together end one line; a last empty line is dropped.\<close>

definition line_break :: "char \<Rightarrow> bool" where
  "line_break c = (let n = (of_char c :: nat) in (10 \<le> n \<and> n \<le> 13) \<or> (28 \<le> n \<and> n \<le> 30) \<or> n = 133)"

fun lines_from :: "string \<Rightarrow> string \<Rightarrow> string list" where
  "lines_from line [] = (if line = [] then [] else [line])"
| "lines_from line [c] = (if line_break c then [line] else [line @ [c]])"
| "lines_from line (c # d # cs) =
    (if c = CHR 0x0D \<and> d = CHR 0x0A then line # lines_from [] cs
     else if line_break c then line # lines_from [] (d # cs)
     else lines_from (line @ [c]) (d # cs))"

definition splitlines :: "string \<Rightarrow> string list" where
  "splitlines text = lines_from [] text"

text \<open>\<open>_CELL_SPLIT.split\<close>: a tab, a comma or a semicolon.\<close>

definition cell_end :: "char \<Rightarrow> bool" where
  "cell_end c = (c = CHR 0x09 \<or> c = CHR '','' \<or> c = CHR '';'')"

fun split_cells :: "string \<Rightarrow> string \<Rightarrow> string list" where
  "split_cells cell [] = [cell]"
| "split_cells cell (c # cs) = (if cell_end c then cell # split_cells [] cs else split_cells (cell @ [c]) cs)"

text \<open>\<open>str.isdigit\<close> of text that is not empty: the superscripts are digits to Python.\<close>

definition py_digit :: "char \<Rightarrow> bool" where
  "py_digit c = (let n = (of_char c :: nat) in (48 \<le> n \<and> n \<le> 57) \<or> n = 178 \<or> n = 179 \<or> n = 185)"

definition row_cells :: "string \<Rightarrow> string list" where
  "row_cells line = filter (\<lambda>c. c \<noteq> []) (map strip (split_cells [] line))"

definition read_row :: "(string \<Rightarrow> bool) \<Rightarrow> string \<Rightarrow> (string \<times> string) option" where
  "read_row valid_email line =
    (case filter valid_email (row_cells line) of
       [email] \<Rightarrow> Some (lower email, take 200
         (case List.find (\<lambda>c. c \<noteq> email \<and> \<not> list_all py_digit c) (row_cells line) of
            None \<Rightarrow> [] | Some c \<Rightarrow> join_with '' '' (split_words [] c)))
     | _ \<Rightarrow> None)"

text \<open>\<open>entries.setdefault(email, name)\<close> keeps the first name of an address.\<close>

definition add_row :: "(string \<Rightarrow> bool) \<Rightarrow> string \<Rightarrow> (string \<times> string) list \<times> string list \<Rightarrow> (string \<times> string) list \<times> string list" where
  "add_row valid_email raw_line acc = (let (entries, skipped) = acc; line = strip raw_line in
     if line = [] then acc
     else case read_row valid_email line of
         None \<Rightarrow> (entries, skipped @ [line])
       | Some (email, name) \<Rightarrow> (if email \<in> fst ` set entries then entries else entries @ [(email, name)], skipped))"

definition parse_pasted_rows :: "(string \<Rightarrow> bool) \<Rightarrow> string \<Rightarrow> (string \<times> string) list \<times> string list" where
  "parse_pasted_rows valid_email text =
     (let (entries, skipped) = fold (add_row valid_email) (splitlines text) ([], [])
      in (map (\<lambda>(email, name). (name, email)) entries, skipped))"

section \<open>The access list of a room\<close>

definition listed_in :: "nat \<Rightarrow> string \<Rightarrow> st \<Rightarrow> bool" where
  "listed_in room_pk email s = list_ex (\<lambda>m. rm_room m = room_pk \<and> rm_email m = email) (room_members s)"

text \<open>\<open>get_or_create\<close>; text longer than its column is an error of the database.\<close>

definition add_member :: "room \<Rightarrow> actor \<Rightarrow> string \<times> string \<Rightarrow> string list \<times> st \<Rightarrow> exn + (string list \<times> st)" where
  "add_member room actor entry acc = (let (name, email) = entry; (added, s) = acc; address = normalize_email email in
     if listed_in (r_pk room) address s then Inr (added, s)
     else if length address > 254 \<or> length name > 200 then Inl DatabaseError
     else Inr (added @ [email], s\<lparr>room_members := room_members s @
       [\<lparr>rm_pk = fresh_pk (map rm_pk (room_members s)), rm_room = r_pk room, rm_email = address, rm_name = name,
         rm_added_by = actor_pk actor\<rparr>]\<rparr>))"

definition add_members :: "room \<Rightarrow> (string \<times> string) list \<Rightarrow> ctx \<Rightarrow> st \<Rightarrow> exn + (dict \<times> st)" where
  "add_members room entries cx s =
    (if \<not> r_members_only room then Inl (rejected Code_INVALID_INPUT [])
     else if entries = [] then Inl (rejected Code_INVALID_INPUT [])
     else bindE (foldE (add_member room (ctx_actor cx)) entries ([], s)) (\<lambda>(added, s).
       let already = length entries - length added;
           s = ctx_audit ''room.members_added'' ''Room'' (show_nat (r_pk room)) (ctx_actor cx)
             [(''room'', PStr (r_number room)), (''added'', PList (map PStr added)), (''already_listed'', PNat already)] '''' s
       in bindE (if r_is_active room then approve_room_listed_accounts added s else Inr (0, s)) (\<lambda>(approved, s).
         Inr ([(''room_id'', PNat (r_pk room)), (''added'', PNat (length added)), (''already_listed'', PNat already),
               (''accounts_approved'', PNat approved)], s))))"

definition remove_member :: "room \<Rightarrow> nat \<Rightarrow> ctx \<Rightarrow> st \<Rightarrow> exn + (dict \<times> st)" where
  "remove_member room member_id cx s =
    (case first_row (filter (\<lambda>m. rm_room m = r_pk room \<and> rm_pk m = member_id) (room_members s)) of
       None \<Rightarrow> Inl (rejected Code_NOT_FOUND [])
     | Some member \<Rightarrow>
       let s = s\<lparr>room_members := filter (\<lambda>m. rm_pk m \<noteq> rm_pk member) (room_members s)\<rparr>;
           s = ctx_audit ''room.member_removed'' ''Room'' (show_nat (r_pk room)) (ctx_actor cx)
             [(''room'', PStr (r_number room)), (''removed'', PStr (rm_email member))] '''' s
       in Inr ([(''room_id'', PNat (r_pk room)), (''removed'', PStr (rm_email member))], s))"

section \<open>Profile and administrators\<close>

definition tidy_equipment :: "string \<Rightarrow> string" where
  "tidy_equipment equipment = join_with [CHR 0x0A] (filter (\<lambda>l. l \<noteq> []) (map strip (splitlines equipment)))"

definition profile_dict :: "int \<Rightarrow> string \<Rightarrow> bool \<Rightarrow> dict" where
  "profile_dict capacity equipment requires_approval = [(''capacity'', PInt capacity), (''equipment'', PStr equipment),
     (''requires_approval'', PBool requires_approval)]"

definition update_profile :: "nat \<Rightarrow> int option \<Rightarrow> string \<Rightarrow> bool option \<Rightarrow> ctx \<Rightarrow> st \<Rightarrow> exn + (room \<times> st)" where
  "update_profile room_pk capacity equipment requires_approval cx s =
    (case capacity of
       None \<Rightarrow> Inl (rejected Code_INVALID_INPUT [])
     | Some c \<Rightarrow>
       if \<not> (1 \<le> c \<and> c \<le> 100) then Inl (rejected Code_INVALID_INPUT [])
       else let equipment = tidy_equipment equipment in
       if length equipment > 1000 then Inl (rejected Code_INVALID_INPUT [])
       else bindE (reload_row r_pk room_pk (rooms s)) (\<lambda>room.
         let approval = (case requires_approval of None \<Rightarrow> r_requires_approval room | Some b \<Rightarrow> b);
             write = (\<lambda>r. r\<lparr>r_capacity := c, r_equipment := equipment, r_requires_approval := approval\<rparr>);
             s = s\<lparr>rooms := update_row r_pk (r_pk room) write (rooms s)\<rparr>;
             s = ctx_audit ''room.profile_updated'' ''Room'' (show_nat (r_pk room)) (ctx_actor cx)
               [(''before'', PDict (profile_dict (r_capacity room) (r_equipment room) (r_requires_approval room))),
                (''after'', PDict (profile_dict c equipment approval))] '''' s
         in Inr (write room, s)))"

definition can_manage_room :: "actor \<Rightarrow> room \<Rightarrow> st \<Rightarrow> bool" where
  "can_manage_room user room s = (case user of
       None \<Rightarrow> False
     | Some u \<Rightarrow>
       if \<not> u_is_active u then False
       else if u_is_superuser u \<or> u_is_operational_staff u then True
       else list_ex (\<lambda>a. ra_user a = u_pk u \<and> ra_room a = r_pk room \<and> r_is_active (room_of s (ra_room a))) (room_admins s))"

definition set_administrator :: "room \<Rightarrow> user \<Rightarrow> bool \<Rightarrow> ctx \<Rightarrow> st \<Rightarrow> exn + (dict \<times> st)" where
  "set_administrator room user add cx s =
    (if \<not> u_is_active user then Inl (rejected Code_INVALID_INPUT [])
     else let assignment = first_row (filter (\<lambda>a. ra_room a = r_pk room \<and> ra_user a = u_pk user) (room_admins s));
              (changed, s) = (case assignment of
                  None \<Rightarrow> if add then (''added'', s\<lparr>room_admins := room_admins s @
                      [\<lparr>ra_pk = fresh_pk (map ra_pk (room_admins s)), ra_room = r_pk room, ra_user = u_pk user,
                        ra_granted_by = actor_pk (ctx_actor cx)\<rparr>]\<rparr>)
                    else (''unchanged'', s)
                | Some a \<Rightarrow> if add then (''unchanged'', s)
                    else (''removed'', s\<lparr>room_admins := filter (\<lambda>x. ra_pk x \<noteq> ra_pk a) (room_admins s)\<rparr>));
              s = ctx_audit (''room.administrator_'' @ changed) ''Room'' (show_nat (r_pk room)) (ctx_actor cx)
                [(''user_id'', PNat (u_pk user)), (''user'', PStr (u_username user)), (''room'', PStr (r_number room))] '''' s
          in Inr ([(''room_id'', PNat (r_pk room)), (''user_id'', PNat (u_pk user)), (''changed'', PStr changed)], s))"

definition update_profile_body :: "nat \<Rightarrow> int option \<Rightarrow> string \<Rightarrow> bool \<Rightarrow> ctx \<Rightarrow> st \<Rightarrow> exn + (dict \<times> st)" where
  "update_profile_body room_pk capacity equipment requires_approval =
     success_pk ''room_id'' r_pk (update_profile room_pk capacity equipment (Some requires_approval))"

section \<open>They keep an installation sound\<close>

lemma add_member_elsewhere: "add_member room actor entry (ad, s) = Inr (ad', s') \<Longrightarrow> elsewhere s s'"
  by (auto simp: add_member_def Let_def split: prod.splits if_splits)

lemma approve_listed_elsewhere: "approve_listed u (n, s) = Inr (n', s') \<Longrightarrow> elsewhere s s'"
  by (auto simp: approve_listed_def bindE_Inr dest: auto_approve_Inr(2) split: if_splits)

lemma foldE_elsewhere:
  assumes "foldE f xs (a, s) = Inr (b, s')" "\<And>x a s b s'. f x (a, s) = Inr (b, s') \<Longrightarrow> elsewhere s s'"
  shows "elsewhere s s'"
  using assms(1)
proof (induction xs arbitrary: a s)
  case Nil
  then show ?case by simp
next
  case (Cons x xs)
  then obtain c t where "f x (a, s) = Inr (c, t)" "foldE f xs (c, t) = Inr (b, s')" by (auto simp: bindE_Inr)
  with Cons.IH assms(2) elsewhere_trans show ?case by blast
qed

lemma add_members_elsewhere:
  assumes "add_members room entries cx s = Inr (d, s')"
  shows "elsewhere s s'"
proof -
  from assms obtain ad s1 where one: "foldE (add_member room (ctx_actor cx)) entries ([], s) = Inr (ad, s1)"
    by (auto simp: add_members_def bindE_Inr split: if_splits)
  define s2 where "s2 = ctx_audit ''room.members_added'' ''Room'' (show_nat (r_pk room)) (ctx_actor cx)
     [(''room'', PStr (r_number room)), (''added'', PList (map PStr ad)), (''already_listed'', PNat (length entries - length ad))] '''' s1"
  from assms one obtain n where "(if r_is_active room then approve_room_listed_accounts ad s2 else Inr (0, s2)) = Inr (n, s')"
    by (auto simp: add_members_def bindE_Inr Let_def s2_def simp del: if_split split: if_split_asm)
  then have "elsewhere s2 s'"
    by (auto simp: approve_room_listed_accounts_def split: if_splits intro: foldE_elsewhere [OF _ approve_listed_elsewhere])
  moreover have "elsewhere s s1" by (rule foldE_elsewhere [OF one add_member_elsewhere])
  then have "elsewhere s s2" by (simp add: s2_def)
  ultimately show ?thesis using elsewhere_trans by blast
qed

interpretation add_members_service: service_body "add_members room entries" for room entries
  by (rule service_body_elsewhere, rule add_members_elsewhere)

interpretation remove_member_service: service_body "remove_member room member_id" for room member_id
  by (rule service_body_elsewhere) (auto simp: remove_member_def Let_def split: option.splits)

interpretation profile_service: service_body "update_profile_body room_pk capacity equipment requires_approval"
  for room_pk capacity equipment requires_approval
  by (rule service_body_elsewhere)
    (auto simp: update_profile_body_def success_pk_Inr update_profile_def Let_def bindE_Inr split: option.splits if_splits)

interpretation administrator_service: service_body "set_administrator room user add" for room user add
  by (rule service_body_elsewhere) (auto simp: set_administrator_def Let_def split: option.splits if_splits)

section \<open>Adding people\<close>

lemma listed_in_iff: "listed_in pk e s \<longleftrightarrow> (\<exists>m \<in> set (room_members s). rm_room m = pk \<and> rm_email m = e)"
  by (auto simp: listed_in_def list_ex_iff)

lemma add_members_loop:
  assumes "\<forall>(name, email) \<in> set entries. length (normalize_email email) \<le> 254 \<and> length name \<le> 200"
  shows "\<exists>new A. foldE (add_member room actor) entries (ad, s) = Inr (ad @ A, s\<lparr>room_members := room_members s @ new\<rparr>)
    \<and> (\<forall>m \<in> set new. rm_room m = r_pk room)
    \<and> rm_email ` set new = normalize_email ` snd ` set entries - {a. listed_in (r_pk room) a s}
    \<and> normalize_email ` set A = rm_email ` set new \<and> length A \<le> length entries"
  using assms
proof (induction entries arbitrary: ad s)
  case Nil
  then show ?case by (intro exI [of _ "[]"]) simp
next
  case (Cons x xs)
  obtain n e where x: "x = (n, e)" by (cases x)
  let ?a = "normalize_email e"
  have fits: "length ?a \<le> 254" "length n \<le> 200" "\<forall>(name, email) \<in> set xs. length (normalize_email email) \<le> 254 \<and> length name \<le> 200"
    using Cons.prems by (simp_all add: x)
  show ?case
  proof (cases "listed_in (r_pk room) ?a s")
    case True
    then have "add_member room actor x (ad, s) = Inr (ad, s)" by (simp add: add_member_def x)
    moreover from Cons.IH [OF fits(3), of ad s] obtain new A where
      "foldE (add_member room actor) xs (ad, s) = Inr (ad @ A, s\<lparr>room_members := room_members s @ new\<rparr>)"
      "\<forall>m \<in> set new. rm_room m = r_pk room" "rm_email ` set new = normalize_email ` snd ` set xs - {a. listed_in (r_pk room) a s}"
      "normalize_email ` set A = rm_email ` set new" "length A \<le> length xs" by (elim exE conjE)
    ultimately show ?thesis using True by (intro exI [of _ new] exI [of _ A]) (auto simp: x)
  next
    case False
    define m where "m = \<lparr>rm_pk = fresh_pk (map rm_pk (room_members s)), rm_room = r_pk room, rm_email = ?a, rm_name = n,
         rm_added_by = actor_pk actor\<rparr>"
    let ?s = "s\<lparr>room_members := room_members s @ [m]\<rparr>"
    have step: "add_member room actor x (ad, s) = Inr (ad @ [e], ?s)" using False fits by (simp add: add_member_def x m_def)
    have l: "listed_in (r_pk room) y ?s \<longleftrightarrow> listed_in (r_pk room) y s \<or> y = ?a" for y by (auto simp: listed_in_iff m_def)
    from Cons.IH [OF fits(3), of "ad @ [e]" ?s] obtain new A where
      r: "foldE (add_member room actor) xs (ad @ [e], ?s) = Inr ((ad @ [e]) @ A, ?s\<lparr>room_members := room_members ?s @ new\<rparr>)"
      "\<forall>m \<in> set new. rm_room m = r_pk room" "rm_email ` set new = normalize_email ` snd ` set xs - {a. listed_in (r_pk room) a ?s}"
      "normalize_email ` set A = rm_email ` set new" "length A \<le> length xs" by (elim exE conjE)
    have "foldE (add_member room actor) (x # xs) (ad, s) = Inr (ad @ (e # A), s\<lparr>room_members := room_members s @ (m # new)\<rparr>)"
      using step r(1) by simp
    moreover have "rm_email ` set (m # new) = normalize_email ` snd ` set (x # xs) - {a. listed_in (r_pk room) a s}"
      using r(3) False unfolding l by (auto simp: x m_def)
    moreover have "normalize_email ` set (e # A) = rm_email ` set (m # new)" using r(4) by (simp add: m_def)
    ultimately show ?thesis using r(2,5) by (intro exI [of _ "m # new"] exI [of _ "e # A"]) (simp add: m_def)
  qed
qed

lemma approve_room_listed_run:
  assumes "distinct (map u_pk (users s))"
  shows "\<exists>n s'. approve_room_listed_accounts emails s = Inr (n, s') \<and> elsewhere s s' \<and> room_members s' = room_members s
    \<and> rooms s' = rooms s \<and> roster s' = roster s
    \<and> users s' = map (\<lambda>u. if listed_candidate (map normalize_email emails) u \<and> vouched_for s u
         then set_eligibility APPROVED (clock_now s) ROOM_LIST_REASON u else u) (users s)"
proof -
  let ?c = "listed_candidate (map normalize_email emails)"
  have "distinct (map u_pk (filter ?c (users s)))" by (rule distinct_map_filter [OF assms])
  from approve_listed_loop [OF this, of s 0] obtain s' where
    run: "foldE approve_listed (filter ?c (users s)) (0, s) = Inr (0 + length (filter (vouched_for s) (filter ?c (users s))), s')"
    "elsewhere s s'" "roster s' = roster s" "room_members s' = room_members s" "rooms s' = rooms s"
    "users s' = map (\<lambda>u. if u_pk u \<in> u_pk ` set (filter (vouched_for s) (filter ?c (users s)))
         then set_eligibility APPROVED (clock_now s) ROOM_LIST_REASON u else u) (users s)" by auto
  have "u_pk u \<in> u_pk ` set (filter (vouched_for s) (filter ?c (users s))) \<longleftrightarrow> ?c u \<and> vouched_for s u" if "u \<in> set (users s)" for u
    using that assms by (auto simp: distinct_map inj_on_def)
  then have "users s' = map (\<lambda>u. if ?c u \<and> vouched_for s u
         then set_eligibility APPROVED (clock_now s) ROOM_LIST_REASON u else u) (users s)"
    unfolding run(6) by (intro map_cong [OF refl]) simp
  with run show ?thesis unfolding approve_room_listed_accounts_def by blast
qed

section \<open>Properties of the access list\<close>

text \<open>Adding people to a members-only room puts exactly the pasted addresses on its list, beside those that were there, and
  touches no other room's list. When the room is in service, the accounts that waited for approval under a newly listed,
  verified address are approved, unless the roster gives their ID to another address; no other account changes.\<close>

theorem add_members_effect:
  assumes "distinct (map u_pk (users s))" "r_members_only room" "entries \<noteq> []"
    and "\<forall>(name, email) \<in> set entries. length (normalize_email email) \<le> 254 \<and> length name \<le> 200"
  shows "\<exists>d s'. add_members room entries cx s = Inr (d, s')
    \<and> (\<forall>a. listed_in (r_pk room) a s' \<longleftrightarrow> listed_in (r_pk room) a s \<or> a \<in> normalize_email ` snd ` set entries)
    \<and> filter (\<lambda>m. rm_room m \<noteq> r_pk room) (room_members s') = filter (\<lambda>m. rm_room m \<noteq> r_pk room) (room_members s)
    \<and> users s' = map (\<lambda>u. if r_is_active room \<and> u_eligibility u = PENDING \<and> u_is_active u \<and> email_is_verified u
          \<and> lower (u_email u) \<in> normalize_email ` snd ` set entries \<and> \<not> listed_in (r_pk room) (lower (u_email u)) s \<and> vouched_for s' u
        then set_eligibility APPROVED (clock_now s) ROOM_LIST_REASON u else u) (users s)"
proof -
  let ?new = "normalize_email ` snd ` set entries - {a. listed_in (r_pk room) a s}"
  from add_members_loop [OF assms(4), of room "ctx_actor cx" "[]" s] obtain new A where
    loop: "foldE (add_member room (ctx_actor cx)) entries ([], s) = Inr (A, s\<lparr>room_members := room_members s @ new\<rparr>)"
    and n: "\<forall>m \<in> set new. rm_room m = r_pk room" "rm_email ` set new = ?new" "normalize_email ` set A = rm_email ` set new"
    unfolding append_Nil by (elim exE conjE)
  define s2 where "s2 = ctx_audit ''room.members_added'' ''Room'' (show_nat (r_pk room)) (ctx_actor cx)
     [(''room'', PStr (r_number room)), (''added'', PList (map PStr A)), (''already_listed'', PNat (length entries - length A))] ''''
     (s\<lparr>room_members := room_members s @ new\<rparr>)"
  have s2: "users s2 = users s" "room_members s2 = room_members s @ new" "clock_now s2 = clock_now s" by (simp_all add: s2_def)
  let ?appr = "if r_is_active room then approve_room_listed_accounts A s2 else Inr (0, s2)"
  let ?c = "\<lambda>u. r_is_active room \<and> listed_candidate (map normalize_email A) u \<and> vouched_for s2 u"
  have "\<exists>k s'. ?appr = Inr (k, s') \<and> room_members s' = room_members s2 \<and> rooms s' = rooms s2 \<and> roster s' = roster s2
    \<and> users s' = map (\<lambda>u. if ?c u then set_eligibility APPROVED (clock_now s2) ROOM_LIST_REASON u else u) (users s2)"
    using approve_room_listed_run [of s2 A] assms(1) s2(1) by auto
  then obtain k s' where run: "?appr = Inr (k, s')" and same: "room_members s' = room_members s2" "rooms s' = rooms s2" "roster s' = roster s2"
    and us: "users s' = map (\<lambda>u. if ?c u then set_eligibility APPROVED (clock_now s2) ROOM_LIST_REASON u else u) (users s2)"
    by (elim exE conjE)
  have v: "vouched_for s' u = vouched_for s2 u" for u
    by (simp add: vouched_for_def room_list_vouches_for_def roster_claims_id_def room_of_def same)
  have c: "?c u \<longleftrightarrow> r_is_active room \<and> u_eligibility u = PENDING \<and> u_is_active u \<and> email_is_verified u
      \<and> lower (u_email u) \<in> normalize_email ` snd ` set entries \<and> \<not> listed_in (r_pk room) (lower (u_email u)) s \<and> vouched_for s' u" for u
  proof -
    have "lower (u_email u) \<in> set (map normalize_email A) \<longleftrightarrow> lower (u_email u) \<in> ?new" using n(2,3) by simp
    then show ?thesis by (auto simp: listed_candidate_def email_is_verified_def v)
  qed
  obtain d where "add_members room entries cx s = Inr (d, s')"
    using assms(2,3) loop run [unfolded s2_def] by (simp add: add_members_def Let_def del: if_split)
  moreover have "listed_in (r_pk room) a s' \<longleftrightarrow> listed_in (r_pk room) a s \<or> a \<in> normalize_email ` snd ` set entries" for a
  proof -
    have "listed_in (r_pk room) a s' \<longleftrightarrow> listed_in (r_pk room) a s \<or> a \<in> rm_email ` set new"
      using n(1) unfolding listed_in_iff same(1) s2(2) by auto
    then show ?thesis unfolding n(2) by auto
  qed
  moreover have "filter (\<lambda>m. rm_room m \<noteq> r_pk room) (room_members s') = filter (\<lambda>m. rm_room m \<noteq> r_pk room) (room_members s)"
    using n(1) unfolding same(1) s2(2) by (auto simp: filter_empty_conv)
  moreover note us [unfolded c s2(1,3)]
  ultimately show ?thesis by blast
qed

lemma row_cells_Nil [simp]: "row_cells [] = []"
  by (simp add: row_cells_def)

lemma read_row_None: "read_row valid_email l = None \<longleftrightarrow> length (filter valid_email (row_cells l)) \<noteq> 1"
  by (auto simp: read_row_def split: list.splits option.splits)

lemma read_row_Some: "read_row valid_email l = Some (e, n) \<Longrightarrow> \<exists>x. filter valid_email (row_cells l) = [x] \<and> e = lower x"
  by (auto simp: read_row_def split: list.splits option.splits)

lemma pasted_rows_loop:
  assumes "distinct (map fst es)"
  shows "distinct (map fst (fst (fold (add_row valid_email) ls (es, sk))))
      \<and> fst ` set (fst (fold (add_row valid_email) ls (es, sk))) = fst ` set es
          \<union> {lower e |l e. l \<in> set ls \<and> filter valid_email (row_cells (strip l)) = [e]}
      \<and> set (snd (fold (add_row valid_email) ls (es, sk))) = set sk
          \<union> {strip l |l. l \<in> set ls \<and> strip l \<noteq> [] \<and> length (filter valid_email (row_cells (strip l))) \<noteq> 1}"
  using assms
proof (induction ls arbitrary: es sk)
  case Nil
  then show ?case by simp
next
  case (Cons l ls)
  show ?case
  proof (cases "strip l = []")
    case True
    then have "add_row valid_email l (es, sk) = (es, sk)" by (simp add: add_row_def)
    with Cons.IH [OF Cons.prems, of sk] True show ?thesis by auto
  next
    case False
    show ?thesis
    proof (cases "read_row valid_email (strip l)")
      case None
      then have "add_row valid_email l (es, sk) = (es, sk @ [strip l])" using False by (simp add: add_row_def)
      with Cons.IH [OF Cons.prems, of "sk @ [strip l]"] False read_row_None [of valid_email "strip l"] None show ?thesis by auto
    next
      case (Some r)
      obtain e n where r: "r = (e, n)" by (cases r)
      obtain x where x: "filter valid_email (row_cells (strip l)) = [x]" "e = lower x"
        using read_row_Some [of valid_email "strip l" e n] Some r by auto
      define es' where "es' = (if e \<in> fst ` set es then es else es @ [(e, n)])"
      have step: "add_row valid_email l (es, sk) = (es', sk)"
        using False Some r by (simp add: add_row_def es'_def)
      have es': "distinct (map fst es')" "fst ` set es' = insert e (fst ` set es)" using Cons.prems by (auto simp: es'_def)
      have one: "{lower e |l' e. l' \<in> set (l # ls) \<and> filter valid_email (row_cells (strip l')) = [e]}
          = insert e {lower e |l e. l \<in> set ls \<and> filter valid_email (row_cells (strip l)) = [e]}" using x by auto
      have two: "{strip l' |l'. l' \<in> set (l # ls) \<and> strip l' \<noteq> [] \<and> length (filter valid_email (row_cells (strip l'))) \<noteq> 1}
          = {strip l |l. l \<in> set ls \<and> strip l \<noteq> [] \<and> length (filter valid_email (row_cells (strip l))) \<noteq> 1}" using x by auto
      show ?thesis unfolding one two fold_simps step using Cons.IH [OF es'(1), of sk] es'(2) by auto
    qed
  qed
qed

text \<open>Rows pasted from a spreadsheet are read as the screen says: each address is taken once, in lower case, from a line that has
  exactly one valid address among its cells; every other line that is not blank is reported back, and nothing is guessed.\<close>

theorem parse_pasted_rows_spec:
  assumes "parse_pasted_rows valid_email text = (entries, skipped)"
  shows "distinct (map snd entries)
    \<and> set (map snd entries) = {lower e |l e. l \<in> set (splitlines text) \<and> filter valid_email (row_cells (strip l)) = [e]}
    \<and> set skipped = {strip l |l. l \<in> set (splitlines text) \<and> strip l \<noteq> [] \<and> length (filter valid_email (row_cells (strip l))) \<noteq> 1}"
proof -
  obtain es where es: "fold (add_row valid_email) (splitlines text) ([], []) = (es, skipped)" "entries = map (\<lambda>(e, n). (n, e)) es"
    using assms by (auto simp: parse_pasted_rows_def split: prod.splits)
  have "map snd entries = map fst es" unfolding es(2) by (simp add: o_def split_beta)
  with pasted_rows_loop [of "[]" valid_email "splitlines text" "[]"] es(1) show ?thesis by (metis (no_types, lifting) distinct.simps(1) empty_set fst_conv image_empty
      list.simps(8) set_map snd_conv sup_bot_left)
qed

section \<open>Witnesses\<close>

theorem parse_pasted_rows_spec_witness:
  "\<exists>entries skipped. parse_pasted_rows (\<lambda>c. CHR ''@'' \<in> set c) (''name,email'' @ [CHR 0x0A] @ ''1,Mali,Mali@Chula.ac.th'') = (entries, skipped)
    \<and> distinct (map snd entries) \<and> entries = [(''Mali'', ''mali@chula.ac.th'')] \<and> skipped = [''name,email'']"
proof -
  have run: "parse_pasted_rows (\<lambda>c. CHR ''@'' \<in> set c) (''name,email'' @ [CHR 0x0A] @ ''1,Mali,Mali@Chula.ac.th'')
    = ([(''Mali'', ''mali@chula.ac.th'')], [''name,email''])" by code_simp
  from parse_pasted_rows_spec [OF run] run show ?thesis by simp
qed

definition guest :: user where
  "guest = alice\<lparr>u_pk := 5, u_username := ''g5'', u_email := ''guest@mail.th'', u_eligibility := PENDING\<rparr>"

definition studio :: room where "studio = room_a\<lparr>r_members_only := True\<rparr>"

definition studio_st :: st where
  "studio_st = (sample_st (at 9 0))\<lparr>users := [alice, guest], rooms := [studio]\<rparr>"

theorem add_members_effect_witness:
  "\<exists>d s'. add_members studio [(''Guest'', ''Guest@mail.th'')] \<lparr>ctx_now = at 9 0, ctx_actor = Some staff_member, ctx_payload = []\<rparr> studio_st
      = Inr (d, s') \<and> listed_in 1 ''guest@mail.th'' s' \<and> map u_pk (users s') = [1, 5]"
proof -
  have h: "distinct (map u_pk (users studio_st))" "r_members_only studio" "[(''Guest'', ''Guest@mail.th'')] \<noteq> []"
    "\<forall>(name, email) \<in> set [(''Guest'', ''Guest@mail.th'')]. length (normalize_email email) \<le> 254 \<and> length name \<le> 200"
    by code_simp+
  have e: "normalize_email ''Guest@mail.th'' = ''guest@mail.th''" "r_pk studio = 1" "map u_pk (users studio_st) = [1, 5]" by code_simp+
  from add_members_effect [OF h, of "\<lparr>ctx_now = at 9 0, ctx_actor = Some staff_member, ctx_payload = []\<rparr>"] obtain d s' where
    run: "add_members studio [(''Guest'', ''Guest@mail.th'')] \<lparr>ctx_now = at 9 0, ctx_actor = Some staff_member, ctx_payload = []\<rparr> studio_st
      = Inr (d, s')" and l: "\<forall>a. listed_in (r_pk studio) a s' \<longleftrightarrow> listed_in (r_pk studio) a studio_st
        \<or> a \<in> normalize_email ` snd ` set [(''Guest'', ''Guest@mail.th'')]"
    and us: "users s' = map (\<lambda>u. if r_is_active studio \<and> u_eligibility u = PENDING \<and> u_is_active u \<and> email_is_verified u
          \<and> lower (u_email u) \<in> normalize_email ` snd ` set [(''Guest'', ''Guest@mail.th'')]
          \<and> \<not> listed_in (r_pk studio) (lower (u_email u)) studio_st \<and> vouched_for s' u
        then set_eligibility APPROVED (clock_now studio_st) ROOM_LIST_REASON u else u) (users studio_st)" by (elim exE conjE)
  have "map u_pk (users s') = map u_pk (users studio_st)" unfolding us by (simp add: set_eligibility_def)
  with run l e show ?thesis by (intro exI [of _ d] exI [of _ s'] conjI) auto
qed

end
