(* ===== verification/Seed.thy ===== *)
theory Seed
  imports Rooms
begin

text \<open>
  The configured rooms (\<open>services/rooms.py\<close>, \<open>ensure_rooms\<close>), which \<open>manage.py seed_rooms\<close> creates and refreshes.
  The configuration is trusted and fits its columns; the label of a stall that has none is Thai text, a parameter. A
  dictionary of the configuration is an association list in its order, an absent key \<open>None\<close>.
\<close>

section \<open>The configuration\<close>

record room_config =
  rc_label :: "string option"
  rc_position :: "int option"
  rc_capacity :: "int option"
  rc_equipment :: "string option"
  rc_requires_approval :: "bool option"
  rc_availability_only :: "bool option"
  rc_members_only :: "bool option"
  rc_scope :: "reservation_scope option"
  rc_categories :: "string list option"

definition no_config :: room_config where
  "no_config = \<lparr>rc_label = None, rc_position = None, rc_capacity = None, rc_equipment = None, rc_requires_approval = None,
     rc_availability_only = None, rc_members_only = None, rc_scope = None, rc_categories = None\<rparr>"

record block_entry =
  be_weekday :: int
  be_start_hour :: int
  be_end_hour :: int
  be_reason :: string
  be_valid_from :: "date option"
  be_valid_until :: "date option"

definition or_else :: "'a option \<Rightarrow> 'a \<Rightarrow> 'a" where
  "or_else x d = (case x of None \<Rightarrow> d | Some y \<Rightarrow> y)"

definition config_of :: "(string \<times> room_config) list \<Rightarrow> string \<Rightarrow> room_config" where
  "config_of configs number = or_else (map_of configs number) no_config"

definition room_numbers :: "nat \<Rightarrow> (string \<times> room_config) list \<Rightarrow> string list" where
  "room_numbers count configs = (let numbers = map show_nat [1..<Suc count]
     in numbers @ filter (\<lambda>k. k \<notin> set numbers) (map fst configs))"

section \<open>What staff decided\<close>

definition held_out_by_staff :: "nat \<Rightarrow> st \<Rightarrow> bool" where
  "held_out_by_staff room_pk s =
    (map_option ae_action (first_row (sort_key (\<lambda>e. (- ae_occurred_at e, - int (ae_pk e)))
       (filter (\<lambda>e. ae_entity_type e = ''Room'' \<and> ae_entity_id e = show_nat room_pk
          \<and> ae_action e \<in> {''room.deactivated'', ''room.reactivated''}) (audit_events s)))) = Some ''room.deactivated'')"

definition profile_managed_by_staff :: "nat \<Rightarrow> st \<Rightarrow> bool" where
  "profile_managed_by_staff room_pk s = list_ex (\<lambda>e. ae_entity_type e = ''Room'' \<and> ae_entity_id e = show_nat room_pk
     \<and> ae_action e = ''room.profile_updated'') (audit_events s)"

section \<open>One room\<close>

text \<open>\<open>get_or_create\<close>; the defaults of the model for the other columns.\<close>

definition find_or_create_room :: "string \<Rightarrow> string \<Rightarrow> int \<Rightarrow> st \<Rightarrow> room \<times> bool \<times> st" where
  "find_or_create_room number label position s =
    (case List.find (\<lambda>r. r_number r = number) (rooms s) of
       Some room \<Rightarrow> (room, False, s)
     | None \<Rightarrow> let room = (blank_room (fresh_pk (map r_pk (rooms s))))\<lparr>r_number := number, r_label := label, r_position := position\<rparr>
         in (room, True, s\<lparr>rooms := rooms s @ [room]\<rparr>))"

definition reactivate :: "room \<Rightarrow> st \<Rightarrow> st" where
  "reactivate room s = record_audit ''room.reactivated'' ''Room'' (show_nat (r_pk room)) None ''seed_rooms''
     [(''room'', PStr (r_number room))] ''Room is in the configured set again.''
     (s\<lparr>rooms := update_row r_pk (r_pk room) (\<lambda>r. r\<lparr>r_is_active := True\<rparr>) (rooms s)\<rparr>)"

text \<open>The columns a configuration names; those of the profile only while staff have not edited it.\<close>

definition apply_config :: "room_config \<Rightarrow> bool \<Rightarrow> room \<Rightarrow> room" where
  "apply_config config staff_managed r =
    r\<lparr>r_label := or_else (rc_label config) (r_label r),
       r_capacity := (if staff_managed then r_capacity r else or_else (rc_capacity config) (r_capacity r)),
       r_equipment := (if staff_managed then r_equipment r else or_else (rc_equipment config) (r_equipment r)),
       r_requires_approval := (if staff_managed then r_requires_approval r else or_else (rc_requires_approval config) (r_requires_approval r)),
       r_availability_only := or_else (rc_availability_only config) (r_availability_only r),
       r_members_only := or_else (rc_members_only config) (r_members_only r)\<rparr>"

definition configure_room :: "room_config \<Rightarrow> nat \<Rightarrow> st \<Rightarrow> st" where
  "configure_room config room_pk s =
    (if config = no_config then s
     else let staff_managed = profile_managed_by_staff room_pk s;
              s = s\<lparr>rooms := update_row r_pk room_pk (apply_config config staff_managed) (rooms s)\<rparr>
          in snd (set_audience room_pk (or_else (rc_scope config) EVERYONE) (or_else (rc_categories config) []) s))"

definition seed_room :: "(string \<Rightarrow> string) \<Rightarrow> (string \<times> room_config) list \<Rightarrow> int \<times> string
    \<Rightarrow> nat \<times> string list \<times> st \<Rightarrow> nat \<times> string list \<times> st" where
  "seed_room default_label configs item acc =
    (let (index, number) = item; (created, held_out, s) = acc; config = config_of configs number;
         (room, was_created, s) = find_or_create_room number (or_else (rc_label config) (default_label number))
            (or_else (rc_position config) index) s;
         out = (\<not> r_is_active room \<and> held_out_by_staff (r_pk room) s);
         s = (if \<not> r_is_active room \<and> \<not> out then reactivate room s else s)
     in (created + of_bool was_created, (if out then held_out @ [number] else held_out), configure_room config (r_pk room) s))"

section \<open>The timetable\<close>

definition weekly_block_error :: "weekly_block list \<Rightarrow> weekly_block \<Rightarrow> string option" where
  "weekly_block_error others w =
    (if \<not> wb_end_hour w > wb_start_hour w then Some ''weekly_block_end_after_start''
     else if \<not> wb_end_hour w \<le> 24 then Some ''weekly_block_hours_valid''
     else if (case (wb_valid_from w, wb_valid_until w) of (Some a, Some b) \<Rightarrow> b < a | _ \<Rightarrow> False)
       then Some ''weekly_block_validity_window''
     else if list_ex (\<lambda>x. wb_room x = wb_room w \<and> wb_weekday x = wb_weekday w \<and> wb_start_hour x = wb_start_hour w
         \<and> wb_valid_from x = None \<and> wb_valid_until x = None \<and> wb_valid_from w = None \<and> wb_valid_until w = None) others
       then Some ''weekly_block_open_ended_unique''
     else if list_ex (\<lambda>x. wb_room x = wb_room w \<and> wb_weekday x = wb_weekday w \<and> wb_start_hour x = wb_start_hour w
         \<and> wb_valid_from x = wb_valid_from w \<and> wb_valid_until x = wb_valid_until w
         \<and> wb_valid_from w \<noteq> None \<and> wb_valid_until w \<noteq> None) others
       then Some ''weekly_block_dated_unique''
     else None)"

definition add_block :: "nat \<Rightarrow> block_entry \<Rightarrow> st \<Rightarrow> exn + st" where
  "add_block room_pk e s =
    (let w = \<lparr>wb_pk = fresh_pk (map wb_pk (weekly_blocks s)), wb_room = room_pk, wb_weekday = be_weekday e,
              wb_start_hour = be_start_hour e, wb_end_hour = be_end_hour e, wb_reason = be_reason e,
              wb_valid_from = be_valid_from e, wb_valid_until = be_valid_until e\<rparr>
     in case weekly_block_error (weekly_blocks s) w of
          Some n \<Rightarrow> Inl (IntegrityError n)
        | None \<Rightarrow> Inr (s\<lparr>weekly_blocks := weekly_blocks s @ [w]\<rparr>))"

definition set_weekly_blocks :: "nat \<Rightarrow> block_entry list \<Rightarrow> st \<Rightarrow> exn + st" where
  "set_weekly_blocks room_pk entries s =
     foldE (add_block room_pk) entries (s\<lparr>weekly_blocks := filter (\<lambda>w. wb_room w \<noteq> room_pk) (weekly_blocks s)\<rparr>)"

definition seed_timetable :: "string \<times> block_entry list \<Rightarrow> st \<Rightarrow> exn + st" where
  "seed_timetable item s = (case List.find (\<lambda>r. r_number r = fst item) (rooms s) of
       None \<Rightarrow> Inr s | Some room \<Rightarrow> set_weekly_blocks (r_pk room) (snd item) s)"

section \<open>All rooms\<close>

definition retire_others :: "string list \<Rightarrow> st \<Rightarrow> nat \<times> st" where
  "retire_others numbers s =
    (let stale = (\<lambda>r. r_is_active r \<and> r_number r \<notin> set numbers)
     in (length (filter stale (rooms s)), s\<lparr>rooms := map (\<lambda>r. if stale r then r\<lparr>r_is_active := False\<rparr> else r) (rooms s)\<rparr>))"

definition ensure_rooms :: "(string \<Rightarrow> string) \<Rightarrow> nat \<Rightarrow> (string \<times> room_config) list \<Rightarrow> (string \<times> block_entry list) list
    \<Rightarrow> st \<Rightarrow> exn + (dict \<times> st)" where
  "ensure_rooms default_label count configs timetable s =
    (let numbers = room_numbers count configs;
         (created, held_out, s) = fold (seed_room default_label configs) (zip (map int [1..<Suc (length numbers)]) numbers) (0, [], s)
     in bindE (foldE seed_timetable timetable s) (\<lambda>s.
       let stray = (\<lambda>w. r_number (room_of s (wb_room w)) \<notin> fst ` set timetable);
           blocks_cleared = length (filter stray (weekly_blocks s));
           s = s\<lparr>weekly_blocks := filter (\<lambda>w. \<not> stray w) (weekly_blocks s)\<rparr>;
           (retired, s) = retire_others numbers s
       in Inr ([(''created'', PNat created), (''total'', PNat (length (rooms s))), (''retired'', PNat retired),
                (''held_out'', PList (map PStr held_out)), (''blocks_cleared'', PNat blocks_cleared)], s)))"

section \<open>What seeding leaves of the rooms\<close>

lemma digit_char_inj: "m < 10 \<Longrightarrow> n < 10 \<Longrightarrow> digit_char m = digit_char n \<longleftrightarrow> m = n"
  by (auto simp: digit_char_def dest!: arg_cong [where f = "of_char :: char \<Rightarrow> nat"])

lemma show_nat_inject [simp]: "show_nat m = show_nat n \<longleftrightarrow> m = n"
proof (induction m arbitrary: n rule: show_nat.induct)
  case (1 m)
  consider "m < 10" "n < 10" | "m < 10" "10 \<le> n" | "10 \<le> m" "n < 10" | "10 \<le> m" "10 \<le> n" by linarith
  then show ?case
  proof cases
    case 4
    then have "show_nat m = show_nat n \<longleftrightarrow> m div 10 = n div 10 \<and> m mod 10 = n mod 10"
      using 1 by (simp add: show_nat.simps [of m] show_nat.simps [of n] digit_char_inj)
    then show ?thesis by (metis div_mult_mod_eq)
  qed (auto simp: show_nat.simps [of m] show_nat.simps [of n] digit_char_inj show_nat_nonempty [symmetric])
qed

text \<open>What matters of a room here: its key, its number, whether it is in service, whether staff hold it out.\<close>

definition taken_out :: "st \<Rightarrow> room \<Rightarrow> bool" where
  "taken_out s r = (\<not> r_is_active r \<and> held_out_by_staff (r_pk r) s)"

definition service_view :: "st \<Rightarrow> (nat \<times> string \<times> bool \<times> bool) list" where
  "service_view s = map (\<lambda>r. (r_pk r, r_number r, r_is_active r, taken_out s r)) (rooms s)"

definition keyed_rooms :: "st \<Rightarrow> bool" where
  "keyed_rooms s = (distinct (map r_pk (rooms s)) \<and> distinct (map r_number (rooms s)))"

lemma held_out_other:
  assumes "entity_id \<noteq> show_nat p"
  shows "held_out_by_staff p (record_audit a t entity_id ac l c why s) = held_out_by_staff p s"
  using assms by (simp add: held_out_by_staff_def record_audit_def)

lemma service_view_set_audience: "service_view (snd (set_audience p sc cs s)) = service_view s"
  unfolding service_view_def set_audience_def update_row_def taken_out_def held_out_by_staff_def Let_def
  by (simp add: comp_def)

lemma service_view_configure: "service_view (configure_room config p s) = service_view s"
proof -
  have "service_view (s\<lparr>rooms := update_row r_pk p (apply_config config m) (rooms s)\<rparr>) = service_view s" for m
    unfolding service_view_def update_row_def taken_out_def held_out_by_staff_def
    by (simp add: apply_config_def)
  then show ?thesis by (simp add: configure_room_def Let_def service_view_set_audience)
qed

definition back_in :: "string list \<Rightarrow> nat \<times> string \<times> bool \<times> bool \<Rightarrow> nat \<times> string \<times> bool \<times> bool" where
  "back_in numbers v = (case v of (p, n, active, out) \<Rightarrow> (p, n, active \<or> n \<in> set numbers \<and> \<not> out, out))"

lemma service_view_reactivate:
  assumes "keyed_rooms s" "room \<in> set (rooms s)" "\<not> r_is_active room" "\<not> held_out_by_staff (r_pk room) s"
  shows "service_view (reactivate room s) = map (back_in [r_number room]) (service_view s)"
proof -
  have same: "r_number r = r_number room \<longleftrightarrow> r = room" "r_pk r = r_pk room \<longleftrightarrow> r = room" if "r \<in> set (rooms s)" for r
    using assms(1,2) that by (auto simp: keyed_rooms_def distinct_map inj_on_def)
  have held: "held_out_by_staff p (reactivate room s) = held_out_by_staff p s" if "p \<noteq> r_pk room" for p
    unfolding reactivate_def using that by (subst held_out_other) (simp_all add: held_out_by_staff_def)
  have "rooms (reactivate room s) = update_row r_pk (r_pk room) (\<lambda>r. r\<lparr>r_is_active := True\<rparr>) (rooms s)"
    by (simp add: reactivate_def record_audit_def)
  then show ?thesis
    unfolding service_view_def
    by (auto simp: update_row_def back_in_def taken_out_def same held assms(3,4))
qed

lemma keyed_view: "keyed_rooms s = (distinct (map fst (service_view s)) \<and> distinct (map (fst \<circ> snd) (service_view s)))"
  by (simp add: keyed_rooms_def service_view_def comp_def)

lemma back_in_keys [simp]: "fst (back_in ns v) = fst v" "fst (snd (back_in ns v)) = fst (snd v)"
    "snd (snd (snd (back_in ns v))) = snd (snd (snd v))"
  by (auto simp: back_in_def split: prod.splits)

lemma back_in_Cons: "back_in ns (back_in [n] v) = back_in (n # ns) v"
  by (auto simp: back_in_def split: prod.splits)

lemma back_in_same: "snd (snd (snd v)) \<or> fst (snd (snd v)) \<or> fst (snd v) \<notin> set ns \<Longrightarrow> back_in ns v = v"
  by (auto simp: back_in_def split: prod.splits)

definition held_out_number :: "st \<Rightarrow> string \<Rightarrow> bool" where
  "held_out_number s n = list_ex (\<lambda>r. r_number r = n \<and> taken_out s r) (rooms s)"

lemma held_out_number_view: "held_out_number s n = list_ex (\<lambda>(p, m, a, out). m = n \<and> out) (service_view s)"
  by (simp add: held_out_number_def service_view_def list_ex_iff)

lemma held_out_number_unique:
  assumes "keyed_rooms s" "room \<in> set (rooms s)"
  shows "held_out_number s (r_number room) = taken_out s room"
  using assms by (auto simp: held_out_number_def list_ex_iff keyed_rooms_def distinct_map inj_on_def)

lemma back_in_view_same:
  assumes "keyed_rooms s" "room \<in> set (rooms s)" "r_is_active room \<or> taken_out s room"
  shows "map (back_in [r_number room]) (service_view s) = service_view s"
proof (rule map_idI)
  fix v assume "v \<in> set (service_view s)"
  then obtain r where r: "r \<in> set (rooms s)" "v = (r_pk r, r_number r, r_is_active r, taken_out s r)"
    by (auto simp: service_view_def)
  then have "r_number r = r_number room \<Longrightarrow> r = room"
    using assms(1,2) by (auto simp: keyed_rooms_def distinct_map inj_on_def)
  then show "back_in [r_number room] v = v" using r assms(3) by (auto intro!: back_in_same)
qed

lemma seed_room_view:
  assumes "keyed_rooms s" and "seed_room dl configs (i, n) (c, h, s) = (c', h', s')"
  shows "\<exists>p. p \<notin> r_pk ` set (rooms s) \<and> service_view s' = map (back_in [n]) (service_view s)
      @ (if n \<in> r_number ` set (rooms s) then [] else [(p, n, True, False)])"
    and "h' = h @ (if held_out_number s n then [n] else [])"
    and "c' = c + of_bool (n \<notin> r_number ` set (rooms s))"
proof -
  have "(\<exists>p. p \<notin> r_pk ` set (rooms s) \<and> service_view s' = map (back_in [n]) (service_view s)
        @ (if n \<in> r_number ` set (rooms s) then [] else [(p, n, True, False)]))
      \<and> h' = h @ (if held_out_number s n then [n] else []) \<and> c' = c + of_bool (n \<notin> r_number ` set (rooms s))"
  proof (cases "List.find (\<lambda>r. r_number r = n) (rooms s)")
    case None
    then have new: "n \<notin> r_number ` set (rooms s)" by (auto simp: find_None_iff)
    define p where "p = fresh_pk (map r_pk (rooms s))"
    have p: "p \<notin> r_pk ` set (rooms s)" using fresh_pk_notin [of "map r_pk (rooms s)"] by (simp add: p_def)
    have same: "map (back_in [n]) (service_view s) = service_view s"
      by (rule map_idI) (use new in \<open>auto simp: service_view_def intro!: back_in_same\<close>)
    have none: "\<not> held_out_number s n" using new by (auto simp: held_out_number_def list_ex_iff)
    have "service_view (s\<lparr>rooms := rooms s @ [(blank_room p)\<lparr>r_number := n, r_label := l, r_position := j\<rparr>]\<rparr>)
        = service_view s @ [(p, n, True, False)]" for l j
      by (simp add: service_view_def taken_out_def held_out_by_staff_def blank_room_def)
    with assms(2) None new none p show ?thesis
      by (auto simp: seed_room_def find_or_create_room_def Let_def same service_view_configure p_def [symmetric]
        blank_room_def [of p, THEN arg_cong [where f = r_is_active]])
  next
    case (Some room)
    then have room: "room \<in> set (rooms s)" "r_number room = n" by (auto simp: find_Some_iff)
    then have old: "n \<in> r_number ` set (rooms s)" by auto
    have p: "fresh_pk (map r_pk (rooms s)) \<notin> r_pk ` set (rooms s)"
      using fresh_pk_notin [of "map r_pk (rooms s)"] by simp
    have out: "held_out_number s n = taken_out s room" using held_out_number_unique [OF assms(1) room(1)] room(2) by simp
    show ?thesis
      using assms(2) Some old p back_in_view_same [OF assms(1) room(1)] service_view_reactivate [OF assms(1) room(1)] room(2)
      by (auto simp: seed_room_def find_or_create_room_def Let_def service_view_configure out taken_out_def
        split: if_splits)
  qed
  then show "\<exists>p. p \<notin> r_pk ` set (rooms s) \<and> service_view s' = map (back_in [n]) (service_view s)
      @ (if n \<in> r_number ` set (rooms s) then [] else [(p, n, True, False)])"
    and "h' = h @ (if held_out_number s n then [n] else [])"
    and "c' = c + of_bool (n \<notin> r_number ` set (rooms s))" by simp_all
qed

lemma numbers_view: "r_number ` set (rooms s) = (fst \<circ> snd) ` set (service_view s)"
  by (force simp: service_view_def)

lemma pks_view: "r_pk ` set (rooms s) = fst ` set (service_view s)"
  by (force simp: service_view_def)

lemma seed_room_keeps:
  assumes "keyed_rooms s" and "seed_room dl configs (i, n) (c, h, s) = (c', h', s')"
  shows "keyed_rooms s'" and "r_number ` set (rooms s') = insert n (r_number ` set (rooms s))"
    and "held_out_number s' m = held_out_number s m"
proof -
  obtain p where p: "p \<notin> r_pk ` set (rooms s)" and v: "service_view s' = map (back_in [n]) (service_view s)
      @ (if n \<in> r_number ` set (rooms s) then [] else [(p, n, True, False)])"
    using seed_room_view(1) [OF assms] by blast
  show "keyed_rooms s'" using assms(1) p unfolding keyed_view pks_view numbers_view v
    by (auto simp: comp_def image_iff)
  show "r_number ` set (rooms s') = insert n (r_number ` set (rooms s))"
    unfolding numbers_view v
    by (cases "n \<in> (fst \<circ> snd) ` set (service_view s)") (simp_all add: image_Un image_image comp_def insert_absorb)
  show "held_out_number s' m = held_out_number s m"
    unfolding held_out_number_view v by (auto simp: list_ex_iff back_in_def split: prod.splits)
qed

lemma seed_rooms_view:
  assumes "keyed_rooms s" "distinct (map snd items)"
    and "fold (seed_room dl configs) items (c, h, s) = (c', h', s')"
  shows "\<exists>new. service_view s' = map (back_in (map snd items)) (service_view s) @ new
      \<and> map (fst \<circ> snd) new = filter (\<lambda>n. n \<notin> r_number ` set (rooms s)) (map snd items)
      \<and> list_all (\<lambda>(p, n, active, out). active \<and> \<not> out) new
      \<and> h' = h @ filter (held_out_number s) (map snd items) \<and> c' = c + length new \<and> keyed_rooms s'"
  using assms
proof (induction items arbitrary: c h s)
  case Nil
  then show ?case by (auto simp: back_in_same intro!: exI [of _ "[]"] sym [OF map_idI])
next
  case (Cons item items)
  obtain i n where item: "item = (i, n)" by (cases item)
  obtain c1 h1 s1 where step: "seed_room dl configs (i, n) (c, h, s) = (c1, h1, s1)" by (metis prod_cases3)
  note keeps = seed_room_keeps [OF Cons.prems(1) step] and view = seed_room_view [OF Cons.prems(1) step]
  obtain p where v: "service_view s1 = map (back_in [n]) (service_view s)
      @ (if n \<in> r_number ` set (rooms s) then [] else [(p, n, True, False)])" using view(1) by blast
  obtain new where new: "service_view s' = map (back_in (map snd items)) (service_view s1) @ new"
      "map (fst \<circ> snd) new = filter (\<lambda>n. n \<notin> r_number ` set (rooms s1)) (map snd items)"
      "list_all (\<lambda>(p, n, active, out). active \<and> \<not> out) new"
      "h' = h1 @ filter (held_out_number s1) (map snd items)" "c' = c1 + length new" "keyed_rooms s'"
  proof -
    have "fold (seed_room dl configs) items (c1, h1, s1) = (c', h', s')" "distinct (map snd items)"
      using Cons.prems(2,3) step by (simp_all add: item)
    from Cons.IH [OF keeps(1) this(2,1)] that show ?thesis by blast
  qed
  have fresh: "filter (\<lambda>m. m \<notin> r_number ` set (rooms s1)) (map snd items)
      = filter (\<lambda>m. m \<notin> r_number ` set (rooms s)) (map snd items)"
    using Cons.prems(2) by (intro filter_cong refl) (auto simp: keeps(2) item)
  have flags: "filter (held_out_number s1) (map snd items) = filter (held_out_number s) (map snd items)"
    by (intro filter_cong refl) (simp add: keeps(3))
  define here where "here = (if n \<in> r_number ` set (rooms s) then [] else [(p, n, True, False)])"
  have "service_view s' = map (back_in (map snd (item # items))) (service_view s) @ here @ new"
    unfolding new(1) v here_def by (simp add: item back_in_Cons back_in_same)
  moreover have "map (fst \<circ> snd) (here @ new) = filter (\<lambda>n. n \<notin> r_number ` set (rooms s)) (map snd (item # items))"
    unfolding map_append new(2) fresh by (simp add: here_def item)
  moreover have "list_all (\<lambda>(p, n, active, out). active \<and> \<not> out) (here @ new)" using new(3) by (simp add: here_def)
  moreover have "h' = h @ filter (held_out_number s) (map snd (item # items))" unfolding new(4) flags view(2) by (simp add: item)
  moreover have "c' = c + length (here @ new)" unfolding new(5) view(3) by (simp add: here_def)
  ultimately show ?case using new(6) by blast
qed

lemma show_numbers_distinct: "distinct (map fst configs) \<Longrightarrow> distinct (room_numbers count configs)"
  by (auto simp: room_numbers_def Let_def distinct_map inj_on_def)

lemma foldE_seed_timetable: "foldE seed_timetable timetable s = Inr s' \<Longrightarrow> rooms s' = rooms s \<and> audit_events s' = audit_events s"
proof (erule foldE_invariant [of _ _ _ _ "\<lambda>t. rooms t = rooms s \<and> audit_events t = audit_events s"])
  fix item t t' assume t: "rooms t = rooms s \<and> audit_events t = audit_events s" "seed_timetable item t = Inr t'"
  have add: "foldE (add_block p) es u = Inr u' \<Longrightarrow> rooms u' = rooms u \<and> audit_events u' = audit_events u" for p es u u'
    by (erule foldE_invariant [of _ _ _ _ "\<lambda>t. rooms t = rooms u \<and> audit_events t = audit_events u"])
      (auto simp: add_block_def Let_def split: option.splits)
  show "rooms t' = rooms s \<and> audit_events t' = audit_events s"
    using t add by (fastforce simp: seed_timetable_def set_weekly_blocks_def split: option.splits)
qed simp

text \<open>C35: Seeding the configured rooms, on rooms with distinct keys and numbers, loses no room and no room number: every
  room that was there keeps its key and number and is in service afterwards exactly when its number is configured and
  staff have not taken it out (whatever it was before: staff's deactivation outlives the run, and a retired room comes
  back), the configured numbers that had no room get one, in service, and the report names the held-out numbers and
  counts the new rooms.\<close>

theorem ensure_rooms_effect:
  assumes run: "ensure_rooms default_label count configs timetable s = Inr (report, s')"
    and keys: "keyed_rooms s" and dict: "distinct (map fst configs)"
  shows "\<exists>new. map (\<lambda>r. (r_pk r, r_number r, r_is_active r)) (rooms s')
        = map (\<lambda>r. (r_pk r, r_number r, r_number r \<in> set (room_numbers count configs) \<and> \<not> taken_out s r)) (rooms s) @ new
      \<and> map (fst \<circ> snd) new = filter (\<lambda>n. n \<notin> r_number ` set (rooms s)) (room_numbers count configs)
      \<and> list_all (\<lambda>(p, n, active). active) new
      \<and> map_of report ''created'' = Some (PNat (length new))
      \<and> map_of report ''held_out'' = Some (PList (map PStr (filter (held_out_number s) (room_numbers count configs))))
      \<and> keyed_rooms s'"
proof -
  define ns where "ns = room_numbers count configs"
  define items where "items = zip (map int [1..<Suc (length ns)]) ns"
  have items: "map snd items = ns" by (simp add: items_def del: upt_Suc)
  obtain c h s1 where fold: "fold (seed_room default_label configs) items (0, [], s) = (c, h, s1)" by (metis prod_cases3)
  obtain new where new: "service_view s1 = map (back_in ns) (service_view s) @ new"
      "map (fst \<circ> snd) new = filter (\<lambda>n. n \<notin> r_number ` set (rooms s)) ns"
      "list_all (\<lambda>(p, n, active, out). active \<and> \<not> out) new"
      "h = [] @ filter (held_out_number s) ns" "c = 0 + length new" "keyed_rooms s1"
    using seed_rooms_view [OF keys _ fold] show_numbers_distinct [OF dict] unfolding items ns_def by blast
  obtain s2 where s2: "foldE seed_timetable timetable s1 = Inr s2" and
    report: "map_of report ''created'' = Some (PNat c)" "map_of report ''held_out'' = Some (PList (map PStr h))" and
    rooms: "rooms s' = map (\<lambda>r. if r_is_active r \<and> r_number r \<notin> set ns then r\<lparr>r_is_active := False\<rparr> else r) (rooms s1)"
    using run fold foldE_seed_timetable unfolding ensure_rooms_def Let_def ns_def [symmetric] items_def [symmetric]
    by (auto simp: bindE_Inr retire_others_def Let_def)
  define keep where "keep = (\<lambda>(p::nat, n, active, out::bool). (p, n, active \<and> n \<in> set ns))"
  have view: "map (\<lambda>r. (r_pk r, r_number r, r_is_active r)) (rooms s') = map keep (service_view s1)"
    by (auto simp: rooms service_view_def keep_def)
  have old: "map keep (map (back_in ns) (service_view s))
      = map (\<lambda>r. (r_pk r, r_number r, r_number r \<in> set ns \<and> \<not> taken_out s r)) (rooms s)"
    by (auto simp: service_view_def keep_def back_in_def taken_out_def)
  have in_ns: "fst (snd v) \<in> set ns" if "v \<in> set new" for v
    using that arg_cong [OF new(2), of set] by auto
  have "map (fst \<circ> snd) (map keep new) = map (fst \<circ> snd) new"
    by (auto simp: keep_def)
  moreover have "list_all (\<lambda>(p, n, active). active) (map keep new)"
    using new(3) in_ns by (fastforce simp: keep_def list_all_iff)
  moreover have "keyed_rooms s'" using new(6) unfolding keyed_rooms_def rooms
    by (simp add: comp_def if_distrib [of r_pk] if_distrib [of r_number] cong: if_cong)
  ultimately show ?thesis
    using new(2,4,5) report unfolding view new(1) map_append old ns_def [symmetric]
    by (intro exI [of _ "map keep new"]) simp
qed

section \<open>Seeding touches rooms only\<close>

lemma set_audience_elsewhere: "elsewhere s (snd (set_audience p sc cs s))"
  by (simp add: set_audience_def Let_def)

lemma seed_room_elsewhere: "seed_room dl configs item (c, h, s) = (c', h', s') \<Longrightarrow> elsewhere s s'"
proof -
  have conf: "elsewhere t (configure_room k p t)" for k p t
    by (auto simp: configure_room_def Let_def intro: elsewhere_trans [OF _ set_audience_elsewhere])
  have "elsewhere s t \<Longrightarrow> elsewhere s (reactivate r t)" for r t by (simp add: reactivate_def)
  then show "seed_room dl configs item (c, h, s) = (c', h', s') \<Longrightarrow> elsewhere s s'"
    by (auto simp: seed_room_def find_or_create_room_def Let_def split_beta split: option.splits if_splits
      intro: elsewhere_trans [OF _ conf])
qed

lemma foldE_blocks_elsewhere: "foldE seed_timetable timetable s = Inr s' \<Longrightarrow> elsewhere s s'"
proof (erule foldE_invariant [of _ _ _ _ "elsewhere s"])
  fix item t t' assume t: "elsewhere s t" "seed_timetable item t = Inr t'"
  have add: "foldE (add_block p) es u = Inr u' \<Longrightarrow> elsewhere v u \<Longrightarrow> elsewhere v u'" for p es u u' v
    by (erule foldE_invariant) (auto simp: add_block_def Let_def split: option.splits)
  show "elsewhere s t'"
    using t by (auto simp: seed_timetable_def set_weekly_blocks_def split: option.splits intro: add)
qed simp

lemma ensure_rooms_elsewhere:
  assumes "ensure_rooms default_label count configs timetable s = Inr (report, s')"
  shows "elsewhere s s'"
proof -
  have loop: "fold (seed_room default_label configs) items (c, h, t) = (c', h', t') \<Longrightarrow> elsewhere t t'" for items c h t c' h' t'
  proof (induction items arbitrary: c h t)
    case (Cons item items)
    obtain c1 h1 t1 where "seed_room default_label configs item (c, h, t) = (c1, h1, t1)" by (metis prod_cases3)
    moreover from this have "elsewhere t t1" by (cases item) (auto dest: seed_room_elsewhere)
    ultimately show ?case using Cons by (auto intro: elsewhere_trans)
  qed simp
  obtain c h s1 where fold: "fold (seed_room default_label configs) (zip (map int [1..<Suc (length (room_numbers count configs))])
      (room_numbers count configs)) (0, [], s) = (c, h, s1)" by (metis prod_cases3)
  from assms fold obtain s2 where "foldE seed_timetable timetable s1 = Inr s2" and "elsewhere s2 s'"
    by (auto simp: ensure_rooms_def Let_def bindE_Inr retire_others_def simp del: upt_Suc)
  with loop [OF fold] foldE_blocks_elsewhere show ?thesis by (blast intro: elsewhere_trans)
qed

section \<open>A witness\<close>

definition sample_seed_st :: st where
  "sample_seed_st = record_audit ''room.deactivated'' ''Room'' ''1'' (Some staff_member) '''' [] ''Broken piano''
     ((sample_st 0)\<lparr>rooms := [room_a\<lparr>r_is_active := False\<rparr>, room_b]\<rparr>)"

definition sample_timetable :: "(string \<times> block_entry list) list" where
  "sample_timetable = [(''301'', [\<lparr>be_weekday = 0, be_start_hour = 9, be_end_hour = 12, be_reason = ''Theory'',
     be_valid_from = None, be_valid_until = None\<rparr>])]"

theorem ensure_rooms_effect_witness:
  "\<exists>report s'. ensure_rooms (\<lambda>n. n) 1 [(''301'', no_config\<lparr>rc_capacity := Some 4\<rparr>)] sample_timetable sample_seed_st = Inr (report, s')
    \<and> (\<exists>new. map (\<lambda>r. (r_pk r, r_number r, r_is_active r)) (rooms s') = [(1, ''301'', False), (2, ''302'', False)] @ new
      \<and> map (fst \<circ> snd) new = [''1''] \<and> map_of report ''held_out'' = Some (PList [PStr ''301'']))"
proof -
  let ?configs = "[(''301'', no_config\<lparr>rc_capacity := Some 4\<rparr>)]"
  let ?run = "ensure_rooms (\<lambda>n. n) 1 ?configs sample_timetable sample_seed_st"
  have "\<not> isl ?run" by code_simp
  then obtain report s' where run: "?run = Inr (report, s')" by (cases ?run) auto
  have keys: "keyed_rooms sample_seed_st" by code_simp
  have dict: "distinct (map fst ?configs)" by simp
  have facts: "map (\<lambda>r. (r_pk r, r_number r, r_number r \<in> set (room_numbers 1 ?configs) \<and> \<not> taken_out sample_seed_st r))
      (rooms sample_seed_st) = [(1, ''301'', False), (2, ''302'', False)]"
    "filter (\<lambda>n. n \<notin> r_number ` set (rooms sample_seed_st)) (room_numbers 1 ?configs) = [''1'']"
    "filter (held_out_number sample_seed_st) (room_numbers 1 ?configs) = [''301'']"
    by code_simp+
  show ?thesis
    using ensure_rooms_effect [OF run keys dict] run unfolding facts by auto
qed

end
