(* ===== verification/Instruments.thy ===== *)
theory Instruments
  imports Outbox
begin

text \<open>
  From the free text of an instrument to its family (\<open>services/instruments.py\<close>). The model's characters stop at code
  point 255: there a text is its own NFC form, and the Thai spellings of the table, which have no such character, match
  no text, so the table holds the others. \<open>category_for_user\<close> is in theory Eligibility.
\<close>

section \<open>The table\<close>

definition CATEGORY_ALIASES :: "(string \<times> category) list" where
  "CATEGORY_ALIASES = [(''piano'', PIANO), (''percussion'', PERCUSSION), (''drums'', PERCUSSION),
     (''violin'', STRINGS), (''viola'', STRINGS), (''cello'', STRINGS), (''double bass'', STRINGS),
     (''flute'', WOODWIND), (''oboe'', WOODWIND), (''clarinet'', WOODWIND), (''bassoon'', WOODWIND), (''saxophone'', WOODWIND),
     (''trumpet'', BRASS), (''horn'', BRASS), (''trombone'', BRASS), (''tuba'', BRASS),
     (''voice'', VOICE), (''classical guitar'', GUITAR), (''guitar'', GUITAR), (''harp'', HARP)]"

section \<open>Lookup\<close>

text \<open>\<open>_WHITESPACE.sub(" ", text)\<close>; the flag is set behind a space.\<close>

fun one_space :: "bool \<Rightarrow> string \<Rightarrow> string" where
  "one_space behind [] = []"
| "one_space behind (c # cs) = (if py_space c then (if behind then [] else [CHR '' '']) @ one_space True cs
     else c # one_space False cs)"

definition normalise :: "string \<Rightarrow> string" where
  "normalise text = (if text = [] then [] else strip (one_space False text))"

text \<open>
  \<open>casefold\<close>: the sharp s becomes two letters, a capital its small letter. (The micro sign becomes a Greek letter, which
  is in no key of the table, as the sign itself.)
\<close>

fun casefold :: "string \<Rightarrow> string" where
  "casefold [] = []"
| "casefold (c # cs) = (if of_char c = (223 :: nat) then ''ss'' else [lower_char c]) @ casefold cs"

definition categorise :: "string \<Rightarrow> category" where
  "categorise text = (case map_of CATEGORY_ALIASES (casefold (normalise text)) of Some c \<Rightarrow> c | None \<Rightarrow> UNKNOWN)"

definition is_recognised :: "string \<Rightarrow> bool" where
  "is_recognised text = (categorise text \<noteq> UNKNOWN)"

definition unrecognised :: "string list \<Rightarrow> string list" where
  "unrecognised values = sort (remdups (map normalise (filter (\<lambda>v. normalise v \<noteq> [] \<and> \<not> is_recognised v) values)))"

section \<open>Normal forms\<close>

text \<open>A text in normal form has single inner spaces and none at its ends.\<close>

definition tidy :: "string \<Rightarrow> bool" where
  "tidy s = ((\<forall>c \<in> set s. py_space c \<longrightarrow> c = CHR '' '') \<and> successively (\<lambda>a b. \<not> (py_space a \<and> py_space b)) s)"

lemma py_space_blank [simp]: "py_space (CHR '' '')"
  by (simp add: py_space_def)

lemma one_space_tidy: "tidy (one_space behind s) \<and> (behind \<longrightarrow> one_space behind s \<noteq> [] \<longrightarrow> \<not> py_space (hd (one_space behind s)))"
proof (induction behind s rule: one_space.induct)
  case (2 behind c cs)
  then show ?case by (auto simp: tidy_def successively_Cons)
qed (simp add: tidy_def)

lemma one_space_same: "tidy s \<Longrightarrow> (behind \<longrightarrow> s = [] \<or> \<not> py_space (hd s)) \<Longrightarrow> one_space behind s = s"
proof (induction s arbitrary: behind)
  case (Cons c cs)
  then show ?case by (auto simp: tidy_def successively_Cons)
qed simp

lemma tidy_parts: "tidy (xs @ ys) \<Longrightarrow> tidy xs \<and> tidy ys"
  by (auto simp: tidy_def successively_append_iff)

lemma tidy_rev [simp]: "tidy (rev s) = tidy s"
  by (simp only: tidy_def set_rev successively_rev conj_commute)

lemma tidy_dropWhile: "tidy s \<Longrightarrow> tidy (dropWhile P s)"
  by (metis takeWhile_dropWhile_id tidy_parts)

lemma tidy_strip: "tidy s \<Longrightarrow> tidy (strip s)"
  by (simp add: strip_def tidy_dropWhile)

lemma normalise_twice: "normalise (normalise t) = normalise t"
proof -
  have "tidy (strip (one_space False t))" using one_space_tidy tidy_strip by blast
  then have "one_space False (strip (one_space False t)) = strip (one_space False t)" by (simp add: one_space_same)
  then show ?thesis by (simp add: normalise_def)
qed

text \<open>A spelling reported once as unknown is reported again in its normal form, and means the same.\<close>

lemma categorise_normalise [simp]: "categorise (normalise t) = categorise t"
  by (simp add: categorise_def normalise_twice)

lemma unrecognised_iff: "set (unrecognised values) = {normalise v |v. v \<in> set values \<and> normalise v \<noteq> [] \<and> categorise v = UNKNOWN}"
  by (auto simp: unrecognised_def is_recognised_def)

lemma unrecognised_settled: "unrecognised (unrecognised values) = unrecognised values"
proof -
  have "filter (\<lambda>v. normalise v \<noteq> [] \<and> \<not> is_recognised v) (unrecognised values) = unrecognised values"
    by (rule filter_True) (auto simp: unrecognised_iff is_recognised_def normalise_twice)
  moreover have "map normalise (unrecognised values) = unrecognised values"
    by (rule map_idI) (auto simp: unrecognised_iff normalise_twice)
  moreover have "distinct (unrecognised values)" "sorted (unrecognised values)" by (simp_all add: unrecognised_def)
  ultimately show ?thesis by (simp add: unrecognised_def [of "unrecognised values"] distinct_remdups_id sort_key_id_if_sorted)
qed

end
