(* ===== verification/Csv.thy ===== *)
theory Csv
  imports PyVal
begin

text \<open>
  CSV files (\<open>services/csvio.py\<close>): the export that neutralises formulas, and the reader of uploaded rosters, over
  what they use of Python's \<open>csv\<close> module: the writer with minimal quoting, and the reader as the state machine it is.
  Which dialect \<open>csv.Sniffer\<close> guesses is a parameter. The byte order mark is a character the model's strings do not
  have: the text written is the text behind it, and the text read has lost it.
\<close>

section \<open>Writing\<close>

definition DANGEROUS_PREFIXES :: string where
  "DANGEROUS_PREFIXES = [CHR ''='', CHR ''+'', CHR ''-'', CHR ''@'', CHR 0x09, CHR 0x0D]"

text \<open>A cell is \<open>None\<close> or the text of a value.\<close>

definition safe_cell :: "string option \<Rightarrow> string" where
  "safe_cell value = (case value of
       None \<Rightarrow> []
     | Some text \<Rightarrow> if text \<noteq> [] \<and> hd text \<in> set DANGEROUS_PREFIXES then CHR 0x27 # text else text)"

definition quote :: char where "quote = CHR 0x22"
definition line_feed :: char where "line_feed = CHR 0x0A"
definition carriage_return :: char where "carriage_return = CHR 0x0D"

text \<open>\<open>QUOTE_MINIMAL\<close>: a field with a delimiter, a quote or an end of line is quoted, its quotes doubled.\<close>

fun double_quotes :: "string \<Rightarrow> string" where
  "double_quotes [] = []"
| "double_quotes (c # cs) = (if c = quote then [quote, quote] else [c]) @ double_quotes cs"

definition needs_quotes :: "string \<Rightarrow> bool" where
  "needs_quotes field = list_ex (\<lambda>c. c \<in> {CHR '','', quote, line_feed, carriage_return}) field"

definition write_field :: "string \<Rightarrow> string" where
  "write_field field = (if needs_quotes field then [quote] @ double_quotes field @ [quote] else field)"

fun write_fields :: "string list \<Rightarrow> string" where
  "write_fields [] = []"
| "write_fields [field] = write_field field"
| "write_fields (field # cells) = write_field field @ [CHR '',''] @ write_fields cells"

text \<open>\<open>writerow\<close>: a record of one empty field is written as two quotes.\<close>

definition write_record :: "string list \<Rightarrow> string" where
  "write_record cells = (if cells = [[]] then [quote, quote] else write_fields cells) @ [carriage_return, line_feed]"

definition write_csv :: "string option list \<Rightarrow> string option list list \<Rightarrow> string" where
  "write_csv headers rows = concat (map (write_record \<circ> map safe_cell) (headers # rows))"

section \<open>The reader of the csv module\<close>

record dialect =
  delimiter :: char
  quotechar :: char
  doublequote :: bool
  skipinitialspace :: bool

definition excel :: dialect where
  "excel = \<lparr>delimiter = CHR '','', quotechar = quote, doublequote = True, skipinitialspace = False\<rparr>"

datatype csv_failure = CsvError | AttributeError

datatype csv_mode = START_RECORD | START_FIELD | IN_FIELD | IN_QUOTED_FIELD | QUOTE_IN_QUOTED_FIELD | EAT_CRNL

text \<open>Where the reader is: its mode, the field and the record read so far.\<close>

type_synonym csv_state = "csv_mode \<times> string \<times> string list"

definition FIELD_LIMIT :: nat where "FIELD_LIMIT = 131072"

definition add_char :: "csv_mode \<Rightarrow> char \<Rightarrow> string \<Rightarrow> string list \<Rightarrow> csv_failure + csv_state" where
  "add_char mode c field cells = (if length field \<ge> FIELD_LIMIT then Inl CsvError else Inr (mode, field @ [c], cells))"

definition line_end :: "char \<Rightarrow> bool" where
  "line_end c = (c = line_feed \<or> c = carriage_return)"

definition start_field :: "dialect \<Rightarrow> char \<Rightarrow> string \<Rightarrow> string list \<Rightarrow> csv_failure + csv_state" where
  "start_field d c field cells =
    (if line_end c then Inr (EAT_CRNL, [], cells @ [field])
     else if c = quotechar d then Inr (IN_QUOTED_FIELD, field, cells)
     else if c = CHR '' '' \<and> skipinitialspace d then Inr (START_FIELD, field, cells)
     else if c = delimiter d then Inr (START_FIELD, [], cells @ [field])
     else add_char IN_FIELD c field cells)"

fun csv_char :: "dialect \<Rightarrow> char \<Rightarrow> csv_state \<Rightarrow> csv_failure + csv_state" where
  "csv_char d c (START_RECORD, field, cells) =
    (if line_end c then Inr (EAT_CRNL, field, cells) else start_field d c field cells)"
| "csv_char d c (START_FIELD, field, cells) = start_field d c field cells"
| "csv_char d c (IN_FIELD, field, cells) =
    (if line_end c then Inr (EAT_CRNL, [], cells @ [field])
     else if c = delimiter d then Inr (START_FIELD, [], cells @ [field])
     else add_char IN_FIELD c field cells)"
| "csv_char d c (IN_QUOTED_FIELD, field, cells) =
    (if c = quotechar d then Inr (if doublequote d then QUOTE_IN_QUOTED_FIELD else IN_FIELD, field, cells)
     else add_char IN_QUOTED_FIELD c field cells)"
| "csv_char d c (QUOTE_IN_QUOTED_FIELD, field, cells) =
    (if c = quotechar d then add_char IN_QUOTED_FIELD c field cells
     else if c = delimiter d then Inr (START_FIELD, [], cells @ [field])
     else if line_end c then Inr (EAT_CRNL, [], cells @ [field])
     else add_char IN_FIELD c field cells)"
| "csv_char d c (EAT_CRNL, field, cells) = (if line_end c then Inr (EAT_CRNL, field, cells) else Inl CsvError)"

fun end_of_line :: "csv_state \<Rightarrow> csv_state" where
  "end_of_line (START_FIELD, field, cells) = (START_RECORD, [], cells @ [field])"
| "end_of_line (IN_FIELD, field, cells) = (START_RECORD, [], cells @ [field])"
| "end_of_line (QUOTE_IN_QUOTED_FIELD, field, cells) = (START_RECORD, [], cells @ [field])"
| "end_of_line (IN_QUOTED_FIELD, field, cells) = (IN_QUOTED_FIELD, field, cells)"
| "end_of_line (EAT_CRNL, field, cells) = (START_RECORD, field, cells)"
| "end_of_line (START_RECORD, field, cells) = (START_RECORD, field, cells)"

text \<open>
  The records of a text, and what stopped the reader. The lines it is fed end after each line feed, as those of
  \<open>StringIO\<close> do; a quoted field may go on in the next line, and the end of the text closes it.
\<close>

fun csv_records :: "dialect \<Rightarrow> string \<Rightarrow> csv_state \<Rightarrow> string list list \<times> csv_failure option" where
  "csv_records d [] (mode, field, cells) =
    (if field \<noteq> [] \<or> mode = IN_QUOTED_FIELD then [cells @ [field]] else [], None)"
| "csv_records d (c # cs) state =
    (case csv_char d c state of
       Inl e \<Rightarrow> ([], Some e)
     | Inr next \<Rightarrow>
       if c = line_feed \<or> cs = [] then
         (case end_of_line next of (mode, field, cells) \<Rightarrow>
            if mode = START_RECORD then (let (records, e) = csv_records d cs (START_RECORD, [], []) in (cells # records, e))
            else csv_records d cs (mode, field, cells))
       else csv_records d cs next)"

definition read_records :: "dialect \<Rightarrow> string \<Rightarrow> string list list \<times> csv_failure option" where
  "read_records d text = csv_records d text (START_RECORD, [], [])"

section \<open>The upload\<close>

text \<open>\<open>dict\<close>: a key that is there already keeps its place and gets the new value.\<close>

definition dict_put :: "string \<Rightarrow> string \<Rightarrow> (string \<times> string) list \<Rightarrow> (string \<times> string) list" where
  "dict_put k v d = (if k \<in> fst ` set d then map (\<lambda>(k', v'). if k' = k then (k, v) else (k', v')) d else d @ [(k, v)])"

text \<open>
  One row of \<open>DictReader\<close> with its keys and values stripped. Missing cells are \<open>None\<close>, which the code reads as blank;
  the surplus cells of a long row are a list, which has no \<open>strip\<close>.
\<close>

definition csv_row :: "string list \<Rightarrow> string list \<Rightarrow> csv_failure + (string \<times> string) list" where
  "csv_row names row =
    (if length row > length names then Inl AttributeError
     else let d = fold (\<lambda>(k, v). dict_put k v) (zip names (row @ replicate (length names - length row) [])) []
          in Inr (fold (\<lambda>(k, v). dict_put (lower (strip k)) (strip v)) d []))"

definition read_csv :: "(string \<Rightarrow> dialect option) \<Rightarrow> string \<Rightarrow> csv_failure + (string \<times> string) list list" where
  "read_csv sniff text =
    (let d = (case sniff (take 4096 text) of None \<Rightarrow> excel | Some guess \<Rightarrow> guess);
         (records, stopped) = read_records d text
     in bindE (case records of
           [] \<Rightarrow> Inr []
         | names # rows \<Rightarrow> foldE (\<lambda>row ds. bindE (csv_row names row) (\<lambda>d. Inr (ds @ [d]))) (filter (\<lambda>row. row \<noteq> []) rows) [])
       (\<lambda>ds. case stopped of None \<Rightarrow> Inr ds | Some e \<Rightarrow> Inl e))"

section \<open>What is written reads back\<close>

lemma csv_char_codes [simp]: "quote \<noteq> CHR '',''" "CHR '','' \<noteq> quote" "carriage_return \<noteq> line_feed" "line_feed \<noteq> carriage_return"
    "quote \<noteq> line_feed" "line_feed \<noteq> quote" "carriage_return \<noteq> quote" "quote \<noteq> carriage_return"
    "carriage_return \<noteq> CHR '',''" "CHR '','' \<noteq> carriage_return" "line_feed \<noteq> CHR '',''" "CHR '','' \<noteq> line_feed"
  by (simp_all add: quote_def line_feed_def carriage_return_def)

lemma excel_simps [simp]: "delimiter excel = CHR '',''" "quotechar excel = quote" "doublequote excel" "\<not> skipinitialspace excel"
  by (simp_all add: excel_def)

lemma line_end_simps [simp]: "line_end line_feed" "line_end carriage_return" "\<not> line_end quote" "\<not> line_end (CHR '','')"
  by (simp_all add: line_end_def)

lemma read_plain:
  assumes "\<not> needs_quotes f" "rest \<noteq> []" "length g + length f \<le> FIELD_LIMIT"
  shows "csv_records excel (f @ rest) (IN_FIELD, g, cells) = csv_records excel rest (IN_FIELD, g @ f, cells)"
  using assms
proof (induction f arbitrary: g)
  case (Cons c f)
  then show ?case by (auto simp: needs_quotes_def line_end_def add_char_def)
qed simp

lemma read_quoted:
  assumes "rest \<noteq> []" "length g + length f \<le> FIELD_LIMIT"
  shows "csv_records excel (double_quotes f @ rest) (IN_QUOTED_FIELD, g, cells) = csv_records excel rest (IN_QUOTED_FIELD, g @ f, cells)"
  using assms
proof (induction f arbitrary: g)
  case (Cons c f)
  then show ?case by (auto simp: add_char_def)
qed simp

text \<open>The state behind a written field.\<close>

definition behind :: "csv_mode \<Rightarrow> string \<Rightarrow> string list \<Rightarrow> csv_state" where
  "behind mode f cells = (if needs_quotes f then (QUOTE_IN_QUOTED_FIELD, f, cells)
     else if f = [] then (mode, [], cells) else (IN_FIELD, f, cells))"

lemma read_field:
  assumes "rest \<noteq> []" "length f \<le> FIELD_LIMIT"
  shows "csv_records excel (write_field f @ rest) (START_FIELD, [], cells) = csv_records excel rest (behind START_FIELD f cells)"
proof (cases "needs_quotes f")
  case True
  have "csv_records excel ([quote] @ double_quotes f @ [quote] @ rest) (START_FIELD, [], cells)
      = csv_records excel (double_quotes f @ [quote] @ rest) (IN_QUOTED_FIELD, [], cells)"
    by (simp add: start_field_def)
  also have "\<dots> = csv_records excel ([quote] @ rest) (IN_QUOTED_FIELD, f, cells)"
    using read_quoted [of "[quote] @ rest" "[]" f cells] assms by simp
  finally show ?thesis using True assms by (simp add: write_field_def behind_def)
next
  case False
  show ?thesis
  proof (cases f)
    case (Cons c g)
    then have c: "c \<noteq> CHR '',''" "c \<noteq> quote" "\<not> line_end c" "c \<noteq> line_feed" and g: "\<not> needs_quotes g"
      using False by (auto simp: needs_quotes_def line_end_def)
    have "csv_records excel (c # g @ rest) (START_FIELD, [], cells) = csv_records excel (g @ rest) (IN_FIELD, [c], cells)"
      using c assms by (simp add: start_field_def add_char_def FIELD_LIMIT_def)
    also have "\<dots> = csv_records excel rest (IN_FIELD, c # g, cells)"
      using read_plain [OF g assms(1), of "[c]" cells] assms(2) Cons by simp
    finally show ?thesis using False Cons by (simp add: write_field_def behind_def)
  qed (use False in \<open>simp add: write_field_def behind_def\<close>)
qed

lemma behind_comma:
  "rest \<noteq> [] \<Longrightarrow> csv_records excel (CHR '','' # rest) (behind START_FIELD f cells) = csv_records excel rest (START_FIELD, [], cells @ [f])"
  by (simp add: behind_def start_field_def)

lemma behind_crlf:
  "csv_records excel (carriage_return # line_feed # rest) (behind START_FIELD f cells)
    = (let (records, e) = csv_records excel rest (START_RECORD, [], []) in ((cells @ [f]) # records, e))"
  by (simp add: behind_def start_field_def)

lemma read_fields:
  assumes "\<forall>f \<in> set fs. length f \<le> FIELD_LIMIT" "fs \<noteq> []"
  shows "csv_records excel (write_fields fs @ carriage_return # line_feed # rest) (START_FIELD, [], cells)
    = (let (records, e) = csv_records excel rest (START_RECORD, [], []) in ((cells @ fs) # records, e))"
  using assms
proof (induction fs arbitrary: cells rule: write_fields.induct)
  case (2 f)
  then show ?case by (simp add: read_field behind_crlf del: csv_records.simps)
next
  case (3 f g fs)
  then show ?case by (simp add: read_field behind_comma del: csv_records.simps)
qed simp

lemma start_either:
  assumes "\<not> line_end c"
  shows "csv_records excel (c # cs) (START_RECORD, [], cells) = csv_records excel (c # cs) (START_FIELD, [], cells)"
  using assms by simp

lemma write_fields_start:
  assumes "fs \<noteq> []" "fs \<noteq> [[]]"
  shows "\<exists>c cs. write_fields fs = c # cs \<and> \<not> line_end c"
proof (cases fs rule: write_fields.cases)
  case (2 f)
  then show ?thesis using assms
    by (cases f) (auto simp: write_field_def needs_quotes_def line_end_def)
next
  case (3 f g gs)
  then show ?thesis
    by (cases f) (auto simp: write_field_def needs_quotes_def line_end_def)
qed (use assms in simp)

lemma read_record:
  assumes "\<forall>f \<in> set fs. length f \<le> FIELD_LIMIT"
  shows "csv_records excel (write_record fs @ rest) (START_RECORD, [], [])
    = (let (records, e) = csv_records excel rest (START_RECORD, [], []) in (fs # records, e))"
proof -
  consider "fs = []" | "fs = [[]]" | "fs \<noteq> []" "fs \<noteq> [[]]" by blast
  then show ?thesis
  proof cases
    case 3
    then obtain c cs where c: "write_fields fs = c # cs" "\<not> line_end c" using write_fields_start by blast
    have "csv_records excel (write_fields fs @ carriage_return # line_feed # rest) (START_RECORD, [], [])
        = csv_records excel (write_fields fs @ carriage_return # line_feed # rest) (START_FIELD, [], [])"
      using c by (simp add: start_either del: csv_records.simps)
    with read_fields [OF assms 3(1), of rest "[]"] 3 show ?thesis by (simp add: write_record_def)
  qed (simp_all add: write_record_def start_field_def)
qed

lemma read_written:
  assumes "\<forall>fs \<in> set rows. \<forall>f \<in> set fs. length f \<le> FIELD_LIMIT"
  shows "read_records excel (concat (map write_record rows)) = (rows, None)"
  unfolding read_records_def using assms
proof (induction rows)
  case (Cons fs rows)
  then show ?case by (simp add: read_record)
qed simp

section \<open>What is written is what an upload finds\<close>

lemma fold_dict_put:
  assumes "distinct (map f (map fst kvs))" "fst ` set d \<inter> f ` fst ` set kvs = {}"
  shows "fold (\<lambda>(k, v). dict_put (f k) (g v)) kvs d = d @ map (\<lambda>(k, v). (f k, g v)) kvs"
  using assms
proof (induction kvs arbitrary: d)
  case (Cons kv kvs)
  obtain k v where kv: "kv = (k, v)" by (cases kv)
  have "dict_put (f k) (g v) d = d @ [(f k, g v)]" using Cons.prems by (auto simp: dict_put_def kv)
  moreover have "fst ` set (d @ [(f k, g v)]) \<inter> f ` fst ` set kvs = {}" using Cons.prems by (auto simp: kv)
  ultimately show ?case using Cons.IH [of "d @ [(f k, g v)]"] Cons.prems(1) by (simp add: kv)
qed simp

text \<open>A row no longer than a header without ambiguous names: each name gets its cell, the missing cells are blank.\<close>

lemma csv_row_distinct:
  assumes "distinct (map (\<lambda>n. lower (strip n)) names)" "length row \<le> length names"
  shows "csv_row names row = Inr (zip (map (\<lambda>n. lower (strip n)) names) (map strip (row @ replicate (length names - length row) [])))"
proof -
  let ?cells = "row @ replicate (length names - length row) []"
  have keys: "map fst (zip names ?cells) = names" using assms(2) by (intro map_fst_zip) simp
  have "distinct names" using assms(1) by (simp add: distinct_map)
  then have "fold (\<lambda>(k, v). dict_put k v) (zip names ?cells) [] = zip names ?cells"
    using fold_dict_put [of id "zip names ?cells" "[]" id] by (simp add: keys)
  moreover have "fold (\<lambda>(k, v). dict_put (lower (strip k)) (strip v)) (zip names ?cells) []
      = map (\<lambda>(k, v). (lower (strip k), strip v)) (zip names ?cells)"
    using fold_dict_put [of "\<lambda>n. lower (strip n)" "zip names ?cells" "[]" strip] assms(1) by (simp add: keys)
  moreover have "map (\<lambda>(k, v). (lower (strip k), strip v)) (zip names ?cells) = zip (map (\<lambda>n. lower (strip n)) names) (map strip ?cells)"
    by (simp only: zip_map_map)
  ultimately show ?thesis using assms(2) by (simp only: csv_row_def Let_def not_less [symmetric] if_False)
qed

lemma csv_rows_each:
  assumes "foldE (\<lambda>row ds. bindE (csv_row names row) (\<lambda>d. Inr (ds @ [d]))) rows ds = Inr ds'"
  shows "\<exists>new. ds' = ds @ new \<and> list_all2 (\<lambda>row d. csv_row names row = Inr d) rows new"
  using assms
proof (induction rows arbitrary: ds)
  case (Cons row rows)
  then obtain d where d: "csv_row names row = Inr d"
    and "foldE (\<lambda>row ds. bindE (csv_row names row) (\<lambda>d. Inr (ds @ [d]))) rows (ds @ [d]) = Inr ds'"
    by (auto simp: bindE_Inr)
  with Cons.IH obtain new where "ds' = (ds @ [d]) @ new" "list_all2 (\<lambda>row d. csv_row names row = Inr d) rows new" by blast
  with d show ?case by (intro exI [of _ "d # new"]) simp
qed simp

text \<open>Row by row, an upload of a written file finds the cells under the names of the header; a record without cells is skipped.\<close>

lemma upload_of_written:
  assumes "sniff (take 4096 text) \<in> {None, Some excel}" "text = concat (map write_record (names # table))"
    and "\<forall>row \<in> set (names # table). \<forall>cell \<in> set row. length cell \<le> FIELD_LIMIT"
    and "distinct (map (\<lambda>n. lower (strip n)) names)" "read_csv sniff text = Inr rows"
  shows "list_all2 (\<lambda>row d. length row \<le> length names \<and> (\<forall>j < length row. map_of d (lower (strip (names ! j))) = Some (strip (row ! j)))
      \<and> (\<forall>j < length names. length row \<le> j \<longrightarrow> map_of d (lower (strip (names ! j))) = Some []))
    (filter (\<lambda>row. row \<noteq> []) table) rows"
proof -
  have "(case sniff (take 4096 text) of None \<Rightarrow> excel | Some guess \<Rightarrow> guess) = excel" using assms(1) by auto
  moreover have "read_records excel text = (names # table, None)" unfolding assms(2) by (rule read_written) (rule assms(3))
  ultimately have "foldE (\<lambda>row ds. bindE (csv_row names row) (\<lambda>d. Inr (ds @ [d]))) (filter (\<lambda>row. row \<noteq> []) table) [] = Inr rows"
    using assms(5) by (auto simp: read_csv_def bindE_Inr)
  from csv_rows_each [OF this] have "list_all2 (\<lambda>row d. csv_row names row = Inr d) (filter (\<lambda>row. row \<noteq> []) table) rows" by simp
  then show ?thesis
  proof (rule list.rel_mono_strong, intro conjI allI impI)
    fix row d assume d: "csv_row names row = Inr d"
    then show short: "length row \<le> length names" by (simp add: csv_row_def split: if_splits)
    let ?keys = "map (\<lambda>n. lower (strip n)) names"
    let ?cells = "map strip (row @ replicate (length names - length row) [])"
    have "d = zip ?keys ?cells" using csv_row_distinct [OF assms(4) short] d by simp
    then have at: "map_of d (lower (strip (names ! j))) = Some (?cells ! j)" if "j < length names" for j
      using map_of_zip_nth [of ?keys ?cells j] assms(4) short that by simp
    show "map_of d (lower (strip (names ! j))) = Some (strip (row ! j))" if "j < length row" for j
      using at [of j] that short by (simp add: nth_append)
    show "map_of d (lower (strip (names ! j))) = Some []" if "j < length names" "length row \<le> j" for j
      using at [of j] that by (simp add: nth_append)
  qed
qed

lemma safe_cell_harmless: "safe_cell v = [] \<or> hd (safe_cell v) \<notin> set DANGEROUS_PREFIXES"
  by (auto simp: safe_cell_def DANGEROUS_PREFIXES_def split: option.splits)

text \<open>C39: An exported file reads back as the cells it was written from, row by row, empty and multi-line cells included, and
  no cell of it begins with a character a spreadsheet takes for a formula, whatever the values are (each cell within
  the limit of Python's reader).\<close>

theorem export_roundtrip:
  assumes "\<forall>row \<in> set (headers # rows). \<forall>v \<in> set row. length (safe_cell v) \<le> FIELD_LIMIT"
  shows "read_records excel (write_csv headers rows) = (map (map safe_cell) (headers # rows), None)
    \<and> list_all (list_all (\<lambda>cell. cell = [] \<or> hd cell \<notin> set DANGEROUS_PREFIXES)) (fst (read_records excel (write_csv headers rows)))"
proof -
  have "read_records excel (write_csv headers rows) = (map (map safe_cell) (headers # rows), None)"
    using read_written [of "map (map safe_cell) (headers # rows)"] assms by (simp add: write_csv_def comp_def)
  then show ?thesis using safe_cell_harmless by (auto simp: list_all_iff)
qed

theorem export_roundtrip_witness:
  "read_records excel (write_csv [Some ''name'', Some ''note''] [[Some ''=1+1'', Some [quote, line_feed, CHR '','']], [None, Some '''']])
    = ([[''name'', ''note''], [CHR 0x27 # ''=1+1'', [quote, line_feed, CHR '','']], ['''', '''']], None)"
proof -
  have fits: "\<forall>row \<in> set ([Some ''name'', Some ''note''] # [[Some ''=1+1'', Some [quote, line_feed, CHR '','']], [None, Some '''']]).
      \<forall>v \<in> set row. length (safe_cell v) \<le> FIELD_LIMIT"
    by (simp add: safe_cell_def FIELD_LIMIT_def)
  show ?thesis using export_roundtrip [OF fits] by (simp add: safe_cell_def DANGEROUS_PREFIXES_def quote_def)
qed

text \<open>A row with more cells than the header stops the upload with an exception no caller expects.\<close>

lemma long_row_raises:
  "read_csv (\<lambda>sample. None) (concat (map write_record [[''email''], [''a'', ''b'']])) = Inl AttributeError"
  by (simp add: read_csv_def read_written FIELD_LIMIT_def csv_row_def del: list.map concat.simps)

end
