(* ===== verification/Roster.thy ===== *)
theory Roster
  imports Rooms Instruments Csv
begin

text \<open>
  The roster (\<open>services/roster.py\<close>): the import of a file with its dry run, the correction of one address, the
  deactivation of entries a full file no longer has, and \<open>manage.py import_roster\<close>. Django's \<open>validate_email\<close> and the
  dialect \<open>csv.Sniffer\<close> guesses are parameters. \<open>updated_at\<close> is \<open>auto_now\<close>: a saved row gets the wall clock, a row
  of a bulk update the clock of the code.
\<close>

section \<open>Rows\<close>

text \<open>\<open>row.get(name) or ""\<close>.\<close>

definition cell_of :: "(string \<times> string) list \<Rightarrow> string \<Rightarrow> string" where
  "cell_of row name = (case map_of row name of None \<Rightarrow> [] | Some v \<Rightarrow> v)"

text \<open>\<open>repr\<close> of a text.\<close>

definition repr_char :: "char \<Rightarrow> char \<Rightarrow> string" where
  "repr_char mark c = (let n = (of_char c :: nat) in
     if c = mark \<or> n = 92 then [CHR 0x5C, c]
     else if n = 9 then [CHR 0x5C, CHR ''t''] else if n = 10 then [CHR 0x5C, CHR ''n'']
     else if n = 13 then [CHR 0x5C, CHR ''r'']
     else if n < 32 \<or> (127 \<le> n \<and> n \<le> 160) \<or> n = 173 then [CHR 0x5C, CHR ''x'', hex_digit (n div 16), hex_digit (n mod 16)]
     else [c])"

definition py_repr :: "string \<Rightarrow> string" where
  "py_repr s = (let mark = (if CHR 0x27 \<in> set s \<and> CHR 0x22 \<notin> set s then CHR 0x22 else CHR 0x27)
     in [mark] @ concat (map (repr_char mark) s) @ [mark])"

text \<open>\<open>int(text)\<close>: an optional sign, digits, single underscores between digits.\<close>

fun digits_value :: "nat \<Rightarrow> bool \<Rightarrow> string \<Rightarrow> nat option" where
  "digits_value n digit [] = (if digit then Some n else None)"
| "digits_value n digit (c # cs) = (let d = (of_char c :: nat) in
     if 48 \<le> d \<and> d \<le> 57 then digits_value (10 * n + (d - 48)) True cs
     else if c = CHR ''_'' \<and> digit \<and> cs \<noteq> [] then digits_value n False cs
     else None)"

definition py_int :: "string \<Rightarrow> int option" where
  "py_int text = (case strip text of
       [] \<Rightarrow> None
     | c # cs \<Rightarrow> if c = CHR ''-'' then map_option (\<lambda>n. - int n) (digits_value 0 False cs)
         else map_option int (digits_value 0 False (if c = CHR ''+'' then cs else c # cs)))"

record entry =
  en_institutional_id :: string
  en_email :: string
  en_name_th :: string
  en_name_en :: string
  en_program :: string
  en_instrument :: string
  en_instrument_category :: category
  en_year :: "int option"

definition REQUIRED_FIELDS :: "string list" where
  "REQUIRED_FIELDS = [''institutional_id'', ''email'']"

definition year_of :: "string \<Rightarrow> string + int option" where
  "year_of year = (if year = [] then Inr None else case py_int year of
       Some y \<Rightarrow> if 1 \<le> y \<and> y \<le> 12 then Inr (Some y)
         else Inl (''Year must be a number from 1 to 12, got '' @ py_repr year @ ''.'')
     | None \<Rightarrow> Inl (''Year must be a number from 1 to 12, got '' @ py_repr year @ ''.''))"

definition clean_entry :: "(string \<times> string) list \<Rightarrow> int option \<Rightarrow> entry" where
  "clean_entry row year =
    (let instrument = strip (cell_of row ''instrument'')
     in \<lparr>en_institutional_id = strip (cell_of row ''institutional_id''), en_email = normalize_email (cell_of row ''email''),
         en_name_th = strip (or_text (cell_of row ''name_th'') (cell_of row ''name'')),
         en_name_en = strip (cell_of row ''name_en''), en_program = strip (cell_of row ''program''),
         en_instrument = instrument, en_instrument_category = categorise instrument, en_year = year\<rparr>)"

section \<open>Validation of the file\<close>

text \<open>Where the loop over the rows is: the entries taken, the IDs and addresses seen, the errors by line.\<close>

record scan =
  sc_cleaned :: "entry list"
  sc_ids :: "string list"
  sc_emails :: "string list"
  sc_errors :: "(int \<times> string) list"

definition row_error :: "int \<Rightarrow> string \<Rightarrow> scan \<Rightarrow> scan" where
  "row_error line message acc = acc\<lparr>sc_errors := sc_errors acc @ [(line, message)]\<rparr>"

definition scan_row :: "(string \<Rightarrow> bool) \<Rightarrow> int \<times> (string \<times> string) list \<Rightarrow> scan \<Rightarrow> scan" where
  "scan_row valid_email item acc =
    (let (line, row) = item; missing = filter (\<lambda>name. cell_of row name = []) REQUIRED_FIELDS in
     if missing \<noteq> [] then row_error line (''Missing required field(s): '' @ join_with '', '' missing @ ''.'') acc
     else let institutional_id = strip (cell_of row ''institutional_id''); email = normalize_email (cell_of row ''email'') in
     if \<not> valid_email email then row_error line (''Not a valid email address: '' @ py_repr email @ ''.'') acc
     else if institutional_id \<in> set (sc_ids acc)
       then row_error line (''Duplicate institutional ID inside this file: '' @ institutional_id @ ''.'') acc
     else if email \<in> set (sc_emails acc) then row_error line (''Duplicate email inside this file: '' @ email @ ''.'') acc
     else let acc = acc\<lparr>sc_ids := sc_ids acc @ [institutional_id], sc_emails := sc_emails acc @ [email]\<rparr> in
     case year_of (cell_of row ''year'') of
       Inl message \<Rightarrow> row_error line message acc
     | Inr year \<Rightarrow> acc\<lparr>sc_cleaned := sc_cleaned acc @ [clean_entry row year]\<rparr>)"

definition scan_rows :: "(string \<Rightarrow> bool) \<Rightarrow> (string \<times> string) list list \<Rightarrow> scan" where
  "scan_rows valid_email rows = fold (scan_row valid_email) (zip (map int [2..<length rows + 2]) rows)
     \<lparr>sc_cleaned = [], sc_ids = [], sc_emails = [], sc_errors = []\<rparr>"

record import_report =
  ir_rows_read :: nat
  ir_valid :: nat
  ir_created :: nat
  ir_unchanged :: nat
  ir_errors :: "(int \<times> string) list"
  ir_dry_run :: bool
  ir_institutional_ids :: "string list"
  ir_unrecognised :: "string list"
  ir_email_changed :: nat

definition scan_report :: "nat \<Rightarrow> bool \<Rightarrow> scan \<Rightarrow> import_report" where
  "scan_report rows_read dry_run scan =
    \<lparr>ir_rows_read = rows_read, ir_valid = length (sc_cleaned scan), ir_created = 0, ir_unchanged = 0,
     ir_errors = sc_errors scan, ir_dry_run = dry_run, ir_institutional_ids = map en_institutional_id (sc_cleaned scan),
     ir_unrecognised = unrecognised (map en_instrument (sc_cleaned scan)), ir_email_changed = 0\<rparr>"

text \<open>\<open>ImportReport.summary\<close>.\<close>

definition summary :: "import_report \<Rightarrow> string" where
  "summary report =
    (let verb = (if ir_dry_run report then ''would be'' else ''were'') in
     join_with [CHR 0x0A]
       ([show_nat (ir_rows_read report) @ '' rows read; '' @ show_nat (ir_valid report) @ '' valid; ''
          @ show_nat (ir_created report) @ '' '' @ verb @ '' created; '' @ show_nat (ir_unchanged report) @ '' unchanged; ''
          @ show_nat (length (ir_errors report)) @ '' errors.'']
        @ (if ir_email_changed report = 0 then []
           else [show_nat (ir_email_changed report) @ '' existing roster address(es) '' @ verb @ '' rewritten. Check them against the department''
             @ [CHR 0x27] @ ''s confirmation before relying on automatic approval.''])
        @ (if ir_unrecognised report = [] then []
           else [show_nat (length (ir_unrecognised report)) @ '' instrument spelling(s) have no category: ''
             @ join_with '', '' (ir_unrecognised report)
             @ ''. Those students cannot reserve an instrument-specific room until they are categorised.''])))"

section \<open>Applying one entry\<close>

text \<open>The width of the columns. IDs and addresses are unique columns, so a lookup by either finds one row at most.\<close>

definition row_fits :: "eligible_student \<Rightarrow> bool" where
  "row_fits r = (length (es_institutional_id r) \<le> 64 \<and> length (es_email r) \<le> 254 \<and> length (es_name_th r) \<le> 200
     \<and> length (es_name_en r) \<le> 200 \<and> length (es_program r) \<le> 120 \<and> length (es_instrument r) \<le> 120
     \<and> length (es_import_batch r) \<le> 64)"

definition by_id :: "string \<Rightarrow> st \<Rightarrow> eligible_student option" where
  "by_id institutional_id s = List.find (\<lambda>r. es_institutional_id r = institutional_id) (roster s)"

definition by_email :: "string \<Rightarrow> st \<Rightarrow> eligible_student option" where
  "by_email email s = List.find (\<lambda>r. es_email r = email) (roster s)"

definition conflicting_entry :: "entry \<Rightarrow> bool \<Rightarrow> st \<Rightarrow> string option" where
  "conflicting_entry e allow_email_change s =
    (if (case by_id (en_institutional_id e) s of None \<Rightarrow> False | Some r \<Rightarrow> es_email r \<noteq> en_email e \<and> \<not> allow_email_change)
     then Some (''Institutional ID '' @ en_institutional_id e @ '' is already on the roster with a different email address; refusing to overwrite it.'')
     else if (case by_email (en_email e) s of None \<Rightarrow> False | Some r \<Rightarrow> es_institutional_id r \<noteq> en_institutional_id e)
     then Some (''Email '' @ en_email e @ '' is already on the roster under a different institutional ID; refusing to rebind it.'')
     else None)"

definition roster_row :: "nat \<Rightarrow> string \<Rightarrow> time \<Rightarrow> entry \<Rightarrow> eligible_student" where
  "roster_row pk batch now e = \<lparr>es_pk = pk, es_institutional_id = en_institutional_id e, es_email = en_email e,
     es_instrument_category = en_instrument_category e, es_is_active = True, es_account = None, es_name_th = en_name_th e,
     es_name_en = en_name_en e, es_program = en_program e, es_instrument = en_instrument e, es_year = en_year e,
     es_import_batch = batch, es_updated_at = now\<rparr>"

text \<open>What a blank cell of the file does not say is kept; a row nothing changes in is not saved.\<close>

definition overwritten :: "entry \<Rightarrow> eligible_student \<Rightarrow> eligible_student" where
  "overwritten e r =
    r\<lparr>es_name_th := or_text (en_name_th e) (es_name_th r), es_name_en := or_text (en_name_en e) (es_name_en r),
       es_program := or_text (en_program e) (es_program r),
       es_year := (if en_year e \<in> {None, Some 0} then es_year r else en_year e),
       es_instrument := or_text (en_instrument e) (es_instrument r),
       es_instrument_category := (if en_instrument e = [] then es_instrument_category r else en_instrument_category e),
       es_email := en_email e, es_is_active := True\<rparr>"

definition refreshed :: "entry \<Rightarrow> time \<Rightarrow> eligible_student \<Rightarrow> eligible_student" where
  "refreshed e now r = (if overwritten e r = r then r else (overwritten e r)\<lparr>es_updated_at := now\<rparr>)"

definition apply_entry :: "entry \<Rightarrow> string \<Rightarrow> st \<Rightarrow> exn + (bool \<times> bool \<times> st)" where
  "apply_entry e batch s =
    (case by_id (en_institutional_id e) s of
       None \<Rightarrow>
         let r = roster_row (fresh_pk (map es_pk (roster s))) batch (wall_now s) e in
         if \<not> row_fits r then Inl DatabaseError
         else if by_email (en_email e) s \<noteq> None then Inl (IntegrityError ''core_eligiblestudent_email_key'')
         else Inr (True, False, s\<lparr>roster := roster s @ [r]\<rparr>)
     | Some existing \<Rightarrow>
         let r = refreshed e (wall_now s) existing in
         if \<not> row_fits r then Inl DatabaseError
         else if list_ex (\<lambda>x. es_email x = es_email r \<and> es_pk x \<noteq> es_pk r) (roster s)
           then Inl (IntegrityError ''core_eligiblestudent_email_key'')
         else Inr (False, es_email existing \<noteq> en_email e,
           s\<lparr>roster := update_row es_pk (es_pk existing) (\<lambda>_. r) (roster s)\<rparr>))"

section \<open>The import\<close>

datatype import_failure =
    Conflict string \<comment> \<open>the \<open>ValueError\<close> of a contradiction with the roster\<close>
  | Invalid "(int \<times> string) list" \<comment> \<open>the command's error after a report with errors\<close>
  | Unreadable csv_failure
  | Failed exn

definition count_entry :: "bool \<Rightarrow> bool \<Rightarrow> import_report \<Rightarrow> import_report" where
  "count_entry created rewritten report =
    report\<lparr>ir_created := ir_created report + of_bool created, ir_unchanged := ir_unchanged report + of_bool (\<not> created),
       ir_email_changed := ir_email_changed report + of_bool rewritten\<rparr>"

definition dry_entry :: "bool \<Rightarrow> st \<Rightarrow> entry \<Rightarrow> import_report \<Rightarrow> import_report" where
  "dry_entry allow_email_change s e report =
    (case conflicting_entry e allow_email_change s of
       Some conflict \<Rightarrow> report\<lparr>ir_errors := ir_errors report @ [(0, conflict)]\<rparr>
     | None \<Rightarrow> (case by_id (en_institutional_id e) s of
           None \<Rightarrow> count_entry True False report
         | Some existing \<Rightarrow> count_entry False (es_email existing \<noteq> en_email e) report))"

definition import_entry :: "bool \<Rightarrow> string \<Rightarrow> entry \<Rightarrow> import_report \<times> st \<Rightarrow> import_failure + (import_report \<times> st)" where
  "import_entry allow_email_change batch e acc = (let (report, s) = acc in
    case conflicting_entry e allow_email_change s of
       Some conflict \<Rightarrow> Inl (Conflict conflict)
     | None \<Rightarrow> (case apply_entry e batch s of
           Inl x \<Rightarrow> Inl (Failed x)
         | Inr (created, rewritten, s) \<Rightarrow> Inr (count_entry created rewritten report, s)))"

text \<open>All or nothing: an exception rolls the transaction back.\<close>

definition import_roster_rows :: "(string \<Rightarrow> bool) \<Rightarrow> (string \<times> string) list list \<Rightarrow> actor \<Rightarrow> bool \<Rightarrow> string \<Rightarrow> bool \<Rightarrow> st
    \<Rightarrow> import_failure + (import_report \<times> st)" where
  "import_roster_rows valid_email rows actor dry_run batch allow_email_change s =
    (let scan = scan_rows valid_email rows; report = scan_report (length rows) dry_run scan in
     if ir_errors report \<noteq> [] then Inr (report, s)
     else if dry_run then Inr (fold (dry_entry allow_email_change s) (sc_cleaned scan) report, s)
     else bindE (foldE (import_entry allow_email_change batch) (sc_cleaned scan) (report, s)) (\<lambda>(report, s).
       if length batch > 64 then Inl (Failed DatabaseError) else
       Inr (report, record_audit ''roster.imported'' ''EligibleStudent'' (or_text batch ''batch'') actor ''''
         [(''rows_read'', PNat (ir_rows_read report)), (''created'', PNat (ir_created report)),
          (''unchanged'', PNat (ir_unchanged report)), (''email_changed'', PNat (ir_email_changed report)),
          (''allow_email_change'', PBool allow_email_change), (''batch'', PStr batch)] '''' s)))"

definition import_roster_text :: "(string \<Rightarrow> dialect option) \<Rightarrow> (string \<Rightarrow> bool) \<Rightarrow> string \<Rightarrow> actor \<Rightarrow> bool \<Rightarrow> string \<Rightarrow> bool \<Rightarrow> st
    \<Rightarrow> import_failure + (import_report \<times> st)" where
  "import_roster_text sniff valid_email text actor dry_run batch allow_email_change s =
    (case read_csv sniff text of
       Inl e \<Rightarrow> Inl (Unreadable e)
     | Inr rows \<Rightarrow> import_roster_rows valid_email rows actor dry_run batch allow_email_change s)"

section \<open>One address, and the entries a full file lost\<close>

definition linked_account :: "eligible_student \<Rightarrow> st \<Rightarrow> user option" where
  "linked_account r s = map_option (user_of s) (es_account r)"

definition account_matches :: "eligible_student \<Rightarrow> string \<Rightarrow> st \<Rightarrow> bool" where
  "account_matches r email s = (case linked_account r s of None \<Rightarrow> False | Some u \<Rightarrow> normalize_email (u_email u) = email)"

definition correction_dict :: "eligible_student \<Rightarrow> string \<Rightarrow> bool \<Rightarrow> st \<Rightarrow> dict" where
  "correction_dict r email changed s =
    [(''entry_id'', PNat (es_pk r)), (''institutional_id'', PStr (es_institutional_id r)), (''previous_email'', PStr (es_email r)),
     (''email'', PStr email), (''linked_account_id'', (case linked_account r s of None \<Rightarrow> PNone | Some u \<Rightarrow> PNat (u_pk u))),
     (''linked_account_matches'', PBool (account_matches r email s)), (''changed'', PBool changed)]"

definition correct_email :: "(string \<Rightarrow> bool) \<Rightarrow> nat \<Rightarrow> string \<Rightarrow> string \<Rightarrow> ctx \<Rightarrow> st \<Rightarrow> exn + (dict \<times> st)" where
  "correct_email valid_email entry_pk raw_email reason cx s =
    (let email = normalize_email raw_email in
     if email = [] \<or> \<not> valid_email email then Inl (rejected Code_INVALID_INPUT [(''field'', PStr ''email'')])
     else if strip reason = [] then Inl (rejected Code_INVALID_INPUT [(''field'', PStr ''reason'')])
     else case get_row es_pk entry_pk (roster s) of
       None \<Rightarrow> Inl DoesNotExist
     | Some r \<Rightarrow>
       if es_email r = email then Inr (correction_dict r email False s, s)
       else case List.find (\<lambda>x. es_email x = email \<and> es_pk x \<noteq> entry_pk) (roster s) of
         Some holder \<Rightarrow> Inl (rejected Code_DUPLICATE_ACCOUNT [(''email'', PStr email), (''held_by'', PStr (es_institutional_id holder))])
       | None \<Rightarrow>
         if length email > 254 then Inl DatabaseError
         else let s' = s\<lparr>roster := update_row es_pk entry_pk (\<lambda>r. r\<lparr>es_email := email, es_updated_at := wall_now s\<rparr>) (roster s)\<rparr>;
             s' = ctx_audit ''roster.email_corrected'' ''EligibleStudent'' (show_nat entry_pk) (ctx_actor cx)
               [(''institutional_id'', PStr (es_institutional_id r)), (''from'', PStr (es_email r)), (''to'', PStr email),
                (''linked_account_id'', (case linked_account r s of None \<Rightarrow> PNone | Some u \<Rightarrow> PNat (u_pk u))),
                (''linked_account_matches'', PBool (account_matches r email s))] (strip reason) s'
           in Inr (correction_dict r email True s, s'))"

definition deactivate_missing :: "string list \<Rightarrow> actor \<Rightarrow> bool \<Rightarrow> st \<Rightarrow> nat \<times> st" where
  "deactivate_missing keep_ids actor dry_run s =
    (let stale = (\<lambda>r. es_is_active r \<and> es_institutional_id r \<notin> set keep_ids); count = length (filter stale (roster s)) in
     if dry_run \<or> count = 0 then (count, s)
     else (count, record_audit ''roster.deactivated'' ''EligibleStudent'' ''bulk'' actor ''''
       [(''deactivated'', PNat count)] ''Absent from the full roster refresh.''
       (s\<lparr>roster := map (\<lambda>r. if stale r then r\<lparr>es_is_active := False, es_updated_at := clock_now s\<rparr> else r) (roster s)\<rparr>)))"

text \<open>\<open>manage.py import_roster\<close> on the text of the file: the report, and how many entries were retired if that was asked.\<close>

definition import_command :: "(string \<Rightarrow> dialect option) \<Rightarrow> (string \<Rightarrow> bool) \<Rightarrow> string \<Rightarrow> bool \<Rightarrow> string \<Rightarrow> bool \<Rightarrow> bool \<Rightarrow> st
    \<Rightarrow> import_failure + (import_report \<times> nat option \<times> st)" where
  "import_command sniff valid_email text dry_run batch allow_email_change retire s =
    bindE (import_roster_text sniff valid_email text None dry_run batch allow_email_change s) (\<lambda>(report, s).
      if ir_errors report \<noteq> [] then Inl (Invalid (ir_errors report))
      else if retire then
        (let (count, s) = deactivate_missing (ir_institutional_ids report) None dry_run s in Inr (report, Some count, s))
      else Inr (report, None, s))"

text \<open>The upload of the staff page: the report it shows.\<close>

definition upload_roster :: "(string \<Rightarrow> dialect option) \<Rightarrow> (string \<Rightarrow> bool) \<Rightarrow> string \<Rightarrow> actor \<Rightarrow> bool \<Rightarrow> string \<Rightarrow> bool \<Rightarrow> st
    \<Rightarrow> import_failure + (import_report \<times> st)" where
  "upload_roster sniff valid_email text actor dry_run batch allow_email_change s =
    (case import_roster_text sniff valid_email text actor dry_run batch allow_email_change s of
       Inl (Conflict conflict) \<Rightarrow> Inr (\<lparr>ir_rows_read = 0, ir_valid = 0, ir_created = 0, ir_unchanged = 0, ir_errors = [(0, conflict)],
         ir_dry_run = False, ir_institutional_ids = [], ir_unrecognised = [], ir_email_changed = 0\<rparr>, s)
     | result \<Rightarrow> result)"

section \<open>What validation promises\<close>

definition scan_ok :: "(string \<Rightarrow> bool) \<Rightarrow> scan \<Rightarrow> bool" where
  "scan_ok valid_email acc = (distinct (map en_institutional_id (sc_cleaned acc)) \<and> distinct (map en_email (sc_cleaned acc))
     \<and> set (map en_institutional_id (sc_cleaned acc)) \<subseteq> set (sc_ids acc) \<and> set (map en_email (sc_cleaned acc)) \<subseteq> set (sc_emails acc)
     \<and> (\<forall>e \<in> set (sc_cleaned acc). valid_email (en_email e) \<and> (\<forall>y. en_year e = Some y \<longrightarrow> 1 \<le> y \<and> y \<le> 12)))"

lemma year_of_range: "year_of t = Inr y \<Longrightarrow> y = Some v \<Longrightarrow> 1 \<le> v \<and> v \<le> 12"
  by (auto simp: year_of_def split: if_splits option.splits)

lemma row_error_ok [simp]: "scan_ok valid_email (row_error line message acc) = scan_ok valid_email acc"
  by (simp add: scan_ok_def row_error_def)

lemma clean_entry_simps [simp]: "en_institutional_id (clean_entry row y) = strip (cell_of row ''institutional_id'')"
    "en_email (clean_entry row y) = normalize_email (cell_of row ''email'')" "en_year (clean_entry row y) = y"
  by (simp_all add: clean_entry_def Let_def)

lemma scan_row_ok: "scan_ok valid_email acc \<Longrightarrow> scan_ok valid_email (scan_row valid_email item acc)"
  unfolding scan_row_def Let_def split_beta
  by (auto simp: scan_ok_def row_error_def split: sum.splits dest: year_of_range)

lemma scan_rows_ok: "scan_ok valid_email (scan_rows valid_email rows)"
proof -
  have "scan_ok valid_email (fold (scan_row valid_email) items acc)" if "scan_ok valid_email acc" for items acc
    using that by (induction items arbitrary: acc) (simp_all add: scan_row_ok)
  moreover have "scan_ok valid_email \<lparr>sc_cleaned = [], sc_ids = [], sc_emails = [], sc_errors = []\<rparr>"
    by (simp add: scan_ok_def)
  ultimately show ?thesis unfolding scan_rows_def by blast
qed

section \<open>One entry\<close>

definition roster_ok :: "st \<Rightarrow> bool" where
  "roster_ok s = (distinct (map es_pk (roster s)) \<and> distinct (map es_institutional_id (roster s)) \<and> distinct (map es_email (roster s)))"

definition entry_fits :: "entry \<Rightarrow> bool" where
  "entry_fits e = row_fits (roster_row 0 [] 0 e)"

lemma find_unique: "distinct (map f xs) \<Longrightarrow> x \<in> set xs \<Longrightarrow> List.find (\<lambda>y. f y = f x) xs = Some x"
  by (induction xs) (auto simp: image_iff)

lemma by_id_None: "by_id i s = None \<longleftrightarrow> i \<notin> es_institutional_id ` set (roster s)"
  by (auto simp: by_id_def find_None_iff)

lemma by_email_None: "by_email m s = None \<longleftrightarrow> m \<notin> es_email ` set (roster s)"
  by (auto simp: by_email_def find_None_iff)

lemma by_id_Some: "by_id i s = Some r \<Longrightarrow> r \<in> set (roster s) \<and> es_institutional_id r = i"
  by (auto simp: by_id_def find_Some_iff)

lemma by_email_Some: "by_email m s = Some r \<Longrightarrow> r \<in> set (roster s) \<and> es_email r = m"
  by (auto simp: by_email_def find_Some_iff)

lemma by_id_iff: "roster_ok s \<Longrightarrow> by_id i s = Some r \<longleftrightarrow> r \<in> set (roster s) \<and> es_institutional_id r = i"
  by (metis by_id_Some by_id_def find_unique roster_ok_def)

lemma by_email_iff: "roster_ok s \<Longrightarrow> by_email m s = Some r \<longleftrightarrow> r \<in> set (roster s) \<and> es_email r = m"
  by (metis by_email_Some by_email_def find_unique roster_ok_def)

lemma roster_same: "roster_ok s \<Longrightarrow> r \<in> set (roster s) \<Longrightarrow> r' \<in> set (roster s)
    \<Longrightarrow> es_pk r = es_pk r' \<or> es_institutional_id r = es_institutional_id r' \<or> es_email r = es_email r' \<Longrightarrow> r = r'"
  by (auto simp: roster_ok_def distinct_map inj_on_def)

lemma refreshed_simps [simp]: "es_pk (refreshed e now r) = es_pk r" "es_institutional_id (refreshed e now r) = es_institutional_id r"
    "es_account (refreshed e now r) = es_account r" "es_email (refreshed e now r) = en_email e" "es_is_active (refreshed e now r)"
proof -
  have o: "es_pk (overwritten e r) = es_pk r" "es_institutional_id (overwritten e r) = es_institutional_id r"
    "es_account (overwritten e r) = es_account r" "es_email (overwritten e r) = en_email e" "es_is_active (overwritten e r)"
    by (simp_all add: overwritten_def)
  have eq: "refreshed e now r = (overwritten e r)\<lparr>es_updated_at := (if overwritten e r = r then es_updated_at r else now)\<rparr>"
    by (cases "overwritten e r = r") (simp_all add: refreshed_def)
  show "es_pk (refreshed e now r) = es_pk r" "es_institutional_id (refreshed e now r) = es_institutional_id r"
    "es_account (refreshed e now r) = es_account r" "es_email (refreshed e now r) = en_email e" "es_is_active (refreshed e now r)"
    unfolding eq by (simp_all add: o)
qed

lemma roster_row_simps [simp]: "es_pk (roster_row pk batch now e) = pk" "es_institutional_id (roster_row pk batch now e) = en_institutional_id e"
    "es_email (roster_row pk batch now e) = en_email e" "es_is_active (roster_row pk batch now e)"
    "es_account (roster_row pk batch now e) = None"
  by (simp_all add: roster_row_def)

lemma conflict_None: "conflicting_entry e allow s = None \<longleftrightarrow>
    (\<forall>r. by_id (en_institutional_id e) s = Some r \<longrightarrow> es_email r = en_email e \<or> allow)
    \<and> (\<forall>r. by_email (en_email e) s = Some r \<longrightarrow> es_institutional_id r = en_institutional_id e)"
  by (auto simp: conflicting_entry_def split: option.splits)

text \<open>What one applied entry does to the roster.\<close>

lemma apply_entry_Inr:
  assumes "apply_entry e batch s = Inr (created, rewritten, s')" "roster_ok s"
  obtains (new) r where "by_id (en_institutional_id e) s = None" "en_email e \<notin> es_email ` set (roster s)"
      "r = roster_row (fresh_pk (map es_pk (roster s))) batch (wall_now s) e" "s' = s\<lparr>roster := roster s @ [r]\<rparr>" "created" "\<not> rewritten"
  | (old) x where "by_id (en_institutional_id e) s = Some x" "\<forall>r \<in> set (roster s). es_email r = en_email e \<longrightarrow> r = x"
      "s' = s\<lparr>roster := map (\<lambda>r. if es_institutional_id r = en_institutional_id e then refreshed e (wall_now s) r else r) (roster s)\<rparr>"
      "\<not> created" "rewritten = (es_email x \<noteq> en_email e)"
proof (cases "by_id (en_institutional_id e) s")
  case None
  with assms(1) new show ?thesis by (auto simp: apply_entry_def Let_def by_email_None split: if_splits)
next
  case (Some x)
  then have x: "x \<in> set (roster s)" "es_institutional_id x = en_institutional_id e" by (auto dest: by_id_Some)
  have "update_row es_pk (es_pk x) (\<lambda>_. refreshed e (wall_now s) x) (roster s)
      = map (\<lambda>r. if es_institutional_id r = en_institutional_id e then refreshed e (wall_now s) r else r) (roster s)"
    unfolding update_row_def using x by (intro map_cong refl) (metis assms(2) roster_same)
  with assms x show ?thesis
    by (intro old [OF Some]) (auto simp: apply_entry_def Some Let_def list_ex_iff dest: roster_same split: if_splits)
qed

lemma apply_entry_ok: "apply_entry e batch s = Inr (created, rewritten, s') \<Longrightarrow> roster_ok s \<Longrightarrow> roster_ok s'"
proof (erule apply_entry_Inr, assumption)
  fix r assume ok: "roster_ok s" and "by_id (en_institutional_id e) s = None" "en_email e \<notin> es_email ` set (roster s)"
    "r = roster_row (fresh_pk (map es_pk (roster s))) batch (wall_now s) e" "s' = s\<lparr>roster := roster s @ [r]\<rparr>"
  then show "roster_ok s'" using fresh_pk_notin [of "map es_pk (roster s)"] by (auto simp: roster_ok_def by_id_None)
next
  fix x assume ok: "roster_ok s" and x: "by_id (en_institutional_id e) s = Some x" "\<forall>r \<in> set (roster s). es_email r = en_email e \<longrightarrow> r = x"
    "s' = s\<lparr>roster := map (\<lambda>r. if es_institutional_id r = en_institutional_id e then refreshed e (wall_now s) r else r) (roster s)\<rparr>"
  define h where "h = (\<lambda>r. if es_institutional_id r = en_institutional_id e then refreshed e (wall_now s) r else r)"
  have s': "roster s' = map h (roster s)" by (simp add: x(3) h_def)
  have keys: "map es_pk (roster s') = map es_pk (roster s)" "map es_institutional_id (roster s') = map es_institutional_id (roster s)"
    by (simp_all add: s' h_def)
  have only: "r = x" if "r \<in> set (roster s)" "es_institutional_id r = en_institutional_id e" for r
    using that by_id_iff [OF ok] x(1) by (metis option.inject)
  have "inj_on (es_email \<circ> h) (set (roster s))"
  proof (rule inj_onI)
    fix a b assume ab: "a \<in> set (roster s)" "b \<in> set (roster s)" "(es_email \<circ> h) a = (es_email \<circ> h) b"
    have "es_institutional_id x = en_institutional_id e" using by_id_Some [OF x(1)] by simp
    then have here: "h x = refreshed e (wall_now s) x" by (simp add: h_def)
    have there: "h r = r \<and> es_email r \<noteq> en_email e" if "r \<in> set (roster s)" "r \<noteq> x" for r
      using that only x(2) by (auto simp: h_def)
    show "a = b"
    proof (cases "a = x \<or> b = x")
      case True
      with ab here there show ?thesis by (metis comp_apply refreshed_simps(4))
    next
      case False
      with ab there roster_same [OF ok ab(1,2)] show ?thesis by simp
    qed
  qed
  moreover have "distinct (roster s)" using ok by (auto simp: roster_ok_def distinct_map)
  ultimately have "distinct (map es_email (roster s'))" by (simp add: s' distinct_map)
  with ok show "roster_ok s'" by (simp only: roster_ok_def keys)
qed

section \<open>All entries\<close>

text \<open>The specification of an import: every row of the roster is brought up to date by the entry with its ID, if there is one.\<close>

definition settled_row :: "entry list \<Rightarrow> time \<Rightarrow> eligible_student \<Rightarrow> eligible_student" where
  "settled_row es now r = (case List.find (\<lambda>e. en_institutional_id e = es_institutional_id r) es of
     None \<Rightarrow> r | Some e \<Rightarrow> refreshed e now r)"

lemma settled_row_Nil [simp]: "settled_row [] now r = r"
  by (simp add: settled_row_def)

lemma settled_row_other: "es_institutional_id r \<notin> en_institutional_id ` set es \<Longrightarrow> settled_row es now r = r"
  by (auto simp: settled_row_def find_Some_iff image_iff split: option.splits) (metis nth_mem)

lemma settled_row_Cons: "settled_row (e # es) now r
    = (if es_institutional_id r = en_institutional_id e then refreshed e now r else settled_row es now r)"
  by (auto simp: settled_row_def)

lemma settled_row_simps [simp]: "es_pk (settled_row es now r) = es_pk r"
    "es_institutional_id (settled_row es now r) = es_institutional_id r" "es_account (settled_row es now r) = es_account r"
  by (simp_all add: settled_row_def split: option.splits)

lemma settled_row_entry:
  assumes "distinct (map en_institutional_id es)" "e \<in> set es" "es_institutional_id r = en_institutional_id e"
  shows "settled_row es now r = refreshed e now r"
  using find_unique [OF assms(1,2)] assms(3) by (simp add: settled_row_def)

definition on_roster :: "st \<Rightarrow> entry \<Rightarrow> bool" where
  "on_roster s e = (by_id (en_institutional_id e) s \<noteq> None)"

lemma on_roster_iff: "on_roster s e \<longleftrightarrow> en_institutional_id e \<in> es_institutional_id ` set (roster s)"
  using by_id_None [of "en_institutional_id e" s] by (auto simp: on_roster_def)

lemma import_entry_Inr: "import_entry allow batch e (report, s) = Inr (report', s') \<longleftrightarrow> conflicting_entry e allow s = None
    \<and> (\<exists>created rewritten. apply_entry e batch s = Inr (created, rewritten, s') \<and> report' = count_entry created rewritten report)"
  by (auto simp: import_entry_def split: option.splits sum.splits)

lemma count_entry_simps [simp]: "ir_errors (count_entry c w report) = ir_errors report"
    "ir_institutional_ids (count_entry c w report) = ir_institutional_ids report"
  by (simp_all add: count_entry_def)

lemma import_run:
  assumes "foldE (import_entry allow batch) es (report, s) = Inr (report', s')"
    and "roster_ok s" "distinct (map en_institutional_id es)"
  shows "\<exists>new. s' = s\<lparr>roster := map (settled_row es (wall_now s)) (roster s) @ new\<rparr>
    \<and> map (\<lambda>r. r\<lparr>es_pk := 0\<rparr>) new = map (roster_row 0 batch (wall_now s)) (filter (\<lambda>e. \<not> on_roster s e) es)
    \<and> roster_ok s' \<and> ir_errors report' = ir_errors report \<and> ir_institutional_ids report' = ir_institutional_ids report"
  using assms
proof (induction es arbitrary: report s)
  case Nil
  then show ?case by (auto intro!: exI [of _ "[]"])
next
  case (Cons e es)
  from Cons.prems(1) obtain created rewritten s1 where
    step: "apply_entry e batch s = Inr (created, rewritten, s1)"
    and loop: "foldE (import_entry allow batch) es (count_entry created rewritten report, s1) = Inr (report', s')"
    by (auto simp: bindE_Inr import_entry_Inr)
  have ok: "roster_ok s1" by (rule apply_entry_ok [OF step Cons.prems(2)])
  have e: "en_institutional_id e \<notin> en_institutional_id ` set es" "distinct (map en_institutional_id es)" using Cons.prems(3) by auto
  from Cons.IH [OF loop ok e(2)] obtain added where
    rest: "s' = s1\<lparr>roster := map (settled_row es (wall_now s1)) (roster s1) @ added\<rparr>"
      "map (\<lambda>r. r\<lparr>es_pk := 0\<rparr>) added = map (roster_row 0 batch (wall_now s1)) (filter (\<lambda>e. \<not> on_roster s1 e) es)"
      "roster_ok s'" "ir_errors report' = ir_errors report" "ir_institutional_ids report' = ir_institutional_ids report"
    by auto
  from step Cons.prems(2) show ?case
  proof (cases rule: apply_entry_Inr)
    case (new r)
    have fresh: "\<not> on_roster s e" using new(1) by (simp add: on_roster_def)
    have "filter (\<lambda>e. \<not> on_roster s1 e) es = filter (\<lambda>e. \<not> on_roster s e) es"
      using e(1) by (intro filter_cong refl) (auto simp: on_roster_iff new(3,4), metis imageI)
    moreover have "map (settled_row es (wall_now s)) (roster s) = map (settled_row (e # es) (wall_now s)) (roster s)"
      using fresh by (auto simp: settled_row_Cons on_roster_iff image_iff)
    moreover have "settled_row es (wall_now s) r = r" using e(1) by (intro settled_row_other) (simp add: new(3))
    moreover have "r\<lparr>es_pk := 0\<rparr> = roster_row 0 batch (wall_now s) e" by (simp add: new(3) roster_row_def)
    ultimately show ?thesis using rest fresh by (intro exI [of _ "r # added"]) (simp add: new(4))
  next
    case (old x)
    have here: "on_roster s e" using old(1) by (simp add: on_roster_def)
    have "filter (\<lambda>e. \<not> on_roster s1 e) es = filter (\<lambda>e. \<not> on_roster s e) es"
    proof (intro filter_cong refl)
      have "map es_institutional_id (roster s1) = map es_institutional_id (roster s)" by (simp add: old(3))
      then show "(\<not> on_roster s1 x) = (\<not> on_roster s x)" for x by (metis on_roster_iff set_map)
    qed
    moreover have "map (settled_row es (wall_now s)) (roster s1) = map (settled_row (e # es) (wall_now s)) (roster s)"
      using e(1) by (auto simp: old(3) settled_row_Cons intro!: settled_row_other)
    ultimately show ?thesis using rest here by (intro exI [of _ added]) (simp add: old(3))
  qed
qed

section \<open>The dry run\<close>

lemma dry_errors: "ir_errors (fold (dry_entry allow s) es report)
    = ir_errors report @ map (\<lambda>e. (0, the (conflicting_entry e allow s))) (filter (\<lambda>e. conflicting_entry e allow s \<noteq> None) es)"
  by (induction es arbitrary: report) (auto simp: dry_entry_def split: option.splits)

lemma or_text_fits: "length a \<le> n \<Longrightarrow> length b \<le> n \<Longrightarrow> length (or_text a b) \<le> n"
  by (simp add: or_text_def)

lemma refreshed_fits: "row_fits r \<Longrightarrow> entry_fits e \<Longrightarrow> row_fits (refreshed e now r)"
  by (auto simp: refreshed_def overwritten_def row_fits_def entry_fits_def roster_row_def intro: or_text_fits)

text \<open>An entry without a conflict goes in, and is counted as the dry run counts it.\<close>

lemma apply_entry_total:
  assumes "roster_ok s" "conflicting_entry e allow s = None" "\<forall>r \<in> set (roster s). row_fits r" "entry_fits e" "length batch \<le> 64"
  shows "\<exists>created rewritten s1. apply_entry e batch s = Inr (created, rewritten, s1) \<and> (\<forall>r \<in> set (roster s1). row_fits r)
    \<and> dry_entry allow s e report = count_entry created rewritten report"
proof (cases "by_id (en_institutional_id e) s")
  case None
  have "by_email (en_email e) s = None"
    using assms(2) None by (metis by_email_Some by_id_None conflict_None imageI not_None_eq)
  moreover have "row_fits (roster_row pk batch now e)" for pk now
    using assms(4,5) by (simp add: entry_fits_def row_fits_def roster_row_def)
  ultimately show ?thesis using assms(2,3) None by (auto simp: apply_entry_def dry_entry_def Let_def)
next
  case (Some x)
  then have x: "x \<in> set (roster s)" "es_institutional_id x = en_institutional_id e" by (auto dest: by_id_Some)
  have fits: "row_fits (refreshed e now x)" for now using assms(3,4) x refreshed_fits by blast
  have "es_pk r = es_pk x" if "r \<in> set (roster s)" "es_email r = en_email e" for r
  proof -
    have "by_email (en_email e) s = Some r" using that by_email_iff [OF assms(1)] by simp
    with assms(2) have "es_institutional_id r = es_institutional_id x" using x(2) by (simp add: conflict_None)
    then show ?thesis using roster_same [OF assms(1) that(1) x(1)] by simp
  qed
  then have free: "\<not> list_ex (\<lambda>y. es_email y = en_email e \<and> es_pk y \<noteq> es_pk x) (roster s)" by (auto simp: list_ex_iff)
  show ?thesis using fits free assms(2,3) Some
    by (auto simp: apply_entry_def dry_entry_def Let_def set_update_row)
qed

text \<open>What the other entries meet does not depend on it.\<close>

lemma apply_entry_others:
  assumes "apply_entry e batch s = Inr (created, rewritten, s1)" "roster_ok s"
    and "en_institutional_id e' \<noteq> en_institutional_id e" "en_email e' \<noteq> en_email e"
  shows "by_id (en_institutional_id e') s1 = by_id (en_institutional_id e') s"
    and "conflicting_entry e' allow s = None \<Longrightarrow> conflicting_entry e' allow s1 = None"
    and "conflicting_entry e False s = None \<Longrightarrow> conflicting_entry e' False s1 = None \<Longrightarrow> conflicting_entry e' False s = None"
proof -
  note ok1 = apply_entry_ok [OF assms(1,2)]
  have other: "r \<in> set (roster s1) \<longleftrightarrow> r \<in> set (roster s)" if "es_institutional_id r \<noteq> en_institutional_id e" for r
    using assms(1,2) that by (cases rule: apply_entry_Inr) (auto simp: image_iff)
  have here: "es_email r = en_email e" if "r \<in> set (roster s1)" "es_institutional_id r = en_institutional_id e" for r
    using assms(1,2) that by (cases rule: apply_entry_Inr) (auto simp: image_iff by_id_None)
  show ids: "by_id (en_institutional_id e') s1 = by_id (en_institutional_id e') s"
  proof (cases "by_id (en_institutional_id e') s")
    case None
    then have "by_id (en_institutional_id e') s1 = None"
      using other assms(3) by (auto simp: by_id_None image_iff)
    with None show ?thesis by simp
  next
    case (Some r)
    then have "r \<in> set (roster s1)" "es_institutional_id r = en_institutional_id e'"
      using other assms(3) by (auto dest: by_id_Some)
    with Some show ?thesis by (simp add: by_id_iff [OF ok1])
  qed
  show "conflicting_entry e' allow s1 = None" if "conflicting_entry e' allow s = None"
    unfolding conflict_None
  proof (intro conjI allI impI)
    show "es_email r = en_email e' \<or> allow" if "by_id (en_institutional_id e') s1 = Some r" for r
      using that \<open>conflicting_entry e' allow s = None\<close> ids by (simp add: conflict_None)
    fix r assume "by_email (en_email e') s1 = Some r"
    then have r: "r \<in> set (roster s1)" "es_email r = en_email e'" by (auto dest: by_email_Some)
    then have "es_institutional_id r \<noteq> en_institutional_id e" using here assms(4) by auto
    then have "by_email (en_email e') s = Some r" using r other by_email_iff [OF assms(2)] by simp
    then show "es_institutional_id r = en_institutional_id e'" using that by (simp add: conflict_None)
  qed
  show "conflicting_entry e' False s = None" if "conflicting_entry e False s = None" "conflicting_entry e' False s1 = None"
    unfolding conflict_None
  proof (intro conjI allI impI)
    show "es_email r = en_email e' \<or> False" if "by_id (en_institutional_id e') s = Some r" for r
      using that \<open>conflicting_entry e' False s1 = None\<close> ids by (simp add: conflict_None)
    fix r assume "by_email (en_email e') s = Some r"
    then have r: "r \<in> set (roster s)" "es_email r = en_email e'" by (auto dest: by_email_Some)
    have "es_institutional_id r \<noteq> en_institutional_id e"
    proof
      assume "es_institutional_id r = en_institutional_id e"
      then have "by_id (en_institutional_id e) s = Some r" using r by_id_iff [OF assms(2)] by simp
      with \<open>conflicting_entry e False s = None\<close> r(2) assms(4) show False by (simp add: conflict_None)
    qed
    then have "by_email (en_email e') s1 = Some r" using r other by_email_iff [OF ok1] by simp
    then show "es_institutional_id r = en_institutional_id e'" using that by (simp add: conflict_None)
  qed
qed

lemma dry_entry_cong:
  assumes "conflicting_entry e allow s = None" "conflicting_entry e allow s1 = None"
    "by_id (en_institutional_id e) s1 = by_id (en_institutional_id e) s"
  shows "dry_entry allow s1 e report = dry_entry allow s e report"
  using assms by (simp add: dry_entry_def)

lemma fold_dry_cong:
  assumes "\<And>e report. e \<in> set es \<Longrightarrow> dry_entry allow s1 e report = dry_entry allow s e report"
  shows "fold (dry_entry allow s1) es report = fold (dry_entry allow s) es report"
  by (rule fold_cong) (use assms in auto)

lemma clean_dry_run:
  assumes "roster_ok s" "distinct (map en_institutional_id es)" "distinct (map en_email es)"
    and "\<forall>e \<in> set es. conflicting_entry e allow s = None" "\<forall>r \<in> set (roster s). row_fits r"
    and "\<forall>e \<in> set es. entry_fits e" "length batch \<le> 64"
  shows "\<exists>s'. foldE (import_entry allow batch) es (report, s) = Inr (fold (dry_entry allow s) es report, s')"
  using assms
proof (induction es arbitrary: s report)
  case Nil
  then show ?case by simp
next
  case (Cons e es)
  obtain c w s1 where step: "apply_entry e batch s = Inr (c, w, s1)" "\<forall>r \<in> set (roster s1). row_fits r"
      "dry_entry allow s e report = count_entry c w report"
    using apply_entry_total [OF Cons.prems(1) _ Cons.prems(5) _ Cons.prems(7)] Cons.prems(4,6) by (meson list.set_intros(1))
  have differ: "en_institutional_id x \<noteq> en_institutional_id e" "en_email x \<noteq> en_email e" if "x \<in> set es" for x
    using that Cons.prems(2,3) by (auto simp: image_iff)
  note others = apply_entry_others [OF step(1) Cons.prems(1) differ]
  have clean: "\<forall>e \<in> set es. conflicting_entry e allow s1 = None" using others(2) Cons.prems(4) by simp
  have "fold (dry_entry allow s1) es r = fold (dry_entry allow s) es r" for r
    by (rule fold_dry_cong, rule dry_entry_cong) (use clean others(1) Cons.prems(4) in auto)
  then have "\<exists>s'. foldE (import_entry allow batch) es (count_entry c w report, s1)
      = Inr (fold (dry_entry allow s) es (count_entry c w report), s')"
    using Cons.IH [OF apply_entry_ok [OF step(1) Cons.prems(1)] _ _ clean step(2) _ Cons.prems(7)] Cons.prems(2,3,6) by simp
  moreover have "import_entry allow batch e (report, s) = Inr (count_entry c w report, s1)"
    using step(1) Cons.prems(4) by (auto simp: import_entry_Inr)
  ultimately show ?case using step(3) by simp
qed

text \<open>Without the permission to rewrite addresses, an import that goes through had a clean dry run.\<close>

lemma import_was_clean:
  assumes "foldE (import_entry False batch) es (report, s) = Inr (report', s')"
    and "roster_ok s" "distinct (map en_institutional_id es)" "distinct (map en_email es)"
  shows "\<forall>e \<in> set es. conflicting_entry e False s = None"
  using assms
proof (induction es arbitrary: s report)
  case (Cons e es)
  from Cons.prems(1) obtain c w s1 where none: "conflicting_entry e False s = None" and
    step: "apply_entry e batch s = Inr (c, w, s1)"
    and loop: "foldE (import_entry False batch) es (count_entry c w report, s1) = Inr (report', s')"
    by (auto simp: bindE_Inr import_entry_Inr)
  have differ: "en_institutional_id x \<noteq> en_institutional_id e" "en_email x \<noteq> en_email e" if "x \<in> set es" for x
    using that Cons.prems(3,4) by (auto simp: image_iff)
  from Cons.IH [OF loop apply_entry_ok [OF step Cons.prems(2)]] Cons.prems(3,4)
  have "\<forall>e \<in> set es. conflicting_entry e False s1 = None" by simp
  with none apply_entry_others(3) [OF step Cons.prems(2) differ none] show ?case by simp
qed simp

section \<open>Properties\<close>

definition file_entries :: "(string \<Rightarrow> bool) \<Rightarrow> (string \<times> string) list list \<Rightarrow> entry list" where
  "file_entries valid_email rows = sc_cleaned (scan_rows valid_email rows)"

lemma file_entries_ok: "distinct (map en_institutional_id (file_entries valid_email rows))"
    "distinct (map en_email (file_entries valid_email rows))"
  using scan_rows_ok [of valid_email rows] by (simp_all add: scan_ok_def file_entries_def)

text \<open>Every text of the file and of the roster fits its column.\<close>

definition import_fits :: "(string \<Rightarrow> bool) \<Rightarrow> (string \<times> string) list list \<Rightarrow> string \<Rightarrow> st \<Rightarrow> bool" where
  "import_fits valid_email rows batch s = (length batch \<le> 64 \<and> list_all entry_fits (file_entries valid_email rows)
     \<and> list_all row_fits (roster s))"

lemma dry_flag: "fold (dry_entry allow s) es (report\<lparr>ir_dry_run := b\<rparr>) = (fold (dry_entry allow s) es report)\<lparr>ir_dry_run := b\<rparr>"
proof (induction es arbitrary: report)
  case (Cons e es)
  have "dry_entry allow s e (report\<lparr>ir_dry_run := b\<rparr>) = (dry_entry allow s e report)\<lparr>ir_dry_run := b\<rparr>"
    by (simp add: dry_entry_def count_entry_def split: option.splits)
  with Cons show ?case by simp
qed simp

text \<open>C36: A dry run tells the truth. It writes nothing, and when it reports no error the import of the same file goes through
  and reports the same figures, provided every text fits its column. Unless the import may rewrite addresses the
  converse holds as well: what the dry run refuses, the import refuses, and the database is left as it was.\<close>

theorem dry_run_agrees:
  assumes dry: "import_roster_rows valid_email rows actor True batch allow s = Inr (report, s0)"
    and ok: "roster_ok s" and fits: "import_fits valid_email rows batch s"
  shows "s0 = s
    \<and> (ir_errors report = [] \<longrightarrow> (\<exists>s'. import_roster_rows valid_email rows actor False batch allow s = Inr (report\<lparr>ir_dry_run := False\<rparr>, s')))
    \<and> (ir_errors report \<noteq> [] \<and> \<not> allow \<longrightarrow> (case import_roster_rows valid_email rows actor False batch allow s of
          Inl e \<Rightarrow> True | Inr (report', s') \<Rightarrow> ir_errors report' \<noteq> [] \<and> s' = s))"
proof -
  define es where "es = file_entries valid_email rows"
  define r where "r b = scan_report (length rows) b (scan_rows valid_email rows)" for b
  have flag: "r False = (r True)\<lparr>ir_dry_run := False\<rparr>" by (simp add: r_def scan_report_def)
  have errs: "ir_errors (r b) = sc_errors (scan_rows valid_email rows)" for b by (simp add: r_def scan_report_def)
  have es: "sc_cleaned (scan_rows valid_email rows) = es" by (simp add: es_def file_entries_def)
  note defs = import_roster_rows_def Let_def r_def [symmetric] es
  show ?thesis
  proof (cases "ir_errors (r True) = []")
    case False
    then have bad: "ir_errors (r b) \<noteq> []" for b using errs by simp
    then have "report = r True" "s0 = s" using dry by (simp_all add: defs)
    moreover have "import_roster_rows valid_email rows actor False batch allow s = Inr (r False, s)"
      using bad by (simp add: defs)
    ultimately show ?thesis using bad by (cases allow) simp_all
  next
    case True
    then have none: "ir_errors (r b) = []" for b using errs by simp
    have report: "report = fold (dry_entry allow s) es (r True)" "s0 = s" using dry none by (auto simp add: defs)
    have import: "import_roster_rows valid_email rows actor False batch allow s
        = bindE (foldE (import_entry allow batch) es (r False, s)) (\<lambda>(report, s). if length batch > 64 then Inl (Failed DatabaseError) else
          Inr (report, record_audit ''roster.imported'' ''EligibleStudent'' (or_text batch ''batch'') actor ''''
           [(''rows_read'', PNat (ir_rows_read report)), (''created'', PNat (ir_created report)),
            (''unchanged'', PNat (ir_unchanged report)), (''email_changed'', PNat (ir_email_changed report)),
            (''allow_email_change'', PBool allow), (''batch'', PStr batch)] '''' s))"
      using none by (simp add: defs)
    have clean: "ir_errors report = [] \<longleftrightarrow> (\<forall>e \<in> set es. conflicting_entry e allow s = None)"
      unfolding report dry_errors none by (auto simp: filter_empty_conv)
    have through: "\<exists>s'. import_roster_rows valid_email rows actor False batch allow s = Inr (report\<lparr>ir_dry_run := False\<rparr>, s')"
      if "ir_errors report = []"
    proof -
      have c: "\<forall>e \<in> set es. conflicting_entry e allow s = None" using that clean by simp
      have f: "\<forall>r \<in> set (roster s). row_fits r" "\<forall>e \<in> set es. entry_fits e" "length batch \<le> 64"
        using fits by (simp_all add: import_fits_def list_all_iff es_def)
      obtain s1 where "foldE (import_entry allow batch) es (r False, s) = Inr (fold (dry_entry allow s) es (r False), s1)"
        using clean_dry_run [OF ok _ _ c f] file_entries_ok [of valid_email rows] unfolding es_def by blast
      then show ?thesis unfolding import using fits by (simp add: report flag dry_flag import_fits_def)
    qed
    have refused: "case import_roster_rows valid_email rows actor False batch allow s of
          Inl e \<Rightarrow> True | Inr (report', s') \<Rightarrow> ir_errors report' \<noteq> [] \<and> s' = s" if bad: "ir_errors report \<noteq> []" and "\<not> allow"
    proof (cases "foldE (import_entry allow batch) es (r False, s)")
      case (Inl e)
      then show ?thesis unfolding import by simp
    next
      case (Inr x)
      then obtain report' s' where "foldE (import_entry False batch) es (r False, s) = Inr (report', s')"
        using \<open>\<not> allow\<close> by (cases x) simp
      from import_was_clean [OF this ok] file_entries_ok [of valid_email rows] bad clean \<open>\<not> allow\<close>
      show ?thesis unfolding es_def [symmetric] by simp
    qed
    from through refused report(2) show ?thesis by blast
  qed
qed

lemma import_rows_run:
  assumes "import_roster_rows valid_email rows actor False batch allow s = Inr (report, s')" "ir_errors report = []"
  obtains start s1 changes where "foldE (import_entry allow batch) (file_entries valid_email rows) (start, s) = Inr (report, s1)"
    and "ir_institutional_ids start = map en_institutional_id (file_entries valid_email rows)"
    and "s' = record_audit ''roster.imported'' ''EligibleStudent'' (or_text batch ''batch'') actor '''' changes '''' s1"
proof -
  define r where "r = scan_report (length rows) False (scan_rows valid_email rows)"
  have r: "ir_institutional_ids r = map en_institutional_id (file_entries valid_email rows)"
    by (simp add: r_def scan_report_def file_entries_def)
  note run = assms(1) [unfolded import_roster_rows_def Let_def r_def [symmetric] file_entries_def [symmetric]]
  show ?thesis
  proof (cases "ir_errors r = []")
    case True
    with run obtain report1 s1 where "foldE (import_entry allow batch) (file_entries valid_email rows) (r, s) = Inr (report1, s1)"
      "(if length batch > 64 then Inl (Failed DatabaseError) else
         Inr (report1, record_audit ''roster.imported'' ''EligibleStudent'' (or_text batch ''batch'') actor ''''
           [(''rows_read'', PNat (ir_rows_read report1)), (''created'', PNat (ir_created report1)),
            (''unchanged'', PNat (ir_unchanged report1)), (''email_changed'', PNat (ir_email_changed report1)),
            (''allow_email_change'', PBool allow), (''batch'', PStr batch)] '''' s1)) = Inr (report, s')"
      by (auto simp: bindE_Inr simp del: if_split)
    with r that show ?thesis by (cases "length batch > 64") auto
  next
    case False
    with run assms(2) show ?thesis by simp
  qed
qed

text \<open>The same in terms of the entries the loop works on.\<close>

lemma import_rows_effect:
  assumes run: "import_roster_rows valid_email rows actor False batch allow s = Inr (report, s')"
    and clean: "ir_errors report = []" and ok: "roster_ok s"
  shows "\<exists>new. roster s' = map (settled_row (file_entries valid_email rows) (wall_now s)) (roster s) @ new
      \<and> map (\<lambda>r. r\<lparr>es_pk := 0\<rparr>) new
        = map (roster_row 0 batch (wall_now s)) (filter (\<lambda>e. \<not> on_roster s e) (file_entries valid_email rows))
      \<and> roster_ok s' \<and> ir_institutional_ids report = map en_institutional_id (file_entries valid_email rows)
      \<and> (allow \<or> map es_email (take (length (roster s)) (roster s')) = map es_email (roster s))"
proof -
  define es where "es = file_entries valid_email rows"
  have es: "distinct (map en_institutional_id es)" "distinct (map en_email es)" using file_entries_ok by (simp_all add: es_def)
  from import_rows_run [OF run clean] obtain start s1 where
    loop: "foldE (import_entry allow batch) es (start, s) = Inr (report, s1)"
    and ids: "ir_institutional_ids start = map en_institutional_id es" and s': "roster s' = roster s1"
    unfolding es_def by (metis (no_types, lifting) record_audit_frame(5))
  obtain new where new: "s1 = s\<lparr>roster := map (settled_row es (wall_now s)) (roster s) @ new\<rparr>"
    "map (\<lambda>r. r\<lparr>es_pk := 0\<rparr>) new = map (roster_row 0 batch (wall_now s)) (filter (\<lambda>e. \<not> on_roster s e) es)"
    "roster_ok s1" "ir_institutional_ids report = ir_institutional_ids start"
    using import_run [OF loop ok es(1)] by auto
  have kept: "map es_email (map (settled_row es (wall_now s)) (roster s)) = map es_email (roster s)" if "\<not> allow"
  proof -
    have "foldE (import_entry False batch) es (start, s) = Inr (report, s1)" using loop that by simp
    note none = import_was_clean [OF this ok es]
    have "es_email (settled_row es (wall_now s) r) = es_email r" if r: "r \<in> set (roster s)" for r
    proof (cases "List.find (\<lambda>e. en_institutional_id e = es_institutional_id r) es")
      case (Some e)
      then have e: "e \<in> set es" "en_institutional_id e = es_institutional_id r" by (auto simp: find_Some_iff)
      then have "by_id (en_institutional_id e) s = Some r" using by_id_iff [OF ok] r by simp
      then have "es_email r = en_email e" using none e(1) by (auto simp: conflict_None)
      with Some show ?thesis by (simp add: settled_row_def)
    qed (simp add: settled_row_def)
    then show ?thesis by simp
  qed
  show ?thesis unfolding es_def [symmetric]
    by (rule exI [of _ new]) (use new s' ids kept in \<open>auto simp: roster_ok_def\<close>)
qed

text \<open>In a file without errors every row is taken, as the entry its cells spell out.\<close>

definition row_entry :: "(string \<times> string) list \<Rightarrow> entry" where
  "row_entry row = clean_entry row (case year_of (cell_of row ''year'') of Inl e \<Rightarrow> None | Inr y \<Rightarrow> y)"

definition good_row :: "(string \<times> string) list \<Rightarrow> bool" where
  "good_row row \<longleftrightarrow> cell_of row ''institutional_id'' \<noteq> [] \<and> \<not> isl (year_of (cell_of row ''year''))"

lemma scan_row_clean:
  assumes "sc_errors (scan_row valid_email item acc) = []"
  shows "sc_errors acc = []" "good_row (snd item)"
    "sc_cleaned (scan_row valid_email item acc) = sc_cleaned acc @ [row_entry (snd item)]"
proof -
  have "sc_errors acc = [] \<and> good_row (snd item)
    \<and> sc_cleaned (scan_row valid_email item acc) = sc_cleaned acc @ [row_entry (snd item)]"
    using assms unfolding scan_row_def Let_def split_beta
    by (auto simp: row_error_def REQUIRED_FIELDS_def good_row_def row_entry_def split: if_splits sum.splits)
  then show "sc_errors acc = []" "good_row (snd item)"
    "sc_cleaned (scan_row valid_email item acc) = sc_cleaned acc @ [row_entry (snd item)]" by blast+
qed

lemma scan_fold_clean:
  assumes "sc_errors (fold (scan_row valid_email) items acc) = []"
  shows "sc_errors acc = [] \<and> (\<forall>item \<in> set items. good_row (snd item))
    \<and> sc_cleaned (fold (scan_row valid_email) items acc) = sc_cleaned acc @ map (row_entry \<circ> snd) items"
  using assms
proof (induction items arbitrary: acc)
  case (Cons item items)
  from Cons.IH [of "scan_row valid_email item acc"] Cons.prems
    have "sc_errors (scan_row valid_email item acc) = [] \<and> (\<forall>item \<in> set items. good_row (snd item))
      \<and> sc_cleaned (fold (scan_row valid_email) items (scan_row valid_email item acc))
        = sc_cleaned (scan_row valid_email item acc) @ map (row_entry \<circ> snd) items" by simp
  with scan_row_clean [of valid_email item acc] show ?case by simp
qed simp

lemma file_entries_clean:
  assumes "sc_errors (scan_rows valid_email rows) = []"
  shows "file_entries valid_email rows = map row_entry rows" "\<forall>row \<in> set rows. good_row row"
proof -
  let ?items = "zip (map int [2..<length rows + 2]) rows"
  have snd: "map snd ?items = rows" by (rule map_snd_zip) (simp only: length_map length_upt add_diff_cancel_right')
  from scan_fold_clean [OF assms [unfolded scan_rows_def]]
  have good: "\<forall>item \<in> set ?items. good_row (snd item)" and es: "file_entries valid_email rows = map row_entry (map snd ?items)"
    by (simp_all add: file_entries_def scan_rows_def)
  show "file_entries valid_email rows = map row_entry rows" using es unfolding snd .
  have "\<forall>row \<in> set (map snd ?items). good_row row" using good by auto
  then show "\<forall>row \<in> set rows. good_row row" unfolding snd .
qed

lemma import_rows_clean:
  assumes "import_roster_rows valid_email rows actor dry batch allow s = Inr (report, s')" "ir_errors report = []"
  shows "sc_errors (scan_rows valid_email rows) = []"
proof (rule ccontr)
  assume "sc_errors (scan_rows valid_email rows) \<noteq> []"
  then have "ir_errors (scan_report (length rows) dry (scan_rows valid_email rows)) \<noteq> []" by (simp add: scan_report_def)
  with assms show False unfolding import_roster_rows_def Let_def by auto
qed

text \<open>
  The specification of an import, in terms of the cells of the file and apart from the code: what a row of the file makes
  of the row of the roster with its ID, and of an ID the roster lacks.
\<close>

definition file_id :: "(string \<times> string) list \<Rightarrow> string" where
  "file_id row = strip (cell_of row ''institutional_id'')"

definition file_name :: "(string \<times> string) list \<Rightarrow> string" where
  "file_name row = strip (if cell_of row ''name_th'' = [] then cell_of row ''name'' else cell_of row ''name_th'')"

definition filled_in :: "string \<Rightarrow> string \<Rightarrow> string \<Rightarrow> bool" where
  "filled_in cell old new \<longleftrightarrow> (if cell = [] then new = old else new = cell)"

definition follows_file :: "(string \<times> string) list \<Rightarrow> time \<Rightarrow> eligible_student \<Rightarrow> eligible_student \<Rightarrow> bool" where
  "follows_file row now old new \<longleftrightarrow>
     es_email new = normalize_email (cell_of row ''email'') \<and> es_is_active new
     \<and> filled_in (file_name row) (es_name_th old) (es_name_th new)
     \<and> filled_in (strip (cell_of row ''name_en'')) (es_name_en old) (es_name_en new)
     \<and> filled_in (strip (cell_of row ''program'')) (es_program old) (es_program new)
     \<and> filled_in (strip (cell_of row ''instrument'')) (es_instrument old) (es_instrument new)
     \<and> es_instrument_category new = (if strip (cell_of row ''instrument'') = [] then es_instrument_category old
          else categorise (strip (cell_of row ''instrument'')))
     \<and> es_year new = (if cell_of row ''year'' = [] then es_year old else py_int (cell_of row ''year''))
     \<and> es_updated_at new = (if new\<lparr>es_updated_at := es_updated_at old\<rparr> = old then es_updated_at old else now)"

definition entered_from :: "string \<Rightarrow> time \<Rightarrow> (string \<times> string) list \<Rightarrow> eligible_student \<Rightarrow> bool" where
  "entered_from batch now row new \<longleftrightarrow>
     es_institutional_id new = file_id row \<and> es_email new = normalize_email (cell_of row ''email'') \<and> es_is_active new
     \<and> es_account new = None \<and> es_name_th new = file_name row \<and> es_name_en new = strip (cell_of row ''name_en'')
     \<and> es_program new = strip (cell_of row ''program'') \<and> es_instrument new = strip (cell_of row ''instrument'')
     \<and> es_instrument_category new = categorise (strip (cell_of row ''instrument''))
     \<and> es_year new = py_int (cell_of row ''year'') \<and> es_import_batch new = batch \<and> es_updated_at new = now"

lemma year_of_py_int: "year_of t = Inr y \<Longrightarrow> y = (if t = [] then None else py_int t) \<and> y \<noteq> Some 0 \<and> (y = None \<longleftrightarrow> t = [])"
  by (cases "py_int t"; cases y) (auto simp: year_of_def split: if_splits)

lemma row_entry_simps [simp]: "en_institutional_id (row_entry row) = file_id row"
    "en_email (row_entry row) = normalize_email (cell_of row ''email'')"
  by (simp_all add: row_entry_def file_id_def)

lemma row_entry_cells: "en_name_th (row_entry row) = file_name row" "en_name_en (row_entry row) = strip (cell_of row ''name_en'')"
    "en_program (row_entry row) = strip (cell_of row ''program'')" "en_instrument (row_entry row) = strip (cell_of row ''instrument'')"
    "en_instrument_category (row_entry row) = categorise (strip (cell_of row ''instrument''))"
  by (simp_all add: row_entry_def clean_entry_def Let_def file_name_def or_text_def)

lemma row_entry_year: "good_row row \<Longrightarrow> en_year (row_entry row) = (if cell_of row ''year'' = [] then None else py_int (cell_of row ''year''))
    \<and> en_year (row_entry row) \<noteq> Some 0 \<and> (en_year (row_entry row) = None \<longleftrightarrow> cell_of row ''year'' = [])"
  using year_of_py_int [of "cell_of row ''year''"] by (cases "year_of (cell_of row ''year'')") (auto simp: good_row_def row_entry_def)

lemma refreshed_fields: "es_import_batch (refreshed e now r) = es_import_batch r"
    "es_name_th (refreshed e now r) = or_text (en_name_th e) (es_name_th r)" "es_name_en (refreshed e now r) = or_text (en_name_en e) (es_name_en r)"
    "es_program (refreshed e now r) = or_text (en_program e) (es_program r)"
    "es_instrument (refreshed e now r) = or_text (en_instrument e) (es_instrument r)"
    "es_instrument_category (refreshed e now r) = (if en_instrument e = [] then es_instrument_category r else en_instrument_category e)"
    "es_year (refreshed e now r) = (if en_year e \<in> {None, Some 0} then es_year r else en_year e)"
    "es_updated_at (refreshed e now r) = (if overwritten e r = r then es_updated_at r else now)"
proof -
  have eq: "refreshed e now r = (overwritten e r)\<lparr>es_updated_at := (if overwritten e r = r then es_updated_at r else now)\<rparr>"
    by (cases "overwritten e r = r") (simp_all add: refreshed_def)
  show "es_import_batch (refreshed e now r) = es_import_batch r"
    "es_name_th (refreshed e now r) = or_text (en_name_th e) (es_name_th r)" "es_name_en (refreshed e now r) = or_text (en_name_en e) (es_name_en r)"
    "es_program (refreshed e now r) = or_text (en_program e) (es_program r)"
    "es_instrument (refreshed e now r) = or_text (en_instrument e) (es_instrument r)"
    "es_instrument_category (refreshed e now r) = (if en_instrument e = [] then es_instrument_category r else en_instrument_category e)"
    "es_year (refreshed e now r) = (if en_year e \<in> {None, Some 0} then es_year r else en_year e)"
    "es_updated_at (refreshed e now r) = (if overwritten e r = r then es_updated_at r else now)"
    unfolding eq by (simp_all add: overwritten_def)
qed

lemma refreshed_settled: "(refreshed e now r)\<lparr>es_updated_at := es_updated_at r\<rparr> = overwritten e r"
  by (simp add: refreshed_def overwritten_def)

lemma refreshed_follows: "good_row row \<Longrightarrow> follows_file row now r (refreshed (row_entry row) now r)"
  unfolding follows_file_def filled_in_def refreshed_settled
  using row_entry_year [of row] by (cases "cell_of row ''year'' = []") (auto simp: refreshed_fields row_entry_cells or_text_def)

lemma roster_row_entered: "good_row row \<Longrightarrow> r\<lparr>es_pk := 0\<rparr> = roster_row 0 batch now (row_entry row) \<Longrightarrow> entered_from batch now row r"
  using row_entry_year [of row]
  by (cases r) (auto simp: entered_from_def roster_row_def row_entry_cells py_int_def strip_def)

lemma find_map: "List.find P (map f xs) = map_option f (List.find (\<lambda>x. P (f x)) xs)"
  by (induction xs) auto

text \<open>C37: What an import does to the roster, cell by cell. Every row that was there keeps its key, its ID, its account and its
  import batch. If a row of the file has its ID it gets that row's address and is active again; each of the Thai name,
  the English name, the programme and the instrument becomes the text of the cell, or stays if the cell is blank; the
  instrument's family follows a non-blank instrument, the year a non-blank year; its time of change moves exactly when
  something changed. If no row of the file has its ID it is not touched at all. The IDs the roster lacks get new rows
  with the cells of the file, in the order of the file, active, of this batch and linked to no account. No ID is twice in
  the file; keys, IDs and addresses of the roster stay unique; and without the permission no address is rewritten.\<close>

theorem import_effect:
  assumes run: "import_roster_rows valid_email rows actor False batch allow s = Inr (report, s')"
    and clean: "ir_errors report = []" and ok: "roster_ok s"
  shows "list_all2 (\<lambda>old new. es_pk new = es_pk old \<and> es_institutional_id new = es_institutional_id old
          \<and> es_account new = es_account old \<and> es_import_batch new = es_import_batch old
          \<and> (case List.find (\<lambda>row. file_id row = es_institutional_id old) rows of
                None \<Rightarrow> new = old
              | Some row \<Rightarrow> follows_file row (wall_now s) old new))
        (roster s) (take (length (roster s)) (roster s'))
      \<and> list_all2 (entered_from batch (wall_now s))
          (filter (\<lambda>row. file_id row \<notin> es_institutional_id ` set (roster s)) rows) (drop (length (roster s)) (roster s'))
      \<and> distinct (map file_id rows) \<and> roster_ok s' \<and> ir_institutional_ids report = map file_id rows
      \<and> (allow \<or> map es_email (take (length (roster s)) (roster s')) = map es_email (roster s))"
proof -
  note es = file_entries_clean [OF import_rows_clean [OF run clean]]
  from import_rows_effect [OF run clean ok] obtain new where
    rows: "roster s' = map (settled_row (map row_entry rows) (wall_now s)) (roster s) @ new"
    and new: "map (\<lambda>r. r\<lparr>es_pk := 0\<rparr>) new = map (roster_row 0 batch (wall_now s)) (filter (\<lambda>e. \<not> on_roster s e) (map row_entry rows))"
    and rest: "roster_ok s'" "ir_institutional_ids report = map en_institutional_id (map row_entry rows)"
      "allow \<or> map es_email (take (length (roster s)) (roster s')) = map es_email (roster s)"
    unfolding es(1) by blast
  have old: "es_import_batch (settled_row (map row_entry rows) (wall_now s) r) = es_import_batch r
      \<and> (case List.find (\<lambda>row. file_id row = es_institutional_id r) rows of
            None \<Rightarrow> settled_row (map row_entry rows) (wall_now s) r = r
          | Some row \<Rightarrow> follows_file row (wall_now s) r (settled_row (map row_entry rows) (wall_now s) r))" for r
  proof (cases "List.find (\<lambda>row. file_id row = es_institutional_id r) rows")
    case (Some row)
    then have "row \<in> set rows" by (metis find_Some_iff nth_mem)
    with Some es(2) show ?thesis by (simp add: settled_row_def find_map refreshed_fields(1) refreshed_follows)
  qed (simp add: settled_row_def find_map)
  have "list_all2 (\<lambda>row r. r\<lparr>es_pk := 0\<rparr> = roster_row 0 batch (wall_now s) (row_entry row))
      (filter (\<lambda>row. file_id row \<notin> es_institutional_id ` set (roster s)) rows) new"
    using new by (simp add: filter_map comp_def on_roster_iff list.rel_eq [symmetric] list_all2_map1 list_all2_map2 list_all2_conv_all_nth)
  then have "list_all2 (entered_from batch (wall_now s)) (filter (\<lambda>row. file_id row \<notin> es_institutional_id ` set (roster s)) rows) new"
    by (rule list.rel_mono_strong) (use es(2) in \<open>auto intro: roster_row_entered\<close>)
  moreover have "distinct (map file_id rows)" using file_entries_ok(1) [of valid_email rows] by (simp add: es(1) comp_def)
  moreover have "ir_institutional_ids report = map file_id rows" using rest(2) by simp
  ultimately show ?thesis using rest(1,3) old by (simp add: rows list_all2_map2 list_all2_same)
qed

lemma deactivate_missing_active:
  assumes "deactivate_missing keep actor False s = (n, s')"
  shows "es_institutional_id ` set (filter es_is_active (roster s')) = es_institutional_id ` set (filter es_is_active (roster s)) \<inter> set keep"
    and "map (\<lambda>r. (es_pk r, es_institutional_id r, es_account r)) (roster s') = map (\<lambda>r. (es_pk r, es_institutional_id r, es_account r)) (roster s)"
    and "map es_email (roster s') = map es_email (roster s)"
proof -
  define stale where "stale = (\<lambda>r :: eligible_student. es_is_active r \<and> es_institutional_id r \<notin> set keep)"
  have r: "roster s' = map (\<lambda>r. if stale r then r\<lparr>es_is_active := False, es_updated_at := clock_now s\<rparr> else r) (roster s)"
  proof (cases "filter stale (roster s) = []")
    case True
    then have "roster s' = roster s" using assms by (simp add: deactivate_missing_def stale_def [symmetric] Let_def)
    moreover have "\<forall>r \<in> set (roster s). \<not> stale r" using True by (simp add: filter_empty_conv)
    ultimately show ?thesis by (simp add: map_idI)
  next
    case False
    then show ?thesis using assms by (auto simp: deactivate_missing_def stale_def [symmetric] Let_def record_audit_def)
  qed
  show "es_institutional_id ` set (filter es_is_active (roster s')) = es_institutional_id ` set (filter es_is_active (roster s)) \<inter> set keep"
    unfolding r by (force simp: stale_def split: if_splits)
  show "map (\<lambda>r. (es_pk r, es_institutional_id r, es_account r)) (roster s') = map (\<lambda>r. (es_pk r, es_institutional_id r, es_account r)) (roster s)"
    "map es_email (roster s') = map es_email (roster s)"
    unfolding r by auto
qed

text \<open>In terms of the report: the import and the retirement of what it does not list.\<close>

lemma refresh_run:
  assumes run: "import_command sniff valid_email text False batch allow True s = Inr (report, retired, s')" and ok: "roster_ok s"
  shows "(\<exists>rows. read_csv sniff text = Inr rows \<and> sc_errors (scan_rows valid_email rows) = []
      \<and> es_institutional_id ` set (filter es_is_active (roster s')) = file_id ` set rows)
    \<and> map (\<lambda>r. (es_pk r, es_institutional_id r, es_account r)) (take (length (roster s)) (roster s'))
      = map (\<lambda>r. (es_pk r, es_institutional_id r, es_account r)) (roster s)
    \<and> roster_ok s'"
proof -
  from run obtain s1 rows n where
    csv: "read_csv sniff text = Inr rows" and import: "import_roster_rows valid_email rows None False batch allow s = Inr (report, s1)" and clean: "ir_errors report = []"
    and retire: "deactivate_missing (ir_institutional_ids report) None False s1 = (n, s')"
    by (auto simp: import_command_def bindE_Inr import_roster_text_def split: sum.splits if_splits prod.splits)
  define es where "es = file_entries valid_email rows"
  from import_rows_effect [OF import clean ok] obtain new where
    rows: "roster s1 = map (settled_row es (wall_now s)) (roster s) @ new"
    and new: "map (\<lambda>r. r\<lparr>es_pk := 0\<rparr>) new = map (roster_row 0 batch (wall_now s)) (filter (\<lambda>e. \<not> on_roster s e) es)"
    and ok1: "roster_ok s1" and ids: "ir_institutional_ids report = map en_institutional_id es"
    unfolding es_def by auto
  have fresh: "\<exists>r \<in> set new. es_institutional_id r = en_institutional_id e \<and> es_is_active r" if e: "e \<in> set es" "\<not> on_roster s e" for e
  proof -
    have "roster_row 0 batch (wall_now s) e \<in> (\<lambda>r. r\<lparr>es_pk := 0\<rparr>) ` set new"
      using arg_cong [OF new, of set] e by auto
    then obtain r where "r \<in> set new" "r\<lparr>es_pk := 0\<rparr> = roster_row 0 batch (wall_now s) e" by force
    moreover have "es_institutional_id (r\<lparr>es_pk := 0\<rparr>) = es_institutional_id r" "es_is_active (r\<lparr>es_pk := 0\<rparr>) = es_is_active r" by simp_all
    ultimately show ?thesis by (metis roster_row_simps(2,4))
  qed
  have "\<exists>r \<in> set (roster s1). es_institutional_id r = en_institutional_id e \<and> es_is_active r" if e: "e \<in> set es" for e
  proof (cases "on_roster s e")
    case True
    then obtain r where r: "r \<in> set (roster s)" "es_institutional_id r = en_institutional_id e" by (auto simp: on_roster_iff)
    have "settled_row es (wall_now s) r = refreshed e (wall_now s) r"
      using settled_row_entry [OF _ e r(2)] file_entries_ok(1) by (simp add: es_def)
    moreover have "settled_row es (wall_now s) r \<in> set (roster s1)" using r(1) by (simp add: rows)
    ultimately show ?thesis using r(2) by (intro bexI [of _ "settled_row es (wall_now s) r"]) simp_all
  qed (use fresh [OF e] rows in auto)
  then have "set (ir_institutional_ids report) \<subseteq> es_institutional_id ` set (filter es_is_active (roster s1))"
    unfolding ids by (force simp: image_iff)
  then have "es_institutional_id ` set (filter es_is_active (roster s')) = set (ir_institutional_ids report)"
    using deactivate_missing_active(1) [OF retire] by auto
  moreover have "map (\<lambda>r. (es_pk r, es_institutional_id r, es_account r)) (take (length (roster s)) (roster s'))
      = map (\<lambda>r. (es_pk r, es_institutional_id r, es_account r)) (roster s)"
    using arg_cong [OF deactivate_missing_active(2) [OF retire], of "take (length (roster s))"]
    by (simp add: take_map [symmetric] rows comp_def)
  moreover have "map es_pk (roster s') = map es_pk (roster s1)" "map es_institutional_id (roster s') = map es_institutional_id (roster s1)"
    using arg_cong [OF deactivate_missing_active(2) [OF retire], of "map fst"]
      arg_cong [OF deactivate_missing_active(2) [OF retire], of "map (fst \<circ> snd)"] by (simp_all add: comp_def)
  then have "roster_ok s'" using ok1 deactivate_missing_active(3) [OF retire] by (simp only: roster_ok_def)
  moreover have "set (ir_institutional_ids report) = file_id ` set rows"
    unfolding ids es_def file_entries_clean(1) [OF import_rows_clean [OF import clean]] by (simp add: image_image)
  ultimately show ?thesis using csv import_rows_clean [OF import clean] by auto
qed

text \<open>C38: A full refresh makes the roster the file. Take a file as the csv writer writes it: a header whose names stay apart
  when their spaces and capitals are dropped, \<open>institutional_id\<close> in its column j, and any records, no cell
  beyond the limit of Python's reader, in the comma dialect (which the command falls back on when none is guessed). When
  the command has imported that text and retired what is missing from it, the active IDs of the roster are exactly the
  (stripped) cells of column j of the records that have cells; still no row is lost, none changes its key, its ID or its
  account, and keys, IDs and addresses are unique.\<close>

theorem full_refresh_is_the_file:
  assumes "text = concat (map write_record (names # table))" "sniff (take 4096 text) \<in> {None, Some excel}"
    and "\<forall>row \<in> set (names # table). \<forall>cell \<in> set row. length cell \<le> FIELD_LIMIT"
    and "distinct (map (\<lambda>n. lower (strip n)) names)" "j < length names" "lower (strip (names ! j)) = ''institutional_id''"
    and run: "import_command sniff valid_email text False batch allow True s = Inr (report, retired, s')" and ok: "roster_ok s"
  shows "es_institutional_id ` set (filter es_is_active (roster s')) = (\<lambda>row. strip (row ! j)) ` {row \<in> set table. row \<noteq> []}
    \<and> map (\<lambda>r. (es_pk r, es_institutional_id r, es_account r)) (take (length (roster s)) (roster s'))
      = map (\<lambda>r. (es_pk r, es_institutional_id r, es_account r)) (roster s)
    \<and> roster_ok s'"
proof -
  from refresh_run [OF run ok] obtain rows where rows: "read_csv sniff text = Inr rows" "sc_errors (scan_rows valid_email rows) = []"
    and active: "es_institutional_id ` set (filter es_is_active (roster s')) = file_id ` set rows" by blast
  have "list_all2 (\<lambda>row d. strip (row ! j) = file_id d) (filter (\<lambda>row. row \<noteq> []) table) rows"
    using upload_of_written [OF assms(2,1,3,4) rows(1)]
  proof (rule list.rel_mono_strong)
    fix row d assume "d \<in> set rows" and cells: "length row \<le> length names
      \<and> (\<forall>j < length row. map_of d (lower (strip (names ! j))) = Some (strip (row ! j)))
      \<and> (\<forall>j < length names. length row \<le> j \<longrightarrow> map_of d (lower (strip (names ! j))) = Some [])"
    then have "cell_of d ''institutional_id'' \<noteq> []" using file_entries_clean(2) [OF rows(2)] by (auto simp: good_row_def)
    then have "j < length row" using cells assms(5,6) by (cases "j < length row") (auto simp: cell_of_def)
    then show "strip (row ! j) = file_id d" using cells assms(6) by (auto simp: file_id_def cell_of_def)
  qed
  then have "list_all2 (=) (map (\<lambda>row. strip (row ! j)) (filter (\<lambda>row. row \<noteq> []) table)) (map file_id rows)"
    unfolding list_all2_map1 list_all2_map2 .
  then have "map (\<lambda>row. strip (row ! j)) (filter (\<lambda>row. row \<noteq> []) table) = map file_id rows"
    by (simp only: list.rel_eq)
  from arg_cong [OF this, of set] have "file_id ` set rows = (\<lambda>row. strip (row ! j)) ` {row \<in> set table. row \<noteq> []}" by simp
  with active refresh_run [OF run ok] show ?thesis by simp
qed

section \<open>They touch nothing else\<close>

lemma apply_entry_elsewhere: "apply_entry e batch s = Inr (c, w, s') \<Longrightarrow> elsewhere s s'"
  by (auto simp: apply_entry_def Let_def split: option.splits if_splits)

lemma import_loop_elsewhere: "foldE (import_entry allow batch) es (report, s) = Inr (report', s') \<Longrightarrow> elsewhere s s'"
proof (induction es arbitrary: report s)
  case (Cons e es)
  then obtain c w s1 where "apply_entry e batch s = Inr (c, w, s1)"
    "foldE (import_entry allow batch) es (count_entry c w report, s1) = Inr (report', s')"
    by (auto simp: bindE_Inr import_entry_Inr)
  with Cons.IH apply_entry_elsewhere show ?case by (blast intro: elsewhere_trans)
qed simp

lemma import_rows_elsewhere:
  assumes run: "import_roster_rows valid_email rows actor dry batch allow s = Inr (report, s')"
  shows "elsewhere s s'"
proof -
  define r where "r = scan_report (length rows) dry (scan_rows valid_email rows)"
  note run = run [unfolded import_roster_rows_def Let_def r_def [symmetric] file_entries_def [symmetric]]
  show ?thesis
  proof (cases "ir_errors r \<noteq> [] \<or> dry")
    case True
    with run have "s' = s" by (cases "ir_errors r = []") simp_all
    then show ?thesis by simp
  next
    case False
    with run obtain report1 s1 changes where "foldE (import_entry allow batch) (file_entries valid_email rows) (r, s) = Inr (report1, s1)"
      "(if length batch > 64 then Inl (Failed DatabaseError) else
         Inr (report1, record_audit ''roster.imported'' ''EligibleStudent'' (or_text batch ''batch'') actor '''' changes '''' s1)) = Inr (report, s')"
      by (auto simp: bindE_Inr simp del: if_split)
    then show ?thesis using import_loop_elsewhere elsewhere_steps(1) by (cases "length batch > 64") auto
  qed
qed

lemma deactivate_missing_elsewhere: "deactivate_missing keep actor dry s = (n, s') \<Longrightarrow> elsewhere s s'"
  by (auto simp: deactivate_missing_def Let_def split: if_splits)

interpretation correct_email_service: service_body "correct_email valid_email entry_pk raw_email reason"
  for valid_email entry_pk raw_email reason
  by (rule service_body_elsewhere) (auto simp: correct_email_def Let_def split: option.splits if_splits)

section \<open>Witnesses and counterexamples\<close>

definition roster_entry :: "nat \<Rightarrow> string \<Rightarrow> string \<Rightarrow> eligible_student" where
  "roster_entry pk institutional_id email = roster_row pk ''2025'' 0
     \<lparr>en_institutional_id = institutional_id, en_email = email, en_name_th = '''', en_name_en = ''N'', en_program = ''P'',
      en_instrument = ''Violin'', en_instrument_category = STRINGS, en_year = Some 1\<rparr>"

definition roster_st :: st where
  "roster_st = (sample_st 0)\<lparr>roster := [roster_entry 1 ''681'' ''a@chula.ac.th'', roster_entry 2 ''682'' ''b@chula.ac.th'']\<rparr>"

definition new_file :: "(string \<times> string) list list" where
  "new_file = [[(''institutional_id'', ''681''), (''email'', ''A@chula.ac.th''), (''instrument'', ''Double  Bass''), (''year'', ''2'')],
     [(''institutional_id'', ''683''), (''email'', ''c@chula.ac.th''), (''instrument'', ''kazoo'')]]"

theorem dry_run_agrees_witness:
  "\<exists>report s'. import_roster_rows (\<lambda>m. True) new_file None True ''x'' False roster_st = Inr (report, roster_st)
    \<and> import_roster_rows (\<lambda>m. True) new_file None False ''x'' False roster_st = Inr (report\<lparr>ir_dry_run := False\<rparr>, s')
    \<and> ir_created report = 1 \<and> ir_unchanged report = 1 \<and> ir_unrecognised report = [''kazoo'']"
proof -
  let ?run = "import_roster_rows (\<lambda>m. True) new_file None True ''x'' False roster_st"
  have "\<not> isl ?run" by code_simp
  then obtain report s0 where dry: "?run = Inr (report, s0)" by (cases ?run) auto
  have figures: "(case ?run of Inl e \<Rightarrow> False | Inr (r, s) \<Rightarrow> ir_errors r = [] \<and> ir_created r = 1 \<and> ir_unchanged r = 1
    \<and> ir_unrecognised r = [''kazoo''])" by code_simp
  have ok: "roster_ok roster_st" "import_fits (\<lambda>m. True) new_file ''x'' roster_st" by code_simp+
  show ?thesis using dry_run_agrees [OF dry ok] dry figures by auto
qed

theorem import_effect_witness:
  "\<exists>report s'. import_roster_rows (\<lambda>m. True) new_file None False ''x'' False roster_st = Inr (report, s')
    \<and> roster_ok s' \<and> ir_institutional_ids report = [''681'', ''683'']
    \<and> map es_email (take 2 (roster s')) = [''a@chula.ac.th'', ''b@chula.ac.th'']"
proof -
  let ?run = "import_roster_rows (\<lambda>m. True) new_file None False ''x'' False roster_st"
  have "\<not> isl ?run" by code_simp
  then obtain report s' where run: "?run = Inr (report, s')" by (cases ?run) auto
  have "(case ?run of Inl e \<Rightarrow> False | Inr (r, s) \<Rightarrow> ir_errors r = [])" by code_simp
  then have clean: "ir_errors report = []" by (simp add: run)
  have ok: "roster_ok roster_st" by code_simp
  have facts: "map file_id new_file = [''681'', ''683'']"
    "length (roster roster_st) = 2" "map es_email (roster roster_st) = [''a@chula.ac.th'', ''b@chula.ac.th'']" by code_simp+
  show ?thesis using import_effect [OF run clean ok] run unfolding facts by auto
qed

definition new_text :: string where
  "new_text = concat (map write_record [[''Institutional_ID'', ''Email'', ''Year''], [''681'', ''a@chula.ac.th'', ''3''], [''684'', ''d@chula.ac.th'']])"

lemma read_new_text: "read_csv (\<lambda>sample. None) new_text
    = Inr [[(''institutional_id'', ''681''), (''email'', ''a@chula.ac.th''), (''year'', ''3'')],
           [(''institutional_id'', ''684''), (''email'', ''d@chula.ac.th''), (''year'', '''')]]"
proof -
  let ?rows = "[[''Institutional_ID'', ''Email'', ''Year''], [''681'', ''a@chula.ac.th'', ''3''], [''684'', ''d@chula.ac.th'']]"
  have records: "read_records excel (concat (map write_record ?rows)) = (?rows, None)"
    by (rule read_written) (simp add: FIELD_LIMIT_def)
  have rows: "csv_row (hd ?rows) (?rows ! 1) = Inr [(''institutional_id'', ''681''), (''email'', ''a@chula.ac.th''), (''year'', ''3'')]"
    "csv_row (hd ?rows) (?rows ! 2) = Inr [(''institutional_id'', ''684''), (''email'', ''d@chula.ac.th''), (''year'', '''')]"
    by code_simp+
  show ?thesis unfolding read_csv_def new_text_def using rows by (simp add: records del: list.map concat.simps)
qed

theorem full_refresh_is_the_file_witness:
  "\<exists>report s'. import_command (\<lambda>sample. None) (\<lambda>m. True) new_text False ''x'' False True roster_st = Inr (report, Some 1, s')
    \<and> es_institutional_id ` set (filter es_is_active (roster s')) = {''681'', ''684''} \<and> roster_ok s'"
proof -
  let ?run = "import_command (\<lambda>sample. None) (\<lambda>m. True) new_text False ''x'' False True roster_st"
  have "(case ?run of Inl e \<Rightarrow> False | Inr (r, n, s) \<Rightarrow> n = Some 1)"
    unfolding import_command_def import_roster_text_def read_new_text sum.case by code_simp
  then obtain report s' where run: "?run = Inr (report, Some 1, s')" by (auto split: sum.splits)
  have ok: "roster_ok roster_st" by code_simp
  let ?names = "[''Institutional_ID'', ''Email'', ''Year'']" and ?table = "[[''681'', ''a@chula.ac.th'', ''3''], [''684'', ''d@chula.ac.th'']]"
  have written: "new_text = concat (map write_record (?names # ?table))" by (rule new_text_def)
  have fits: "\<forall>row \<in> set (?names # ?table). \<forall>cell \<in> set row. length cell \<le> FIELD_LIMIT" by (simp add: FIELD_LIMIT_def)
  have names: "distinct (map (\<lambda>n. lower (strip n)) ?names)" "lower (strip (?names ! 0)) = ''institutional_id''"
    "strip ''681'' = ''681''" "strip ''684'' = ''684''" by code_simp+
  have "{row \<in> set ?table. row \<noteq> []} = set ?table" by auto
  then show ?thesis
    using full_refresh_is_the_file [OF written _ fits names(1) _ names(2) run ok] run names(3,4) by simp
qed

text \<open>
  With the permission to rewrite addresses the dry run can refuse what the import takes: it does not see that an earlier
  row of the file gives the address up.
\<close>

definition swapped_file :: "(string \<times> string) list list" where
  "swapped_file = [[(''institutional_id'', ''681''), (''email'', ''new@chula.ac.th'')],
     [(''institutional_id'', ''682''), (''email'', ''a@chula.ac.th'')]]"

lemma dry_run_misses_freed_address:
  "(case import_roster_rows (\<lambda>m. True) swapped_file None True ''x'' True roster_st of
      Inl e \<Rightarrow> False | Inr (r, s) \<Rightarrow> ir_errors r \<noteq> [])
   \<and> (case import_roster_rows (\<lambda>m. True) swapped_file None False ''x'' True roster_st of
      Inl e \<Rightarrow> False | Inr (r, s) \<Rightarrow> ir_errors r = [] \<and> ir_email_changed r = 2)"
  by code_simp

text \<open>The width of a column is not validated: a clean dry run, and the import ends in an error of the database.\<close>

definition wide_file :: "(string \<times> string) list list" where
  "wide_file = [[(''institutional_id'', ''684''), (''email'', ''d@chula.ac.th''), (''program'', replicate 121 CHR ''p'')]]"

lemma wide_cell_breaks_import:
  "(case import_roster_rows (\<lambda>m. True) wide_file None True ''x'' False roster_st of
      Inl e \<Rightarrow> False | Inr (r, s) \<Rightarrow> ir_errors r = [])
   \<and> import_roster_rows (\<lambda>m. True) wide_file None False ''x'' False roster_st = Inl (Failed DatabaseError)"
  by code_simp

end
