(* ===== verification/Dates.thy ===== *)
theory Dates
  imports Slots
begin

text \<open>
  Calendar arithmetic and what \<open>services/slots.py\<close> builds on it: the identifier of a slot in a URL, read with
  \<open>strptime\<close> as Python's regular expression reads it, and the month pages. A date is its day number (theory Slots);
  \<open>day_number\<close> is its inverse to year, month and day. The model's fixed offset of seven hours is that of Bangkok since
  April 1920. The first day of the week, which depends on the locale, and the last date of the calendar, a setting, are
  parameters.
\<close>

section \<open>Year, month, day\<close>

definition is_leap :: "int \<Rightarrow> bool" where
  "is_leap y = (y mod 4 = 0 \<and> (y mod 100 \<noteq> 0 \<or> y mod 400 = 0))"

definition month_length :: "int \<Rightarrow> int \<Rightarrow> int" where
  "month_length y m = days_in_month ! nat m + (if m = 2 \<and> is_leap y then 1 else 0)"

definition days_before :: "int \<Rightarrow> int \<Rightarrow> int" where
  "days_before y m = days_before_month ! nat m + (if m > 2 \<and> is_leap y then 1 else 0)"

definition year_start :: "int \<Rightarrow> int" where
  "year_start y = (let n = y - 1 in n * 365 + n div 4 - n div 100 + n div 400)"

text \<open>\<open>date(y, m, d)\<close>.\<close>

definition day_number :: "int \<Rightarrow> int \<Rightarrow> int \<Rightarrow> date" where
  "day_number y m d = year_start y + days_before y m + d - 1 - 719162"

definition month_in_year :: "bool \<Rightarrow> int \<Rightarrow> int \<times> int" where
  "month_in_year leap n =
    (let month = (n + 50) div 32; preceding = days_before_month ! nat month + (if month > 2 \<and> leap then 1 else 0)
     in if preceding > n
        then let month = month - 1;
            preceding = preceding - (days_in_month ! nat month + (if month = 2 \<and> leap then 1 else 0))
          in (month, n - preceding + 1)
        else (month, n - preceding + 1))"

text \<open>The months cover the days of a year: checked day by day.\<close>

definition month_day_ok :: "bool \<Rightarrow> int \<Rightarrow> bool" where
  "month_day_ok leap n = (case month_in_year leap n of (m, d) \<Rightarrow> 1 \<le> m \<and> m \<le> 12 \<and> 1 \<le> d
     \<and> d \<le> days_in_month ! nat m + (if m = 2 \<and> leap then 1 else 0)
     \<and> days_before_month ! nat m + (if m > 2 \<and> leap then 1 else 0) + d - 1 = n)"

lemma all_days: "list_all (month_day_ok False) [0..364]" "list_all (month_day_ok True) [0..365]"
  by code_simp+

lemma month_in_year_correct:
  assumes "0 \<le> n" "n \<le> (if leap then 365 else 364)"
  shows "month_day_ok leap n"
  using all_days assms by (cases leap) (auto simp: list_all_iff)

lemma div_rest: "0 \<le> r \<Longrightarrow> r < k \<Longrightarrow> (q * k + r) div k = (q :: int)"
  by simp

lemma mod_rest: "0 < r \<Longrightarrow> r \<le> k \<Longrightarrow> (q * k + r) mod k = (0 :: int) \<longleftrightarrow> r = k"
  by (cases "r = k") simp_all

lemma year_parts:
  fixes a b c e :: int
  assumes "0 \<le> b" "b \<le> 3" "0 \<le> c" "c \<le> 24" "0 \<le> e" "e \<le> 3"
  defines "y \<equiv> a * 400 + 1 + b * 100 + c * 4 + e"
  shows "year_start y = a * 146097 + b * 36524 + c * 1461 + e * 365"
    and "is_leap y = (e = 3 \<and> (c \<noteq> 24 \<or> b = 3))"
proof -
  have "y - 1 = (a * 100 + b * 25 + c) * 4 + e" "y - 1 = (a * 4 + b) * 100 + (c * 4 + e)" "y - 1 = a * 400 + (b * 100 + c * 4 + e)"
    by (simp_all add: y_def)
  then have "(y - 1) div 4 = a * 100 + b * 25 + c" "(y - 1) div 100 = a * 4 + b" "(y - 1) div 400 = a"
    using assms(1-6) div_rest [of e 4] div_rest [of "c * 4 + e" 100] div_rest [of "b * 100 + c * 4 + e" 400] by simp_all
  then show "year_start y = a * 146097 + b * 36524 + c * 1461 + e * 365"
    by (simp add: year_start_def y_def)
  have "y = (a * 100 + b * 25 + c) * 4 + (e + 1)" "y = (a * 4 + b) * 100 + (c * 4 + e + 1)" "y = a * 400 + (b * 100 + c * 4 + e + 1)"
    by (simp_all add: y_def)
  note eq = this
  have "y mod 4 = 0 \<longleftrightarrow> e + 1 = 4" unfolding eq(1) by (rule mod_rest) (use assms(1-6) in linarith)+
  moreover have "y mod 100 = 0 \<longleftrightarrow> c * 4 + e + 1 = 100" unfolding eq(2) by (rule mod_rest) (use assms(1-6) in linarith)+
  moreover have "y mod 400 = 0 \<longleftrightarrow> b * 100 + c * 4 + e + 1 = 400" unfolding eq(3) by (rule mod_rest) (use assms(1-6) in linarith)+
  ultimately have "y mod 4 = 0 \<longleftrightarrow> e = 3" "y mod 100 = 0 \<longleftrightarrow> c = 24 \<and> e = 3" "y mod 400 = 0 \<longleftrightarrow> b = 3 \<and> c = 24 \<and> e = 3"
    using assms(1-6) by auto
  then show "is_leap y = (e = 3 \<and> (c \<noteq> 24 \<or> b = 3))" by (auto simp: is_leap_def)
qed

lemma last_day_of_year:
  assumes "is_leap y"
  shows "day_number y 12 31 = year_start y + 365 - 719162" "month_length y 12 = 31"
  using assms by (simp_all add: day_number_def days_before_def month_length_def days_before_month_def days_in_month_def)

lemma year_parts_last:
  fixes a b c :: int
  assumes "0 \<le> c" "c \<le> 24" "0 \<le> b" "b \<le> 3" "c \<noteq> 24 \<or> b = 3"
  defines "y \<equiv> a * 400 + b * 100 + c * 4 + 4"
  shows "year_start y + 365 = a * 146097 + b * 36524 + c * 1461 + 1460" "is_leap y"
proof -
  have y: "y = a * 400 + 1 + b * 100 + c * 4 + 3" by (simp add: y_def)
  show "year_start y + 365 = a * 146097 + b * 36524 + c * 1461 + 1460" "is_leap y"
    unfolding y using year_parts [of b c 3 a] assms(1-5) by auto
qed

lemma ymd_correct:
  assumes "- 719162 \<le> d"
  shows "\<exists>y m dd. ymd d = (y, m, dd) \<and> 1 \<le> y \<and> 1 \<le> m \<and> m \<le> 12 \<and> 1 \<le> dd \<and> dd \<le> month_length y m \<and> day_number y m dd = d"
proof -
  define n where "n = d + 719162"
  define a where "a = n div 146097"
  define r where "r = n mod 146097"
  define b where "b = r div 36524"
  define r2 where "r2 = r mod 36524"
  define c where "c = r2 div 1461"
  define r3 where "r3 = r2 mod 1461"
  define e where "e = r3 div 365"
  define k where "k = r3 mod 365"
  have n0: "0 \<le> n" using assms by (simp add: n_def)
  have parts: "n = a * 146097 + r" "r = b * 36524 + r2" "r2 = c * 1461 + r3" "r3 = e * 365 + k"
    by (simp_all add: a_def r_def b_def r2_def c_def r3_def e_def k_def)
  then have split: "n = a * 146097 + b * 36524 + c * 1461 + e * 365 + k" by simp
  have r: "0 \<le> r" "r < 146097" by (simp_all add: r_def)
  have r2: "0 \<le> r2" "r2 < 36524" by (simp_all add: r2_def)
  have r3: "0 \<le> r3" "r3 < 1461" by (simp_all add: r3_def)
  have k: "0 \<le> k" "k < 365" by (simp_all add: k_def)
  have a0: "0 \<le> a" using n0 by (simp add: a_def pos_imp_zdiv_nonneg_iff)
  have b: "0 \<le> b" "b \<le> 4" "b = 4 \<Longrightarrow> r2 = 0" using r r2 parts(2) by linarith+
  have c: "0 \<le> c" "c \<le> 24" "c = 24 \<Longrightarrow> r3 < 1460" using r2 r3 parts(3) by linarith+
  have e: "0 \<le> e" "e \<le> 4" "e = 4 \<Longrightarrow> k = 0 \<and> r3 = 1460" using r3 k parts(4) by linarith+
  define leap where "leap = (e = 3 \<and> (c \<noteq> 24 \<or> b = 3))"
  define y where "y = a * 400 + 1 + b * 100 + c * 4 + e"
  have ymd: "ymd d = (if e = 4 \<or> b = 4 then (y - 1, 12, 31)
      else (case month_in_year leap k of (m, dd) \<Rightarrow> (y, m, dd)))"
    unfolding ymd_def Let_def n_def [symmetric] a_def [symmetric] r_def [symmetric] b_def [symmetric] r2_def [symmetric]
      c_def [symmetric] r3_def [symmetric] e_def [symmetric] k_def [symmetric] y_def [symmetric] leap_def [symmetric]
    by (simp only: month_in_year_def Let_def if_distrib [where f = "\<lambda>z. case z of (m, dd) \<Rightarrow> (y, m, dd)"] prod.case)
  show ?thesis
  proof (cases "e = 4 \<or> b = 4")
    case True
    have "\<exists>c' b'. 0 \<le> c' \<and> c' \<le> 24 \<and> 0 \<le> b' \<and> b' \<le> 3 \<and> (c' \<noteq> 24 \<or> b' = 3)
        \<and> y - 1 = a * 400 + b' * 100 + c' * 4 + 4 \<and> n = a * 146097 + b' * 36524 + c' * 1461 + 1460"
    proof (cases "b = 4")
      case True
      then have "r = 146096" using parts(2) b(3) by simp
      moreover have "c = 0" "e = 0" using True b(3) parts(3,4) c(1) e(1) r3(1) k(1) by linarith+
      ultimately show ?thesis using True parts(1) by (intro exI [of _ 24] exI [of _ 3]) (simp add: y_def)
    next
      case False
      with True have "e = 4" by simp
      with False b c e parts show ?thesis by (intro exI [of _ c] exI [of _ b]) (auto simp: y_def)
    qed
    then obtain c' b' where p: "0 \<le> c'" "c' \<le> 24" "0 \<le> b'" "b' \<le> 3" "c' \<noteq> 24 \<or> b' = 3"
      "y - 1 = a * 400 + b' * 100 + c' * 4 + 4" "n = a * 146097 + b' * 36524 + c' * 1461 + 1460" by blast
    have s: "year_start (y - 1) + 365 = n" "is_leap (y - 1)" unfolding p(6,7) by (rule year_parts_last [OF p(1-5)])+
    have "1 \<le> y - 1" using p a0 by linarith
    moreover have "ymd d = (y - 1, 12, 31)" using True ymd by simp
    moreover have "day_number (y - 1) 12 31 = d" using last_day_of_year(1) [OF s(2)] s(1) by (simp add: n_def)
    ultimately show ?thesis using last_day_of_year(2) [OF s(2)] by simp
  next
    case False
    obtain m dd where md: "month_in_year leap k = (m, dd)" by (cases "month_in_year leap k")
    have p: "year_start y = a * 146097 + b * 36524 + c * 1461 + e * 365" "is_leap y = leap"
      using year_parts [of b c e a] b c e False by (auto simp: y_def leap_def)
    have "month_day_ok leap k" using k by (intro month_in_year_correct) auto
    then have "1 \<le> m \<and> m \<le> 12 \<and> 1 \<le> dd \<and> dd \<le> month_length y m \<and> days_before y m + dd - 1 = k"
      using md p(2) by (simp add: month_day_ok_def month_length_def days_before_def)
    moreover have "1 \<le> y" using a0 b c e by (simp add: y_def)
    ultimately show ?thesis using False ymd md split p(1) by (auto simp: day_number_def n_def)
  qed
qed

section \<open>The Gregorian calendar, apart from the code\<close>

text \<open>The lengths of the months, and the day before and the day after a date: a calendar that is counted day by day.\<close>

definition gregorian_month :: "int \<Rightarrow> int \<Rightarrow> int" where
  "gregorian_month y m = (if m = 2 then (if 4 dvd y \<and> (\<not> 100 dvd y \<or> 400 dvd y) then 29 else 28)
     else if m \<in> {4, 6, 9, 11} then 30 else 31)"

fun day_after :: "int \<times> int \<times> int \<Rightarrow> int \<times> int \<times> int" where
  "day_after (y, m, d) = (if d < gregorian_month y m then (y, m, d + 1) else if m < 12 then (y, m + 1, 1) else (y + 1, 1, 1))"

fun day_before :: "int \<times> int \<times> int \<Rightarrow> int \<times> int \<times> int" where
  "day_before (y, m, d) = (if 1 < d then (y, m, d - 1) else if 1 < m then (y, m - 1, gregorian_month y (m - 1)) else (y - 1, 12, 31))"

text \<open>Day 0 is 1 January 1970.\<close>

definition gregorian :: "date \<Rightarrow> int \<times> int \<times> int" where
  "gregorian day = (if 0 \<le> day then (day_after ^^ nat day) (1970, 1, 1) else (day_before ^^ nat (- day)) (1970, 1, 1))"

fun real_date :: "int \<times> int \<times> int \<Rightarrow> bool" where
  "real_date (y, m, d) \<longleftrightarrow> 1 \<le> m \<and> m \<le> 12 \<and> 1 \<le> d \<and> d \<le> gregorian_month y m"

lemma month_cases:
  assumes "1 \<le> m" "m \<le> 12"
  obtains "m = 1" | "m = 2" | "m = 3" | "m = 4" | "m = 5" | "m = 6" | "m = 7" | "m = 8" | "m = 9" | "m = 10" | "m = 11" | "m = (12 :: int)"
proof -
  have "m = 1 \<or> m = 2 \<or> m = 3 \<or> m = 4 \<or> m = 5 \<or> m = 6 \<or> m = 7 \<or> m = 8 \<or> m = 9 \<or> m = 10 \<or> m = 11 \<or> m = 12"
    using assms by presburger
  with that show thesis by blast
qed

lemma month_length_gregorian: "1 \<le> m \<Longrightarrow> m \<le> 12 \<Longrightarrow> month_length y m = gregorian_month y m"
  by (erule (1) month_cases)
    (simp_all add: month_length_def gregorian_month_def days_in_month_def is_leap_def dvd_eq_mod_eq_0 nat_numeral)

lemma gregorian_month_pos: "1 \<le> gregorian_month y m"
  by (simp add: gregorian_month_def)

lemma days_before_next: "1 \<le> m \<Longrightarrow> m < 12 \<Longrightarrow> days_before y (m + 1) = days_before y m + month_length y m"
  by (rule month_cases [of m]) (simp_all add: days_before_def month_length_def days_before_month_def days_in_month_def nat_numeral)

lemma div_prev:
  fixes k c :: int
  assumes "0 < c"
  shows "k div c = (k - 1) div c + (if k mod c = 0 then 1 else 0)"
proof (cases "k mod c = 0")
  case True
  then have "k - 1 = (k div c - 1) * c + (c - 1)" using div_mult_mod_eq [of k c] by (simp add: algebra_simps)
  then have "(k - 1) div c = ((k div c - 1) * c + (c - 1)) div c" by (rule arg_cong)
  also have "\<dots> = k div c - 1" using div_rest [of "c - 1" c "k div c - 1"] assms by simp
  finally have "(k - 1) div c = k div c - 1" .
  then show ?thesis using True by simp
next
  case False
  moreover have "0 \<le> k mod c" "k mod c < c" using assms by simp_all
  ultimately have "(k div c * c + (k mod c - 1)) div c = k div c" by (intro div_rest) linarith+
  moreover have "k - 1 = k div c * c + (k mod c - 1)" using div_mult_mod_eq [of k c] by linarith
  ultimately have "(k - 1) div c = k div c" by (metis (no_types))
  with False show ?thesis by simp
qed

lemma year_start_next: "year_start (y + 1) = year_start y + 365 + (if is_leap y then 1 else 0)"
proof -
  have hundred: "y mod 400 = 0 \<Longrightarrow> y mod 100 = 0" "y mod 100 = 0 \<Longrightarrow> y mod 4 = 0"
    using dvd_trans [of 100 400 y] dvd_trans [of 4 100 y] by (simp_all add: dvd_eq_mod_eq_0)
  have start: "year_start (y + 1) = y * 365 + y div 4 - y div 100 + y div 400"
    "year_start y = (y - 1) * 365 + (y - 1) div 4 - (y - 1) div 100 + (y - 1) div 400" by (simp_all only: year_start_def Let_def add_diff_cancel_right')
  define a b c p q r where "a = y div 4" and "b = y div 100" and "c = y div 400"
    and "p = (y - 1) div 4" and "q = (y - 1) div 100" and "r = (y - 1) div 400"
  define four hundred_th four_hundred where "four = (y mod 4 = 0)" and "hundred_th = (y mod 100 = 0)" and "four_hundred = (y mod 400 = 0)"
  note fold = a_def [symmetric] b_def [symmetric] c_def [symmetric] p_def [symmetric] q_def [symmetric] r_def [symmetric]
    four_def [symmetric] hundred_th_def [symmetric] four_hundred_def [symmetric]
  have steps: "a = p + (if four then 1 else 0)" "b = q + (if hundred_th then 1 else 0)" "c = r + (if four_hundred then 1 else 0)"
    using div_prev [of 4 y] div_prev [of 100 y] div_prev [of 400 y] unfolding fold by simp_all
  have imp: "four_hundred \<Longrightarrow> hundred_th" "hundred_th \<Longrightarrow> four" using hundred unfolding fold by simp_all
  show ?thesis unfolding start is_leap_def unfolding fold using steps imp
    by (cases four; cases hundred_th; cases four_hundred) (simp_all add: algebra_simps)
qed

lemma year_start_mono: "y \<le> y' \<Longrightarrow> year_start y \<le> year_start y'"
proof (induction y' rule: int_ge_induct)
  case (step i)
  then show ?case using year_start_next [of i] by (cases "is_leap i") simp_all
qed simp

lemma days_before_mono: "m \<le> m' \<Longrightarrow> 1 \<le> m \<Longrightarrow> m' \<le> 12 \<Longrightarrow> days_before y m \<le> days_before y m'"
proof (induction m' rule: int_ge_induct)
  case (step i)
  then show ?case using days_before_next [of i y] month_length_gregorian [of i y] gregorian_month_pos [of y i] by simp
qed simp

lemma days_before_last: "days_before y 12 + 31 = 365 + (if is_leap y then 1 else 0)" "days_before y 1 = 0"
  by (simp_all add: days_before_def days_before_month_def)

text \<open>The number of a date respects the order of dates, and the day after has the next number.\<close>

lemma day_number_less:
  assumes "real_date (y, m, d)" "real_date (y', m', d')" "y < y' \<or> y = y' \<and> (m < m' \<or> m = m' \<and> d < d')"
  shows "day_number y m d < day_number y' m' d'"
proof -
  have m: "1 \<le> m" "m \<le> 12" "1 \<le> d" "d \<le> month_length y m" and m': "1 \<le> m'" "m' \<le> 12" "1 \<le> d'"
    using assms(1,2) by (simp_all add: month_length_gregorian)
  consider (year) "y < y'" | (month) "y = y'" "m < m'" | (day) "y = y'" "m = m'" "d < d'" using assms(3) by blast
  then show ?thesis
  proof cases
    case year
    have "days_before y m + d \<le> 365 + (if is_leap y then 1 else 0)"
    proof (cases "m = 12")
      case True
      then show ?thesis using m(4) days_before_last(1) [of y] by (simp add: month_length_gregorian gregorian_month_def)
    next
      case False
      then have "days_before y (m + 1) \<le> days_before y 12" using m by (intro days_before_mono) auto
      with False show ?thesis using m days_before_next [of m y] days_before_last(1) [of y] by simp
    qed
    moreover have "year_start (y + 1) \<le> year_start y'" using year by (intro year_start_mono) simp
    moreover have "0 \<le> days_before y' m'" using days_before_mono [of 1 m' y'] m' days_before_last(2) [of y'] by simp
    ultimately show ?thesis using year_start_next [of y] m'(3) by (simp add: day_number_def)
  next
    case month
    then have "days_before y (m + 1) \<le> days_before y m'" using m m' by (intro days_before_mono) auto
    then show ?thesis using month m m' days_before_next [of m y] by (simp add: day_number_def)
  qed (simp add: day_number_def)
qed

lemma day_number_inj:
  assumes "real_date (y, m, d)" "real_date (y', m', d')" "day_number y m d = day_number y' m' d'"
  shows "(y, m, d) = (y', m', d')"
proof (rule ccontr)
  assume "(y, m, d) \<noteq> (y', m', d')"
  then consider "y < y' \<or> y = y' \<and> (m < m' \<or> m = m' \<and> d < d')" | "y' < y \<or> y' = y \<and> (m' < m \<or> m' = m \<and> d' < d)" by force
  then show False by cases (use day_number_less [OF assms(1,2)] day_number_less [OF assms(2,1)] assms(3) in auto)
qed

lemma day_number_after:
  assumes "real_date (y, m, d)" "day_after (y, m, d) = (y', m', d')"
  shows "real_date (y', m', d') \<and> day_number y' m' d' = day_number y m d + 1"
proof -
  have m: "1 \<le> m" "m \<le> 12" "1 \<le> d" "d \<le> gregorian_month y m" using assms(1) by simp_all
  consider (day) "d < gregorian_month y m" | (month) "d = gregorian_month y m" "m < 12" | (year) "d = gregorian_month y m" "m = 12"
    using m by linarith
  then show ?thesis
  proof cases
    case day
    then show ?thesis using assms(2) m by (auto simp: day_number_def)
  next
    case month
    then show ?thesis using assms(2) m gregorian_month_pos days_before_next [of m y] month_length_gregorian [of m y]
      by (auto simp: day_number_def)
  next
    case year
    then have "d = 31" by (simp add: gregorian_month_def)
    then show ?thesis using year assms(2) m gregorian_month_pos year_start_next [of y] days_before_last
      by (auto simp: day_number_def)
  qed
qed

lemma ymd_real: "- 719162 \<le> n \<Longrightarrow> \<exists>y m d. ymd n = (y, m, d) \<and> real_date (y, m, d) \<and> day_number y m d = n"
  using ymd_correct [of n] by (auto simp: month_length_gregorian)

lemma ymd_after:
  assumes "- 719162 \<le> n"
  shows "ymd (n + 1) = day_after (ymd n)"
proof -
  obtain y m d where now: "ymd n = (y, m, d)" "real_date (y, m, d)" "day_number y m d = n" using ymd_real [OF assms] by blast
  obtain y1 m1 d1 where next1: "ymd (n + 1) = (y1, m1, d1)" "real_date (y1, m1, d1)" "day_number y1 m1 d1 = n + 1"
    using ymd_real [of "n + 1"] assms by auto
  obtain y2 m2 d2 where after: "day_after (y, m, d) = (y2, m2, d2)" by (cases "day_after (y, m, d)")
  from day_number_after [OF now(2) after] have "real_date (y2, m2, d2)" "day_number y2 m2 d2 = n + 1" using now(3) by simp_all
  then have "(y1, m1, d1) = (y2, m2, d2)" using day_number_inj [OF next1(2)] next1(3) by simp
  then show ?thesis using now(1) next1(1) after by simp
qed

lemma day_before_after: "real_date (y, m, d) \<Longrightarrow> day_before (day_after (y, m, d)) = (y, m, d)"
  using gregorian_month_pos [of y m] by (auto simp: gregorian_month_def)

text \<open>The code's conversion is that calendar, from 1 January of the year 1 on.\<close>

lemma ymd_gregorian:
  assumes "- 719162 \<le> n"
  shows "ymd n = gregorian n"
proof (cases "0 \<le> n")
  case True
  have "ymd (int k) = (day_after ^^ k) (1970, 1, 1)" for k
  proof (induction k)
    case 0
    show ?case by code_simp
  next
    case (Suc k)
    then show ?case using ymd_after [of "int k"] by (simp add: add.commute)
  qed
  from this [of "nat n"] True show ?thesis by (simp add: gregorian_def)
next
  case False
  have "ymd (- int k) = (day_before ^^ k) (1970, 1, 1)" if "k \<le> 719162" for k
    using that
  proof (induction k)
    case 0
    show ?case by code_simp
  next
    case (Suc k)
    obtain y m d where now: "ymd (- int (Suc k)) = (y, m, d)" "real_date (y, m, d)" using ymd_real [of "- int (Suc k)"] Suc.prems by auto
    have "ymd (- int k) = day_after (y, m, d)" using ymd_after [of "- int (Suc k)"] Suc.prems now(1) by simp
    with Suc day_before_after [OF now(2)] now(1) show ?case by simp
  qed
  from this [of "nat (- n)"] False assms show ?thesis by (simp add: gregorian_def)
qed

section \<open>The identifier of a slot\<close>

text \<open>
  \<open>strptime\<close> matches a regular expression: for each directive the ways it can match at the head of the text, in the
  order the expression tries them, with the number read and the text left.
\<close>

definition digit_of :: "char \<Rightarrow> int option" where
  "digit_of c = (let n = (of_char c :: nat) in if 48 \<le> n \<and> n \<le> 57 then Some (int n - 48) else None)"

definition digit_in :: "int \<Rightarrow> int \<Rightarrow> char \<Rightarrow> bool" where
  "digit_in lo hi c = (case digit_of c of None \<Rightarrow> False | Some d \<Rightarrow> lo \<le> d \<and> d \<le> hi)"

fun one_digit :: "int \<Rightarrow> int \<Rightarrow> string \<Rightarrow> (int \<times> string) list" where
  "one_digit lo hi [] = []"
| "one_digit lo hi (c # cs) = (if digit_in lo hi c then [(the (digit_of c), cs)] else [])"

definition two_digits :: "int \<Rightarrow> int \<Rightarrow> int \<Rightarrow> int \<Rightarrow> string \<Rightarrow> (int \<times> string) list" where
  "two_digits lo hi lo' hi' s = concat (map (\<lambda>(d, cs). map (\<lambda>(e, cs). (10 * d + e, cs)) (one_digit lo' hi' cs)) (one_digit lo hi s))"

definition match_Y :: "string \<Rightarrow> (int \<times> string) list" where
  "match_Y s = concat (map (\<lambda>(d, cs). map (\<lambda>(e, cs). (100 * d + e, cs)) (two_digits 0 9 0 9 cs)) (two_digits 0 9 0 9 s))"

definition match_m :: "string \<Rightarrow> (int \<times> string) list" where
  "match_m s = two_digits 1 1 0 2 s @ two_digits 0 0 1 9 s @ one_digit 1 9 s"

definition match_d :: "string \<Rightarrow> (int \<times> string) list" where
  "match_d s = two_digits 3 3 0 1 s @ two_digits 1 2 0 9 s @ two_digits 0 0 1 9 s @ one_digit 1 9 s
     @ (case s of c # cs \<Rightarrow> if c = CHR '' '' then one_digit 1 9 cs else [] | [] \<Rightarrow> [])"

definition match_H :: "string \<Rightarrow> (int \<times> string) list" where
  "match_H s = two_digits 2 2 0 3 s @ two_digits 0 1 0 9 s @ one_digit 0 9 s"

definition match_M :: "string \<Rightarrow> (int \<times> string) list" where
  "match_M s = two_digits 0 5 0 9 s @ one_digit 0 9 s"

text \<open>The expression ignores case.\<close>

definition match_T :: "string \<Rightarrow> (int \<times> string) list" where
  "match_T s = (case s of c # cs \<Rightarrow> if c = CHR ''T'' \<or> c = CHR ''t'' then [(0, cs)] else [] | [] \<Rightarrow> [])"

text \<open>One directive after the other; the numbers read in front of the text left.\<close>

definition match_then :: "(string \<Rightarrow> (int \<times> string) list) \<Rightarrow> (int list \<times> string) list \<Rightarrow> (int list \<times> string) list" where
  "match_then m found = concat (map (\<lambda>(ns, s). map (\<lambda>(n, s). (ns @ [n], s)) (m s)) found)"

definition match_slot :: "string \<Rightarrow> (int list \<times> string) list" where
  "match_slot s = match_then match_M (match_then match_H (match_then match_T (match_then match_d (match_then match_m
     (match_then match_Y [([], s)])))))"

text \<open>A local time whose UTC instant is before the year 1 overflows, which is no \<open>ValueError\<close>.\<close>

datatype slot_failure = NotASlot | OverflowError

definition decode_slot :: "string \<Rightarrow> slot_failure + time" where
  "decode_slot value = (case match_slot value of
       ([y, m, d, t, hour, minute], []) # _ \<Rightarrow>
         if \<not> (1 \<le> y \<and> d \<le> month_length y m) then Inl NotASlot
         else let local = day_number y m d * us_day + hour * us_hour + minute * us_minute
           in if local - BANGKOK < - 719162 * us_day then Inl OverflowError else Inr (local - BANGKOK)
     | _ \<Rightarrow> Inl NotASlot)"

definition try_decode_slot :: "string \<Rightarrow> slot_failure + time option" where
  "try_decode_slot value = (case decode_slot value of
       Inr t \<Rightarrow> Inr (Some t) | Inl NotASlot \<Rightarrow> Inr None | Inl OverflowError \<Rightarrow> Inl OverflowError)"

lemma decode_samples:
  "decode_slot ''20260105T0900'' = Inr (20458 * us_day + 2 * us_hour)"
  "decode_slot ''20260105t9'' = Inl NotASlot"
  "decode_slot ''2026 15T0900'' = Inl NotASlot"
  "decode_slot ''202611 5T0900'' = Inr (20762 * us_day + 2 * us_hour)"
  "decode_slot ''20260230T0900'' = Inl NotASlot"
  "decode_slot ''20260105T0900x'' = Inl NotASlot"
  by code_simp+

text \<open>Not only identifiers that \<open>encode_slot\<close> writes are read, and one of them ends in an exception that is no \<open>ValueError\<close>.\<close>

lemma decode_reads_more:
  "decode_slot ''202611T0900'' = decode_slot ''20260101T0900''"
  "decode_slot ''2026115T0900'' = decode_slot ''20261105T0900''"
  "try_decode_slot ''00010101T0000'' = Inl OverflowError"
  by code_simp+

section \<open>What is written reads back\<close>

lemma digit_of_digit_char [simp]: "k < 10 \<Longrightarrow> digit_of (digit_char k) = Some (int k)"
  by (simp add: digit_of_def digit_char_def)

lemma one_digit_char: "k < 10 \<Longrightarrow> one_digit lo hi (digit_char k # s) = (if lo \<le> int k \<and> int k \<le> hi then [(int k, s)] else [])"
  by (simp add: digit_in_def)

lemma two_digits_char: "j < 10 \<Longrightarrow> k < 10 \<Longrightarrow> two_digits lo hi lo' hi' (digit_char j # digit_char k # s)
    = (if lo \<le> int j \<and> int j \<le> hi \<and> lo' \<le> int k \<and> int k \<le> hi' then [(10 * int j + int k, s)] else [])"
  by (auto simp add: two_digits_def one_digit_char simp del: one_digit.simps)

lemma digit_char_0: "digit_char 0 = CHR ''0''"
  by code_simp

lemma pad0_2: "0 \<le> i \<Longrightarrow> i < 100 \<Longrightarrow> pad0 2 i = [digit_char (nat i div 10), digit_char (nat i mod 10)]"
  by (cases "nat i < 10") (auto simp: pad0_def show_int_def show_nat.simps [of "nat i"] show_nat.simps [of "nat i div 10"] digit_char_0 Let_def)

lemma pad0_4: "1000 \<le> i \<Longrightarrow> i < 10000 \<Longrightarrow> pad0 4 i = [digit_char (nat i div 1000), digit_char (nat i div 100 mod 10),
    digit_char (nat i div 10 mod 10), digit_char (nat i mod 10)]"
  by (auto simp: pad0_def show_int_def show_nat.simps [of "nat i"] show_nat.simps [of "nat i div 10"] show_nat.simps [of "nat i div 100"]
      show_nat.simps [of "nat i div 1000"] Let_def div_mult2_eq [symmetric])

lemma match_Y_pad: "1000 \<le> i \<Longrightarrow> i < 10000 \<Longrightarrow> match_Y (pad0 4 i @ s) = [(i, s)]"
proof -
  assume i: "1000 \<le> i" "i < 10000"
  define a b c d where "a = nat i div 1000" and "b = nat i div 100 mod 10" and "c = nat i div 10 mod 10" and "d = nat i mod 10"
  have lt: "a < 10" "b < 10" "c < 10" "d < 10" using i by (auto simp: a_def b_def c_def d_def)
  have "nat i = 10 * (nat i div 10) + d" "nat i div 10 = 10 * (nat i div 100) + c" "nat i div 100 = 10 * a + b"
    using div_mult_mod_eq [of "nat i div 10" 10] div_mult_mod_eq [of "nat i div 100" 10]
    by (simp_all add: a_def b_def c_def d_def div_mult2_eq [symmetric])
  then have "nat i = 1000 * a + 100 * b + 10 * c + d" by linarith
  then have "i = 1000 * int a + 100 * int b + 10 * int c + int d" using i by linarith
  then show ?thesis using lt unfolding pad0_4 [OF i] a_def [symmetric] b_def [symmetric] c_def [symmetric] d_def [symmetric]
    by (simp add: match_Y_def two_digits_char)
qed

lemma match_pad:
  assumes "0 \<le> i"
  shows "1 \<le> i \<Longrightarrow> i \<le> 12 \<Longrightarrow> \<exists>zs. match_m (pad0 2 i @ s) = (i, s) # zs"
    and "1 \<le> i \<Longrightarrow> i \<le> 31 \<Longrightarrow> \<exists>zs. match_d (pad0 2 i @ s) = (i, s) # zs"
    and "i \<le> 23 \<Longrightarrow> \<exists>zs. match_H (pad0 2 i @ s) = (i, s) # zs"
    and "i \<le> 59 \<Longrightarrow> \<exists>zs. match_M (pad0 2 i @ s) = (i, s) # zs"
proof -
  define j k where "j = nat i div 10" and "k = nat i mod 10"
  have "nat i = 10 * j + k" by (simp add: j_def k_def)
  then have i: "i = 10 * int j + int k" "k < 10" using assms by (linarith, simp add: k_def)
  have pad: "pad0 2 i @ s = digit_char j # digit_char k # s" if "i < 100" using pad0_2 [OF assms that] by (simp add: j_def k_def)
  note m = two_digits_char [of j k] one_digit_char [of j]
  show "\<exists>zs. match_m (pad0 2 i @ s) = (i, s) # zs" if "1 \<le> i" "i \<le> 12"
    using that i pad m by (auto simp: match_m_def simp del: one_digit.simps)
  show "\<exists>zs. match_d (pad0 2 i @ s) = (i, s) # zs" if "1 \<le> i" "i \<le> 31"
    using that i pad m by (auto simp: match_d_def simp del: one_digit.simps)
  show "\<exists>zs. match_H (pad0 2 i @ s) = (i, s) # zs" if "i \<le> 23"
    using that i pad m by (auto simp: match_H_def simp del: one_digit.simps)
  show "\<exists>zs. match_M (pad0 2 i @ s) = (i, s) # zs" if "i \<le> 59"
    using that i pad m by (auto simp: match_M_def simp del: one_digit.simps)
qed

lemma match_then_first:
  assumes "\<exists>zs. found = (ns, s) # zs" "\<exists>zs. m s = (n, s') # zs"
  shows "\<exists>zs. match_then m found = (ns @ [n], s') # zs"
  using assms by (auto simp: match_then_def)

definition four_digit_year :: "time \<Rightarrow> bool" where
  "four_digit_year t = (case ymd (local_date t) of (y, m, d) \<Rightarrow> 1000 \<le> y \<and> y \<le> 9999)"

lemma month_length_31:
  assumes m: "1 \<le> m" "m \<le> 12"
  shows "month_length y m \<le> 31" and month_length_nonneg: "0 \<le> month_length y m"
proof -
  have "m \<in> set [1..12]" using m by simp
  moreover have "list_all (\<lambda>m. 0 \<le> days_in_month ! nat m \<and> days_in_month ! nat m + (if m = 2 then 1 else 0) \<le> 31) [1..12]" by code_simp
  ultimately have "0 \<le> days_in_month ! nat m" "days_in_month ! nat m + (if m = 2 then 1 else 0) \<le> 31" unfolding list_all_iff by blast+
  then show "month_length y m \<le> 31" "0 \<le> month_length y m" by (auto simp: month_length_def split: if_splits)
qed

text \<open>C40: The identifier of a slot is read back to the slot it was written for, for every hour of every day whose year has four
  digits. What is written is the day of the Gregorian calendar in Bangkok: the year, the month and the day one gets by
  counting day by day from 1 January 1970 with its month lengths and leap years, then T, the hour and two zeros.\<close>

theorem slot_id_roundtrip:
  assumes "is_hour_aligned t" "four_digit_year t" "- 719161 \<le> local_date t"
  shows "decode_slot (encode_slot t) = Inr t
    \<and> (case gregorian (local_date t) of (y, m, d) \<Rightarrow>
        encode_slot t = pad0 4 y @ pad0 2 m @ pad0 2 d @ ''T'' @ pad0 2 (local_hour t) @ ''00'')"
proof -
  obtain y m d where ymd: "ymd (local_date t) = (y, m, d)" "1 \<le> m" "m \<le> 12" "1 \<le> d" "d \<le> month_length y m"
    "day_number y m d = local_date t"
    using ymd_correct [of "local_date t"] assms(3) by auto
  have y: "1000 \<le> y" "y < 10000" using assms(2) ymd(1) by (simp_all add: four_digit_year_def)
  have d: "d \<le> 31" using ymd(5) month_length_31 [OF ymd(2,3), of y] by simp
  have minute: "local_minute t = 0" using assms(1) by (simp add: is_hour_aligned_def)
  note hour = local_hour_range [of t]
  have written: "encode_slot t = pad0 4 y @ pad0 2 m @ pad0 2 d @ CHR ''T'' # pad0 2 (local_hour t) @ pad0 2 0 @ []"
    by (simp add: encode_slot_def ymd(1) minute)
  have "\<exists>zs. match_slot (encode_slot t) = (((((([] @ [y]) @ [m]) @ [d]) @ [0]) @ [local_hour t]) @ [0], []) # zs"
  proof -
    have start: "\<exists>zs. [([], s)] = ([], s) # zs" for s :: string by simp
    have Y: "\<exists>zs. match_Y (pad0 4 y @ r) = (y, r) # zs" for r using match_Y_pad [OF y] by simp
    have T: "\<exists>zs. match_T (CHR ''T'' # r) = (0, r) # zs" for r by (simp add: match_T_def)
    have "\<exists>zs. match_m (pad0 2 m @ r) = (m, r) # zs" "\<exists>zs. match_d (pad0 2 d @ r) = (d, r) # zs"
      "\<exists>zs. match_H (pad0 2 (local_hour t) @ r) = (local_hour t, r) # zs" "\<exists>zs. match_M (pad0 2 0 @ r) = (0, r) # zs" for r
      using match_pad [of m r] match_pad [of d r] match_pad [of "local_hour t" r] match_pad [of 0 r] ymd(2,3,4) d hour by auto
    note parts = this
    show ?thesis unfolding match_slot_def written
      by (rule match_then_first [where m = match_M, OF match_then_first [where m = match_H, OF match_then_first [where m = match_T,
          OF match_then_first [where m = match_d, OF match_then_first [where m = match_m, OF match_then_first
          [where m = match_Y, OF start Y] parts(1)] parts(2)] T] parts(3)] parts(4)])
  qed
  moreover have "local_date t * us_day + local_hour t * us_hour - BANGKOK = t"
    using slot_start_of_local [OF assms(1)] by (simp add: slot_start_for_def)
  moreover have "- 719162 * us_day \<le> local_date t * us_day + local_hour t * us_hour - BANGKOK"
    using assms(3) hour by (simp add: us_defs)
  ultimately have "decode_slot (encode_slot t) = Inr t" using y ymd(5,6) by (auto simp: decode_slot_def Let_def)
  moreover have "gregorian (local_date t) = (y, m, d)" using ymd_gregorian [of "local_date t"] assms(3) ymd(1) by simp
  moreover have "pad0 2 0 = ''00''" by code_simp
  ultimately show ?thesis using written by simp
qed

section \<open>Reading a time back\<close>

text \<open>\<open>datetime.fromisoformat\<close> of a text in the form \<open>isoformat\<close> writes: a date, any separator, hours, minutes and seconds,
  microseconds if there are any, an offset.\<close>

fun read_number :: "nat \<Rightarrow> int \<Rightarrow> string \<Rightarrow> (int \<times> string) option" where
  "read_number 0 n s = Some (n, s)"
| "read_number (Suc k) n [] = None"
| "read_number (Suc k) n (c # cs) = (case digit_of c of None \<Rightarrow> None | Some d \<Rightarrow> read_number k (10 * n + d) cs)"

fun read_char :: "char \<Rightarrow> string \<Rightarrow> string option" where
  "read_char c [] = None"
| "read_char c (x # xs) = (if x = c then Some xs else None)"

text \<open>A number behind a separator.\<close>

definition read_part :: "char \<Rightarrow> string \<Rightarrow> (int \<times> string) option" where
  "read_part c s = Option.bind (read_char c s) (read_number 2 0)"

definition read_offset :: "string \<Rightarrow> time option" where
  "read_offset s = (case s of
       [] \<Rightarrow> None
     | sign # cs \<Rightarrow> if sign \<noteq> CHR ''+'' \<and> sign \<noteq> CHR ''-'' then None
         else Option.bind (read_number 2 0 cs) (\<lambda>(hour, s). Option.bind (read_part CHR '':'' s) (\<lambda>(minute, s).
           if s = [] \<and> hour < 24 \<and> minute < 60
           then Some ((if sign = CHR ''-'' then - 1 else 1) * (hour * us_hour + minute * us_minute)) else None)))"

definition read_iso :: "string \<Rightarrow> time option" where
  "read_iso s =
     Option.bind (read_number 4 0 s) (\<lambda>(y, s). Option.bind (read_part CHR ''-'' s) (\<lambda>(m, s). Option.bind (read_part CHR ''-'' s) (\<lambda>(d, s).
     Option.bind (read_number 2 0 (drop 1 s)) (\<lambda>(hour, s). Option.bind (read_part CHR '':'' s) (\<lambda>(minute, s).
     Option.bind (read_part CHR '':'' s) (\<lambda>(second, s).
     Option.bind (case read_char CHR ''.'' s of None \<Rightarrow> Some (0, s) | Some cs \<Rightarrow> read_number 6 0 cs) (\<lambda>(micro, s).
     Option.bind (read_offset s) (\<lambda>offset.
       if 1 \<le> y \<and> 1 \<le> m \<and> m \<le> 12 \<and> 1 \<le> d \<and> d \<le> month_length y m \<and> hour < 24 \<and> minute < 60 \<and> second < 60
       then Some (day_number y m d * us_day + hour * us_hour + minute * us_minute + second * us_second + micro - offset)
       else None))))))))"

lemma read_number_2: "0 \<le> i \<Longrightarrow> i < 100 \<Longrightarrow> read_number 2 0 (pad0 2 i @ s) = Some (i, s)"
proof -
  assume i: "0 \<le> i" "i < 100"
  define j k where "j = nat i div 10" and "k = nat i mod 10"
  have "nat i = 10 * j + k" by (simp add: j_def k_def)
  then have "i = 10 * int j + int k" using i by linarith
  moreover have "j < 10" "k < 10" using i by (auto simp: j_def k_def)
  ultimately show ?thesis unfolding pad0_2 [OF i] j_def [symmetric] k_def [symmetric] by (simp add: numeral_2_eq_2)
qed

lemma read_number_4: "1000 \<le> i \<Longrightarrow> i < 10000 \<Longrightarrow> read_number 4 0 (pad0 4 i @ s) = Some (i, s)"
proof -
  assume i: "1000 \<le> i" "i < 10000"
  define a b c d where "a = nat i div 1000" and "b = nat i div 100 mod 10" and "c = nat i div 10 mod 10" and "d = nat i mod 10"
  have lt: "a < 10" "b < 10" "c < 10" "d < 10" using i by (auto simp: a_def b_def c_def d_def)
  have "nat i = 10 * (nat i div 10) + d" "nat i div 10 = 10 * (nat i div 100) + c" "nat i div 100 = 10 * a + b"
    using div_mult_mod_eq [of "nat i div 10" 10] div_mult_mod_eq [of "nat i div 100" 10]
    by (simp_all add: a_def b_def c_def d_def div_mult2_eq [symmetric])
  then have "nat i = 1000 * a + 100 * b + 10 * c + d" by linarith
  then have "i = 1000 * int a + 100 * int b + 10 * int c + int d" using i by linarith
  then show ?thesis using lt unfolding pad0_4 [OF i] a_def [symmetric] b_def [symmetric] c_def [symmetric] d_def [symmetric]
    by (simp add: eval_nat_numeral)
qed

lemma read_part_2 [simp]: "0 \<le> i \<Longrightarrow> i < 100 \<Longrightarrow> read_part c (c # pad0 2 i @ s) = Some (i, s)"
  by (simp add: read_part_def read_number_2)

text \<open>A whole second of a year of four digits is read back from its text.\<close>

lemma read_isoformat:
  assumes "t mod us_second = 0" "- 719162 \<le> t div us_day" "case ymd (t div us_day) of (y, m, d) \<Rightarrow> 1000 \<le> y \<and> y \<le> 9999"
  shows "read_iso (isoformat t) = Some t"
proof -
  obtain y m d where ymd: "ymd (t div us_day) = (y, m, d)" "1 \<le> m" "m \<le> 12" "1 \<le> d" "d \<le> month_length y m"
    "day_number y m d = t div us_day"
    using ymd_correct [of "t div us_day"] assms(2) by auto
  have y: "1000 \<le> y" "y < 10000" using assms(3) ymd(1) by simp_all
  have d: "d \<le> 31" using ymd(5) month_length_31 [OF ymd(2,3), of y] by simp
  define h where "h = t mod us_day div us_hour"
  define mi where "mi = t mod us_hour div us_minute"
  define se where "se = t mod us_minute div us_second"
  have range: "0 \<le> h" "h < 24" "0 \<le> mi" "mi < 60" "0 \<le> se" "se < 60"
    by (auto simp: h_def mi_def se_def us_defs pos_imp_zdiv_nonneg_iff int_div_less)
  have "h * us_hour + t mod us_hour = t mod us_day" "mi * us_minute + t mod us_minute = t mod us_hour"
    "se * us_second + t mod us_second = t mod us_minute"
    unfolding h_def mi_def se_def by (simp_all add: div_mult_mod_dvd)
  moreover have "t div us_day * us_day + t mod us_day = t" by simp
  ultimately have sum: "t div us_day * us_day + h * us_hour + mi * us_minute + se * us_second = t" using assms(1) by linarith
  have written: "isoformat t = pad0 4 y @ CHR ''-'' # pad0 2 m @ CHR ''-'' # pad0 2 d @ CHR ''T'' # pad0 2 h @ CHR '':'' # pad0 2 mi
      @ CHR '':'' # pad0 2 se @ ''+00:00''"
    using assms(1) by (simp add: isoformat_def date_isoformat_def ymd(1) h_def mi_def se_def)
  have zero: "read_offset ''+00:00'' = Some 0" by code_simp
  show ?thesis unfolding read_iso_def written using y ymd(2-6) d range sum
    by (simp add: read_number_4 read_number_2 zero del: read_number.simps)
qed

theorem slot_id_roundtrip_witness:
  "encode_slot (slot_start_for 20458 9) = ''20260105T0900'' \<and> decode_slot ''20260105T0900'' = Inr (slot_start_for 20458 9)"
proof -
  have h: "is_hour_aligned (slot_start_for 20458 9)" "four_digit_year (slot_start_for 20458 9)" "- 719161 \<le> local_date (slot_start_for 20458 9)"
    by code_simp+
  have "encode_slot (slot_start_for 20458 9) = ''20260105T0900''" by code_simp
  with slot_id_roundtrip [OF h] show ?thesis by simp
qed

section \<open>The published calendar\<close>

definition calendar_last_date :: "date \<Rightarrow> date option \<Rightarrow> date" where
  "calendar_last_date last_setting today = (case today of None \<Rightarrow> last_setting | Some t \<Rightarrow> if t > last_setting then t else last_setting)"

definition clamp_view_date :: "date \<Rightarrow> date \<Rightarrow> date \<Rightarrow> date option" where
  "clamp_view_date last_setting raw today =
     (if raw < today \<or> raw > calendar_last_date last_setting (Some today) then None else Some raw)"

definition add_months :: "date \<Rightarrow> int \<Rightarrow> date" where
  "add_months day count = (case ymd day of (y, m, d) \<Rightarrow>
     let month_index = m - 1 + count in day_number (y + month_index div 12) (month_index mod 12 + 1) 1)"

record day_cell =
  dc_date :: date
  dc_in_month :: bool
  dc_is_selected :: bool
  dc_is_today :: bool
  dc_selectable :: bool

record page =
  pg_month_start :: date
  pg_weeks :: "day_cell list list"
  pg_headers :: "date list"
  pg_prev_month :: "date option"
  pg_next_month :: "date option"
  pg_today :: date
  pg_last :: date

text \<open>\<open>calendar.Calendar(firstweekday).monthdatescalendar\<close>: the whole weeks that touch the month.\<close>

definition month_dates :: "int \<Rightarrow> int \<Rightarrow> int \<Rightarrow> date list" where
  "month_dates firstweekday y m =
    (let first = day_number y m 1; n = month_length y m;
         before = (weekday first - firstweekday) mod 7; behind = (firstweekday - weekday first - n) mod 7
     in [first - before .. first + n - 1 + behind])"

fun weeks_of :: "'a list \<Rightarrow> 'a list list" where
  "weeks_of [] = []"
| "weeks_of (x # xs) = take 7 (x # xs) # weeks_of (drop 7 (x # xs))"

text \<open>\<open>first_day\<close> is the first day of the week as the locale counts it, Sunday being 0; 7 January 2024 was a Sunday.\<close>

definition month_page :: "int \<Rightarrow> date \<Rightarrow> date \<Rightarrow> date \<Rightarrow> page" where
  "month_page first_day last_setting selected today =
    (let last = calendar_last_date last_setting (Some today); firstweekday = (first_day + 6) mod 7;
         (y, m, d) = ymd selected;
         cell = (\<lambda>day. \<lparr>dc_date = day, dc_in_month = (case ymd day of (y', m', d') \<Rightarrow> m' = m \<and> y' = y), dc_is_selected = (day = selected),
            dc_is_today = (day = today), dc_selectable = (today \<le> day \<and> day \<le> last)\<rparr>);
         anchor = day_number 2024 1 7;
         header_start = anchor + (firstweekday - weekday anchor) mod 7;
         first = day_number y m 1;
         prev_first = add_months first (- 1);
         prev_last = (case ymd prev_first of (y', m', d') \<Rightarrow> day_number y' m' (month_length y' m'));
         next_first = add_months first 1
     in \<lparr>pg_month_start = first, pg_weeks = map (map cell) (weeks_of (month_dates firstweekday y m)),
         pg_headers = map (\<lambda>k. header_start + k) [0..6],
         pg_prev_month = (if prev_last < today then None else if prev_first < today then Some today else Some prev_first),
         pg_next_month = (if next_first \<le> last then Some next_first else None),
         pg_today = today, pg_last = last\<rparr>)"

lemma clamp_view_date_Some: "clamp_view_date last_setting raw today = Some d \<longleftrightarrow>
    d = raw \<and> today \<le> raw \<and> raw \<le> max today last_setting"
  by (auto simp: clamp_view_date_def calendar_last_date_def)

lemma concat_weeks_of: "concat (weeks_of xs) = xs"
  by (induction xs rule: weeks_of.induct) (simp_all only: weeks_of.simps concat.simps append_take_drop_id)

lemma weeks_of_7: "length xs mod 7 = 0 \<Longrightarrow> w \<in> set (weeks_of xs) \<Longrightarrow> length w = 7"
proof (induction xs rule: weeks_of.induct)
  case (2 x xs)
  then have "7 \<le> length (x # xs)" by (metis length_0_conv list.distinct(1) mod_less not_le_imp_less)
  with 2 show ?case by (auto simp: le_mod_geq)
qed simp

lemma length_month_dates:
  assumes "1 \<le> m" "m \<le> 12"
  shows "length (month_dates f y m) mod 7 = 0"
proof -
  define w where "w = weekday (day_number y m 1)"
  define n where "n = month_length y m"
  define b where "b = (w - f) mod 7"
  define e where "e = (f - w - n) mod 7"
  have "0 \<le> n" unfolding n_def using month_length_nonneg [OF assms] .
  moreover have "0 \<le> b" "0 \<le> e" by (simp_all add: b_def e_def)
  moreover have "length (month_dates f y m) = nat (b + n + e)"
    by (simp add: month_dates_def Let_def b_def e_def n_def w_def)
  ultimately have len: "int (length (month_dates f y m)) = b + n + e" by simp
  have "(b + n + e) mod 7 = ((w - f) + n + (f - w - n)) mod 7"
    unfolding b_def e_def by (simp only: mod_add_left_eq mod_add_right_eq) (metis mod_add_left_eq)
  then have "int (length (month_dates f y m)) mod 7 = 0" unfolding len by simp
  then show ?thesis by (metis int_eq_iff_numeral of_nat_0_eq_iff of_nat_numeral zmod_int)
qed

text \<open>
  A page shows whole weeks of consecutive days, and a day can be opened from it exactly when the view of that day would take it.
\<close>

lemma month_page_weeks:
  assumes "p = month_page first_day last_setting selected today" "- 719162 \<le> selected"
  shows "\<forall>w \<in> set (pg_weeks p). length w = 7"
    and "\<exists>y m. map dc_date (concat (pg_weeks p)) = month_dates ((first_day + 6) mod 7) y m"
    and "\<forall>w \<in> set (pg_weeks p). \<forall>c \<in> set w. dc_selectable c \<longleftrightarrow> clamp_view_date last_setting (dc_date c) today = Some (dc_date c)"
proof -
  obtain y m d where ymd: "ymd selected = (y, m, d)" and m: "1 \<le> m" "m \<le> 12" using ymd_correct [OF assms(2)] by auto
  define cell where "cell = (\<lambda>day. \<lparr>dc_date = day, dc_in_month = (case ymd day of (y', m', d') \<Rightarrow> m' = m \<and> y' = y), dc_is_selected = (day = selected),
            dc_is_today = (day = today), dc_selectable = (today \<le> day \<and> day \<le> calendar_last_date last_setting (Some today))\<rparr>)"
  have weeks: "pg_weeks p = map (map cell) (weeks_of (month_dates ((first_day + 6) mod 7) y m))"
    unfolding assms(1) month_page_def Let_def ymd cell_def by simp
  have cell: "\<And>day. dc_date (cell day) = day" "\<And>day. dc_selectable (cell day) = (today \<le> day \<and> day \<le> calendar_last_date last_setting (Some today))"
    by (simp_all add: cell_def)
  show "\<forall>w \<in> set (pg_weeks p). length w = 7"
    unfolding weeks using weeks_of_7 [OF length_month_dates [OF m]] by auto
  show "\<exists>y m. map dc_date (concat (pg_weeks p)) = month_dates ((first_day + 6) mod 7) y m"
    unfolding weeks map_concat [symmetric] by (intro exI [of _ y] exI [of _ m]) (simp add: concat_weeks_of cell comp_def)
  show "\<forall>w \<in> set (pg_weeks p). \<forall>c \<in> set w. dc_selectable c \<longleftrightarrow> clamp_view_date last_setting (dc_date c) today = Some (dc_date c)"
    unfolding weeks by (auto simp: cell clamp_view_date_def)
qed

end
