(* ===== verification/Delivery.thy ===== *)
theory Delivery
  imports Reconciled Dates
begin

text \<open>
  Delivery of queued messages (\<open>services/notifications.py\<close>) and the scheduled tick (\<open>services/scheduler.py\<close>): whether a
  message still applies, the mail made of it, one batch of the outbox, the tick with its heartbeat. The template
  engine, the message catalogue and the mail provider are not code of the repository: they are the fields of a
  \<open>mailer\<close>, which is an argument of every operation. So are the lease tokens, the rows another worker has locked, and
  whether the advisory lock of the tick is free. An operation on the tables runs to its end before the next.
\<close>

section \<open>Kinds and subjects\<close>

definition BOOKING_KINDS :: "string list" where
  "BOOKING_KINDS = [''booking_confirmation'', ''booking_pending'', ''booking_rejected'', ''booking_changed'',
     ''booking_reminder'', ''booking_cancelled'', ''no_show'']"

definition LINK_KINDS :: "string list" where
  "LINK_KINDS = [''email_verification'', ''invitation'', ''password_reset'']"

text \<open>The message identifiers; that of a complaint, half of it Thai, is a field of the \<open>mailer\<close>.\<close>

definition SUBJECTS :: "(string \<times> string) list" where
  "SUBJECTS =
    [(''email_verification'', ''Confirm your Room Reserve email address''),
     (''invitation'', ''Your Room Reserve invitation''),
     (''password_reset'', ''Reset your Room Reserve password''),
     (''booking_confirmation'', ''Practice room booked''),
     (''booking_pending'', ''Practice room request received''),
     (''booking_rejected'', ''Practice room request not approved''),
     (''booking_changed'', ''Your practice room booking changed''),
     (''booking_reminder'', ''Reminder: your practice room booking''),
     (''booking_cancelled'', ''Practice room booking cancelled''),
     (''no_show'', ''Missed practice room booking''),
     (''sanction_applied'', ''Booking suspension applied''),
     (''sanction_lifted'', ''Booking suspension lifted''),
     (''eligibility_decision'', ''Your Room Reserve account decision'')]"

section \<open>Revalidation\<close>

text \<open>The row a template gets beside the fields of the payload.\<close>

datatype related = ABooking booking room | AnInvitation invitation | ASuspension suspension | NoRow

type_synonym context_dict = "dict \<times> related"

text \<open>\<open>filter(pk=payload.get(key)).first()\<close>. The services store the number of the row.\<close>

definition payload_pk :: "dict \<Rightarrow> string \<Rightarrow> nat option" where
  "payload_pk payload key = (case map_of payload key of Some (PInt i) \<Rightarrow> if 0 \<le> i then Some (nat i) else None | _ \<Rightarrow> None)"

definition row_of_payload :: "('a \<Rightarrow> nat) \<Rightarrow> dict \<Rightarrow> string \<Rightarrow> 'a list \<Rightarrow> 'a option" where
  "row_of_payload pk payload key rows = (case payload_pk payload key of None \<Rightarrow> None | Some k \<Rightarrow> get_row pk k rows)"

text \<open>Why a message about a booking is void.\<close>

definition booking_stale :: "string \<Rightarrow> booking \<Rightarrow> time \<Rightarrow> string option" where
  "booking_stale kind b now =
    (if kind = ''booking_confirmation'' \<and> b_status b \<notin> {SCHEDULED, IN_USE, COMPLETED}
       then Some (''Booking is '' @ status_value (b_status b) @ ''.'')
     else if kind = ''booking_pending'' \<and> b_status b \<noteq> PENDING_APPROVAL then Some ''Booking is no longer awaiting approval.''
     else if kind = ''booking_rejected'' \<and> b_status b \<noteq> REJECTED then Some ''Booking is no longer rejected.''
     else if kind = ''booking_changed'' \<and> (b_status b \<notin> {SCHEDULED, PENDING_APPROVAL} \<or> now \<ge> b_slot_start b)
       then Some ''Booking change no longer applies.''
     else if kind = ''booking_reminder'' \<and> (b_status b \<noteq> SCHEDULED \<or> now \<ge> b_slot_start b) then Some ''Reminder no longer applies.''
     else if kind = ''booking_cancelled'' \<and> b_status b \<noteq> CANCELLED then Some ''Booking is not cancelled.''
     else if kind = ''no_show'' \<and> b_status b \<noteq> NO_SHOW then Some ''Booking is not a no-show.''
     else None)"

definition invitation_stale :: "invitation \<Rightarrow> time \<Rightarrow> string option" where
  "invitation_stale i now =
    (if iv_revoked_at i \<noteq> None then Some ''Invitation was superseded.''
     else if iv_used_at i \<noteq> None then Some ''Invitation was already used.''
     else if iv_expires_at i \<le> now then Some ''Invitation expired.''
     else None)"

text \<open>
  \<open>_booking_context\<close>. The display texts of the slot are read back from its \<open>isoformat\<close> in the payload; a text of another
  form, or a value that is no text, raises. Blank and absent values are skipped.
\<close>

definition quoted :: "string \<Rightarrow> string" where
  "quoted word = [CHR 0x27] @ word @ [CHR 0x27]"

definition shown_slot :: "dict \<Rightarrow> string \<Rightarrow> (time \<Rightarrow> string) \<Rightarrow> string + dict" where
  "shown_slot payload key display = (case map_of payload key of
       None \<Rightarrow> Inr []
     | Some v \<Rightarrow>
       if v \<in> {PNone, PBool False, PInt 0, PStr '''', PList [], PDict []} then Inr []
       else (case v of
           PStr written \<Rightarrow> (case read_iso written of
               None \<Rightarrow> Inl (''Invalid isoformat string: '' @ quoted written)
             | Some t \<Rightarrow> Inr [(key @ ''_display'', PStr (display t))])
         | _ \<Rightarrow> Inl ''fromisoformat: argument must be str''))"

definition format_hour :: "time \<Rightarrow> string" where
  "format_hour moment = pad0 2 (local_hour moment) @ '':'' @ pad0 2 (local_minute moment)"

definition booking_context :: "dict \<Rightarrow> booking \<Rightarrow> room \<Rightarrow> string + context_dict" where
  "booking_context payload b room =
    bindE (shown_slot payload ''slot_start'' format_local) (\<lambda>start.
    bindE (shown_slot payload ''slot_end'' format_hour) (\<lambda>finish.
    Inr (dict_merge payload (start @ finish @ [(''title'', PStr (b_title b)), (''purpose'', PStr (b_purpose b)),
      (''participant_names'', PStr (b_participant_names b))]), ABooking b room)))"

datatype delivery_failure =
    MessageStale string
  | DeliveryError string \<comment> \<open>any other exception, by its text\<close>

definition revalidate :: "notification \<Rightarrow> time \<Rightarrow> st \<Rightarrow> delivery_failure + context_dict" where
  "revalidate n now s =
    (let payload = n_payload n; kind = n_kind n in
     if kind \<in> set BOOKING_KINDS then
       (case row_of_payload b_pk payload ''booking_id'' (bookings s) of
          None \<Rightarrow> Inl (MessageStale ''Booking no longer exists.'')
        | Some b \<Rightarrow> (case booking_stale kind b now of
            Some why \<Rightarrow> Inl (MessageStale why)
          | None \<Rightarrow> (case booking_context payload b (room_of s (b_room b)) of
              Inl e \<Rightarrow> Inl (DeliveryError e) | Inr c \<Rightarrow> Inr c)))
     else if kind \<in> set LINK_KINDS then
       (case row_of_payload iv_pk payload ''invitation_id'' (invitations s) of
          None \<Rightarrow> Inl (MessageStale ''Invitation no longer exists.'')
        | Some i \<Rightarrow> (case invitation_stale i now of
            Some why \<Rightarrow> Inl (MessageStale why)
          | None \<Rightarrow> Inr (payload, AnInvitation i)))
     else if kind = ''sanction_applied'' then
       (case row_of_payload sp_pk payload ''suspension_id'' (suspensions s) of
          None \<Rightarrow> Inl (MessageStale ''Sanction no longer active.'')
        | Some sp \<Rightarrow> if sp_lifted_at sp \<noteq> None then Inl (MessageStale ''Sanction no longer active.'')
            else Inr (payload, ASuspension sp))
     else if kind = ''sanction_lifted'' then
       (case row_of_payload sp_pk payload ''suspension_id'' (suspensions s) of
          None \<Rightarrow> Inl (MessageStale ''Suspension no longer exists.'')
        | Some sp \<Rightarrow> Inr (payload, ASuspension sp))
     else Inr (payload, NoRow))"

section \<open>The mail\<close>

text \<open>What a template is rendered with. A field of the payload hides a shared one of the same name.\<close>

record rendered_context =
  rc_fields :: dict
  rc_row :: related
  rc_recipient :: "user option"

record mail =
  ml_subject :: string
  ml_body :: string
  ml_to :: string
  ml_reply_to :: "pyval option"
  ml_event :: string

record mailer =
  mr_translate :: "string \<Rightarrow> string \<Rightarrow> string" \<comment> \<open>language, message\<close>
  mr_template :: "string \<Rightarrow> string \<Rightarrow> rendered_context \<Rightarrow> string + string" \<comment> \<open>language, template, context\<close>
  mr_send :: "mail \<Rightarrow> string option" \<comment> \<open>the text of the exception, if it raises\<close>
  mr_complaint_subject :: string
  mr_site_base_url :: string
  mr_support_contact :: dict

definition set_default :: "string \<Rightarrow> pyval \<Rightarrow> dict \<Rightarrow> dict" where
  "set_default k v d = (if map_of d k = None then d @ [(k, v)] else d)"

definition render_context :: "mailer \<Rightarrow> notification \<Rightarrow> context_dict \<Rightarrow> st \<Rightarrow> rendered_context" where
  "render_context w n context s =
    (let site = rev (dropWhile (\<lambda>c. c = CHR ''/'') (rev (mr_site_base_url w)))
     in \<lparr>rc_fields = set_default ''support_contact'' (PDict (mr_support_contact w))
           (set_default ''site_base_url'' (PStr site) (fst context)),
         rc_row = snd context,
         rc_recipient = (if map_of (fst context) ''recipient'' = None then map_option (user_of s) (n_recipient n) else None)\<rparr>)"

definition render :: "mailer \<Rightarrow> notification \<Rightarrow> context_dict \<Rightarrow> st \<Rightarrow> string + (string \<times> string)" where
  "render w n context s =
    (let language = or_text (n_language n) ''th'';
         subject = (if n_kind n = ''complaint'' then mr_complaint_subject w
           else mr_translate w language (case map_of SUBJECTS (n_kind n) of
             None \<Rightarrow> ''Room Reserve notification'' | Some subject \<Rightarrow> subject))
     in bindE (mr_template w language (''core/email/'' @ n_kind n @ ''.txt'') (render_context w n context s)) (\<lambda>body.
        Inr (subject, body)))"

text \<open>The message \<open>deliver\<close> builds; an absent recipient or reply address raises.\<close>

definition message_of :: "notification \<Rightarrow> dict \<Rightarrow> string \<times> string \<Rightarrow> st \<Rightarrow> string + mail" where
  "message_of n payload rendered s =
    (let address = (if n_recipient_email n \<noteq> '''' then Some (n_recipient_email n)
           else map_option (\<lambda>u. u_email (user_of s u)) (n_recipient n));
         reply = map_of payload ''reply_email''
     in case address of
          None \<Rightarrow> Inl (quoted ''NoneType'' @ '' object has no attribute '' @ quoted ''email'')
        | Some to \<Rightarrow>
          if n_kind n = ''complaint'' \<and> reply = None then Inl (quoted ''reply_email'')
          else Inr \<lparr>ml_subject = fst rendered, ml_body = snd rendered, ml_to = to,
            ml_reply_to = (if n_kind n = ''complaint'' then reply else None), ml_event = n_dedupe_key n\<rparr>)"

text \<open>\<open>deliver\<close> up to the call of \<open>send\<close>, and the whole: the mail given to the provider, if any, and the exception.\<close>

definition as_error :: "string + 'a \<Rightarrow> delivery_failure + 'a" where
  "as_error r = (case r of Inl e \<Rightarrow> Inl (DeliveryError e) | Inr x \<Rightarrow> Inr x)"

definition prepare_mail :: "mailer \<Rightarrow> notification \<Rightarrow> time \<Rightarrow> st \<Rightarrow> delivery_failure + mail" where
  "prepare_mail w n now s =
    (if \<not> OUTBOX_ENABLED (conf s) then Inl (DeliveryError ''Outbox delivery is disabled by configuration.'')
     else bindE (revalidate n now s) (\<lambda>context.
       bindE (as_error (render w n context s)) (\<lambda>rendered.
       as_error (message_of n (fst context) rendered s))))"

definition deliver :: "mailer \<Rightarrow> notification \<Rightarrow> time \<Rightarrow> st \<Rightarrow> mail option \<times> delivery_failure option" where
  "deliver w n now s = (case prepare_mail w n now s of
       Inl e \<Rightarrow> (None, Some e)
     | Inr m \<Rightarrow> (Some m, map_option DeliveryError (mr_send w m)))"

section \<open>A batch\<close>

record drained =
  dr_sent :: nat
  dr_failed :: nat
  dr_stale :: nat
  dr_mails :: "mail list" \<comment> \<open>what the provider was given, in order\<close>
  dr_st :: st

definition drain_one :: "mailer \<Rightarrow> time \<Rightarrow> notification \<Rightarrow> drained \<Rightarrow> drained" where
  "drain_one w now n acc =
    (let (given, failure) = deliver w n now (dr_st acc);
         acc = acc\<lparr>dr_mails := dr_mails acc @ (case given of None \<Rightarrow> [] | Some m \<Rightarrow> [m])\<rparr>
     in case failure of
          Some (MessageStale why) \<Rightarrow> acc\<lparr>dr_st := cancel_notification n why (dr_st acc), dr_stale := dr_stale acc + 1\<rparr>
        | Some (DeliveryError e) \<Rightarrow> acc\<lparr>dr_st := mark_failed n e now (dr_st acc), dr_failed := dr_failed acc + 1\<rparr>
        | None \<Rightarrow> acc\<lparr>dr_st := mark_sent n now (dr_st acc), dr_sent := dr_sent acc + 1\<rparr>)"

definition drain :: "mailer \<Rightarrow> (nat \<Rightarrow> nat) \<Rightarrow> nat list \<Rightarrow> time \<Rightarrow> nat option \<Rightarrow> st \<Rightarrow> dict \<times> mail list \<times> st" where
  "drain w token locked now limit s =
    (if \<not> OUTBOX_ENABLED (conf s) then
       ([(''claimed'', PInt 0), (''sent'', PInt 0), (''failed'', PInt 0), (''stale'', PInt 0), (''disabled'', PBool True)], [], s)
     else
       let (claimed, s1) = claim_due token locked now limit s;
           d = fold (drain_one w now) claimed \<lparr>dr_sent = 0, dr_failed = 0, dr_stale = 0, dr_mails = [], dr_st = s1\<rparr>
       in ([(''claimed'', PNat (length claimed)), (''sent'', PNat (dr_sent d)), (''failed'', PNat (dr_failed d)),
            (''stale'', PNat (dr_stale d))], dr_mails d, dr_st d))"

section \<open>The tick\<close>

definition HEARTBEAT_NAME :: string where "HEARTBEAT_NAME = ''tick''"

text \<open>\<open>(summary.get(part, {}) or {}).get(key, 0)\<close>.\<close>

definition figure_of :: "dict \<Rightarrow> string \<Rightarrow> string \<Rightarrow> pyval" where
  "figure_of summary part key = (case map_of summary part of
     Some (PDict d) \<Rightarrow> (case map_of d key of Some v \<Rightarrow> v | None \<Rightarrow> PInt 0) | _ \<Rightarrow> PInt 0)"

definition summarise :: "settings \<Rightarrow> dict \<Rightarrow> dict" where
  "summarise cf summary =
    [(''no_shows'', figure_of summary ''reconciled'' ''no_shows''), (''completions'', figure_of summary ''reconciled'' ''completions''),
     (''suspensions'', figure_of summary ''reconciled'' ''suspensions''), (''lifts'', figure_of summary ''reconciled'' ''lifts''),
     (''reminders'', case map_of summary ''reminders'' of Some v \<Rightarrow> v | None \<Rightarrow> PInt 0),
     (''mail_claimed'', figure_of summary ''mail'' ''claimed''), (''mail_sent'', figure_of summary ''mail'' ''sent''),
     (''mail_failed'', figure_of summary ''mail'' ''failed''), (''outbox_enabled'', PBool (OUTBOX_ENABLED cf))]"

definition beat :: "time \<Rightarrow> dict \<Rightarrow> st \<Rightarrow> st" where
  "beat moment detail s =
    (if \<exists>h \<in> set (heartbeats s). jh_name h = HEARTBEAT_NAME
     then s\<lparr>heartbeats := map (\<lambda>h. if jh_name h = HEARTBEAT_NAME then h\<lparr>jh_last_run_at := moment, jh_detail := detail\<rparr> else h)
            (heartbeats s)\<rparr>
     else s\<lparr>heartbeats := heartbeats s @ [\<lparr>jh_name = HEARTBEAT_NAME, jh_last_run_at = moment, jh_detail = detail\<rparr>]\<rparr>)"

text \<open>
  \<open>run_tick\<close>: the answer, the mails given to the provider, the database. Reconciliation and reminders are one
  transaction, rolled back when it raises; the mail and the heartbeat come after it.
\<close>

definition run_tick :: "mailer \<Rightarrow> (nat \<Rightarrow> nat) \<Rightarrow> nat list \<Rightarrow> bool \<Rightarrow> time option \<Rightarrow> st \<Rightarrow> (exn + dict) \<times> mail list \<times> st" where
  "run_tick w token locked lock_free now s =
    (if \<not> lock_free then (Inr [(''skipped'', PBool True), (''reason'', PStr ''lock_held'')], [], s)
     else
       let captured = (case now of None \<Rightarrow> clock_now s | Some t \<Rightarrow> t) in
       case reconcile captured None None s of
         Inl e \<Rightarrow> (Inl e, [], s)
       | Inr (figures, s1) \<Rightarrow>
         let (reminders, s2) = enqueue_due_reminders captured s1;
             (mail, mails, s3) = drain w token locked (case now of None \<Rightarrow> wall_now s2 | Some t \<Rightarrow> t) None s2;
             summary = [(''skipped'', PBool False), (''reconciled'', PDict figures), (''reminders'', PNat reminders), (''mail'', PDict mail)]
         in (Inr summary, mails, beat captured (summarise (conf s3) summary) s3))"

text \<open>\<open>heartbeat_status\<close>; ages are microseconds here, and the bounds of the settings seconds.\<close>

record tick_status =
  ts_heartbeat :: "job_heartbeat option"
  ts_age :: "time option"
  ts_stale :: bool
  ts_oldest :: "notification option"
  ts_outbox_age :: "time option"
  ts_outbox_stale :: bool

definition heartbeat_status :: "time \<Rightarrow> st \<Rightarrow> tick_status" where
  "heartbeat_status now s =
    (let heartbeat = List.find (\<lambda>h. jh_name h = HEARTBEAT_NAME) (heartbeats s);
         age = map_option (\<lambda>h. now - jh_last_run_at h) heartbeat;
         oldest = oldest_actionable s;
         outbox_age = map_option (\<lambda>n. now - n_next_attempt_at n) oldest
     in \<lparr>ts_heartbeat = heartbeat, ts_age = age,
         ts_stale = (case age of None \<Rightarrow> True | Some a \<Rightarrow> a > SCHEDULER_HEARTBEAT_STALE_SECONDS (conf s) * us_second),
         ts_oldest = oldest, ts_outbox_age = outbox_age,
         ts_outbox_stale = (case outbox_age of None \<Rightarrow> False | Some a \<Rightarrow> a > OUTBOX_AGE_WARN_SECONDS (conf s) * us_second)\<rparr>)"

section \<open>A batch, row by row\<close>

text \<open>Writing to different rows, to each what it needs.\<close>

lemma fold_update_each:
  assumes "distinct (map key rows)" "\<And>n x. key (f n x) = key x"
  shows "fold (\<lambda>n. update_row key (key n) (f n)) rows xs
    = map (\<lambda>x. case get_row key (key x) rows of None \<Rightarrow> x | Some n \<Rightarrow> f n x) xs"
  using assms(1)
proof (induction rows arbitrary: xs)
  case Nil
  then show ?case by (simp add: get_row_def)
next
  case (Cons n rows)
  then have "get_row key (key n) rows = None" by (auto simp: get_row_def find_None_iff) (metis image_eqI)
  with Cons show ?case by (auto simp: update_row_def assms(2) get_row_def)
qed

text \<open>What becomes of one claimed row: the specification of the write-backs, the lease given back in every case.\<close>

definition unleased :: "notification \<Rightarrow> notification" where
  "unleased r = r\<lparr>n_attempts := n_attempts r + 1, n_lease_until := None, n_lease_token := None\<rparr>"

definition settle_message :: "mailer \<Rightarrow> time \<Rightarrow> st \<Rightarrow> notification \<Rightarrow> notification" where
  "settle_message w now s r = (case snd (deliver w r now s) of
       None \<Rightarrow> (unleased r)\<lparr>n_status := N_SENT, n_sent_at := Some now, n_last_error := ''''\<rparr>
     | Some (MessageStale why) \<Rightarrow> (unleased r)\<lparr>n_status := N_CANCELLED, n_last_error := sanitize_error why\<rparr>
     | Some (DeliveryError e) \<Rightarrow>
         if OUTBOX_MAX_ATTEMPTS (conf s) \<le> n_attempts r + 1
         then (unleased r)\<lparr>n_status := N_EXHAUSTED, n_last_error := sanitize_error e\<rparr>
         else (unleased r)\<lparr>n_next_attempt_at := now + backoff_delay (conf s) (n_attempts r + 1) * us_minute,
           n_last_error := sanitize_error e\<rparr>)"

definition given_mail :: "mailer \<Rightarrow> time \<Rightarrow> st \<Rightarrow> notification \<Rightarrow> mail list" where
  "given_mail w now s r = (case fst (deliver w r now s) of None \<Rightarrow> [] | Some m \<Rightarrow> [m])"

definition accepted :: "mailer \<Rightarrow> time \<Rightarrow> st \<Rightarrow> notification \<Rightarrow> bool" where
  "accepted w now s r \<longleftrightarrow> snd (deliver w r now s) = None"

definition outdated :: "mailer \<Rightarrow> time \<Rightarrow> st \<Rightarrow> notification \<Rightarrow> bool" where
  "outdated w now s r \<longleftrightarrow> (\<exists>why. snd (deliver w r now s) = Some (MessageStale why))"

definition refused :: "mailer \<Rightarrow> time \<Rightarrow> st \<Rightarrow> notification \<Rightarrow> bool" where
  "refused w now s r \<longleftrightarrow> (\<exists>e. snd (deliver w r now s) = Some (DeliveryError e))"

text \<open>The write of one round, as the code makes it.\<close>

definition outcome :: "mailer \<Rightarrow> time \<Rightarrow> st \<Rightarrow> notification \<Rightarrow> notification \<Rightarrow> notification" where
  "outcome w now s n r = (case snd (deliver w n now s) of
       None \<Rightarrow> r\<lparr>n_status := N_SENT, n_sent_at := Some now, n_lease_until := None, n_lease_token := None, n_last_error := ''''\<rparr>
     | Some (MessageStale why) \<Rightarrow> r\<lparr>n_status := N_CANCELLED, n_last_error := sanitize_error why, n_lease_until := None, n_lease_token := None\<rparr>
     | Some (DeliveryError e) \<Rightarrow>
         if n_attempts n \<ge> OUTBOX_MAX_ATTEMPTS (conf s)
         then r\<lparr>n_status := N_EXHAUSTED, n_last_error := sanitize_error e, n_lease_until := None, n_lease_token := None\<rparr>
         else r\<lparr>n_next_attempt_at := now + backoff_delay (conf s) (n_attempts n) * us_minute,
           n_last_error := sanitize_error e, n_lease_until := None, n_lease_token := None\<rparr>)"

lemma outcome_pk [simp]: "n_pk (outcome w now s n r) = n_pk r"
  by (simp add: outcome_def split: option.split delivery_failure.split)

lemma rows_other:
  "user_of (s\<lparr>notifications := x\<rparr>) = user_of s" "room_of (s\<lparr>notifications := x\<rparr>) = room_of s"
  "bookings (s\<lparr>notifications := x\<rparr>) = bookings s" "invitations (s\<lparr>notifications := x\<rparr>) = invitations s"
  "suspensions (s\<lparr>notifications := x\<rparr>) = suspensions s" "conf (s\<lparr>notifications := x\<rparr>) = conf s"
  by (simp_all add: user_of_def room_of_def fun_eq_iff)

lemmas delivery_defs = deliver_def prepare_mail_def revalidate_def render_def render_context_def message_of_def

lemma deliver_other_rows [simp]: "deliver w n now (s\<lparr>notifications := x\<rparr>) = deliver w n now s"
  unfolding delivery_defs rows_other ..

text \<open>Nor does it read the columns a claim writes.\<close>

lemma deliver_leased [simp]: "deliver w (lease_row token until n) now s = deliver w n now s"
proof -
  have read: "n_kind (lease_row token until n) = n_kind n" "n_payload (lease_row token until n) = n_payload n"
    "n_language (lease_row token until n) = n_language n" "n_recipient (lease_row token until n) = n_recipient n"
    "n_recipient_email (lease_row token until n) = n_recipient_email n" "n_dedupe_key (lease_row token until n) = n_dedupe_key n"
    by (simp_all add: lease_row_def)
  show ?thesis unfolding delivery_defs read ..
qed

lemma outcome_other_rows [simp]: "outcome w now (s\<lparr>notifications := x\<rparr>) = outcome w now s"
  by (simp add: outcome_def fun_eq_iff split: option.split delivery_failure.split)

lemma drain_one_fields:
  "dr_st (drain_one w now n acc) = update_notification (n_pk n) (outcome w now (dr_st acc) n) (dr_st acc)"
  "dr_mails (drain_one w now n acc) = dr_mails acc @ given_mail w now (dr_st acc) n"
  "dr_sent (drain_one w now n acc) = dr_sent acc + (if accepted w now (dr_st acc) n then 1 else 0)"
  "dr_failed (drain_one w now n acc) = dr_failed acc + (if refused w now (dr_st acc) n then 1 else 0)"
  "dr_stale (drain_one w now n acc) = dr_stale acc + (if outdated w now (dr_st acc) n then 1 else 0)"
  by (auto simp: drain_one_def outcome_def [abs_def] given_mail_def accepted_def refused_def outdated_def cancel_notification_def mark_failed_def
      mark_sent_def Let_def split_beta split: option.split delivery_failure.split)

lemma others_unread [simp]:
  "given_mail w now (s\<lparr>notifications := x\<rparr>) = given_mail w now s"
  "accepted w now (s\<lparr>notifications := x\<rparr>) = accepted w now s"
  "refused w now (s\<lparr>notifications := x\<rparr>) = refused w now s"
  "outdated w now (s\<lparr>notifications := x\<rparr>) = outdated w now s"
  by (simp_all add: given_mail_def accepted_def refused_def outdated_def fun_eq_iff)

lemma drain_fold:
  assumes "dr_st acc = s\<lparr>notifications := xs\<rparr>" "d = fold (drain_one w now) rows acc"
  shows "dr_st d = s\<lparr>notifications := fold (\<lambda>n. update_row n_pk (n_pk n) (outcome w now s n)) rows xs\<rparr>
    \<and> dr_mails d = dr_mails acc @ concat (map (given_mail w now s) rows)
    \<and> dr_sent d = dr_sent acc + length (filter (accepted w now s) rows)
    \<and> dr_failed d = dr_failed acc + length (filter (refused w now s) rows)
    \<and> dr_stale d = dr_stale acc + length (filter (outdated w now s) rows)"
  using assms
proof (induction rows arbitrary: acc xs)
  case (Cons n rows)
  have st: "dr_st (drain_one w now n acc) = s\<lparr>notifications := update_row n_pk (n_pk n) (outcome w now s n) xs\<rparr>"
    unfolding drain_one_fields Cons.prems(1) by (simp add: update_notification_def)
  have d: "d = fold (drain_one w now) rows (drain_one w now n acc)" using Cons.prems(2) by simp
  show ?case using Cons.IH [OF st d] by (simp add: drain_one_fields Cons.prems(1))
qed simp

lemma outcome_leased:
  "outcome w now s (lease_row token until r) (lease_row token until r) = settle_message w now s r"
  unfolding outcome_def deliver_leased by (simp add: settle_message_def unleased_def lease_row_def split: option.split delivery_failure.split)

lemma leased_view [simp]:
  "given_mail w now s (lease_row token until n) = given_mail w now s n"
  "accepted w now s (lease_row token until n) = accepted w now s n"
  "refused w now s (lease_row token until n) = refused w now s n"
  "outdated w now s (lease_row token until n) = outdated w now s n"
  by (simp_all add: given_mail_def accepted_def refused_def outdated_def)

definition drain_figures :: "mailer \<Rightarrow> time \<Rightarrow> st \<Rightarrow> notification list \<Rightarrow> dict" where
  "drain_figures w now s rows =
    [(''claimed'', PNat (length rows)), (''sent'', PNat (length (filter (accepted w now s) rows))),
     (''failed'', PNat (length (filter (refused w now s) rows))), (''stale'', PNat (length (filter (outdated w now s) rows)))]"

lemma get_row_leased:
  assumes "distinct (map n_pk rows)" "r \<in> set rows"
  shows "get_row n_pk (n_pk r) (map (lease_row token until) rows) = Some (lease_row token until r)"
  using assms by (induction rows) (auto simp: get_row_def lease_row_def)

lemma get_row_unleased: "k \<notin> n_pk ` set rows \<Longrightarrow> get_row n_pk k (map (lease_row token until) rows) = None"
  by (auto simp: get_row_def find_None_iff lease_row_def)

lemma drain_rows:
  assumes "keys_unique s" "OUTBOX_ENABLED (conf s)" "due = due_rows locked now limit s"
  shows "drain w token locked now limit s =
    (drain_figures w now s due, concat (map (given_mail w now s) due),
     s\<lparr>notifications := map (\<lambda>r. if r \<in> set due then settle_message w now s r else r) (notifications s)\<rparr>)"
proof -
  let ?lease = "lease_row token (lease_end (conf s) now)"
  define d where "d = fold (drain_one w now) (map ?lease due) \<lparr>dr_sent = 0, dr_failed = 0, dr_stale = 0, dr_mails = [],
    dr_st = s\<lparr>notifications := map (\<lambda>r. if n_pk r \<in> n_pk ` set due then ?lease r else r) (notifications s)\<rparr>\<rparr>"
  have keys: "distinct (map n_pk (notifications s))" using assms(1) by (simp add: keys_unique_def)
  have pks: "distinct (map n_pk due)" unfolding assms(3) by (rule due_rows_distinct [OF keys])
  have sub: "set due \<subseteq> set (notifications s)" unfolding assms(3) using due_rows_mem by blast
  have pk: "n_pk (?lease r) = n_pk r" for r by (simp add: lease_row_def)
  have mem: "n_pk r \<in> n_pk ` set due \<longleftrightarrow> r \<in> set due" if "r \<in> set (notifications s)" for r
    using keys sub that by (auto simp: distinct_map inj_on_def)
  have "drain w token locked now limit s = ([(''claimed'', PNat (length (map ?lease due))), (''sent'', PNat (dr_sent d)),
      (''failed'', PNat (dr_failed d)), (''stale'', PNat (dr_stale d))], dr_mails d, dr_st d)"
    using assms(2) by (simp add: drain_def claim_due_eq [OF keys] d_def assms(3))
  moreover note drain_fold [where s = s, OF drained.select_convs(5) d_def]
  moreover have "fold (\<lambda>n. update_row n_pk (n_pk n) (outcome w now s n)) (map ?lease due)
      (map (\<lambda>r. if n_pk r \<in> n_pk ` set due then ?lease r else r) (notifications s))
    = map (\<lambda>r. if r \<in> set due then settle_message w now s r else r) (notifications s)"
  proof -
    have "distinct (map n_pk (map ?lease due))" using pks by (simp add: comp_def pk)
    note each = fold_update_each [OF this, of "outcome w now s", OF outcome_pk]
    show ?thesis unfolding each map_map
      by (rule map_cong [OF refl]) (use mem in \<open>auto simp: pk get_row_leased [OF pks] get_row_unleased outcome_leased\<close>)
  qed
  ultimately show ?thesis by (simp add: drain_figures_def comp_def filter_map)
qed

text \<open>C20: One batch of the outbox refines its row-wise specification. The due rows, oldest first and no more than the batch
  size, are each delivered against the database as it was; each row due becomes what \<open>settle_message\<close> says (sent, dropped
  as no longer true, put back with its back-off or exhausted after its last attempt) and is free of its lease again; no other row
  and no other table changes; the provider gets exactly the mails of the rows that still apply, and the figures count
  them. A failing row never stops the rest of the batch.\<close>

theorem drain_refines_rows:
  assumes "keys_unique s" "OUTBOX_ENABLED (conf s)" "due = due_rows locked now limit s"
  shows "drain w token locked now limit s =
    (drain_figures w now s due, concat (map (given_mail w now s) due),
     s\<lparr>notifications := map (\<lambda>r. if r \<in> set due then settle_message w now s r else r) (notifications s)\<rparr>)"
  by (rule drain_rows [OF assms])

section \<open>What a mail may still say\<close>

text \<open>What must hold for a message to go out, as the design states it and independent of the code's case distinction.\<close>

definition states_of_kind :: "string \<Rightarrow> status set option" where
  "states_of_kind = map_of [(''booking_confirmation'', {SCHEDULED, IN_USE, COMPLETED}), (''booking_pending'', {PENDING_APPROVAL}),
     (''booking_rejected'', {REJECTED}), (''booking_changed'', {SCHEDULED, PENDING_APPROVAL}), (''booking_reminder'', {SCHEDULED}),
     (''booking_cancelled'', {CANCELLED}), (''no_show'', {NO_SHOW})]"

definition booking_applies :: "time \<Rightarrow> string \<Rightarrow> status set \<Rightarrow> booking \<Rightarrow> bool" where
  "booking_applies now kind states b \<longleftrightarrow> b_status b \<in> states
     \<and> (kind = ''booking_changed'' \<or> kind = ''booking_reminder'' \<longrightarrow> now < b_slot_start b)"

definition link_applies :: "time \<Rightarrow> invitation \<Rightarrow> bool" where
  "link_applies now i \<longleftrightarrow> iv_revoked_at i = None \<and> iv_used_at i = None \<and> now < iv_expires_at i"

text \<open>
  The row a message is about, as it is now, for each kind. A decision about an account and a complaint are about no
  row: nothing is looked up for them, and they go out as they were queued.
\<close>

definition current_row :: "time \<Rightarrow> st \<Rightarrow> notification \<Rightarrow> related \<Rightarrow> bool" where
  "current_row now s n row \<longleftrightarrow> (case states_of_kind (n_kind n) of
       Some states \<Rightarrow> \<exists>b \<in> set (bookings s). map_of (n_payload n) ''booking_id'' = Some (PNat (b_pk b))
         \<and> booking_applies now (n_kind n) states b \<and> row = ABooking b (room_of s (b_room b))
     | None \<Rightarrow>
       if n_kind n \<in> {''email_verification'', ''invitation'', ''password_reset''}
       then \<exists>i \<in> set (invitations s). map_of (n_payload n) ''invitation_id'' = Some (PNat (iv_pk i))
         \<and> link_applies now i \<and> row = AnInvitation i
       else if n_kind n \<in> {''sanction_applied'', ''sanction_lifted''}
       then \<exists>sp \<in> set (suspensions s). map_of (n_payload n) ''suspension_id'' = Some (PNat (sp_pk sp))
         \<and> (n_kind n = ''sanction_applied'' \<longrightarrow> sp_lifted_at sp = None) \<and> row = ASuspension sp
       else row = NoRow)"

text \<open>The body of a mail is the template of its kind in its language, with that row.\<close>

definition body_of :: "mailer \<Rightarrow> notification \<Rightarrow> related \<Rightarrow> string \<Rightarrow> bool" where
  "body_of w n row body \<longleftrightarrow> (\<exists>context. rc_row context = row
     \<and> mr_template w (if n_language n = '''' then ''th'' else n_language n) (''core/email/'' @ n_kind n @ ''.txt'') context = Inr body)"

lemma row_of_payload_Some:
  "row_of_payload pk payload key rows = Some r \<Longrightarrow> r \<in> set rows \<and> map_of payload key = Some (PNat (pk r))"
  by (auto simp: row_of_payload_def payload_pk_def PNat_def dest!: get_row_Some split: option.splits pyval.splits if_splits)

lemma booking_kind_states: "kind \<in> set BOOKING_KINDS \<longleftrightarrow> states_of_kind kind \<noteq> None"
  by (auto simp: states_of_kind_def BOOKING_KINDS_def)

lemma booking_stale_applies:
  assumes "states_of_kind kind = Some states"
  shows "booking_stale kind b now = None \<longleftrightarrow> booking_applies now kind states b"
  using assms by (auto simp: booking_stale_def booking_applies_def states_of_kind_def split: if_splits)

lemma invitation_stale_applies: "invitation_stale i now = None \<longleftrightarrow> link_applies now i"
  by (auto simp: invitation_stale_def link_applies_def)

lemma booking_context_row: "booking_context payload b room = Inr c \<Longrightarrow> snd c = ABooking b room"
  by (auto simp: booking_context_def bindE_Inr)

lemma revalidate_applies:
  assumes "revalidate n now s = Inr c"
  shows "current_row now s n (snd c)"
proof (cases "states_of_kind (n_kind n)")
  case (Some states)
  then have "n_kind n \<in> set BOOKING_KINDS" by (simp add: booking_kind_states)
  with assms obtain b where b: "row_of_payload b_pk (n_payload n) ''booking_id'' (bookings s) = Some b"
    "booking_stale (n_kind n) b now = None" "booking_context (n_payload n) b (room_of s (b_room b)) = Inr c"
    by (auto simp: revalidate_def Let_def split: option.splits sum.splits)
  show ?thesis
    using row_of_payload_Some [OF b(1)] b(2) booking_context_row [OF b(3)] Some booking_stale_applies [OF Some]
    by (auto simp: current_row_def)
next
  case None
  then have other: "n_kind n \<notin> set BOOKING_KINDS" by (simp add: booking_kind_states)
  show ?thesis
  proof (cases "n_kind n \<in> set LINK_KINDS")
    case True
    with other assms obtain i where i: "row_of_payload iv_pk (n_payload n) ''invitation_id'' (invitations s) = Some i"
      "invitation_stale i now = None" "c = (n_payload n, AnInvitation i)"
      by (auto simp: revalidate_def Let_def split: option.splits)
    from True have "n_kind n \<in> {''email_verification'', ''invitation'', ''password_reset''}" by (simp add: LINK_KINDS_def)
    with row_of_payload_Some [OF i(1)] i(2,3) None show ?thesis by (simp add: current_row_def invitation_stale_applies)
  next
    case False
    then have kind: "n_kind n \<notin> {''email_verification'', ''invitation'', ''password_reset''}" by (simp add: LINK_KINDS_def)
    show ?thesis
    proof (cases "n_kind n \<in> {''sanction_applied'', ''sanction_lifted''}")
      case True
      with False other assms obtain sp where sp: "row_of_payload sp_pk (n_payload n) ''suspension_id'' (suspensions s) = Some sp"
        "n_kind n = ''sanction_applied'' \<longrightarrow> sp_lifted_at sp = None" "c = (n_payload n, ASuspension sp)"
        by (auto simp: revalidate_def Let_def split: option.splits if_splits)
      with row_of_payload_Some [OF sp(1)] None kind True show ?thesis by (simp add: current_row_def)
    next
      case no_sanction: False
      with False other assms have "c = (n_payload n, NoRow)" by (simp add: revalidate_def Let_def)
      with None kind no_sanction show ?thesis by (simp add: current_row_def)
    qed
  qed
qed

lemma given_mail_Some:
  assumes "m \<in> set (given_mail w now s n)"
  shows "given_mail w now s n = [m]" "\<exists>row. current_row now s n row \<and> body_of w n row (ml_body m)" "ml_event m = n_dedupe_key n"
    "ml_to m = (if n_recipient_email n \<noteq> '''' then n_recipient_email n else u_email (user_of s (the (n_recipient n))))"
proof -
  from assms have given: "fst (deliver w n now s) = Some m" by (simp add: given_mail_def split: option.splits)
  then show "given_mail w now s n = [m]" by (simp add: given_mail_def)
  from given have "prepare_mail w n now s = Inr m" by (simp add: deliver_def split: sum.splits)
  then obtain c rendered where c: "revalidate n now s = Inr c" and "as_error (render w n c s) = Inr rendered"
    and "as_error (message_of n (fst c) rendered s) = Inr m"
    by (auto simp: prepare_mail_def bindE_def split: sum.splits if_splits)
  then have r: "render w n c s = Inr rendered" and m: "message_of n (fst c) rendered s = Inr m"
    by (simp_all add: as_error_def split: sum.splits)
  have "ml_body m = snd rendered" using m by (auto simp: message_of_def Let_def split: if_splits option.splits)
  then have "mr_template w (if n_language n = '''' then ''th'' else n_language n) (''core/email/'' @ n_kind n @ ''.txt'')
      (render_context w n c s) = Inr (ml_body m)"
    using r by (auto simp: render_def Let_def bindE_Inr or_text_def)
  moreover have "rc_row (render_context w n c s) = snd c" by (simp add: render_context_def Let_def)
  ultimately have "body_of w n (snd c) (ml_body m)" unfolding body_of_def by blast
  with revalidate_applies [OF c] show "\<exists>row. current_row now s n row \<and> body_of w n row (ml_body m)" by blast
  from m show "ml_event m = n_dedupe_key n"
    "ml_to m = (if n_recipient_email n \<noteq> '''' then n_recipient_email n else u_email (user_of s (the (n_recipient n))))"
    by (auto simp: message_of_def Let_def split: if_splits option.splits)
qed

lemma given_mails_distinct:
  assumes "distinct (map n_dedupe_key rows)"
  shows "distinct (map ml_event (concat (map (given_mail w now s) rows)))"
  using assms
proof (induction rows)
  case (Cons n rows)
  have "ml_event m \<noteq> ml_event m'" if "m \<in> set (given_mail w now s n)" "m' \<in> set (concat (map (given_mail w now s) rows))" for m m'
  proof -
    from that(2) obtain r where r: "r \<in> set rows" "m' \<in> set (given_mail w now s r)" by auto
    then have "n_dedupe_key n \<noteq> n_dedupe_key r" using Cons.prems by auto
    with given_mail_Some(3) [OF that(1)] given_mail_Some(3) [OF r(2)] show ?thesis by simp
  qed
  moreover have "distinct (map ml_event (given_mail w now s n))" by (simp add: given_mail_def split: option.split)
  ultimately show ?case using Cons by auto
qed simp

lemma due_rows_keys: "keys_unique s \<Longrightarrow> distinct (map n_dedupe_key (due_rows locked now limit s))"
proof -
  assume "keys_unique s"
  then have "distinct (map n_dedupe_key (filter (claimable now locked) (notifications s)))" "distinct (notifications s)"
    by (auto simp: keys_unique_def distinct_map inj_on_def)
  then have "distinct (map n_dedupe_key (order_by (\<lambda>n. (n_next_attempt_at n, n_pk n)) (filter (claimable now locked) (notifications s))))"
    by (simp add: order_by_def distinct_map)
  then show ?thesis by (simp add: due_rows_def flip: take_map)
qed

text \<open>C18: What is checked before a mail goes out, kind by kind. Every mail of a batch belongs to a pending event that is due, goes
  to the address of that event, and is the template of its kind rendered with the row it is about as the database has it
  at that moment. A mail about a booking goes out only while the booking is in a state its kind is about, and one about a
  change or a reminder only before the hour starts; a mail with a link only while the link is unused, unrevoked and
  unexpired; the notice of a suspension only while it has not been lifted (one that has ended without being lifted is
  still announced); the notice that one was lifted only while its row exists. Decisions about an account and complaints are
  about no row, nothing is checked for them, and they go out as queued. No event is mailed twice in a batch.\<close>

theorem mails_still_apply:
  assumes "keys_unique s" "drain w token locked now limit s = (figures, mails, s')"
  shows "distinct (map ml_event mails) \<and> list_all (\<lambda>m. \<exists>n \<in> set (notifications s). n_dedupe_key n = ml_event m
     \<and> n_status n = N_PENDING \<and> n_next_attempt_at n \<le> now
     \<and> (\<exists>row. current_row now s n row \<and> body_of w n row (ml_body m))
     \<and> ml_to m = (if n_recipient_email n \<noteq> '''' then n_recipient_email n else u_email (user_of s (the (n_recipient n))))) mails"
proof (cases "OUTBOX_ENABLED (conf s)")
  case True
  define due where "due = due_rows locked now limit s"
  from drain_rows [OF assms(1) True due_def] assms(2)
  have mails: "mails = concat (map (given_mail w now s) due)" by simp
  have "\<exists>n \<in> set (notifications s). n_dedupe_key n = ml_event m \<and> n_status n = N_PENDING \<and> n_next_attempt_at n \<le> now
      \<and> (\<exists>row. current_row now s n row \<and> body_of w n row (ml_body m))
      \<and> ml_to m = (if n_recipient_email n \<noteq> '''' then n_recipient_email n else u_email (user_of s (the (n_recipient n))))"
    if "m \<in> set mails" for m
  proof -
    from that obtain n where n: "n \<in> set due" "m \<in> set (given_mail w now s n)" unfolding mails by auto
    then have "n \<in> set (notifications s)" "claimable now locked n" unfolding due_def using due_rows_mem by blast+
    moreover from this(2) have "n_status n = N_PENDING \<and> n_next_attempt_at n \<le> now" by (auto simp: claimable_def)
    ultimately show ?thesis using given_mail_Some(2-4) [OF n(2)] by metis
  qed
  moreover have "distinct (map ml_event mails)"
    unfolding mails by (rule given_mails_distinct) (use due_rows_keys [OF assms(1)] in \<open>simp add: due_def\<close>)
  ultimately show ?thesis by (simp add: list_all_iff)
next
  case False
  with assms(2) show ?thesis by (simp add: drain_def)
qed

section \<open>The tick goes on\<close>

lemma same_queue: "\<exists>xs. (s :: st) = s\<lparr>notifications := xs\<rparr>"
  by (rule exI [of _ "notifications s"]) simp

lemma drain_only_queue: "drain w token locked now limit s = (figures, mails, s') \<Longrightarrow> \<exists>xs. s' = s\<lparr>notifications := xs\<rparr>"
proof (cases "OUTBOX_ENABLED (conf s)")
  case True
  obtain rows s1 where c: "claim_due token locked now limit s = (rows, s1)" by fastforce
  then obtain xs where "s1 = s\<lparr>notifications := xs\<rparr>"
    unfolding claim_due_def Let_def fold_update_notification by auto
  then have s1: "dr_st \<lparr>dr_sent = 0, dr_failed = 0, dr_stale = 0, dr_mails = [], dr_st = s1\<rparr> = s\<lparr>notifications := xs\<rparr>" by simp
  assume "drain w token locked now limit s = (figures, mails, s')"
  with True c have "s' = dr_st (fold (drain_one w now) rows \<lparr>dr_sent = 0, dr_failed = 0, dr_stale = 0, dr_mails = [], dr_st = s1\<rparr>)"
    by (simp add: drain_def Let_def)
  with drain_fold [OF s1 refl] show ?thesis by auto
qed (auto simp: drain_def same_queue)

lemma enqueue_reminder_queue: "\<exists>xs. snd (enqueue_reminder b acc) = (snd acc)\<lparr>notifications := xs\<rparr>"
  by (cases acc) (auto simp: enqueue_reminder_def enqueue_full_def Let_def split: option.splits intro: same_queue)

lemma reminders_only_queue: "enqueue_due_reminders now s = (n, s') \<Longrightarrow> \<exists>xs. s' = (ensure_policy s)\<lparr>notifications := xs\<rparr>"
proof -
  have "\<exists>xs. snd (fold enqueue_reminder bs acc) = (snd acc)\<lparr>notifications := xs\<rparr>" for bs acc
  proof (induction bs arbitrary: acc)
    case Nil
    show ?case by (simp add: exI [of _ "notifications (snd acc)"])
  next
    case (Cons b bs)
    from enqueue_reminder_queue [of b acc] Cons.IH [of "enqueue_reminder b acc"] show ?case by auto
  qed
  then show "enqueue_due_reminders now s = (n, s') \<Longrightarrow> \<exists>xs. s' = (ensure_policy s)\<lparr>notifications := xs\<rparr>"
    unfolding enqueue_due_reminders_def Let_def by (metis snd_conv)
qed

lemma beat_found:
  "\<exists>h. List.find (\<lambda>h. jh_name h = HEARTBEAT_NAME) (heartbeats (beat moment detail s)) = Some h
    \<and> jh_last_run_at h = moment \<and> jh_detail h = detail"
proof -
  have "List.find P (map (\<lambda>h. if P h then f h else h) hs) = map_option f (List.find P hs)"
    if "\<And>h. P (f h) = P h" for P and f :: "job_heartbeat \<Rightarrow> job_heartbeat" and hs
    using that by (induction hs) auto
  note found = this [of "\<lambda>h. jh_name h = HEARTBEAT_NAME" "\<lambda>h. h\<lparr>jh_last_run_at := moment, jh_detail := detail\<rparr>" "heartbeats s"]
  show ?thesis
  proof (cases "List.find (\<lambda>h. jh_name h = HEARTBEAT_NAME) (heartbeats s)")
    case None
    then have "\<not> (\<exists>h \<in> set (heartbeats s). jh_name h = HEARTBEAT_NAME)" by (auto simp: find_None_iff)
    with None show ?thesis by (auto simp: beat_def find_append)
  next
    case (Some h)
    then have "\<exists>h \<in> set (heartbeats s). jh_name h = HEARTBEAT_NAME" by (auto simp: find_Some_iff)
    with found Some show ?thesis by (simp add: beat_def)
  qed
qed

lemma beat_frame [simp, frame]:
  "conf (beat moment detail s) = conf s" "notifications (beat moment detail s) = notifications s"
  "beat moment detail (s\<lparr>notifications := xs\<rparr>) = (beat moment detail s)\<lparr>notifications := xs\<rparr>"
  by (simp_all add: beat_def)

lemma beat_only: "\<exists>hs. beat moment detail s = s\<lparr>heartbeats := hs\<rparr>"
  by (auto simp: beat_def)

text \<open>A tick that finds more rows due than the budget raises before any mail is sent, and leaves no heartbeat.\<close>

lemma tick_backlog:
  assumes "sound s" "policy_sane s" "captured = (case now of None \<Rightarrow> clock_now s | Some t \<Rightarrow> t)"
    and "\<not> within_budget captured (budget_of s None) s"
  shows "run_tick w token locked True now s = (Inl ReconciliationBacklog, [], s)"
  using reconcile_backlog [OF assms(1,2,4), of None] by (simp add: run_tick_def assms(3))

text \<open>C19: A failing mail provider cannot stop the system. Within the budget a tick that gets the lock succeeds, settles every
  booking and stamps its heartbeat, with the same tables other than the outbox and the heartbeat, whatever the templates and
  the provider do and whichever rows another worker holds; and no check made before the heartbeat's threshold has passed
  calls it stale.\<close>

theorem tick_outlives_mail:
  assumes "sound s" "policy_sane s" "captured = (case now of None \<Rightarrow> clock_now s | Some t \<Rightarrow> t)"
    and "within_budget captured (budget_of s None) s"
  shows "\<exists>s1 U. bookings s1 = cancel_users captured None U (map (settle captured s) (bookings s))
    \<and> (\<forall>w token locked. \<exists>summary mails s'. run_tick w token locked True now s = (Inr summary, mails, s')
         \<and> s' = s1\<lparr>notifications := notifications s', heartbeats := heartbeats s'\<rparr>
         \<and> (\<forall>t \<le> captured + SCHEDULER_HEARTBEAT_STALE_SECONDS (conf s) * us_second. \<not> ts_stale (heartbeat_status t s')))"
proof -
  from reconcile_run [OF assms(1,2,4), of None] obtain figures sr where
    run: "reconcile captured None None s = Inr (figures, sr)" and rec: "reconciled captured None s sr" by blast
  then obtain U where U: "bookings sr = cancel_users captured None U (map (settle captured s) (bookings s))"
    unfolding reconciled_def by blast
  have conf: "conf sr = conf s" using rec by (simp add: reconciled_def quiet_def)
  obtain n s1 where rem: "enqueue_due_reminders captured sr = (n, s1)" by fastforce
  then obtain xs where s1: "s1 = (ensure_policy sr)\<lparr>notifications := xs\<rparr>" using reminders_only_queue by blast
  have "\<exists>summary mails s'. run_tick w token locked True now s = (Inr summary, mails, s')
      \<and> s' = s1\<lparr>notifications := notifications s', heartbeats := heartbeats s'\<rparr>
      \<and> (\<forall>t \<le> captured + SCHEDULER_HEARTBEAT_STALE_SECONDS (conf s) * us_second. \<not> ts_stale (heartbeat_status t s'))" for w token locked
  proof -
    obtain mail mails s3 where d: "drain w token locked (case now of None \<Rightarrow> wall_now s1 | Some t \<Rightarrow> t) None s1 = (mail, mails, s3)"
      by (metis prod_cases3)
    define summary where "summary = [(''skipped'', PBool False), (''reconciled'', PDict figures), (''reminders'', PNat n), (''mail'', PDict mail)]"
    define s' where "s' = beat captured (summarise (conf s3) summary) s3"
    have tick: "run_tick w token locked True now s = (Inr summary, mails, s')"
      by (simp add: run_tick_def run rem d s'_def summary_def Let_def flip: assms(3))
    obtain ys where s3: "s3 = s1\<lparr>notifications := ys\<rparr>" using drain_only_queue [OF d] by blast
    obtain hs where "s' = s3\<lparr>heartbeats := hs\<rparr>" unfolding s'_def using beat_only by blast
    with s3 have same: "s' = s1\<lparr>notifications := ys, heartbeats := hs\<rparr>" by simp
    then have shape: "s' = s1\<lparr>notifications := notifications s', heartbeats := heartbeats s'\<rparr>" by simp
    have "conf s' = conf s" unfolding same by (simp add: s1 conf)
    moreover obtain h where "List.find (\<lambda>h. jh_name h = HEARTBEAT_NAME) (heartbeats s') = Some h" "jh_last_run_at h = captured"
      unfolding s'_def using beat_found by blast
    ultimately have "\<not> ts_stale (heartbeat_status t s')"
      if "t \<le> captured + SCHEDULER_HEARTBEAT_STALE_SECONDS (conf s) * us_second" for t
      using that by (simp add: heartbeat_status_def Let_def)
    with tick shape show ?thesis by blast
  qed
  moreover have "bookings s1 = cancel_users captured None U (map (settle captured s) (bookings s))" using U by (simp add: s1)
  ultimately show ?thesis by blast
qed

section \<open>Sample runs\<close>

text \<open>A provider that takes everything, and the outbox after the reminder of Alice's hour at ten has been queued.\<close>

definition sample_mailer :: mailer where
  "sample_mailer = \<lparr>mr_translate = (\<lambda>language m. m), mr_template = (\<lambda>language template c. Inr template), mr_send = (\<lambda>m. None),
     mr_complaint_subject = ''Room Reserve complaint'', mr_site_base_url = ''https://rooms.example/'', mr_support_contact = []\<rparr>"

definition reminder_st :: st where
  "reminder_st = snd (enqueue_reminder (sample_booking 1 1 1 10 SCHEDULED) (0, one_booking_st (at 9 0) SCHEDULED))"

lemma reminder_st_row:
  "\<exists>n. notifications reminder_st = [n] \<and> claimable (at 9 0) [] n" "conf reminder_st = default_settings"
  by (simp_all add: reminder_st_def enqueue_reminder_def enqueue_full_def one_booking_st_def sample_st_def claimable_def Let_def)

lemma reminder_st_facts:
  "keys_unique reminder_st" "OUTBOX_ENABLED (conf reminder_st)"
  "due_rows [] (at 9 0) None reminder_st = notifications reminder_st"
proof -
  obtain n where n: "notifications reminder_st = [n]" "claimable (at 9 0) [] n" using reminder_st_row(1) by blast
  then show "keys_unique reminder_st" by (simp add: keys_unique_def)
  show "OUTBOX_ENABLED (conf reminder_st)" by (simp add: reminder_st_row(2) default_settings_def)
  show "due_rows [] (at 9 0) None reminder_st = notifications reminder_st"
    by (simp add: due_rows_def n order_by_def batch_limit_def reminder_st_row(2) default_settings_def)
qed

lemma sample_mails:
  "map ml_subject (concat (map (given_mail sample_mailer (at 9 0) reminder_st) (notifications reminder_st)))
    = [''Reminder: your practice room booking'']"
  by code_simp

theorem drain_refines_rows_witness:
  "\<exists>figures mails s'. drain sample_mailer id [] (at 9 0) None reminder_st = (figures, mails, s')
    \<and> map ml_subject mails = [''Reminder: your practice room booking''] \<and> map n_status (notifications s') = [N_SENT]"
proof -
  let ?rows = "notifications reminder_st"
  note sample_mails
  moreover obtain r where r: "?rows = [r]" using reminder_st_row(1) by blast
  moreover have "fst (deliver sample_mailer r (at 9 0) reminder_st) \<noteq> None"
    using sample_mails unfolding r by (auto simp: given_mail_def split: option.splits)
  then have "snd (deliver sample_mailer r (at 9 0) reminder_st) = None"
    by (auto simp: deliver_def sample_mailer_def split: sum.splits)
  then have "map (\<lambda>r. n_status (settle_message sample_mailer (at 9 0) reminder_st r)) ?rows = [N_SENT]"
    by (simp add: r settle_message_def)
  ultimately show ?thesis
    using drain_refines_rows [OF reminder_st_facts(1,2) reminder_st_facts(3) [symmetric], of sample_mailer id]
    by (auto simp: comp_def cong: map_cong)
qed

theorem mails_still_apply_witness:
  "\<exists>figures mails s' m n. drain sample_mailer id [] (at 9 0) None reminder_st = (figures, mails, s') \<and> m \<in> set mails
    \<and> n \<in> set (notifications reminder_st) \<and> n_dedupe_key n = ml_event m
    \<and> (\<exists>row. current_row (at 9 0) reminder_st n row \<and> body_of sample_mailer n row (ml_body m))"
proof -
  obtain figures mails s' where d: "drain sample_mailer id [] (at 9 0) None reminder_st = (figures, mails, s')" by (metis prod_cases3)
  with drain_rows [OF reminder_st_facts(1,2) reminder_st_facts(3) [symmetric], of sample_mailer id]
  have "mails = concat (map (given_mail sample_mailer (at 9 0) reminder_st) (notifications reminder_st))" by simp
  then have "map ml_subject mails = [''Reminder: your practice room booking'']" by (simp only: sample_mails)
  then obtain m where m: "m \<in> set mails" by auto
  with mails_still_apply [OF reminder_st_facts(1) d] show ?thesis using d unfolding list_all_iff by blast
qed

theorem tick_outlives_mail_witness:
  "\<exists>summary mails s'. run_tick sample_mailer id [] True None missed_st = (Inr summary, mails, s')
    \<and> \<not> ts_stale (heartbeat_status (at 11 2) s')"
proof -
  have clock: "at 11 0 = (case None of None \<Rightarrow> clock_now missed_st | Some t \<Rightarrow> t)"
    by (simp add: missed_st_def one_booking_st_def sample_st_def)
  have "at 11 2 \<le> at 11 0 + SCHEDULER_HEARTBEAT_STALE_SECONDS (conf missed_st) * us_second" by code_simp
  with tick_outlives_mail [OF missed_st_facts(1,2) clock missed_st_facts(3)] show ?thesis by blast
qed

text \<open>A suspension that has already ended is still announced as applied: only \<open>lifted_at\<close> is looked at.\<close>

lemma ended_sanction_is_announced:
  assumes "n_kind n = ''sanction_applied''" "row_of_payload sp_pk (n_payload n) ''suspension_id'' (suspensions s) = Some sp"
    and "sp_lifted_at sp = None" "sp_ends_at sp = Some e" "e \<le> now"
  shows "revalidate n now s = Inr (n_payload n, ASuspension sp) \<and> \<not> suspension_active now sp"
  using assms by (simp add: revalidate_def BOOKING_KINDS_def LINK_KINDS_def suspension_active_def null_or_gt_def)

end
