(* ===== verification/System.thy ===== *)
theory System
  imports Seed Roster Delivery
begin

text \<open>
  The program as a state machine. \<open>mutation\<close> lists the services that run under the protocol, each an
  interpretation of \<open>service_body\<close>; \<open>system_step\<close> is one committed transaction, a tick of the clock,
  or one write of the outbox worker. Invariants of the reachable databases are proved by rule
  induction, once for all services.
\<close>

section \<open>The services keep an installation sound\<close>

lemma cancel_booking_guarded: "cancel_booking pk reason staff cx s = Inr (d, s') \<Longrightarrow> guarded s s'"
  by (erule cancel_booking_Inr) (rule guarded_update_logs)

lemma update_booking_details_guarded: "update_booking_details pk v cx s = Inr (d, s') \<Longrightarrow> guarded s s'"
  by (erule update_booking_details_Inr) (rule guarded_update_logs)

lemma move_booking_guarded: "move_booking pk room cx s = Inr (d, s') \<Longrightarrow> guarded s s'"
  by (erule move_booking_Inr) (rule guarded_update_logs)

lemma check_in_guarded: "check_in pk room staff reason cx s = Inr (d, s') \<Longrightarrow> guarded s s'"
  by (erule check_in_Inr) (blast intro: guarded_trans guarded_update_logs guarded_refl)

lemma decide_approval_guarded:
  assumes "decide_approval pk decision remark cx s = Inr (d, s')"
  shows "guarded s s'"
  using assms
proof (rule decide_approval_Inr)
  fix b f s1 assume u: "update_booking pk f s = Inr s1" and l: "logs s1 s' \<or> logs (ensure_policy s1) s'"
  have "guarded s s1" by (rule guarded_update_logs [OF u logs_refl])
  moreover have "guarded s1 s'"
    using l guarded_plain [OF plain_logs] guarded_trans [OF guarded_refl(2)] by blast
  ultimately show ?thesis by (rule guarded_trans)
qed

lemma cancel_recurring_guarded:
  assumes "cancel_recurring_reservation pk reason cx s = Inr (d, s')"
  shows "guarded s s'"
proof -
  let ?xs = "order_by_desc b_slot_start (filter (\<lambda>b. b_recurrence b = Some pk
      \<and> b_status b \<in> {PENDING_APPROVAL, SCHEDULED} \<and> ctx_now cx < b_slot_start b) (bookings s))"
  let ?close = "\<lambda>s1. ctx_audit ''recurring_reservation.cancelled'' ''RecurringReservation'' (show_nat pk)
      (ctx_actor cx) [(''cancelled_booking_ids'', PList (map (PNat \<circ> b_pk) ?xs))] reason
      (s1\<lparr>recurrings := update_row rr_pk pk (\<lambda>rr. rr\<lparr>rr_status := SERIES_CANCELLED,
        rr_cancelled_at := Some (ctx_now cx)\<rparr>) (recurrings s1)\<rparr>)"
  from assms obtain s1 where
    loop: "foldE (\<lambda>x s. bindE (cancel_booking (b_pk x) (or_text reason ''SERIES_CANCELLATION'') False cx s)
       (\<lambda>(_, s). Inr s)) ?xs s = Inr s1" and s': "s' = ?close s1"
    by (auto simp: cancel_recurring_reservation_def bindE_Inr Let_def split: if_splits)
  have "guarded s s1"
    by (rule foldE_invariant [OF loop guarded_refl(1)])
      (auto simp: bindE_Inr intro: guarded_trans dest: cancel_booking_guarded)
  moreover have "guarded s1 s'"
  proof -
    obtain rs where rs: "logs (s1\<lparr>recurrings := rs\<rparr>) s'" unfolding s' by (blast intro: logs_ctx_audit logs_refl)
    have "current_policy (s1\<lparr>recurrings := rs\<rparr>) = current_policy s1" by (rule current_policy_cong) simp_all
    then have "guarded s1 (s1\<lparr>recurrings := rs\<rparr>)" by (simp add: guarded_def)
    with guarded_plain [OF plain_logs [OF rs]] show ?thesis by (blast intro: guarded_trans)
  qed
  ultimately show ?thesis by (rule guarded_trans)
qed

lemma create_advance_booking_guarded:
  assumes "create_advance_booking room t cx s = Inr (d, s')"
  shows "guarded s s'"
proof -
  obtain u where u: "ctx_actor cx = Some u"
    using assms validate_advance_target_None
    by (cases "ctx_actor cx") (auto simp: create_advance_booking_def Let_def thenE_Inr)
  from create_advance_booking_cases [OF u, of room t s] assms
  have "\<exists>bs. logs ((ensure_policy s)\<lparr>bookings := bs\<rparr>) s'" by (auto split: if_splits)
  then show ?thesis using guarded_create_logs guarded_refl(2) guarded_trans by blast
qed

lemma use_now_guarded:
  assumes "use_now room cx s = Inr (d, s')"
  shows "guarded s s'"
proof -
  obtain u where u: "ctx_actor cx = Some u"
    using assms by (cases "ctx_actor cx") (auto simp: use_now_def Let_def thenE_Inr assert_may_use_room_def)
  from use_now_cases [OF u, of room s] assms
  have "\<exists>bs. logs ((ensure_policy s)\<lparr>bookings := bs\<rparr>) s'" by (auto split: if_splits)
  then show ?thesis using guarded_create_logs guarded_refl(2) guarded_trans by blast
qed

lemma create_staff_booking_guarded:
  assumes "create_staff_booking room d a b cx s = Inr (r, s')"
  shows "guarded s s'"
proof -
  from assms obtain u cs where
    loop: "foldE (create_staff_hour cx u room (current_policy s)) (map (slot_start_for d) [a..b - 1]) ([], ensure_policy s)
      = Inr (cs, s')"
    by (auto simp: create_staff_booking_def Let_def bindE_Inr split: option.splits if_splits)
  have "guarded s (snd (cs, s'))"
  proof (rule foldE_invariant [OF loop, where P = "\<lambda>acc. guarded s (snd acc)"])
    fix t acc acc' assume acc: "guarded s (snd acc)" "create_staff_hour cx u room (current_policy s) t acc = Inr acc'"
    then obtain x s1 where "create_booking (staff_row cx u room (current_policy s) t (snd acc)) (snd acc) = Inr (x, s1)"
      "logs s1 (snd acc')"
      using create_staff_hour_Inr [of cx u room "current_policy s" t "fst acc" "snd acc" "fst acc'" "snd acc'"]
      by (metis prod.collapse)
    then have "guarded (snd acc) (snd acc')"
      using create_booking_Inr(3) guarded_create_logs by blast
    with acc(1) show "guarded s (snd acc')" by (rule guarded_trans)
  qed simp
  then show ?thesis by simp
qed

interpretation create_service: service_body "create_advance_booking room slot_start" for room slot_start
  by (rule service_bodyI) (unfold_locales, rule create_advance_booking_guarded)

interpretation create_staff_service: service_body "create_staff_booking room d a b" for room d a b
  by (rule service_bodyI) (unfold_locales, rule create_staff_booking_guarded)

interpretation edit_service: service_body "update_booking_details pk d" for pk d
  by (rule service_bodyI) (unfold_locales, rule update_booking_details_guarded)

interpretation move_service: service_body "move_booking pk room" for pk room
  by (rule service_bodyI) (unfold_locales, rule move_booking_guarded)

interpretation series_service: service_body "cancel_recurring_reservation pk reason" for pk reason
  by (rule service_bodyI) (unfold_locales, rule cancel_recurring_guarded)

interpretation decide_service: service_body "decide_approval pk decision remark" for pk decision remark
  by (rule service_bodyI) (unfold_locales, rule decide_approval_guarded)

interpretation cancel_service: service_body "cancel_booking pk reason staff" for pk reason staff
  by (rule service_bodyI) (unfold_locales, rule cancel_booking_guarded)

interpretation check_in_service: service_body "check_in pk room staff reason" for pk room staff reason
  by (rule service_bodyI) (unfold_locales, rule check_in_guarded)

interpretation walk_in_service: service_body "use_now room" for room
  by (rule service_bodyI) (unfold_locales, rule use_now_guarded)

section \<open>The services\<close>

inductive mutation :: "(ctx \<Rightarrow> st \<Rightarrow> exn + (dict \<times> st)) \<Rightarrow> bool" where
  create: "mutation (create_advance_booking room slot_start)"
| create_staff: "mutation (create_staff_booking room d a b)"
| edit: "mutation (update_booking_details pk d)"
| move: "mutation (move_booking pk room)"
| cancel_series: "mutation (cancel_recurring_reservation pk reason)"
| decide: "mutation (decide_approval pk decision remark)"
| cancel: "mutation (cancel_booking pk reason staff)"
| check_in: "mutation (check_in pk room_scanned staff reason)"
| walk_in: "mutation (use_now room)"
| strike: "mutation (record_violation_body user_pk reason counts)"
| void: "mutation (void_violation pk reason)"
| suspend: "mutation (manual_suspension_body user_pk reason ends_at)"
| adjust: "mutation (adjust_suspension_body pk reason ends_at)"
| lift: "mutation (lift_suspension_body pk reason)"
| close: "mutation (create_closure_body room_scope starts_at ends_at reason ack)"
| reopen: "mutation (revoke_closure_body pk reason)"
| evacuate: "mutation (complete_early_body pk reason)"
| review: "mutation (resolve_review_body pk remark)"
| calendar: "mutation (set_override_body d is_open h1 h2 reason)"
| audience: "mutation (set_room_audience pk scope names)"
| retire_room: "mutation (deactivate_room pk reason)"
| retire_account: "mutation (deactivate_account pk reason)"
| policy: "mutation (update_policy_body snapshot remark)"
| incident: "mutation (create_incident starts_at ends_at scope reason cancels)"
| excuse: "mutation (void_incident_violations si reason)"
| eligibility: "mutation (decide_eligibility_body person decision reason)"
| category: "mutation (declared_category_body person declared)"
| correct_id: "mutation (correct_id_body username_ok person new_id reason)"
| invite: "mutation (invite_body digest site path raw new_id email name staff teacher)"
| password_link: "mutation (password_link_body digest site path raw person)"
| list_people: "mutation (add_members chosen_room entries)"
| unlist_person: "mutation (remove_member chosen_room member_id)"
| profile: "mutation (update_profile_body pk capacity equipment approval)"
| administrator: "mutation (set_administrator chosen_room person add)"
| correct_address: "mutation (correct_email valid_email pk email reason)"

lemma mutation_service: "mutation service \<Longrightarrow> service_body service"
  by (cases rule: mutation.cases)
    (auto intro: create_service.service_body_axioms create_staff_service.service_body_axioms
      edit_service.service_body_axioms move_service.service_body_axioms series_service.service_body_axioms
      decide_service.service_body_axioms cancel_service.service_body_axioms
      check_in_service.service_body_axioms walk_in_service.service_body_axioms
      strike_service.service_body_axioms void_service.service_body_axioms
      suspend_service.service_body_axioms adjust_service.service_body_axioms lift_service.service_body_axioms
      closure_service.service_body_axioms revoke_service.service_body_axioms
      evacuate_service.service_body_axioms review_service.service_body_axioms
      override_service.service_body_axioms audience_service.service_body_axioms
      retire_room_service.service_body_axioms retire_account_service.service_body_axioms
      policy_service.service_body_axioms
      incident_service.service_body_axioms void_incident_service.service_body_axioms
      eligibility_service.service_body_axioms declared_service.service_body_axioms
      correct_id_service.service_body_axioms invite_service.service_body_axioms
      password_link_service.service_body_axioms add_members_service.service_body_axioms
      remove_member_service.service_body_axioms profile_service.service_body_axioms
      administrator_service.service_body_axioms correct_email_service.service_body_axioms)

section \<open>Steps\<close>

text \<open>The delivery worker claims its rows, writes one back, or the tick stamps its heartbeat.\<close>

inductive delivery_step :: "st \<Rightarrow> st \<Rightarrow> bool" where
  claim: "claim_due token locked now limit s = (rows, s') \<Longrightarrow> delivery_step s s'"
| sent: "delivery_step s (mark_sent n now s)"
| failed: "delivery_step s (mark_failed n now e s)"
| dropped: "delivery_step s (cancel_notification n why s)"
| stamped: "delivery_step s (beat moment detail s)"

inductive system_step :: "(string \<Rightarrow> string) \<Rightarrow> st \<Rightarrow> st \<Rightarrow> bool" for digest where
  operation: "mutation service
    \<Longrightarrow> run_once digest lock actor name payload (answering service) key s = Inr (r, s') \<Longrightarrow> system_step digest s s'"
| time: "clock_now s \<le> t \<Longrightarrow> system_step digest s (s\<lparr>clock_now := t, wall_now := w\<rparr>)"
| tick: "reconcile (clock_now s) None None s = Inr (d, s1)
    \<Longrightarrow> enqueue_due_reminders (clock_now s) s1 = (n, s') \<Longrightarrow> system_step digest s s'"
| prune: "prune_operation_requests days s = (n, s') \<Longrightarrow> system_step digest s s'"
| deliver: "delivery_step s s' \<Longrightarrow> system_step digest s s'"
| account: "account_step s s' \<Longrightarrow> system_step digest s s'"
| seed: "ensure_rooms default_label count configs timetable s = Inr (report, s') \<Longrightarrow> system_step digest s s'"
| import_file: "import_roster_rows valid_email rows actor dry batch allow s = Inr (figures, s') \<Longrightarrow> system_step digest s s'"
| retire_missing: "deactivate_missing keep actor dry s = (n, s') \<Longrightarrow> system_step digest s s'"

definition reachable :: "(string \<Rightarrow> string) \<Rightarrow> st \<Rightarrow> st \<Rightarrow> bool" where
  "reachable digest = (system_step digest)\<^sup>*\<^sup>*"

lemma update_notification_keys:
  assumes "keys_unique s" "\<And>n. n_pk (f n) = n_pk n" "\<And>n. n_dedupe_key (f n) = n_dedupe_key n"
  shows "keys_unique (update_notification pk f s)"
proof -
  have "map n_dedupe_key (update_row n_pk pk f (notifications s)) = map n_dedupe_key (notifications s)"
    "map n_pk (update_row n_pk pk f (notifications s)) = map n_pk (notifications s)"
    using assms(2,3) by (simp_all add: update_row_def)
  with assms(1) show ?thesis unfolding keys_unique_def by simp
qed

lemma update_notification_installed:
  assumes "installed s" "\<And>n. n_pk (f n) = n_pk n" "\<And>n. n_dedupe_key (f n) = n_dedupe_key n"
  shows "installed (update_notification pk f s) \<and> evolves s (update_notification pk f s)"
  by (rule installed_same) (use assms update_notification_keys in auto)

lemma stamped_keeps: "installed s \<Longrightarrow> installed (s\<lparr>heartbeats := hs\<rparr>) \<and> evolves s (s\<lparr>heartbeats := hs\<rparr>)"
  by (rule installed_same) (simp_all add: keys_unique_def)

lemma delivery_keeps:
  assumes "delivery_step s s'" "installed s"
  shows "installed s' \<and> evolves s s'"
  using assms(1)
proof cases
  case (claim token locked now limit rows)
  let ?P = "\<lambda>t. installed t \<and> evolves s t"
  have loop: "?P (fold (\<lambda>n. update_notification (n_pk n) f) xs t)"
    if "?P t" "\<And>n. n_pk (f n) = n_pk n" "\<And>n. n_dedupe_key (f n) = n_dedupe_key n" for f xs t
    using that(1)
  proof (induction xs arbitrary: t)
    case (Cons x xs)
    from update_notification_installed [of t f "n_pk x"] that(2,3) Cons.prems
    have "?P (update_notification (n_pk x) f t)" using evolves_trans by blast
    with Cons.IH show ?case by simp
  qed simp
  from claim have s': "s' = snd (claim_due token locked now limit s)" by simp
  show ?thesis unfolding s' claim_due_def Let_def snd_conv by (rule loop) (use assms(2) in simp_all)
next
  case (sent n now)
  show ?thesis unfolding sent mark_sent_def by (rule update_notification_installed [OF assms(2)]) simp_all
next
  case (failed n e now)
  have "installed (mark_failed n e now s) \<and> evolves s (mark_failed n e now s)"
    by (cases "OUTBOX_MAX_ATTEMPTS (conf s) \<le> n_attempts n"; simp only: mark_failed_def if_True if_False;
        rule update_notification_installed [OF assms(2)]; simp)
  then show ?thesis unfolding failed .
next
  case (dropped n why)
  show ?thesis unfolding dropped cancel_notification_def by (rule update_notification_installed [OF assms(2)]) simp_all
next
  case (stamped moment detail)
  obtain hs where "s' = s\<lparr>heartbeats := hs\<rparr>" unfolding stamped using beat_only by blast
  then show ?thesis by (metis stamped_keeps assms(2))
qed

lemma fold_logs:
  assumes "\<And>x acc. logs (snd acc) (snd (f x acc))" "logs s (snd acc)"
  shows "logs s (snd (fold f xs acc))"
  using assms(2)
proof (induction xs arbitrary: acc)
  case (Cons x xs)
  then show ?case using logs_trans [OF _ assms(1)] by simp
qed simp

lemma reminders_keep:
  assumes "installed s" "enqueue_due_reminders now s = (n, s')"
  shows "installed s' \<and> evolves s s'"
proof -
  have logs: "logs t (snd (snd (enqueue_full k rc dk pl None None '''' t)))" for k rc dk pl t
    using logs_enqueue [OF logs_refl, of t k rc dk pl] by (simp add: enqueue_def)
  have "logs (snd acc) (snd (enqueue_reminder x acc))" for x acc
    by (cases acc) (auto simp: enqueue_reminder_def split_beta logs)
  then have "logs (ensure_policy s) (snd (enqueue_due_reminders now s))"
    unfolding enqueue_due_reminders_def Let_def by (rule fold_logs) simp
  then have l: "logs (ensure_policy s) s'" by (simp add: assms(2))
  have "installed (ensure_policy s)" using assms(1) by (simp add: installed_def policy_sane_def)
  moreover have "well_formed s'" by (rule logs_well_formed [OF l]) (use installedD(3) [OF assms(1)] in simp)
  moreover have "evolves (ensure_policy s) s'" "evolves s s'" by (simp_all add: logs_evolves [OF l])
  ultimately show ?thesis
    using installed_guarded [of "ensure_policy s" s'] guarded_plain [OF plain_logs [OF l]] by blast
qed

text \<open>Every step keeps the installation sound and moves bookings along their life cycle only.\<close>

lemma system_step_keeps:
  assumes "system_step digest s s'" "installed s"
  shows "installed s' \<and> evolves s s'"
  using assms(1)
proof cases
  case (operation service lock actor name payload key r)
  from service_body.attempt [OF mutation_service [OF operation(1)] assms(2) operation(2)] show ?thesis .
next
  case (time t w)
  show ?thesis unfolding time(1) by (rule installed_same) (use assms(2) in \<open>simp_all add: keys_unique_def\<close>)
next
  case (tick d s1 n)
  have s1: "installed s1 \<and> evolves s s1"
    using reconcile_keeps [OF assms(2) tick(1)] by (auto simp: advances_def)
  then have "installed s' \<and> evolves s1 s'" using reminders_keep [OF _ tick(2)] by blast
  with s1 show ?thesis by (auto intro: evolves_trans)
next
  case (prune days n)
  then have s': "s' = s\<lparr>op_requests := op_requests s'\<rparr>" by (auto simp: prune_operation_requests_def Let_def)
  show ?thesis by (subst (1 2) s', rule installed_same) (use assms(2) in \<open>simp_all add: keys_unique_def\<close>)
next
  case deliver
  from delivery_keeps [OF deliver assms(2)] show ?thesis .
next
  case account
  with account_step_safe elsewhere_keeps [OF assms(2)] show ?thesis by (auto simp: account_safe_def advances_def)
next
  case seed
  from elsewhere_keeps [OF assms(2) ensure_rooms_elsewhere [OF seed]] show ?thesis by (simp add: advances_def)
next
  case import_file
  from elsewhere_keeps [OF assms(2) import_rows_elsewhere [OF import_file]] show ?thesis by (simp add: advances_def)
next
  case retire_missing
  from elsewhere_keeps [OF assms(2) deactivate_missing_elsewhere [OF retire_missing]] show ?thesis by (simp add: advances_def)
qed

lemma reachable_keeps:
  assumes "reachable digest s s'" "installed s"
  shows "installed s' \<and> evolves s s'"
  using assms unfolding reachable_def
proof (induction rule: rtranclp_induct)
  case base
  then show ?case by simp
next
  case (step t u)
  then show ?case using system_step_keeps [OF step.hyps(2)] by (auto intro: evolves_trans)
qed

section \<open>A backlog\<close>

lemma delivery_frame: "delivery_step s s' \<Longrightarrow> conf s' = conf s \<and> bookings s' = bookings s \<and> clock_now s' = clock_now s"
proof -
  have upd: "conf (update_notification pk f t) = conf t \<and> bookings (update_notification pk f t) = bookings t
      \<and> clock_now (update_notification pk f t) = clock_now t" for pk f t by (simp add: update_notification_def)
  have "conf (fold (\<lambda>n. update_notification (n_pk n) f) xs t) = conf t
      \<and> bookings (fold (\<lambda>n. update_notification (n_pk n) f) xs t) = bookings t
      \<and> clock_now (fold (\<lambda>n. update_notification (n_pk n) f) xs t) = clock_now t" for f xs t
    by (induction xs arbitrary: t) (simp_all add: upd)
  note all = upd this
  assume "delivery_step s s'"
  then show ?thesis
    by cases (auto simp: claim_due_def mark_sent_def mark_failed_def cancel_notification_def beat_def Let_def all)
qed

text \<open>A whole tick is a run of these steps: the control transaction, the claim, one write for each claimed row, the heartbeat.\<close>

lemma drain_one_step: "delivery_step (dr_st acc) (dr_st (drain_one w now n acc))"
proof -
  obtain given failure where d: "deliver w n now (dr_st acc) = (given, failure)" by fastforce
  show ?thesis
  proof (cases failure)
    case None
    then show ?thesis using delivery_step.sent [of "dr_st acc" n now] by (simp add: drain_one_def d)
  next
    case (Some f)
    then show ?thesis
      using delivery_step.dropped [of "dr_st acc" n] delivery_step.failed [of "dr_st acc" n _ now]
      by (cases f) (simp_all add: drain_one_def d)
  qed
qed

lemma drain_reachable:
  assumes "drain w token locked now limit s = (figures, mails, s')"
  shows "reachable digest s s'"
proof -
  have step: "delivery_step t t' \<Longrightarrow> reachable digest t t'" for t t'
    by (simp add: reachable_def system_step.deliver r_into_rtranclp)
  have run: "reachable digest (dr_st acc) (dr_st (fold (drain_one w now) rows acc))" for rows acc
  proof (induction rows arbitrary: acc)
    case (Cons n rows)
    from step [OF drain_one_step [of acc w now n]] Cons.IH [of "drain_one w now n acc"] show ?case
      by (auto simp: reachable_def)
  qed (simp add: reachable_def)
  show ?thesis
  proof (cases "OUTBOX_ENABLED (conf s)")
    case True
    obtain rows s1 where c: "claim_due token locked now limit s = (rows, s1)" by fastforce
    let ?acc = "\<lparr>dr_sent = 0, dr_failed = 0, dr_stale = 0, dr_mails = [], dr_st = s1\<rparr>"
    from assms True c have "s' = dr_st (fold (drain_one w now) rows ?acc)" by (simp add: drain_def Let_def)
    with run [of ?acc rows] have "reachable digest s1 s'" by simp
    with step [OF delivery_step.claim [OF c]] show ?thesis by (auto simp: reachable_def)
  next
    case False
    with assms show ?thesis by (simp add: drain_def reachable_def)
  qed
qed

lemma run_tick_reachable:
  assumes "run_tick w token locked free None s = (r, mails, s')"
  shows "reachable digest s s'"
proof (cases "free \<and> (\<exists>d. reconcile (clock_now s) None None s = Inr d)")
  case True
  then obtain figures s1 where rec: "reconcile (clock_now s) None None s = Inr (figures, s1)" by auto
  obtain n s2 where rem: "enqueue_due_reminders (clock_now s) s1 = (n, s2)" by fastforce
  obtain mail mails' s3 where d: "drain w token locked (wall_now s2) None s2 = (mail, mails', s3)" by (metis prod_cases3)
  obtain detail where s': "s' = beat (clock_now s) detail s3"
    using assms True by (auto simp: run_tick_def rec rem d Let_def)
  have "system_step digest s s2" by (rule system_step.tick [OF rec rem])
  moreover have "system_step digest s3 s'" unfolding s' by (rule system_step.deliver [OF delivery_step.stamped])
  moreover note drain_reachable [OF d, of digest]
  ultimately show ?thesis
    unfolding reachable_def by (meson converse_rtranclp_into_rtranclp rtranclp.rtrancl_into_rtrancl)
next
  case False
  then have "s' = s" using assms by (cases "reconcile (clock_now s) None None s") (auto simp: run_tick_def split: if_splits)
  then show ?thesis by (simp add: reachable_def)
qed

text \<open>More forfeited hours than the budget: the invariant of a blocked installation.\<close>

definition blocked :: "time \<Rightarrow> settings \<Rightarrow> st \<Rightarrow> bool" where
  "blocked now cf s \<longleftrightarrow> installed s \<and> conf s = cf \<and> now \<le> clock_now s
     \<and> RECONCILE_BUDGET cf < length (filter (no_show_due now) (bookings s))"

lemma no_show_due_later: "no_show_due now b \<Longrightarrow> now \<le> now' \<Longrightarrow> no_show_due now' b"
  by (auto simp: no_show_due_def dest: lte_null_mono)

lemma filter_mono_length: "(\<And>x. P x \<Longrightarrow> Q x) \<Longrightarrow> length (filter P xs) \<le> length (filter Q xs)"
  by (induction xs) (auto intro: le_SucI)

lemma blocked_backlog:
  assumes "blocked now cf s"
  shows "reconcile (clock_now s) actor None s = Inl ReconciliationBacklog"
proof (rule reconcile_backlog)
  have "length (filter (no_show_due now) (bookings s)) \<le> length (filter (no_show_due (clock_now s)) (bookings s))"
    by (rule filter_mono_length) (use assms no_show_due_later in \<open>auto simp: blocked_def\<close>)
  with assms show "\<not> within_budget (clock_now s) (budget_of s None) s"
    by (auto simp: within_budget_def budget_of_def blocked_def)
qed (use assms in \<open>simp_all add: blocked_def installed_def\<close>)

lemma blocked_committed:
  assumes "blocked now cf s"
  shows "blocked now cf (reconcile_committed (clock_now s) actor (RECONCILE_BUDGET (conf s)) s)"
proof -
  let ?t = "clock_now s" and ?n = "RECONCILE_BUDGET (conf s)"
  have s: "installed s" "conf s = cf" "now \<le> ?t" "?n < length (filter (no_show_due now) (bookings s))"
    using assms by (auto simp: blocked_def)
  show ?thesis
  proof (cases "reconcile_expired_approvals ?t ?n actor s")
    case (Inl e)
    with assms show ?thesis by (simp add: reconcile_committed_def)
  next
    case (Inr x)
    then obtain k s1 where e1: "reconcile_expired_approvals ?t ?n actor s = Inr (k, s1)" by (cases x) auto
    then have "length (filter (approval_expired ?t) (bookings s)) \<le> ?n"
      by (auto simp: reconcile_expired_approvals_def over_budget_def Let_def split: if_splits)
    from expired_run [OF installedD(1) [OF s(1)] this, of actor] e1
    have b1: "bookings s1 = map (\<lambda>b. if approval_expired ?t b then set_expired b else b) (bookings s)"
      and p: "plain s s1" by auto
    have cnt: "length (filter (no_show_due t') (bookings s1)) = length (filter (no_show_due t') (bookings s))" for t'
      unfolding b1 by (rule count_map) (auto simp: due_defs reconcile_writes)
    have "?n < length (filter (no_show_due ?t) (bookings s1))"
      using s(4) filter_mono_length [of "no_show_due now" "no_show_due ?t" "bookings s"] no_show_due_later [OF _ s(3)]
      by (simp add: cnt)
    then have "reconcile_no_shows ?t ?n actor s1 = Inl ReconciliationBacklog"
      by (simp add: reconcile_no_shows_def over_budget_def Let_def)
    with e1 have c: "reconcile_committed ?t actor ?n s = s1" by (simp add: reconcile_committed_def)
    have "installed s1" "conf s1 = cf" using committed_keeps [OF s(1), of ?t actor ?n] s(2) c by (auto simp: advances_def)
    moreover have "clock_now s1 = ?t" using p quiet_facts(7) by (simp add: plain_def)
    ultimately show ?thesis unfolding c using s(2,3,4) by (simp add: blocked_def cnt)
  qed
qed

lemma blocked_step:
  assumes "system_step digest s s'" "blocked now cf s"
  shows "blocked now cf s'"
  using assms(1)
proof cases
  case (operation service lock actor name payload key r)
  note stuck = blocked_backlog [OF assms(2), of actor]
  from operation(2) show ?thesis
    by (cases rule: run_once_cases) (use stuck assms(2) blocked_committed [OF assms(2)] in auto)
next
  case (time t w)
  have "installed s'" using system_step_keeps [OF assms(1)] assms(2) by (auto simp: blocked_def)
  with time assms(2) show ?thesis by (auto simp: blocked_def)
next
  case (tick d s1 n)
  with blocked_backlog [OF assms(2), of None] show ?thesis by simp
next
  case (prune days n)
  have "installed s'" using system_step_keeps [OF assms(1)] assms(2) by (auto simp: blocked_def)
  with prune assms(2) show ?thesis by (auto simp: blocked_def prune_operation_requests_def Let_def)
next
  case deliver
  have "installed s'" using system_step_keeps [OF assms(1)] assms(2) by (auto simp: blocked_def)
  with delivery_frame [OF deliver] assms(2) show ?thesis by (auto simp: blocked_def)
next
  case account
  have "installed s'" using system_step_keeps [OF assms(1)] assms(2) by (auto simp: blocked_def)
  with account_step_safe [OF account] assms(2) show ?thesis by (auto simp: blocked_def account_safe_def elsewhere_def)
next
  case seed
  have "installed s'" using system_step_keeps [OF assms(1)] assms(2) by (auto simp: blocked_def)
  with ensure_rooms_elsewhere [OF seed] assms(2) show ?thesis by (auto simp: blocked_def elsewhere_def)
next
  case import_file
  have "installed s'" using system_step_keeps [OF assms(1)] assms(2) by (auto simp: blocked_def)
  with import_rows_elsewhere [OF import_file] assms(2) show ?thesis by (auto simp: blocked_def elsewhere_def)
next
  case retire_missing
  have "installed s'" using system_step_keeps [OF assms(1)] assms(2) by (auto simp: blocked_def)
  with deactivate_missing_elsewhere [OF retire_missing] assms(2) show ?thesis by (auto simp: blocked_def elsewhere_def)
qed

section \<open>Repeated requests\<close>

lemma prior_request_stored:
  assumes "prior_request s u operation k = None" "or_user q = u" "or_operation q = operation" "or_key q = k"
  shows "prior_request (t\<lparr>op_requests := op_requests s @ [q]\<rparr>) u operation k = Some q"
  using assms by (simp add: prior_request_def find_append)

lemma run_once_prior:
  assumes "acquire_control_lock lock = Inr ()" "reconcile (clock_now t) actor None t = Inr (d, t1)"
    "keyed key actor = Some (k, u)" "prior_request t1 u operation k = Some p"
  shows "run_once digest lock actor operation payload body key t =
    (if or_payload_fingerprint p \<noteq> fingerprint_payload digest payload
     then Inr (reject Code_IDEMPOTENCY_PAYLOAD_MISMATCH [], t1) else Inr (replay (or_result p), t1))"
  using assms by (simp add: run_once_def Let_def)

text \<open>A success leaves its record behind, whichever way it was reached.\<close>

lemma success_recorded:
  assumes m: "mutation service" and s: "installed s" and key: "keyed key actor = Some (k, u)"
    and run: "run_once digest lock actor operation payload (answering service) key s = Inr (r, s')" and ok: "ok r"
  shows "\<exists>p. prior_request s' u operation k = Some p
    \<and> or_payload_fingerprint p = fingerprint_payload digest payload
    \<and> rec_code (or_result p) = code r \<and> rec_data (or_result p) = data r"
  using run
proof (cases rule: run_once_cases)
  case (prior d k' u' p)
  with ok key show ?thesis by (auto split: if_splits)
next
  case (ran d s1 r0 s2)
  have s1: "installed s1" using reconcile_keeps [OF s ran(2)] by blast
  note body = mutation_service [OF m]
  note st = service_body.stored [OF body s1 ran(4), of key actor operation "fingerprint_payload digest payload", OF ran(3)]
  note eq = trans [OF ran(5) st]
  have r: "r = r0" using eq by simp
  have keep: "op_requests s2 = op_requests s1" using service_body.in_savepoint [OF body s1 ran(4)] by simp
  have "s' = s2\<lparr>op_requests := op_requests s2 @ [\<lparr>or_user = u, or_operation = operation, or_key = k,
       or_payload_fingerprint = fingerprint_payload digest payload, or_result = as_record r0, or_created_at = wall_now s2\<rparr>]\<rparr>"
    using eq ok key r by simp
  then have "prior_request s' u operation k = Some \<lparr>or_user = u, or_operation = operation, or_key = k,
       or_payload_fingerprint = fingerprint_payload digest payload, or_result = as_record r0, or_created_at = wall_now s2\<rparr>"
    using prior_request_stored [OF ran(3) [OF key]] keep by simp
  then show ?thesis using r by (simp add: as_record_def)
qed (use ok in simp_all)

section \<open>Properties\<close>

text \<open>C1: No double booking, whatever the services, the scheduler and the delivery worker do and in
  whatever order. From an installed database, no reachable one has two rows that occupy the same room
  in the same hour, nor two rows of one person (staff holds aside) in the same or in neighbouring hours.\<close>

theorem no_double_booking:
  assumes "installed s" "reachable digest s s'" "a \<in> set (bookings s')" "b \<in> set (bookings s')"
    "b_status a \<in> set BLOCKING_STATUSES" "b_status b \<in> set BLOCKING_STATUSES"
    "(b_room a = b_room b \<and> b_slot_start a = b_slot_start b)
     \<or> (b_user a = b_user b \<and> \<not> b_is_staff_booking a \<and> \<not> b_is_staff_booking b
        \<and> \<bar>b_slot_start a - b_slot_start b\<bar> \<in> {0, us_hour})"
  shows "a = b"
proof (rule ccontr)
  assume ne: "a \<noteq> b"
  have wf: "well_formed s'" using reachable_keeps [OF assms(2,1)] installedD(3) by blast
  note ok = well_formedD [OF wf]
  have pk: "b_pk a \<noteq> b_pk b" using bookings_ok_unique [OF ok(1) assms(3,4)] ne by blast
  have free: "\<not> same_room_slot a b" "\<not> same_user_slot a b"
    using ok(1) assms(3,4) pk by (auto simp: bookings_ok_def)
  have adj: "\<not> adjacent_pair a b" "\<not> adjacent_pair b a" using ok(2) assms(3,4) by (auto simp: no_adjacent_def)
  have occ: "occupies_slot a" "occupies_slot b" using assms(5,6) by (simp_all add: occupies_slot_def)
  show False
    using assms(7)
  proof (elim disjE conjE)
    assume "b_room a = b_room b" "b_slot_start a = b_slot_start b"
    with free(1) occ show False by (simp add: same_room_slot_def)
  next
    assume u: "b_user a = b_user b" "\<not> b_is_staff_booking a" "\<not> b_is_staff_booking b"
      and d: "\<bar>b_slot_start a - b_slot_start b\<bar> \<in> {0, us_hour}"
    from d consider "b_slot_start a = b_slot_start b" | "b_slot_start a = b_slot_start b + us_hour"
      | "b_slot_start b = b_slot_start a + us_hour" by fastforce
    then show False
      by cases (use free(2) adj occ u in \<open>simp_all add: same_user_slot_def adjacent_pair_def\<close>)
  qed
qed

text \<open>C2: Nothing rewrites history. Along every run of the system a booking keeps its owner, hour,
  source and staff flag; once it is completed, forfeited, cancelled or rejected it keeps that status
  and its room for ever, and once it is in use it never goes back to waiting or cancelled.\<close>

theorem history_is_kept:
  assumes "installed s" "reachable digest s s'" "b \<in> set (bookings s)"
  shows "\<exists>b' \<in> set (bookings s'). b_pk b' = b_pk b \<and> b_user b' = b_user b \<and> b_slot_start b' = b_slot_start b
    \<and> b_source b' = b_source b \<and> b_is_staff_booking b' = b_is_staff_booking b
    \<and> (b_status b \<in> {COMPLETED, NO_SHOW, CANCELLED, REJECTED} \<longrightarrow> b_status b' = b_status b \<and> b_room b' = b_room b)
    \<and> (b_status b = IN_USE \<longrightarrow> b_status b' \<in> {IN_USE, COMPLETED} \<and> b_room b' = b_room b)"
proof -
  from reachable_keeps [OF assms(2,1)] assms(3) obtain b' where b': "b' \<in> set (bookings s')" "row_evolves b b'"
    by (auto simp: evolves_def)
  have over: "b_status b' = b_status b" if "b_status b \<in> {COMPLETED, NO_SHOW, CANCELLED, REJECTED}"
    using lifecycle_terminal [of "b_status b" "b_status b'"] b'(2) that by (auto simp: row_evolves_def terminal_status_def)
  have use: "b_status b' \<in> {IN_USE, COMPLETED}" if "b_status b = IN_USE"
  proof -
    have "lifecycle\<^sup>*\<^sup>* IN_USE (b_status b')" using b'(2) that by (simp add: row_evolves_def)
    then show ?thesis
      by (induction rule: rtranclp_induct) (auto simp: lifecycle_from)
  qed
  show ?thesis
    using b' over use by (intro bexI [of _ b']) (auto simp: row_evolves_def same_identity_def)
qed

text \<open>C3: A clean rejection commits the reconciliation and nothing else. When an operation that got
  the lock answers with anything but success, the database it leaves is exactly the reconciled one:
  the no-shows that made the rejection right stay recorded, and no trace of the body does.\<close>

theorem rejection_commits_reconciliation:
  assumes "mutation service" "installed s" "acquire_control_lock lock = Inr ()"
    "reconcile (clock_now s) actor None s = Inr (d, s1)"
    "run_once digest lock actor operation payload (answering service) key s = Inr (r, s')" "\<not> ok r"
  shows "s' = s1"
  using assms(5)
proof (cases rule: run_once_cases)
  case (ran d' s1' r0 s2)
  have s1: "installed s1'" using reconcile_keeps [OF assms(2) ran(2)] by blast
  note st = service_body.stored [OF mutation_service [OF assms(1)] s1 ran(4), of key actor operation
      "fingerprint_payload digest payload", OF ran(3)]
  note eq = trans [OF ran(5) st]
  have r: "r = r0" using eq by simp
  have s2: "s' = s2" using eq assms(6) r by simp
  have "s2 = s1'" using run_body_Inr [OF ran(4)] r assms(6) by blast
  with s2 ran(2) assms(4) show ?thesis by simp
qed (use assms(3,4) in simp_all)

text \<open>C4: A repeated request is answered, not run again. Once an operation has succeeded under a key,
  the same request under that key returns the recorded code and data, marked as a replay, whatever
  body it is given, and changes nothing beyond reconciliation; another payload under the key is
  refused. This holds on every later database that still has the record.\<close>

theorem repeated_request_replays:
  assumes "mutation service" "installed s" "keyed key actor = Some (k, u)"
    "run_once digest lock actor operation payload (answering service) key s = Inr (r, s')" "ok r"
    "prior_request t u operation k = prior_request s' u operation k" "installed t"
    "acquire_control_lock lock' = Inr ()" "reconcile (clock_now t) actor None t = Inr (d, t1)"
  shows "run_once digest lock' actor operation payload body key t
       = Inr (\<lparr>ok = True, code = code r, data = data r, replayed = True\<rparr>, t1)
    \<and> (fingerprint_payload digest payload' = fingerprint_payload digest payload
       \<or> run_once digest lock' actor operation payload' body key t
         = Inr (reject Code_IDEMPOTENCY_PAYLOAD_MISMATCH [], t1))"
proof -
  from success_recorded [OF assms(1-5)] obtain p where p: "prior_request s' u operation k = Some p"
    "or_payload_fingerprint p = fingerprint_payload digest payload"
    "rec_code (or_result p) = code r" "rec_data (or_result p) = data r" by blast
  have "op_requests t1 = op_requests t" using reconcile_keeps [OF assms(7,9)] by (auto simp: advances_def)
  with p(1) assms(6) have pt: "prior_request t1 u operation k = Some p" by (simp add: prior_request_def)
  from run_once_prior [OF assms(8,9,3) pt] p show ?thesis by (auto simp: replay_def)
qed

text \<open>The answer of an operation is that of one of its three attempts.\<close>

lemma three_attempts:
  "run_operation digest lock actor operation payload body key db =
    (let run = \<lambda>n. run_once digest (lock n) actor operation payload (body n) key (db n)
     in if transient (run 1) then if transient (run 2) then run 3 else run 2 else run 1)"
proof -
  let ?run = "\<lambda>n. run_once digest (lock n) actor operation payload (body n) key (db n)"
  have step: "retry_from n ?run = (if transient (?run n) \<and> n \<le> 2 then retry_from (n + 1) ?run else ?run n)" for n
    by (subst retry_from.simps) (simp add: MAX_TRANSIENT_RETRIES_def)
  have "retry_from 1 ?run = (if transient (?run 1) then if transient (?run 2) then ?run 3 else ?run 2 else ?run 1)"
    using step [of 1] step [of 2] step [of 3] by (simp add: numeral_2_eq_2 numeral_3_eq_3)
  then show ?thesis unfolding run_operation_def Let_def .
qed

lemma one_of_three:
  "\<exists>n \<in> {1, 2, 3}. run_operation digest lock actor operation payload body key db
     = run_once digest (lock n) actor operation payload (body n) key (db n)"
  unfolding three_attempts Let_def by auto

text \<open>A repeated request in full: the lock may fail, reconciliation may stop at its budget, and otherwise it is answered.\<close>

lemma recorded_request:
  assumes "installed t" "keyed key actor = Some (k, u)" "prior_request t u operation k = Some p"
    "or_payload_fingerprint p = fingerprint_payload digest payload"
  shows "(\<exists>chain. run_once digest lock actor operation payload body key t = Inl (OperationalError chain))
    \<or> (\<exists>d t1. reconcile (clock_now t) actor None t = Inr (d, t1)
        \<and> run_once digest lock actor operation payload body key t = Inr (replay (or_result p), t1))
    \<or> (\<exists>t1 \<in> {t, reconcile_committed (clock_now t) actor (RECONCILE_BUDGET (conf t)) t}.
        run_once digest lock actor operation payload body key t = Inr (reject Code_BUSY [], t1))"
proof -
  consider "acquire_control_lock lock = Inr ()" | "acquire_control_lock lock = Inl LockUnavailable"
    | c where "acquire_control_lock lock = Inl (OperationalError c)" using acquire_cases [of lock] by blast
  then show ?thesis
  proof cases
    case 1
    show ?thesis
    proof (cases "reconcile (clock_now t) actor None t")
      case (Inl e)
      note i = installedD(1,2) [OF assms(1)]
      have "e = ReconciliationBacklog"
      proof (cases "within_budget (clock_now t) (budget_of t None) t")
        case True
        from reconcile_run [OF i this, of actor] Inl show ?thesis by simp
      next
        case False
        from reconcile_backlog [OF i this, of actor] Inl show ?thesis by simp
      qed
      with 1 Inl show ?thesis by (simp add: run_once_def Let_def)
    next
      case (Inr x)
      then obtain d t1 where rec: "reconcile (clock_now t) actor None t = Inr (d, t1)" by (cases x) auto
      have "op_requests t1 = op_requests t" using reconcile_keeps [OF assms(1) rec] by (auto simp: advances_def)
      with assms(3) have "prior_request t1 u operation k = Some p" by (simp add: prior_request_def)
      from run_once_prior [OF 1 rec assms(2) this] assms(4) rec show ?thesis by simp
    qed
  qed (simp_all add: run_once_def)
qed



text \<open>C17: A backlog never clears by itself. Once more no-shows are due than the budget allows, then after
  any further run of the system, scheduler ticks and the passing of time included, every operation of
  everybody answers BUSY and the scheduler's own reconciliation raises as well: it works under the
  same budget, so nothing in the program ever brings the number down again.\<close>

theorem backlog_is_permanent:
  assumes "installed s" "RECONCILE_BUDGET (conf s) < length (filter (no_show_due (clock_now s)) (bookings s))"
    "reachable digest s s'" "acquire_control_lock lock = Inr ()"
  shows "(\<exists>t. run_once digest lock actor operation payload body key s' = Inr (reject Code_BUSY [], t))
    \<and> reconcile (clock_now s') None None s' = Inl ReconciliationBacklog"
proof -
  have "blocked (clock_now s) (conf s) s" using assms(1,2) by (simp add: blocked_def)
  with assms(3) have "blocked (clock_now s) (conf s) s'"
    unfolding reachable_def by (induction rule: rtranclp_induct) (auto intro: blocked_step)
  from blocked_backlog [OF this] assms(4) show ?thesis by (simp add: run_once_def Let_def)
qed

section \<open>A run\<close>

lemma missed_installed: "installed missed_st"
  using missed_st_facts(1,2) by (simp add: installed_def)

lemma reachable_refl: "reachable digest s s"
  by (simp add: reachable_def)

theorem no_double_booking_witness:
  "\<exists>a b. a \<in> set (bookings missed_st) \<and> b \<in> set (bookings missed_st) \<and> a = b"
proof -
  let ?b = "sample_booking 1 1 1 10 SCHEDULED"
  have "b_status ?b \<in> set BLOCKING_STATUSES" by (simp add: sample_booking_def)
  with no_double_booking [OF missed_installed reachable_refl [where digest = id] missed_st_facts(4) missed_st_facts(4)]
    missed_st_facts(4) show ?thesis by blast
qed

theorem history_is_kept_witness:
  "\<exists>b' \<in> set (bookings missed_st). b_pk b' = 1"
  using history_is_kept [OF missed_installed reachable_refl [where digest = id] missed_st_facts(4)]
  by (auto simp: sample_booking_def)

lemma quiet_morning: "\<exists>d s1. reconcile (at 9 0) (Some u) None (one_booking_st (at 9 0) SCHEDULED) = Inr (d, s1)"
proof -
  let ?s = "one_booking_st (at 9 0) SCHEDULED"
  have "within_budget (at 9 0) (budget_of ?s None) ?s"
    by (simp add: within_budget_def budget_of_def one_booking_st_def sample_st_def default_settings_def)
  with reconcile_run [OF installedD(1) [OF open_installed] installedD(2) [OF open_installed]] show ?thesis by blast
qed

lemma clock_one [simp]: "clock_now (one_booking_st t x) = t"
  by (simp add: one_booking_st_def sample_st_def)

text \<open>Bob, who is no member of staff, asks for a staff booking at nine.\<close>

lemma bob_refused: "answering (create_staff_booking room_a d a b) \<lparr>ctx_now = t, ctx_actor = Some bob, ctx_payload = p\<rparr> s
    = Inl (rejected Code_NOT_ELIGIBLE [])"
proof -
  have "\<not> is_booking_staff (Some bob)" by (simp add: is_booking_staff_def sample_defs)
  then show ?thesis by (simp add: answering_def create_staff_booking_def)
qed

theorem rejection_commits_reconciliation_witness:
  "\<exists>d s1. reconcile (at 9 0) (Some bob) None (one_booking_st (at 9 0) SCHEDULED) = Inr (d, s1)
    \<and> run_once id None (Some bob) ''staff_booking'' [] (answering (create_staff_booking room_a monday 10 12)) None
        (one_booking_st (at 9 0) SCHEDULED) = Inr (reject Code_NOT_ELIGIBLE [], s1)"
proof -
  let ?s = "one_booking_st (at 9 0) SCHEDULED"
  let ?run = "run_once id None (Some bob) ''staff_booking'' [] (answering (create_staff_booking room_a monday 10 12)) None ?s"
  from quiet_morning obtain d s1 where rec: "reconcile (at 9 0) (Some bob) None ?s = Inr (d, s1)" by blast
  have lock: "acquire_control_lock None = Inr ()" by (simp add: acquire_control_lock_def)
  obtain s' where run: "?run = Inr (reject Code_NOT_ELIGIBLE [], s')"
    using rec lock
    by (simp add: run_once_def Let_def keyed_def run_body_def bob_refused rejected_def reject_def bindE_def)
  have "s' = s1"
    by (rule rejection_commits_reconciliation [OF mutation.create_staff open_installed lock _ run, simplified, OF rec])
  with rec run show ?thesis by blast
qed

text \<open>Alice's cancellation under the key \<open>k1\<close> has succeeded before; she sends it again.\<close>

definition repeat_st :: st where
  "repeat_st = (one_booking_st (at 9 0) SCHEDULED)\<lparr>op_requests := [\<lparr>or_user = 1, or_operation = ''cancel'',
     or_key = ''k1'', or_payload_fingerprint = fingerprint_payload id [(''booking_id'', PNat 1)],
     or_result = as_record (success [(''booking_id'', PNat 1)]), or_created_at = at 8 30\<rparr>]\<rparr>"

lemma repeat_installed: "installed repeat_st"
  unfolding repeat_st_def by (rule iffD2 [OF installed_requests open_installed])

theorem repeated_request_replays_witness:
  "\<exists>t1. run_once id None (Some alice) ''cancel'' [(''booking_id'', PNat 1)] (answering (cancel_booking 1 '''' False))
      (Some ''k1'') repeat_st
    = Inr (\<lparr>ok = True, code = Code_OK, data = [(''booking_id'', PNat 1)], replayed = True\<rparr>, t1)"
proof -
  let ?p = "[(''booking_id'', PNat 1)]"
  let ?run = "run_once id None (Some alice) ''cancel'' ?p (answering (cancel_booking 1 '''' False)) (Some ''k1'') repeat_st"
  note i = installedD [OF repeat_installed]
  have clock: "clock_now repeat_st = at 9 0" by (simp add: repeat_st_def)
  have "within_budget (at 9 0) (budget_of repeat_st None) repeat_st"
    by (simp add: within_budget_def budget_of_def repeat_st_def one_booking_st_def sample_st_def default_settings_def)
  with reconcile_run [OF i(1,2)] obtain d s1 where rec: "reconcile (at 9 0) (Some alice) None repeat_st = Inr (d, s1)" by blast
  have lock: "acquire_control_lock None = Inr ()" by (simp add: acquire_control_lock_def)
  have key: "keyed (Some ''k1'') (Some alice) = Some (''k1'', 1)" by (simp add: keyed_def sample_defs)
  have same: "op_requests s1 = op_requests repeat_st" using reconcile_keeps [OF repeat_installed rec] by (auto simp: advances_def)
  then obtain q where q: "prior_request s1 1 ''cancel'' ''k1'' = Some q" "or_payload_fingerprint q = fingerprint_payload id ?p"
    "replay (or_result q) = \<lparr>ok = True, code = Code_OK, data = ?p, replayed = True\<rparr>"
    by (simp add: prior_request_def repeat_st_def as_record_def success_def replay_def)
  have run: "?run = Inr (\<lparr>ok = True, code = Code_OK, data = ?p, replayed = True\<rparr>, s1)"
    using run_once_prior [OF lock rec [folded clock] key q(1)] q(2,3) by simp
  have prior: "prior_request repeat_st 1 ''cancel'' ''k1'' = prior_request s1 1 ''cancel'' ''k1''"
    using same by (simp add: prior_request_def)
  have "ok \<lparr>ok = True, code = Code_OK, data = ?p, replayed = True\<rparr>" by simp
  from repeated_request_replays [OF mutation.cancel repeat_installed key run this prior repeat_installed lock rec [folded clock],
      where body = "answering (cancel_booking 1 '''' False)"]
  show ?thesis by simp
qed



text \<open>With a budget of nothing, Alice's missed hour is already a backlog.\<close>

definition swamped_st :: st where "swamped_st = missed_st\<lparr>conf := default_settings\<lparr>RECONCILE_BUDGET := 0\<rparr>\<rparr>"

lemma swamped_installed: "installed swamped_st"
proof -
  have e: "policies swamped_st = []" "violations swamped_st = []" "suspensions swamped_st = []"
    "bookings swamped_st = bookings missed_st" "conf swamped_st = default_settings\<lparr>RECONCILE_BUDGET := 0\<rparr>"
    by (simp_all add: swamped_st_def missed_st_def one_booking_st_def sample_st_def)
  have "policy_sane swamped_st"
    by (simp add: policy_sane_def current_policy_def latest_policy_def initial_policy_def order_by_desc_def e
        strike_window_days_def auto_suspension_days_def snapshot_int_def snapshot_from_settings_def default_settings_def)
  moreover have "well_formed (missed_st\<lparr>conf := c\<rparr>) = well_formed missed_st" for c
    by (simp add: well_formed_def bookings_ok_def no_adjacent_def requests_advance_def keys_unique_def)
  then have "well_formed swamped_st" using installedD(3) [OF missed_installed] by (simp add: swamped_st_def)
  ultimately show ?thesis by (simp add: installed_def sound_def sanctions_ok_def forfeits_def e)
qed

theorem backlog_is_permanent_witness:
  "reconcile (clock_now swamped_st) None None swamped_st = Inl ReconciliationBacklog"
proof -
  have "RECONCILE_BUDGET (conf swamped_st) < length (filter (no_show_due (clock_now swamped_st)) (bookings swamped_st))"
    by (simp add: no_show_due_def swamped_st_def missed_st_def one_booking_st_def sample_st_def
        sample_booking_def at_def us_defs slot_start_for_def)
  from backlog_is_permanent [OF swamped_installed this reachable_refl [where digest = id], of None]
  show ?thesis by (simp add: acquire_control_lock_def)
qed

section \<open>Where an activation link is kept\<close>

lemma invite_rejected: "invite_account digest raw new_id email name actor staff teacher reason s = Inl (OperationRejected r) \<Longrightarrow> \<not> ok r"
  by (auto simp: invite_account_def invited_user_def create_user_def create_invitation_cases Let_def bindE_Inl rejected_def
      split: if_splits option.splits)

lemma classify_not_ok [simp]: "\<not> ok (classify_integrity_error n)"
  by (simp add: classify_integrity_error_def)

text \<open>C34: The raw activation link outlives the page that shows it. When staff invite an account with an operation key, the record
  that answers a repeated request holds the link, with the token of which the invitation itself keeps only a digest, and
  it is in the database when the operation returns.\<close>

theorem activation_link_is_stored:
  assumes "installed s" "keyed key actor = Some (k, u)" "ok r" "\<not> replayed r"
    "run_once digest lock actor operation payload (answering (invite_body digest site path raw new_id email name staff teacher)) key s
      = Inr (r, s')"
  shows "\<exists>q \<in> set (op_requests s'). or_user q = u \<and> or_key q = k
    \<and> (''link'', PStr (activation_link site path raw)) \<in> set (rec_data (or_result q))"
proof -
  from success_recorded [OF mutation.invite assms(1,2,5,3)] obtain q where
    q: "prior_request s' u operation k = Some q" "rec_data (or_result q) = data r" by blast
  then have m: "q \<in> set (op_requests s')" "or_user q = u" "or_key q = k" by (auto simp: prior_request_def find_Some_iff)
  have "(''link'', PStr (activation_link site path raw)) \<in> set (data r)"
    using assms(5)
  proof (cases rule: run_once_cases)
    case (prior d k' u' p)
    with assms(3,4) show ?thesis by (simp split: if_splits)
  next
    case (ran d s1 r0 s2)
    have "installed s1" using reconcile_keeps [OF assms(1) ran(2)] by blast
    note eq = trans [OF ran(5) service_body.stored [OF mutation_service [OF mutation.invite] this ran(4),
        of key actor operation "fingerprint_payload digest payload", OF ran(3)]]
    then have "r = r0" by simp
    with ran(4) assms(3) show ?thesis
      by (auto simp: run_body_def answering_def invite_body_def bindE_Inr bindE_Inl dest: invite_rejected split: sum.splits exn.splits if_splits)
  qed (use assms(3) in simp_all)
  with q(2) m show ?thesis by (intro bexI [of _ q]) simp_all
qed

theorem activation_link_is_stored_witness:
  "\<exists>r s'. run_once id None (Some staff_member) ''staff_create_invitation'' []
      (answering (invite_body id ''https://rooms/'' (\<lambda>t. ''/invite/'' @ t) ''tok'' ''t7'' ''t7@chula.ac.th'' ''Nok'' False True)) (Some ''k7'')
      (one_booking_st (at 9 0) SCHEDULED) = Inr (r, s')
    \<and> (\<exists>q \<in> set (op_requests s'). or_key q = ''k7'' \<and> (''link'', PStr ''https://rooms/invite/tok'') \<in> set (rec_data (or_result q)))"
proof -
  let ?run = "run_once id None (Some staff_member) ''staff_create_invitation'' []
      (answering (invite_body id ''https://rooms/'' (\<lambda>t. ''/invite/'' @ t) ''tok'' ''t7'' ''t7@chula.ac.th'' ''Nok'' False True)) (Some ''k7'')
      (one_booking_st (at 9 0) SCHEDULED)"
  have "case ?run of Inl _ \<Rightarrow> False | Inr (r, _) \<Rightarrow> ok r \<and> \<not> replayed r" by code_simp
  then obtain r s' where run: "?run = Inr (r, s')" and r: "ok r" "\<not> replayed r"
    by (cases ?run) (auto split: prod.splits)
  have key: "keyed (Some ''k7'') (Some staff_member) = Some (''k7'', 9)" by (simp add: keyed_def sample_defs)
  have "activation_link ''https://rooms/'' (\<lambda>t. ''/invite/'' @ t) ''tok'' = ''https://rooms/invite/tok''"
    by (simp add: activation_link_def)
  with activation_link_is_stored [OF open_installed key r run] run show ?thesis by auto
qed

end
