(* ===== verification/Availability.thy ===== *)
theory Availability
  imports Attendance
begin

text \<open>
  The read models of the public pages (\<open>core/services/availability.py\<close>): the state of every hour
  of a room, the grid, the cell of the hour in progress, the lists of My bookings and the status board
  of the home page. Nothing here writes. A dictionary a page builds is a function of its key, or a
  record of its fields. Then: which hours the grid offers are exactly those a reservation accepts.
\<close>

section \<open>Cells\<close>

datatype slot_state = State_PAST | State_CLOSED | State_IN_USE | State_HELD | State_COMPLETED | State_FREE_NOW
  | State_BOOKABLE | State_RESTRICTED | State_VIEW_ONLY | State_TAKEN | State_OUTSIDE_HORIZON

record slot_cell =
  sc_room :: room
  sc_slot_start :: time
  sc_slot_end :: time
  sc_state :: slot_state
  sc_booking :: "booking option"
  sc_is_mine :: bool
  sc_remaining_minutes :: int
  sc_closed_reason :: string
  sc_block_reason :: string

definition is_current :: "slot_cell \<Rightarrow> bool" where
  "is_current c = (sc_state c \<in> {State_IN_USE, State_HELD, State_FREE_NOW, State_COMPLETED})"

definition slot_key :: "slot_cell \<Rightarrow> string" where
  "slot_key c = encode_slot (sc_slot_start c)"

definition can_reserve :: "slot_cell \<Rightarrow> bool" where
  "can_reserve c = (sc_state c = State_BOOKABLE)"

definition can_use_now :: "slot_cell \<Rightarrow> bool" where
  "can_use_now c = (sc_state c = State_FREE_NOW \<and> \<not> r_requires_approval (sc_room c)
     \<and> \<not> r_members_only (sc_room c))"

definition is_short :: "slot_cell \<Rightarrow> bool" where
  "is_short c = (sc_state c = State_FREE_NOW \<and> sc_remaining_minutes c < 5)"

text \<open>A cell built with the defaults of the class.\<close>

definition closed_cell :: "room \<Rightarrow> time \<Rightarrow> slot_cell" where
  "closed_cell room start = \<lparr>sc_room = room, sc_slot_start = start, sc_slot_end = slot_end_for start,
     sc_state = State_CLOSED, sc_booking = None, sc_is_mine = False, sc_remaining_minutes = 0,
     sc_closed_reason = '''', sc_block_reason = ''''\<rparr>"

section \<open>What the page looks up\<close>

text \<open>In a dictionary filled in a loop the last entry of a key wins.\<close>

definition bookings_by_slot :: "st \<Rightarrow> date \<Rightarrow> nat list \<Rightarrow> nat \<times> time \<Rightarrow> booking option" where
  "bookings_by_slot s d room_ids = map_of (rev (map (\<lambda>b. ((b_room b, b_slot_start b), b))
     (order_by_desc b_slot_start (filter (\<lambda>b. b_slot_date b = d \<and> b_room b \<in> set room_ids
        \<and> b_status b \<in> set BLOCKING_STATUSES) (bookings s)))))"

definition closures_for :: "st \<Rightarrow> date \<Rightarrow> nat option \<Rightarrow> closure list" where
  "closures_for s d room_pk =
     (let day_start = slot_start_for d 0; day_end = day_start + 24 * us_hour in
      filter (\<lambda>c. c_room c = room_pk) (order_by_desc c_starts_at (filter
        (\<lambda>c. c_revoked_at c = None \<and> c_starts_at c < day_end \<and> c_ends_at c > day_start) (closures s))))"

definition closure_reason_for :: "room \<Rightarrow> time \<Rightarrow> time \<Rightarrow> (nat option \<Rightarrow> closure list) \<Rightarrow> string" where
  "closure_reason_for room slot_start slot_end closure_map =
     (let overlaps = (\<lambda>c. c_starts_at c < slot_end \<and> c_ends_at c > slot_start) in
      case first_row (filter overlaps (closure_map None)) of
        Some c \<Rightarrow> c_reason c
      | None \<Rightarrow> (case first_row (filter overlaps (closure_map (Some (r_pk room)))) of
          Some c \<Rightarrow> c_reason c | None \<Rightarrow> ''''))"

definition block_reason_for :: "room \<Rightarrow> time \<Rightarrow> (nat \<Rightarrow> weekly_block list) \<Rightarrow> string" where
  "block_reason_for room slot_start block_map =
     (let hour = local_hour slot_start in
      case first_row (filter (\<lambda>w. wb_start_hour w \<le> hour \<and> hour < wb_end_hour w) (block_map (r_pk room))) of
        Some w \<Rightarrow> wb_reason w | None \<Rightarrow> '''')"

text \<open>An empty reason counts as no closure and no class: the code tests the text.\<close>

definition classify :: "time \<Rightarrow> time \<Rightarrow> time \<Rightarrow> bool \<Rightarrow> bool \<Rightarrow> string \<Rightarrow> booking option \<Rightarrow> date
    \<Rightarrow> string \<Rightarrow> bool \<Rightarrow> bool \<Rightarrow> slot_state" where
  "classify now slot_start slot_end room_active day_closed closed_reason booking horizon_last
      block_reason can_reserve_here availability_only =
    (if slot_end \<le> now then State_PAST
     else if \<not> room_active \<or> day_closed \<or> closed_reason \<noteq> '''' then State_CLOSED
     else case booking of
       Some b \<Rightarrow>
         if b_status b = PENDING_APPROVAL then State_HELD
         else if b_status b = COMPLETED then State_COMPLETED
         else if b_status b = IN_USE then State_IN_USE
         else if (case b_deadline b of None \<Rightarrow> False | Some deadline \<Rightarrow> slot_start \<le> now \<and> now < deadline)
         then State_HELD
         else State_TAKEN
     | None \<Rightarrow>
         if block_reason \<noteq> '''' then State_CLOSED
         else if availability_only then State_VIEW_ONLY
         else if slot_start \<le> now then State_FREE_NOW
         else if local_date slot_start \<le> horizon_last
         then (if can_reserve_here then State_BOOKABLE else State_RESTRICTED)
         else State_OUTSIDE_HORIZON)"

definition column_starts :: "st \<Rightarrow> date \<Rightarrow> time list" where
  "column_starts s d = (case day_hours s d of
       None \<Rightarrow> day_slot_starts (conf s) d None None
     | Some (open_hour, close_hour) \<Rightarrow> day_slot_starts (conf s) d (Some open_hour) (Some close_hour))"

definition room_day_cells :: "st \<Rightarrow> room \<Rightarrow> date \<Rightarrow> time \<Rightarrow> user option
    \<Rightarrow> (nat option \<Rightarrow> closure list) option \<Rightarrow> (nat \<Rightarrow> weekly_block list) option
    \<Rightarrow> category option \<Rightarrow> nat set \<Rightarrow> slot_cell list" where
  "room_day_cells s room d now user closure_map block_map viewer_category members =
    (let closure_map = (case closure_map of Some m \<Rightarrow> m | None \<Rightarrow> closures_for s d);
         block_map = (case block_map of Some m \<Rightarrow> m | None \<Rightarrow> weekly_blocks_for_date s d [r_pk room]);
         closed = (day_hours s d = None);
         lookup = bookings_by_slot s d [r_pk room];
         horizon_last = local_date now + HORIZON_DAYS (conf s);
         can_reserve_here = admits s room viewer_category members in
     map (\<lambda>slot_start.
        let slot_end = slot_end_for slot_start;
            booking = lookup (r_pk room, slot_start);
            reason = closure_reason_for room slot_start slot_end closure_map;
            block_reason = block_reason_for room slot_start block_map
        in \<lparr>sc_room = room, sc_slot_start = slot_start, sc_slot_end = slot_end,
            sc_state = classify now slot_start slot_end (r_is_active room) closed reason booking horizon_last
              block_reason can_reserve_here (r_availability_only room),
            sc_booking = booking,
            sc_is_mine = (case booking of None \<Rightarrow> False | Some b \<Rightarrow> Some (b_user b) = actor_pk user),
            sc_remaining_minutes = remaining_minutes now slot_end,
            sc_closed_reason = reason, sc_block_reason = block_reason\<rparr>)
       (column_starts s d))"

section \<open>The grid and the pages of one viewer\<close>

text \<open>\<open>columns\<close> and \<open>day_closed\<close> are missing from the dictionary of an empty grid.\<close>

record grid =
  gr_rooms :: "room list"
  gr_rows :: "(room \<times> slot_cell list) list"
  gr_columns :: "time list option"
  gr_local_date :: date
  gr_day_closed :: "bool option"

definition listed_rooms :: "st \<Rightarrow> int option \<Rightarrow> string \<Rightarrow> string \<Rightarrow> room list" where
  "listed_rooms s capacity_min equipment_query room_number =
     order_by (\<lambda>r. (r_position r, r_number r)) (filter (\<lambda>r. r_is_active r
       \<and> (room_number \<noteq> '''' \<longrightarrow> r_number r = room_number)
       \<and> (case capacity_min of None \<Rightarrow> True | Some n \<Rightarrow> n \<noteq> 0 \<longrightarrow> n \<le> r_capacity r)
       \<and> (equipment_query \<noteq> '''' \<longrightarrow> contains (lower equipment_query) (lower (r_equipment r)))) (rooms s))"

definition public_grid :: "st \<Rightarrow> date \<Rightarrow> time \<Rightarrow> user option \<Rightarrow> int option \<Rightarrow> string \<Rightarrow> string \<Rightarrow> grid" where
  "public_grid s d now user capacity_min equipment_query room_number =
    (let shown = listed_rooms s capacity_min equipment_query room_number in
     if shown = [] then \<lparr>gr_rooms = [], gr_rows = [], gr_columns = None, gr_local_date = d, gr_day_closed = None\<rparr>
     else
      let closure_map = closures_for s d;
          block_map = weekly_blocks_for_date s d (map r_pk shown);
          columns = column_starts s d;
          viewer_category = category_for_user s user;
          members = member_room_ids s user;
          row = (\<lambda>room. let cells = room_day_cells s room d now user (Some closure_map) (Some block_map)
                     viewer_category members
                 in (room, map (\<lambda>start. case first_row (filter (\<lambda>c. sc_slot_start c = start) (rev cells)) of
                     Some c \<Rightarrow> c | None \<Rightarrow> closed_cell room start) columns))
      in \<lparr>gr_rooms = shown, gr_rows = map row shown, gr_columns = Some columns, gr_local_date = d,
          gr_day_closed = Some (day_hours s d = None)\<rparr>)"

definition my_upcoming :: "st \<Rightarrow> nat \<Rightarrow> time \<Rightarrow> nat \<Rightarrow> booking list" where
  "my_upcoming s user_pk now limit = take limit (order_by b_slot_start (filter
     (\<lambda>b. b_user b = user_pk \<and> b_slot_end b > now \<and> b_status b \<notin> {CANCELLED, REJECTED}) (bookings s)))"

definition my_history :: "st \<Rightarrow> nat \<Rightarrow> time \<Rightarrow> int \<Rightarrow> booking list" where
  "my_history s user_pk now days = (let cutoff = now - days * us_day in
     order_by_desc b_slot_start (filter
       (\<lambda>b. b_user b = user_pk \<and> b_slot_start b < now \<and> b_slot_start b \<ge> cutoff) (bookings s)))"

definition current_slot_cell :: "st \<Rightarrow> room \<Rightarrow> time \<Rightarrow> user option \<Rightarrow> slot_cell" where
  "current_slot_cell s room now user =
    (let d = local_date now; slot_start = floor_to_slot now;
         cells = room_day_cells s room d now user None None (category_for_user s user) (member_room_ids s user)
     in case List.find (\<lambda>c. sc_slot_start c = slot_start) cells of
          Some c \<Rightarrow> c | None \<Rightarrow> closed_cell room slot_start)"

section \<open>The status board\<close>

datatype strip_kind = Strip_past | Strip_busy | Strip_free | Strip_class | Strip_closed

fun STRIP_KIND :: "slot_state \<Rightarrow> strip_kind option" where
  "STRIP_KIND State_PAST = Some Strip_past"
| "STRIP_KIND State_COMPLETED = Some Strip_past"
| "STRIP_KIND State_IN_USE = Some Strip_busy"
| "STRIP_KIND State_HELD = Some Strip_busy"
| "STRIP_KIND State_TAKEN = Some Strip_busy"
| "STRIP_KIND State_FREE_NOW = Some Strip_free"
| "STRIP_KIND State_BOOKABLE = Some Strip_free"
| "STRIP_KIND State_RESTRICTED = Some Strip_free"
| "STRIP_KIND State_OUTSIDE_HORIZON = Some Strip_free"
| "STRIP_KIND State_VIEW_ONLY = Some Strip_closed"
| "STRIP_KIND State_CLOSED = None"

definition strip_kind :: "slot_cell \<Rightarrow> strip_kind" where
  "strip_kind c = (if sc_state c = State_CLOSED
     then (if sc_block_reason c \<noteq> '''' then Strip_class else Strip_closed)
     else case STRIP_KIND (sc_state c) of Some k \<Rightarrow> k | None \<Rightarrow> Strip_closed)"

datatype room_kind = Kind_meeting | Kind_teaching | Kind_practice

definition room_kind :: "room \<Rightarrow> room_kind" where
  "room_kind room = (if r_members_only room then Kind_meeting
     else if r_requires_approval room \<or> r_availability_only room then Kind_teaching else Kind_practice)"

record status_card =
  card_room :: room
  card_kind :: room_kind
  card_now :: strip_kind
  card_strip :: "(strip_kind \<times> slot_cell) list"
  card_now_cell :: slot_cell
  card_free_until :: "time option"
  card_next_free :: "time option"
  card_next_bookable :: "slot_cell option"

text \<open>The \<open>while\<close> loop: the last hour of the run of equal kinds that starts at an index.\<close>

function run_end :: "strip_kind list \<Rightarrow> strip_kind \<Rightarrow> nat \<Rightarrow> nat" where
  "run_end kinds k i = (if i + 1 < length kinds \<and> kinds ! (i + 1) = k then run_end kinds k (i + 1) else i)"
  by auto
termination by (relation "measure (\<lambda>(kinds, k, i). length kinds - i)") auto

declare run_end.simps [simp del]

fun index_of :: "time \<Rightarrow> nat \<Rightarrow> slot_cell list \<Rightarrow> nat option" where
  "index_of current i [] = None"
| "index_of current i (c # cs) = (if sc_slot_start c = current then Some i else index_of current (i + 1) cs)"

definition card_for_row :: "time \<Rightarrow> room \<times> slot_cell list \<Rightarrow> status_card option" where
  "card_for_row current row = (let (room, cells) = row in
     case index_of current 0 cells of
       None \<Rightarrow> None
     | Some index \<Rightarrow>
       let kinds = map strip_kind cells;
           now_kind = kinds ! index;
           last_hour = run_end kinds now_kind index;
           later = drop (index + 1) cells
       in Some \<lparr>card_room = room, card_kind = room_kind room, card_now = now_kind,
            card_strip = zip kinds cells, card_now_cell = cells ! index,
            card_free_until = (if now_kind = Strip_free then Some (sc_slot_end (cells ! last_hour)) else None),
            card_next_free = (if now_kind = Strip_free then None
              else map_option (\<lambda>i. sc_slot_start (cells ! i))
                (first_row (filter (\<lambda>i. kinds ! i = Strip_free) [last_hour + 1..<length cells]))),
            card_next_bookable = first_row (filter can_reserve later)\<rparr>)"

text \<open>Python's \<open>round\<close> of a quotient with a positive divisor: a tie goes to the even neighbour. Ties fall
  on whole seconds here, where the floats are exact, and elsewhere the quotient is further from a tie
  than a float's error.\<close>

definition round_half_even :: "int \<Rightarrow> int \<Rightarrow> int" where
  "round_half_even n m = (let q = n div m; r = n mod m in
     if 2 * r < m then q else if 2 * r > m then q + 1 else if even q then q else q + 1)"

definition now_offset :: "time \<Rightarrow> (room \<times> slot_cell list) list \<Rightarrow> int" where
  "now_offset now rows =
    (let starts = (case rows of [] \<Rightarrow> [] | row # _ \<Rightarrow> map sc_slot_start (snd row)) in
     if starts = [] then 0
     else let span = slot_end_for (last starts) - hd starts
          in max 0 (min 100 (round_half_even ((now - hd starts) * 100) span)))"

record board =
  bd_cards :: "status_card list"
  bd_counts :: "(strip_kind \<times> nat) list"
  bd_groups :: "(room_kind \<times> status_card list) list"
  bd_now_offset :: int

definition status_board :: "(room \<times> slot_cell list) list \<Rightarrow> time \<Rightarrow> board option" where
  "status_board rows now = (case those (map (card_for_row (floor_to_slot now)) rows) of
       None \<Rightarrow> None
     | Some cards \<Rightarrow> Some \<lparr>bd_cards = cards,
         bd_counts = map (\<lambda>k. (k, length (filter (\<lambda>c. card_now c = k) cards)))
           [Strip_free, Strip_busy, Strip_class, Strip_closed],
         bd_groups = filter (\<lambda>(k, members). members \<noteq> [])
           (map (\<lambda>k. (k, filter (\<lambda>c. card_kind c = k) cards)) [Kind_practice, Kind_teaching, Kind_meeting]),
         bd_now_offset = now_offset now rows\<rparr>)"

section \<open>Lemmas\<close>

text \<open>What the tables hold: \<open>create_closure\<close> and the timetable of the settings give every closure and class
  a reason, and \<open>Booking.save\<close> derives the date of a row from its hour.\<close>

definition reasons_given :: "st \<Rightarrow> bool" where
  "reasons_given s \<longleftrightarrow> (\<forall>c \<in> set (closures s). c_reason c \<noteq> '''') \<and> (\<forall>w \<in> set (weekly_blocks s). wb_reason w \<noteq> '''')"

definition dates_derived :: "st \<Rightarrow> bool" where
  "dates_derived s \<longleftrightarrow> (\<forall>b \<in> set (bookings s). b_slot_date b = local_date (b_slot_start b))"

lemma column_starts_hours:
  assumes "hours_ok s"
  shows "\<exists>op cl. 0 \<le> op \<and> cl \<le> 24 \<and> column_starts s d = map (slot_start_for d) [op..cl - 1]
    \<and> (\<forall>hs. day_hours s d = Some hs \<longrightarrow> hs = (op, cl))"
proof (cases "day_hours s d")
  case None
  with assms show ?thesis
    by (intro exI [of _ "OPENING_SLOT_START_HOUR (conf s)"] exI [of _ "LAST_SLOT_START_HOUR (conf s) + 1"])
      (auto simp: column_starts_def day_slot_starts_def hours_ok_def)
next
  case (Some hs)
  then show ?thesis using day_hours_range [OF assms] day_slot_starts_hours
    by (cases hs) (fastforce simp: column_starts_def)
qed

lemma column_start_facts:
  assumes "hours_ok s" "t \<in> set (column_starts s d)"
  shows "is_hour_aligned t" "local_date t = d" "slot_start_for d 0 \<le> t" "slot_end_for t \<le> slot_start_for d 0 + 24 * us_hour"
    and "\<And>op cl. day_hours s d = Some (op, cl) \<Longrightarrow> op \<le> local_hour t \<and> local_hour t < cl"
proof -
  from column_starts_hours [OF assms(1), of d] obtain op cl where c: "0 \<le> op" "cl \<le> 24"
    "column_starts s d = map (slot_start_for d) [op..cl - 1]" "\<forall>hs. day_hours s d = Some hs \<longrightarrow> hs = (op, cl)" by blast
  with assms(2) obtain h where h: "t = slot_start_for d h" "op \<le> h" "h \<le> cl - 1" by auto
  note h = h c(1,2,4)
  show "is_hour_aligned t" "local_date t = d" using h by simp_all
  have "slot_end_for t = slot_start_for d (h + 1)" using h by (simp add: slot_end_for_slot_start)
  moreover have "slot_start_for d 0 + 24 * us_hour = slot_start_for d 24" by (simp add: slot_start_for_def)
  ultimately show "slot_start_for d 0 \<le> t" "slot_end_for t \<le> slot_start_for d 0 + 24 * us_hour"
    using h by simp_all
  show "op' \<le> local_hour t \<and> local_hour t < cl'" if "day_hours s d = Some (op', cl')" for op' cl'
    using h that by auto
qed

lemma distinct_column_starts: "hours_ok s \<Longrightarrow> distinct (column_starts s d)"
  using column_starts_hours [of s d] by (auto simp: distinct_map inj_on_def)

text \<open>The closures of the day hold every closure that meets one of its hours.\<close>

lemma closure_reason_for_blank:
  assumes "reasons_given s" "slot_start_for d 0 \<le> t" "slot_end_for t \<le> slot_start_for d 0 + 24 * us_hour"
  shows "closure_reason_for room t (slot_end_for t) (closures_for s d) = '''' \<longleftrightarrow> \<not> is_slot_closed s t (r_pk room)"
proof -
  let ?hits = "\<lambda>k. filter (\<lambda>c. c_starts_at c < slot_end_for t \<and> c_ends_at c > t) (closures_for s d k)"
  have reason: "c_reason c \<noteq> ''''" if "first_row (?hits k) = Some c" for c k
    using first_row_Some [OF that] assms(1) by (auto simp: closures_for_def Let_def reasons_given_def)
  have none: "?hits k = [] \<longleftrightarrow> (\<forall>c \<in> set (closures s). \<not> (c_room c = k \<and> c_revoked_at c = None
      \<and> c_starts_at c < slot_end_for t \<and> c_ends_at c > t))" for k
    using assms(2,3) by (fastforce simp: closures_for_def Let_def filter_empty_conv)
  have "closure_reason_for room t (slot_end_for t) (closures_for s d) = '''' \<longleftrightarrow>
      ?hits None = [] \<and> ?hits (Some (r_pk room)) = []"
    using reason [of None] reason [of "Some (r_pk room)"]
    by (auto simp: closure_reason_for_def Let_def split: option.splits)
  then show ?thesis unfolding none is_slot_closed_iff by (auto simp: closure_hits_def)
qed

lemma block_reason_for_blank:
  assumes "reasons_given s" "local_date t = d" "r_pk room \<in> set ids"
  shows "block_reason_for room t (weekly_blocks_for_date s d ids) = '''' \<longleftrightarrow> weekly_block_for s t (r_pk room) = None"
proof -
  let ?hits = "filter (\<lambda>w. wb_start_hour w \<le> local_hour t \<and> local_hour t < wb_end_hour w)
    (weekly_blocks_for_date s d ids (r_pk room))"
  have "wb_reason w \<noteq> ''''" if "first_row ?hits = Some w" for w
    using first_row_Some [OF that] assms(1,3) by (auto simp: weekly_blocks_for_date_def reasons_given_def)
  then have "block_reason_for room t (weekly_blocks_for_date s d ids) = '''' \<longleftrightarrow> ?hits = []"
    by (auto simp: block_reason_for_def Let_def split: option.splits)
  also have "\<dots> \<longleftrightarrow> weekly_block_for s t (r_pk room) = None"
    using assms(2,3) by (auto simp: weekly_blocks_for_date_def filter_empty_conv weekly_block_for_None block_covers_def)
  finally show ?thesis .
qed

lemma bookings_by_slot_None:
  assumes "dates_derived s" "local_date t = d" "r \<in> set ids"
  shows "bookings_by_slot s d ids (r, t) = None \<longleftrightarrow> \<not> room_hour_held s r t"
  using assms by (force simp: bookings_by_slot_def map_of_eq_None_iff room_hour_held_iff occupies_slot_def dates_derived_def)

lemma bookings_by_slot_Some:
  assumes "bookings_by_slot s d ids (r, t) = Some b"
  shows "b \<in> set (bookings s)" "b_room b = r" "b_slot_start b = t" "occupies_slot b"
  using map_of_SomeD [OF assms [unfolded bookings_by_slot_def]] by (auto simp: occupies_slot_def)

section \<open>What the grid offers\<close>

text \<open>A row of the grid is the row of cells of its room.\<close>

lemma grid_row:
  assumes "hours_ok s" "(room, cells) \<in> set (gr_rows (public_grid s d now user cap eq num))"
  shows "cells = room_day_cells s room d now user None
      (Some (weekly_blocks_for_date s d (map r_pk (listed_rooms s cap eq num)))) (category_for_user s user) (member_room_ids s user)"
    "room \<in> set (listed_rooms s cap eq num)"
proof -
  let ?bm = "weekly_blocks_for_date s d (map r_pk (listed_rooms s cap eq num))"
  let ?cells = "\<lambda>room. room_day_cells s room d now user (Some (closures_for s d)) (Some ?bm) (category_for_user s user) (member_room_ids s user)"
  have look: "map (\<lambda>x. case first_row (filter (\<lambda>c. sc_slot_start c = x) (rev (map f xs))) of
        Some c \<Rightarrow> c | None \<Rightarrow> g x) xs = map f xs" if "distinct xs" "\<And>x. sc_slot_start (f x) = x" for f g and xs :: "time list"
  proof (intro map_cong refl)
    fix x assume "x \<in> set xs"
    then have "filter (\<lambda>c. sc_slot_start c = x) (map f xs) = [f x]"
      using that by (induction xs) (auto simp: filter_empty_conv)
    then show "(case first_row (filter (\<lambda>c. sc_slot_start c = x) (rev (map f xs))) of Some c \<Rightarrow> c | None \<Rightarrow> g x) = f x"
      by (simp add: rev_filter [symmetric])
  qed
  from assms(2) show "room \<in> set (listed_rooms s cap eq num)"
    by (auto simp: public_grid_def Let_def split: if_splits)
  from assms(2) have "cells = map (\<lambda>start. case first_row (filter (\<lambda>c. sc_slot_start c = start) (rev (?cells room))) of
        Some c \<Rightarrow> c | None \<Rightarrow> closed_cell room start) (column_starts s d)"
    by (auto simp: public_grid_def Let_def split: if_splits)
  also have "\<dots> = ?cells room"
    unfolding room_day_cells_def Let_def option.case
    by (rule look) (simp_all add: distinct_column_starts [OF assms(1)])
  finally show "cells = room_day_cells s room d now user None (Some ?bm) (category_for_user s user) (member_room_ids s user)"
    by (simp add: room_day_cells_def)
qed

lemma column_slot_open:
  assumes "hours_ok s" "reasons_given s" "t \<in> set (column_starts s d)" "r_pk room \<in> set ids"
  shows "slot_open s t room \<longleftrightarrow> r_is_active room \<and> day_hours s d \<noteq> None
    \<and> closure_reason_for room t (slot_end_for t) (closures_for s d) = ''''
    \<and> block_reason_for room t (weekly_blocks_for_date s d ids) = ''''"
proof -
  note f = column_start_facts [OF assms(1,3)]
  have "(\<exists>op cl. day_hours s (local_date t) = Some (op, cl) \<and> op \<le> local_hour t \<and> local_hour t < cl)
      \<longleftrightarrow> day_hours s d \<noteq> None"
    using f(2,5) by (cases "day_hours s d") auto
  then show ?thesis
    using closure_reason_for_blank [OF assms(2) f(3,4)] block_reason_for_blank [OF assms(2) f(2) assms(4)]
    by (auto simp: slot_open_def is_slot_closed_iff weekly_block_for_None)
qed

lemma cell_shape:
  assumes "c \<in> set (room_day_cells s room d now user None (Some (weekly_blocks_for_date s d ids)) cat members)"
  shows "sc_room c = room" "sc_slot_start c \<in> set (column_starts s d)" "sc_slot_end c = slot_end_for (sc_slot_start c)"
    "sc_state c = classify now (sc_slot_start c) (slot_end_for (sc_slot_start c)) (r_is_active room) (day_hours s d = None)
       (closure_reason_for room (sc_slot_start c) (slot_end_for (sc_slot_start c)) (closures_for s d))
       (bookings_by_slot s d [r_pk room] (r_pk room, sc_slot_start c))
       (local_date now + HORIZON_DAYS (conf s)) (block_reason_for room (sc_slot_start c) (weekly_blocks_for_date s d ids))
       (admits s room cat members) (r_availability_only room)"
  using assms by (auto simp: room_day_cells_def Let_def)

text \<open>What the state of a cell says, in terms of the checks of the operations.\<close>

lemma cell_state:
  assumes "hours_ok s" "reasons_given s" "dates_derived s" "r_pk room \<in> set ids"
    and "c \<in> set (room_day_cells s room d now user None (Some (weekly_blocks_for_date s d ids)) cat members)"
  shows "sc_room c = room" "sc_slot_start c \<in> set (column_starts s d)" "sc_slot_end c = slot_end_for (sc_slot_start c)"
    and "sc_state c = State_BOOKABLE \<longleftrightarrow> now < sc_slot_start c \<and> slot_open s (sc_slot_start c) room
      \<and> \<not> r_availability_only room \<and> \<not> room_hour_held s (r_pk room) (sc_slot_start c)
      \<and> local_date (sc_slot_start c) \<le> local_date now + HORIZON_DAYS (conf s) \<and> admits s room cat members"
    and "sc_state c = State_FREE_NOW \<longleftrightarrow> sc_slot_start c \<le> now \<and> now < sc_slot_end c \<and> slot_open s (sc_slot_start c) room
      \<and> \<not> r_availability_only room \<and> \<not> room_hour_held s (r_pk room) (sc_slot_start c)"
proof -
  let ?t = "sc_slot_start c"
  note c = cell_shape [OF assms(5)]
  show "sc_room c = room" "?t \<in> set (column_starts s d)" "sc_slot_end c = slot_end_for ?t" by (rule c)+
  note open_iff = column_slot_open [OF assms(1,2) c(2) assms(4)]
  have held: "bookings_by_slot s d [r_pk room] (r_pk room, ?t) = None \<longleftrightarrow> \<not> room_hour_held s (r_pk room) ?t"
    by (rule bookings_by_slot_None [OF assms(3) column_start_facts(2) [OF assms(1) c(2)]]) simp
  have gone: "slot_end_for ?t \<le> now \<Longrightarrow> ?t \<le> now" by (rule order_trans) (simp_all add: slot_end_for_def less_imp_le)
  show "sc_state c = State_BOOKABLE \<longleftrightarrow> now < sc_slot_start c \<and> slot_open s (sc_slot_start c) room
      \<and> \<not> r_availability_only room \<and> \<not> room_hour_held s (r_pk room) (sc_slot_start c)
      \<and> local_date (sc_slot_start c) \<le> local_date now + HORIZON_DAYS (conf s) \<and> admits s room cat members"
    unfolding c(3,4) open_iff held [symmetric] using gone by (auto simp: classify_def split: option.splits)
  show "sc_state c = State_FREE_NOW \<longleftrightarrow> sc_slot_start c \<le> now \<and> now < sc_slot_end c \<and> slot_open s (sc_slot_start c) room
      \<and> \<not> r_availability_only room \<and> \<not> room_hour_held s (r_pk room) (sc_slot_start c)"
    unfolding c(3,4) open_iff held [symmetric] using gone by (auto simp: classify_def split: option.splits)
qed

text \<open>C27: The grid and the operation agree. For an account that may operate and has quota, an hour of the
  public grid is offered (\<open>bookable\<close>) exactly when \<open>create_advance_booking\<close> accepts that room and hour
  at that moment, as long as the active policy keeps the horizon of the settings.\<close>

theorem grid_offers_what_is_accepted:
  assumes "hours_ok s" "reasons_given s" "dates_derived s" "horizon_days (current_policy s) = HORIZON_DAYS (conf s)"
    and "(room, cells) \<in> set (gr_rows (public_grid s d now (Some u) cap eq num))" "c \<in> set cells"
    and "ctx_actor cx = Some u" "ctx_now cx = now" "assert_can_operate s (Some u) now = Inr ()"
    and "assert_quota_and_adjacency s (u_pk u) (sc_slot_start c) (Some (r_pk room)) None (Some now) = Inr ()"
  shows "can_reserve c \<longleftrightarrow> (\<exists>r s'. create_advance_booking room (sc_slot_start c) cx s = Inr (r, s'))"
proof -
  let ?t = "sc_slot_start c"
  note row = grid_row [OF assms(1,5)]
  have ids: "r_pk room \<in> set (map r_pk (listed_rooms s cap eq num))" using row(2) by simp
  note cell = cell_state [OF assms(1-3) ids assms(6) [unfolded row(1)]]
  have al: "is_hour_aligned ?t" using column_start_facts(1) [OF assms(1) cell(2)] .
  have act: "slot_open s ?t room \<Longrightarrow> r_is_active room" by (simp add: slot_open_def)
  have "can_reserve c \<longleftrightarrow> advance_ok u room ?t now s \<and> \<not> room_hour_held s (r_pk room) ?t"
    using assms(9,10) al act
    by (auto simp: can_reserve_def cell(4) advance_ok_def may_reserve_def assert_can_operate_Inr assert_quota_Inr
        is_within_horizon_def assms(4))
  moreover from create_advance_booking_cases [OF assms(7), of room ?t s]
  have "(\<exists>r s'. create_advance_booking room ?t cx s = Inr (r, s'))
      \<longleftrightarrow> advance_ok u room ?t now s \<and> \<not> room_hour_held s (r_pk room) ?t"
    unfolding assms(8) by (auto split: if_splits)
  ultimately show ?thesis by blast
qed

lemma floor_to_slot_date: "local_date (floor_to_slot t) = local_date t"
proof -
  have "us_day = 24 * us_hour" by (simp add: us_day_def)
  then have "x div us_day = x div us_hour div 24" for x :: int
    by (metis mult.commute us_pos(3) zdiv_zmult2_eq less_imp_le zero_le_numeral)
  moreover have "(floor_to_slot t + BANGKOK) div us_hour = (t + BANGKOK) div us_hour"
  proof -
    have "floor_to_slot t + BANGKOK = (t + BANGKOK) div us_hour * us_hour"
      using div_mult_mod_eq [of "t + BANGKOK" us_hour] unfolding floor_to_slot_mod by linarith
    then show ?thesis by simp
  qed
  ultimately show ?thesis by (simp add: local_date_def)
qed

lemma local_hour_floor: "local_hour (floor_to_slot t) = local_hour t"
proof -
  have h: "local_hour x = (x + BANGKOK) div us_hour mod 24" for x
  proof -
    have "(x + BANGKOK) mod (us_hour * 24) = us_hour * ((x + BANGKOK) div us_hour mod 24) + (x + BANGKOK) mod us_hour"
      by (rule zmod_zmult2_eq) simp
    then show ?thesis by (simp add: local_hour_def us_day_def mult.commute)
  qed
  have "floor_to_slot t + BANGKOK = (t + BANGKOK) div us_hour * us_hour"
    using div_mult_mod_eq [of "t + BANGKOK" us_hour] unfolding floor_to_slot_mod by linarith
  then show ?thesis unfolding h by simp
qed

lemma open_in_columns:
  assumes "slot_open s t room" "is_hour_aligned t"
  shows "t \<in> set (column_starts s (local_date t))"
proof -
  from assms(1) obtain op cl where "day_hours s (local_date t) = Some (op, cl)" "op \<le> local_hour t" "local_hour t < cl"
    by (auto simp: slot_open_def)
  then show ?thesis using slot_start_of_local [OF assms(2)]
    by (auto simp: column_starts_def day_slot_starts_hours intro!: image_eqI [where x = "local_hour t"])
qed

text \<open>Outside the opening hours of the day, whatever the columns are.\<close>

definition within_hours :: "st \<Rightarrow> time \<Rightarrow> bool" where
  "within_hours s t \<longleftrightarrow> (\<exists>op cl. day_hours s (local_date t) = Some (op, cl) \<and> op \<le> local_hour t \<and> local_hour t < cl)"

lemma current_cell_outside:
  assumes "hours_ok s" "\<not> within_hours s now"
  shows "sc_state (current_slot_cell s room now viewer) = State_CLOSED \<and> sc_room (current_slot_cell s room now viewer) = room
    \<and> sc_slot_start (current_slot_cell s room now viewer) = floor_to_slot now"
proof -
  let ?t = "floor_to_slot now"
  let ?cells = "room_day_cells s room (local_date now) now viewer None None (category_for_user s viewer) (member_room_ids s viewer)"
  have cells: "?cells = room_day_cells s room (local_date now) now viewer None
      (Some (weekly_blocks_for_date s (local_date now) [r_pk room])) (category_for_user s viewer) (member_room_ids s viewer)"
    by (simp add: room_day_cells_def)
  show ?thesis
  proof (cases "List.find (\<lambda>c. sc_slot_start c = ?t) ?cells")
    case (Some c)
    then have c: "c \<in> set ?cells" "sc_slot_start c = ?t" by (auto simp: find_Some_iff)
    note shape = cell_shape [OF c(1) [unfolded cells]]
    have "day_hours s (local_date now) = None"
      using column_start_facts(5) [OF assms(1) shape(2)] assms(2) unfolding c(2) local_hour_floor within_hours_def
      by (cases "day_hours s (local_date now)") auto
    moreover have "\<not> slot_end_for ?t \<le> now" using floor_to_slot_gt [of now] by simp
    ultimately have "sc_state c = State_CLOSED" using shape(4) by (simp add: classify_def c(2))
    with Some shape(1) c(2) show ?thesis by (simp add: current_slot_cell_def Let_def)
  next
    case None
    then show ?thesis by (simp add: current_slot_cell_def Let_def closed_cell_def)
  qed
qed

text \<open>C28: The page of a room's code agrees with the walk-in. For an account that may operate and has quota, the current cell shows the button exactly when
  \<open>use_now\<close> accepts; outside the day's opening hours (on a closed day at any hour) the page has a closed cell for the
  running hour and the walk-in is refused with a code.\<close>

theorem current_cell_agrees_with_walk_in:
  assumes "hours_ok s" "reasons_given s" "dates_derived s"
    and "ctx_actor cx = Some u" "assert_can_operate s (Some u) (ctx_now cx) = Inr ()"
    and "assert_quota_and_adjacency s (u_pk u) (floor_to_slot (ctx_now cx)) (Some (r_pk room)) None (Some (ctx_now cx)) = Inr ()"
  shows "(can_use_now (current_slot_cell s room (ctx_now cx) viewer) \<longleftrightarrow> (\<exists>r s'. use_now room cx s = Inr (r, s')))
    \<and> (\<not> within_hours s (ctx_now cx) \<longrightarrow> sc_state (current_slot_cell s room (ctx_now cx) viewer) = State_CLOSED
        \<and> sc_room (current_slot_cell s room (ctx_now cx) viewer) = room
        \<and> sc_slot_start (current_slot_cell s room (ctx_now cx) viewer) = floor_to_slot (ctx_now cx)
        \<and> (\<exists>c d. use_now room cx s = Inl (rejected c d)))"
proof -
  have refused: "\<exists>c d. use_now room cx s = Inl (rejected c d)" if "\<not> within_hours s (ctx_now cx)"
  proof -
    have "\<not> slot_open s (floor_to_slot (ctx_now cx)) room"
      using that unfolding within_hours_def slot_open_def floor_to_slot_date local_hour_floor by blast
    then have "\<not> walk_in_ok u room (ctx_now cx) s" by (simp add: walk_in_ok_def)
    with use_now_cases [OF assms(4), of room s] show ?thesis by simp
  qed
  let ?now = "ctx_now cx" and ?t = "floor_to_slot (ctx_now cx)"
  let ?cells = "room_day_cells s room (local_date ?now) ?now viewer None None (category_for_user s viewer) (member_room_ids s viewer)"
  have cells: "?cells = room_day_cells s room (local_date ?now) ?now viewer None
      (Some (weekly_blocks_for_date s (local_date ?now) [r_pk room])) (category_for_user s viewer) (member_room_ids s viewer)"
    by (simp add: room_day_cells_def)
  have now: "?t \<le> ?now" "?now < slot_end_for ?t" using floor_to_slot_le floor_to_slot_gt by simp_all
  have ok: "(\<exists>r s'. use_now room cx s = Inr (r, s')) \<longleftrightarrow> walk_in_ok u room ?now s"
    using use_now_cases [OF assms(4), of room s] by (auto split: if_splits)
  have "can_use_now (current_slot_cell s room ?now viewer) \<longleftrightarrow> (\<exists>r s'. use_now room cx s = Inr (r, s'))"
  proof (cases "List.find (\<lambda>c. sc_slot_start c = ?t) ?cells")
    case (Some c)
    then have c: "c \<in> set ?cells" "sc_slot_start c = ?t" by (auto simp: find_Some_iff)
    have c': "c \<in> set (room_day_cells s room (local_date ?now) ?now viewer None
      (Some (weekly_blocks_for_date s (local_date ?now) [r_pk room])) (category_for_user s viewer) (member_room_ids s viewer))"
      using c(1) unfolding cells .
    note cell = cell_state [OF assms(1-3) _ c']
    have "current_slot_cell s room ?now viewer = c" using Some by (simp add: current_slot_cell_def Let_def)
    then show ?thesis
      unfolding ok using cell now c(2) assms(5,6)
      by (auto simp: can_use_now_def walk_in_ok_def assert_can_operate_Inr assert_may_use_room_Inr assert_quota_Inr slot_open_def)
  next
    case None
    then have none: "\<And>c. c \<in> set ?cells \<Longrightarrow> sc_slot_start c \<noteq> ?t" by (auto simp: find_None_iff)
    have "sc_slot_start ` set ?cells = set (column_starts s (local_date ?now))"
      by (simp add: room_day_cells_def Let_def image_image)
    with none have "?t \<notin> set (column_starts s (local_date ?now))" by (metis imageE)
    then have "?t \<notin> set (column_starts s (local_date ?t))" unfolding floor_to_slot_date .
    then have "\<not> slot_open s ?t room" using open_in_columns by auto
    moreover have "current_slot_cell s room ?now viewer = closed_cell room ?t"
      using None by (simp add: current_slot_cell_def Let_def)
    ultimately show ?thesis unfolding ok by (simp add: can_use_now_def closed_cell_def walk_in_ok_def)
  qed
  with refused current_cell_outside [OF assms(1)] show ?thesis by blast
qed

section \<open>What a status card says\<close>

lemma run_end_spec:
  assumes "i < length kinds"
  shows "i \<le> run_end kinds k i \<and> run_end kinds k i < length kinds
    \<and> (\<forall>j. i < j \<and> j \<le> run_end kinds k i \<longrightarrow> kinds ! j = k)
    \<and> (run_end kinds k i + 1 < length kinds \<longrightarrow> kinds ! (run_end kinds k i + 1) \<noteq> k)"
  using assms
proof (induction kinds k i rule: run_end.induct)
  case (1 kinds k i)
  show ?case
  proof (cases "i + 1 < length kinds \<and> kinds ! (i + 1) = k")
    case True
    with 1 have IH: "i + 1 \<le> run_end kinds k (i + 1) \<and> run_end kinds k (i + 1) < length kinds
      \<and> (\<forall>j. i + 1 < j \<and> j \<le> run_end kinds k (i + 1) \<longrightarrow> kinds ! j = k)
      \<and> (run_end kinds k (i + 1) + 1 < length kinds \<longrightarrow> kinds ! (run_end kinds k (i + 1) + 1) \<noteq> k)" by blast
    have eq: "run_end kinds k i = run_end kinds k (i + 1)" using True by (subst run_end.simps) simp
    show ?thesis unfolding eq using IH True by (metis Suc_eq_plus1 Suc_leI Suc_le_lessD le_less)
  next
    case False
    then have "run_end kinds k i = i" by (subst run_end.simps) (rule if_not_P)
    with False 1(2) show ?thesis by auto
  qed
qed

lemma index_of_Some:
  "index_of current i cs = Some n \<Longrightarrow> i \<le> n \<and> n - i < length cs \<and> sc_slot_start (cs ! (n - i)) = current"
proof (induction cs arbitrary: i)
  case (Cons c cs)
  then show ?case by (fastforce simp: nth_Cons' split: if_splits)
qed simp

lemma first_index:
  assumes "first_row (filter P [a..<b]) = x"
  shows "case x of None \<Rightarrow> \<forall>j. a \<le> j \<and> j < b \<longrightarrow> \<not> P j
    | Some i \<Rightarrow> a \<le> i \<and> i < b \<and> P i \<and> (\<forall>j. a \<le> j \<and> j < i \<longrightarrow> \<not> P j)"
proof (cases x)
  case None
  with assms show ?thesis by (simp add: filter_empty_conv)
next
  case (Some i)
  with assms obtain ys where f: "filter P [a..<b] = i # ys"
    by (cases "filter P [a..<b]") (simp_all add: first_row_def)
  have "i \<in> set (filter P [a..<b])" unfolding f by simp
  then have i: "i \<in> set [a..<b]" "P i" by auto
  have "\<not> P j" if "a \<le> j" "j < i" for j
  proof
    assume "P j"
    have "sorted (filter P [a..<b])" by (simp add: sorted_wrt_filter)
    moreover have "j \<in> set (filter P [a..<b])" using that i \<open>P j\<close> by auto
    ultimately show False using f that by (auto simp: less_le_not_le)
  qed
  with i Some show ?thesis by auto
qed

text \<open>A card in terms of indices, for a row of consecutive hours.\<close>

lemma status_card_index:
  assumes "card_for_row current (room, cells) = Some crd"
  obtains i where "i < length cells" "sc_slot_start (cells ! i) = current"
    "card_now crd = strip_kind (cells ! i)"
    "card_free_until crd = (if card_now crd = Strip_free
       then Some (sc_slot_end (cells ! run_end (map strip_kind cells) (card_now crd) i)) else None)"
    "card_next_free crd = (if card_now crd = Strip_free then None
       else map_option (\<lambda>i. sc_slot_start (cells ! i)) (first_row (filter (\<lambda>i. map strip_kind cells ! i = Strip_free)
         [run_end (map strip_kind cells) (card_now crd) i + 1..<length cells])))"
proof -
  from assms obtain i where i: "index_of current 0 cells = Some i"
    by (auto simp: card_for_row_def Let_def split: option.splits)
  have j: "i < length cells" "sc_slot_start (cells ! i) = current" using index_of_Some [OF i] by simp_all
  from assms i j(1) have "card_now crd = strip_kind (cells ! i)"
    by (auto simp: card_for_row_def Let_def)
  with that [of i] j assms i show thesis by (auto simp: card_for_row_def Let_def)
qed

text \<open>A status card tells the truth about the day's row. A room that is free now is free in every hour up
  to the time the card gives, and not in the hour that starts then; for a room that is not, the next free
  hour of the card is the first free one after now, and none is given only when there is none.\<close>

theorem status_card_spec:
  assumes "hours_ok s" "(room, cells) \<in> set (gr_rows (public_grid s d now user cap eq num))"
    and "card_for_row current (room, cells) = Some crd"
  shows "case card_free_until crd of
      Some t \<Rightarrow> card_now crd = Strip_free \<and> current < t
        \<and> (\<forall>c \<in> set cells. current \<le> sc_slot_start c \<and> sc_slot_start c < t \<longrightarrow> strip_kind c = Strip_free)
        \<and> (\<forall>c \<in> set cells. sc_slot_start c = t \<longrightarrow> strip_kind c \<noteq> Strip_free)
    | None \<Rightarrow> card_now crd \<noteq> Strip_free \<and> (case card_next_free crd of
        Some t \<Rightarrow> current < t \<and> (\<exists>c \<in> set cells. sc_slot_start c = t \<and> strip_kind c = Strip_free)
          \<and> (\<forall>c \<in> set cells. current \<le> sc_slot_start c \<and> sc_slot_start c < t \<longrightarrow> strip_kind c \<noteq> Strip_free)
      | None \<Rightarrow> \<forall>c \<in> set cells. current \<le> sc_slot_start c \<longrightarrow> strip_kind c \<noteq> Strip_free)"
proof -
  obtain op cl where col: "column_starts s d = map (slot_start_for d) [op..cl - 1]"
    using column_starts_hours [OF assms(1), of d] by blast
  have cells: "map sc_slot_start cells = map (slot_start_for d) [op..cl - 1]"
    "\<forall>c \<in> set cells. sc_slot_end c = slot_end_for (sc_slot_start c)"
    using grid_row [OF assms(1,2)] unfolding col [symmetric] by (auto simp: room_day_cells_def Let_def comp_def)
  have start: "sc_slot_start (cells ! j) = slot_start_for d (op + int j)" if "j < length cells" for j
    using that arg_cong [OF cells(1), of "\<lambda>xs. xs ! j"] arg_cong [OF cells(1), of length] by simp
  have fin: "sc_slot_end (cells ! j) = slot_start_for d (op + int j + 1)" if "j < length cells" for j
    using that cells(2) start by (simp add: slot_end_for_slot_start)
  from status_card_index [OF assms(3)] obtain i where i: "i < length cells" "sc_slot_start (cells ! i) = current"
    "card_now crd = strip_kind (cells ! i)" and fr: "card_free_until crd = (if card_now crd = Strip_free
       then Some (sc_slot_end (cells ! run_end (map strip_kind cells) (card_now crd) i)) else None)"
    and nx: "card_next_free crd = (if card_now crd = Strip_free then None
       else map_option (\<lambda>i. sc_slot_start (cells ! i)) (first_row (filter (\<lambda>i. map strip_kind cells ! i = Strip_free)
         [run_end (map strip_kind cells) (card_now crd) i + 1..<length cells])))" by metis
  let ?e = "run_end (map strip_kind cells) (card_now crd) i"
  have cur: "current = slot_start_for d (op + int i)" using i start by simp
  have run: "i \<le> ?e" "?e < length cells" "\<And>j. i \<le> j \<Longrightarrow> j \<le> ?e \<Longrightarrow> strip_kind (cells ! j) = card_now crd"
    "?e + 1 < length cells \<Longrightarrow> strip_kind (cells ! (?e + 1)) \<noteq> card_now crd"
    using run_end_spec [of i "map strip_kind cells" "card_now crd"] i by (auto simp: le_less)
  have each: "(\<forall>c \<in> set cells. Q c) \<longleftrightarrow> (\<forall>j < length cells. Q (cells ! j))" for Q by (metis in_set_conv_nth)
  show ?thesis
  proof (cases "card_now crd = Strip_free")
    case True
    then have t: "card_free_until crd = Some (slot_start_for d (op + int ?e + 1))" using fr fin run(2) by simp
    have "\<forall>c \<in> set cells. current \<le> sc_slot_start c \<and> sc_slot_start c < slot_start_for d (op + int ?e + 1)
        \<longrightarrow> strip_kind c = Strip_free"
      unfolding each cur using start run(3) True by auto
    moreover have "\<forall>c \<in> set cells. sc_slot_start c = slot_start_for d (op + int ?e + 1) \<longrightarrow> strip_kind c \<noteq> Strip_free"
      unfolding each
    proof (intro allI impI)
      fix j assume j: "j < length cells" "sc_slot_start (cells ! j) = slot_start_for d (op + int ?e + 1)"
      with start have "op + int j = op + int ?e + 1" by simp
      then have "j = ?e + 1" by linarith
      with run(4) j(1) True show "strip_kind (cells ! j) \<noteq> Strip_free" by simp
    qed
    moreover have "current < slot_start_for d (op + int ?e + 1)" unfolding cur using run(1) by simp
    ultimately show ?thesis unfolding t using True by simp
  next
    case False
    then have n: "card_free_until crd = None" using fr by simp
    have fi: "case first_row (filter (\<lambda>i. map strip_kind cells ! i = Strip_free) [?e + 1..<length cells]) of
        None \<Rightarrow> \<forall>j. ?e + 1 \<le> j \<and> j < length cells \<longrightarrow> \<not> map strip_kind cells ! j = Strip_free
      | Some m \<Rightarrow> ?e + 1 \<le> m \<and> m < length cells \<and> map strip_kind cells ! m = Strip_free
          \<and> (\<forall>j. ?e + 1 \<le> j \<and> j < m \<longrightarrow> \<not> map strip_kind cells ! j = Strip_free)" by (rule first_index [OF refl])
    have early: "strip_kind (cells ! j) \<noteq> Strip_free" if "i \<le> j" "j \<le> ?e" for j using run(3) [OF that] False by simp
    show ?thesis
    proof (cases "first_row (filter (\<lambda>i. map strip_kind cells ! i = Strip_free) [?e + 1..<length cells])")
      case None
      then have "card_next_free crd = None" using nx False by simp
      moreover have "\<forall>c \<in> set cells. current \<le> sc_slot_start c \<longrightarrow> strip_kind c \<noteq> Strip_free"
        unfolding each cur using start fi None early by (auto simp: not_less_eq_eq) (metis Suc_leI not_less nth_map)
      ultimately show ?thesis using n False by simp
    next
      case (Some m)
      with fi have m: "?e < m" "m < length cells" "strip_kind (cells ! m) = Strip_free"
        "\<And>j. ?e < j \<Longrightarrow> j < m \<Longrightarrow> strip_kind (cells ! j) \<noteq> Strip_free" by auto
      have t: "card_next_free crd = Some (slot_start_for d (op + int m))" using nx False Some start m(2) by simp
      have "\<forall>c \<in> set cells. current \<le> sc_slot_start c \<and> sc_slot_start c < slot_start_for d (op + int m)
          \<longrightarrow> strip_kind c \<noteq> Strip_free"
        unfolding each cur using start early m(4) by auto (metis not_less)
      moreover have "\<exists>c \<in> set cells. sc_slot_start c = slot_start_for d (op + int m) \<and> strip_kind c = Strip_free"
        using m start by (intro bexI [of _ "cells ! m"]) auto
      moreover have "current < slot_start_for d (op + int m)" unfolding cur using run(1) m(1) by simp
      ultimately show ?thesis unfolding n t using False by simp
    qed
  qed
qed

section \<open>Where the grid and the operations part\<close>

text \<open>The horizon of the grid is the setting; the operation reads the active policy. After staff lengthen the
  horizon, an hour beyond the setting is accepted and shown as outside the horizon.\<close>

theorem grid_ignores_policy_horizon:
  assumes "hours_ok s" "reasons_given s" "dates_derived s"
    and "(room, cells) \<in> set (gr_rows (public_grid s d now (Some u) cap eq num))" "c \<in> set cells"
    and "ctx_actor cx = Some u" "ctx_now cx = now" "create_advance_booking room (sc_slot_start c) cx s = Inr (r, s')"
    and "local_date now + HORIZON_DAYS (conf s) < d"
  shows "sc_state c = State_OUTSIDE_HORIZON"
proof -
  let ?t = "sc_slot_start c" and ?ids = "map r_pk (listed_rooms s cap eq num)"
  note row = grid_row [OF assms(1,4)]
  have ids: "r_pk room \<in> set ?ids" using row(2) by simp
  note c = assms(5) [unfolded row(1)]
  have t: "?t \<in> set (column_starts s d)" by (rule cell_shape(2) [OF c])
  from create_advance_booking_cases [OF assms(6), of room ?t s] assms(8)
  have ok: "advance_ok u room ?t now s" "\<not> room_hour_held s (r_pk room) ?t"
    by (auto simp: assms(7) split: if_splits)
  note f = column_start_facts [OF assms(1) t]
  have "bookings_by_slot s d [r_pk room] (r_pk room, ?t) = None"
    using bookings_by_slot_None [OF assms(3) f(2)] ok(2) by simp
  moreover have "now < slot_end_for ?t"
    using ok(1) us_pos(5) unfolding advance_ok_def slot_end_for_def by linarith
  moreover have "slot_open s ?t room" "\<not> r_availability_only room" "\<not> ?t \<le> now"
    using ok(1) by (auto simp: advance_ok_def may_reserve_def)
  moreover note column_slot_open [OF assms(1,2) t ids]
  ultimately show ?thesis unfolding cell_shape(4) [OF c] using f(2) assms(9) by (auto simp: classify_def)
qed

text \<open>An hour that was reserved and missed: the grid calls it taken until a reconciliation has run.\<close>

theorem expired_hold_reads_taken:
  assumes "hours_ok s" "reasons_given s" "bookings_ok s"
    and "b \<in> set (bookings s)" "b_status b = SCHEDULED" "b_deadline b = Some dl" "dl \<le> now" "now < slot_end_for (b_slot_start b)"
    and "b_slot_date b = local_date (b_slot_start b)" "b_room b = r_pk room" "slot_open s (b_slot_start b) room"
    and "c \<in> set (room_day_cells s room (b_slot_date b) now user None None cat members)" "sc_slot_start c = b_slot_start b"
  shows "sc_state c = State_TAKEN"
proof -
  let ?t = "b_slot_start b" and ?d = "b_slot_date b"
  have c: "c \<in> set (room_day_cells s room ?d now user None (Some (weekly_blocks_for_date s ?d [r_pk room])) cat members)"
    using assms(12) by (simp add: room_day_cells_def)
  have t: "?t \<in> set (column_starts s ?d)" using cell_shape(2) [OF c] assms(13) by simp
  have held: "bookings_by_slot s ?d [r_pk room] (r_pk room, ?t) \<noteq> None"
    unfolding bookings_by_slot_def map_of_eq_None_iff set_rev set_map image_image fst_conv not_not
    by (rule image_eqI [of _ _ b]) (use assms(4,5,10) in simp_all)
  then obtain x where x: "bookings_by_slot s ?d [r_pk room] (r_pk room, ?t) = Some x" by blast
  note x' = bookings_by_slot_Some [OF x]
  have "same_room_slot x b" using assms(5,10) x' by (simp add: same_room_slot_def occupies_slot_def)
  then have "b_pk x = b_pk b" using assms(3,4) x'(1) unfolding bookings_ok_def by blast
  then have "x = b" using assms(3,4) x'(1) by (auto simp: bookings_ok_def distinct_map inj_on_def)
  with x column_slot_open [OF assms(1,2) t, of room "[r_pk room]"] assms(5-8,11)
  show ?thesis unfolding cell_shape(4) [OF c] assms(13) by (auto simp: classify_def)
qed

section \<open>A morning\<close>

lemma sample_calendar:
  "hours_ok (sample_st t)" "reasons_given (sample_st t)" "dates_derived (sample_st t)"
  "day_hours (sample_st t) monday = Some (8, 20)"
  by (simp_all add: hours_ok_def reasons_given_def dates_derived_def sample_tables day_hours_def
      default_opening_hours_def default_settings_def weekday_def monday_def)

lemma sample_may_operate: "assert_can_operate (sample_st t) (Some alice) now = Inr ()"
  by (simp add: assert_can_operate_Inr account_ok_def email_is_verified_def suspended_at_def sample_tables)
    (simp add: alice_def sample_user_def blank_user_def)

lemma cells_at:
  assumes "t \<in> set (column_starts s d)"
  shows "\<exists>c \<in> set (room_day_cells s room d now user cm bm cat members). sc_slot_start c = t"
  using assms unfolding room_day_cells_def Let_def set_map by (auto intro!: bexI [OF _ assms])

lemma sample_row:
  "\<exists>cells. (room_a, cells) \<in> set (gr_rows (public_grid (sample_st t) d now user None [] []))"
proof -
  have "room_a \<in> set (listed_rooms (sample_st t) None [] [])"
    by (simp add: listed_rooms_def sample_st_def) (simp add: room_a_def sample_room_def blank_room_def)
  then have "listed_rooms (sample_st t) None [] [] \<noteq> []" "room_a \<in> set (listed_rooms (sample_st t) None [] [])" by auto
  then show ?thesis by (auto simp: public_grid_def Let_def)
qed

theorem grid_offers_what_is_accepted_witness:
  "\<exists>cells c. (room_a, cells) \<in> set (gr_rows (public_grid (sample_st (at 9 0)) monday (at 9 0) (Some alice) None [] []))
    \<and> c \<in> set cells \<and> sc_slot_start c = at 10 0 \<and> can_reserve c"
proof -
  let ?s = "sample_st (at 9 0)" and ?cx = "sample_ctx (at 9 0) alice"
  obtain cells where row: "(room_a, cells) \<in> set (gr_rows (public_grid ?s monday (at 9 0) (Some alice) None [] []))"
    using sample_row by blast
  have t: "at 10 0 \<in> set (column_starts ?s monday)"
    by (simp add: column_starts_def sample_calendar(4) day_slot_starts_hours at_def)
  obtain c where c: "c \<in> set cells" "sc_slot_start c = at 10 0"
    using cells_at [OF t] unfolding grid_row(1) [OF sample_calendar(1) row] by blast
  have cx: "ctx_actor ?cx = Some alice" "ctx_now ?cx = at 9 0" by (simp_all add: sample_ctx_def)
  have h: "horizon_days (current_policy ?s) = HORIZON_DAYS (conf ?s)"
    by (simp add: sample_policy sample_tables default_settings_def)
  have "assert_quota_and_adjacency ?s (u_pk alice) (sc_slot_start c) (Some (r_pk room_a)) None (Some (at 9 0)) = Inr ()"
    using sample_advance_ok unfolding c(2) advance_ok_def assert_quota_Inr by blast
  from grid_offers_what_is_accepted [OF sample_calendar(1-3) h row c(1) cx sample_may_operate this]
    create_advance_booking_cases [OF cx(1), of room_a "at 10 0" ?s] sample_advance_ok
  have "can_reserve c" by (auto simp: c(2) cx room_hour_held_def sample_tables)
  with row c show ?thesis by blast
qed

theorem current_cell_agrees_with_walk_in_witness:
  "\<exists>r s'. use_now room_a (sample_ctx (at 10 5) alice) (sample_st (at 10 5)) = Inr (r, s')
    \<and> can_use_now (current_slot_cell (sample_st (at 10 5)) room_a (at 10 5) None)"
proof -
  let ?s = "sample_st (at 10 5)" and ?cx = "sample_ctx (at 10 5) alice"
  have now: "floor_to_slot (at 10 5) = at 10 0"
    by (rule floor_to_slot_unique [OF sample_times(5)]) (simp_all add: at_def slot_end_for_def SLOT_DELTA_def us_defs)
  have q: "quota_ok ?s (u_pk alice) (r_pk room_a) (at 10 0) (at 10 5)"
    by (simp add: quota_ok_def blocking_bookings_def quota_used_def upcoming_hours_def no_show_reclaim_def
        sample_policy sample_tables(1))
  have op: "slot_open ?s (at 10 0) room_a"
    using sample_slot_open [where t = "at 10 5" and bs = "[]"] by (simp add: sample_same room_a_def)
  have cx: "ctx_actor ?cx = Some alice" "ctx_now ?cx = at 10 5" by (simp_all add: sample_ctx_def)
  have "walk_in_ok alice room_a (at 10 5) ?s"
    using sample_may_operate [of "at 10 5" "at 10 5"] q op
    by (simp add: walk_in_ok_def now assert_may_use_room_Inr assert_can_operate_Inr room_hour_held_def sample_tables)
      (simp add: room_a_def sample_room_def blank_room_def)
  with use_now_cases [OF cx(1), of room_a ?s] obtain r s' where run: "use_now room_a ?cx ?s = Inr (r, s')"
    by (auto simp: cx)
  have "assert_quota_and_adjacency ?s (u_pk alice) (floor_to_slot (ctx_now ?cx)) (Some (r_pk room_a)) None
      (Some (ctx_now ?cx)) = Inr ()" using q by (simp add: cx now assert_quota_Inr)
  from current_cell_agrees_with_walk_in [OF sample_calendar(1-3) cx(1) _ this, of None] sample_may_operate run cx
  show ?thesis by auto
qed

lemma index_of_ex: "c \<in> set cs \<Longrightarrow> \<exists>n. index_of (sc_slot_start c) i cs = Some n"
  by (induction cs arbitrary: i) auto

theorem status_card_spec_witness:
  "\<exists>cells crd t. (room_a, cells) \<in> set (gr_rows (public_grid (sample_st (at 10 5)) monday (at 10 5) None None [] []))
    \<and> card_for_row (at 10 0) (room_a, cells) = Some crd \<and> card_free_until crd = Some t \<and> at 10 0 < t"
proof -
  let ?s = "sample_st (at 10 5)"
  obtain cells where row: "(room_a, cells) \<in> set (gr_rows (public_grid ?s monday (at 10 5) None None [] []))"
    using sample_row by blast
  note r = grid_row [OF sample_calendar(1) row]
  have t: "at 10 0 \<in> set (column_starts ?s monday)"
    by (simp add: column_starts_def sample_calendar(4) day_slot_starts_hours at_def)
  have op: "slot_open ?s (at 10 0) room_a"
    using sample_slot_open [where t = "at 10 5" and bs = "[]"] by (simp add: sample_same room_a_def)
  have ids: "r_pk room_a \<in> set (map r_pk (listed_rooms ?s None [] []))" using r(2) by simp
  have free: "strip_kind c = Strip_free" if c: "c \<in> set cells" "sc_slot_start c = at 10 0" for c
  proof -
    have "at 10 0 \<le> at 10 5" "at 10 5 < slot_end_for (at 10 0)" "\<not> r_availability_only room_a"
      by (simp_all add: at_def slot_end_for_def SLOT_DELTA_def us_defs) (simp add: room_a_def sample_room_def blank_room_def)
    with cell_state(3,5) [OF sample_calendar(1-3) ids c(1) [unfolded r(1)]] op
    show ?thesis by (simp add: c(2) room_hour_held_def sample_tables strip_kind_def)
  qed
  obtain c where c: "c \<in> set cells" "sc_slot_start c = at 10 0" using cells_at [OF t] unfolding r(1) by blast
  from index_of_ex [OF c(1), of 0] obtain crd where crd: "card_for_row (at 10 0) (room_a, cells) = Some crd"
    unfolding c(2) by (auto simp: card_for_row_def Let_def)
  from status_card_index [OF crd] obtain i where "i < length cells" "sc_slot_start (cells ! i) = at 10 0"
    "card_now crd = strip_kind (cells ! i)" by metis
  then have "card_now crd = Strip_free" using free by simp
  with status_card_spec [OF sample_calendar(1) row crd] row crd show ?thesis
    by (cases "card_free_until crd") (auto split: option.splits)
qed

theorem expired_hold_reads_taken_witness:
  "\<exists>c. c \<in> set (room_day_cells (one_booking_st (at 10 30) SCHEDULED) room_a monday (at 10 30) None None None None {})
    \<and> sc_slot_start c = at 10 0 \<and> sc_state c = State_TAKEN"
proof -
  let ?s = "one_booking_st (at 10 30) SCHEDULED" and ?b = "sample_booking 1 1 1 10 SCHEDULED"
  have cal: "hours_ok ?s" "reasons_given ?s" "day_hours ?s monday = Some (8, 20)"
    by (simp_all add: hours_ok_def reasons_given_def one_booking_st_def sample_tables day_hours_def
      default_opening_hours_def default_settings_def weekday_def monday_def)
  have ok: "bookings_ok ?s" using one_booking_well_formed [of SCHEDULED "at 10 30"] by (simp add: well_formed_def)
  have b: "?b \<in> set (bookings ?s)" "b_status ?b = SCHEDULED" "b_deadline ?b = Some (at 10 15)" "at 10 15 \<le> at 10 30"
    "at 10 30 < slot_end_for (b_slot_start ?b)" "b_slot_date ?b = local_date (b_slot_start ?b)" "b_room ?b = r_pk room_a"
    "b_slot_start ?b = at 10 0" "b_slot_date ?b = monday"
    by (simp_all add: one_booking_st_def sample_booking_def at_def slot_end_for_def SLOT_DELTA_def us_defs)
      (simp_all add: room_a_def sample_room_def blank_room_def)
  have op: "slot_open ?s (at 10 0) room_a"
    using sample_slot_open [where t = "at 10 30" and bs = "[?b]" and k = 1] by (simp add: one_booking_st_def room_a_def)
  have t: "at 10 0 \<in> set (column_starts ?s monday)"
    unfolding column_starts_def cal(3) by (simp add: day_slot_starts_hours at_def)
  obtain c where c: "c \<in> set (room_day_cells ?s room_a monday (at 10 30) None None None None {})" "sc_slot_start c = at 10 0"
    using cells_at [OF t] by blast
  from expired_hold_reads_taken [OF cal(1,2) ok b(1-7) op [folded b(8)] c(1) [folded b(9)] c(2) [folded b(8)]] c
  show ?thesis by (intro exI [of _ c] conjI)
qed
text \<open>Staff set the horizon to five days on Monday; Thursday ten o'clock is reserved, and the grid does not offer it.\<close>

definition wide_policy :: policy_version where
  "wide_policy = \<lparr>pv_pk = 1, pv_version = 1, pv_label = '''', pv_snapshot = [(''horizon_days'', PInt 5)],
     pv_created_by = None, pv_note = ''''\<rparr>"

definition wide_st :: st where
  "wide_st = (sample_st (at 9 0))\<lparr>policies := [wide_policy]\<rparr>"

definition thursday_ten :: time where "thursday_ten = slot_start_for (monday + 3) 10"

lemma wide_facts:
  "hours_ok wide_st" "reasons_given wide_st" "dates_derived wide_st" "day_hours wide_st (monday + 3) = Some (8, 20)"
  "HORIZON_DAYS (conf wide_st) = 2" "thursday_ten \<in> set (column_starts wide_st (monday + 3))"
proof -
  show 1: "hours_ok wide_st" "reasons_given wide_st" "dates_derived wide_st" "day_hours wide_st (monday + 3) = Some (8, 20)"
    "HORIZON_DAYS (conf wide_st) = 2"
    by (simp_all add: wide_st_def hours_ok_def reasons_given_def dates_derived_def sample_tables day_hours_def
      default_opening_hours_def default_settings_def weekday_def monday_def)
  show "thursday_ten \<in> set (column_starts wide_st (monday + 3))"
    unfolding column_starts_def 1(4) thursday_ten_def by (simp add: day_slot_starts_hours)
qed

lemma wide_advance_ok: "advance_ok alice room_a thursday_ten (at 9 0) wide_st"
proof -
  have p: "current_policy wide_st = wide_policy"
    by (simp add: current_policy_def latest_policy_def wide_st_def order_by_desc_def)
  have n: "horizon_days wide_policy = 5" "daily_quota wide_policy = 2" "max_upcoming_hours (conf wide_st) wide_policy = 4"
    by (simp_all add: horizon_days_def daily_quota_def max_upcoming_hours_def snapshot_int_def wide_policy_def wide_st_def
        sample_tables default_settings_def)
  have t: "is_hour_aligned thursday_ten" "local_date thursday_ten = monday + 3" "local_hour thursday_ten = 10"
    "at 9 0 < thursday_ten"
    by (simp_all add: thursday_ten_def) (simp add: at_def slot_start_for_def us_defs)
  have q: "quota_ok wide_st (u_pk alice) (r_pk room_a) thursday_ten (at 9 0)"
    by (simp add: quota_ok_def blocking_bookings_def quota_used_def upcoming_hours_def no_show_reclaim_def p n)
      (simp add: wide_st_def sample_tables)
  have m: "may_reserve wide_st alice room_a (at 9 0)"
    by (simp add: may_reserve_def account_ok_def email_is_verified_def suspended_at_def wide_st_def sample_tables
        admits_def may_be_reserved_by_def is_restricted_def alice_def sample_user_def blank_user_def
        room_a_def sample_room_def blank_room_def)
  have "slot_open wide_st thursday_ten room_a"
    using wide_facts(4) by (simp add: slot_open_def t) (simp add: wide_st_def sample_tables room_a_def sample_room_def blank_room_def)
  with t q m show ?thesis by (simp add: advance_ok_def is_within_horizon_def p n sample_times)
qed

theorem grid_ignores_policy_horizon_witness:
  "\<exists>cells c r s'. (room_a, cells) \<in> set (gr_rows (public_grid wide_st (monday + 3) (at 9 0) (Some alice) None [] []))
    \<and> c \<in> set cells \<and> create_advance_booking room_a (sc_slot_start c) (sample_ctx (at 9 0) alice) wide_st = Inr (r, s')
    \<and> sc_state c = State_OUTSIDE_HORIZON"
proof -
  let ?cx = "sample_ctx (at 9 0) alice"
  have "room_a \<in> set (listed_rooms wide_st None [] [])"
    by (simp add: listed_rooms_def wide_st_def sample_st_def) (simp add: room_a_def sample_room_def blank_room_def)
  then have "listed_rooms wide_st None [] [] \<noteq> []" "room_a \<in> set (listed_rooms wide_st None [] [])" by auto
  then obtain cells where row: "(room_a, cells) \<in> set (gr_rows (public_grid wide_st (monday + 3) (at 9 0) (Some alice) None [] []))"
    by (auto simp: public_grid_def Let_def)
  obtain c where c: "c \<in> set cells" "sc_slot_start c = thursday_ten"
    using cells_at [OF wide_facts(6)] unfolding grid_row(1) [OF wide_facts(1) row] by blast
  have cx: "ctx_actor ?cx = Some alice" "ctx_now ?cx = at 9 0" by (simp_all add: sample_ctx_def)
  from create_advance_booking_cases [OF cx(1), of room_a thursday_ten wide_st] wide_advance_ok
  obtain r s' where run: "create_advance_booking room_a (sc_slot_start c) ?cx wide_st = Inr (r, s')"
    by (auto simp: c(2) cx room_hour_held_def wide_st_def sample_tables)
  have "local_date (at 9 0) + HORIZON_DAYS (conf wide_st) < monday + 3" by (simp add: wide_facts sample_times)
  from grid_ignores_policy_horizon [OF wide_facts(1-3) row c(1) cx run this] row c run show ?thesis by blast
qed

end
