(* ===== verification/Suggest.thy ===== *)
theory Suggest
  imports Availability
begin

text \<open>
  Room suggestions (\<open>core/services/suggest.py\<close>): the rooms offered after a refusal (\<open>for_slot\<close>), the
  walk-in cards and the hours of the availability page. Then what a suggestion is worth: whatever the page
  suggests to an account that can act, the operation accepts at that moment.
\<close>

section \<open>Definitions\<close>

record free_now_card =
  fn_room :: room
  fn_remaining_minutes :: int
  fn_slot_key :: string

record hour_group =
  hg_slot_start :: time
  hg_slot_key :: string
  hg_rooms :: "room list"

record suggestion_set =
  sg_free_now :: "free_now_card list"
  sg_hours :: "hour_group list"
  sg_can_act :: bool
  sg_quota_remaining :: int
  sg_quota_exhausted :: bool
  sg_upcoming_full :: bool

definition viewer_can_act :: "st \<Rightarrow> user option \<Rightarrow> time \<Rightarrow> bool" where
  "viewer_can_act s user now = (user \<noteq> None \<and> account_block_code user = None \<and> \<not> is_suspended s user now)"

definition viewer_conflicts :: "st \<Rightarrow> user option \<Rightarrow> nat option \<Rightarrow> time list" where
  "viewer_conflicts s user exclude_booking_id = (case user of
       None \<Rightarrow> []
     | Some u \<Rightarrow> concat (map (\<lambda>b. [b_slot_start b, b_slot_start b - SLOT_DELTA, b_slot_start b + SLOT_DELTA])
         (filter (\<lambda>b. b_user b = u_pk u \<and> b_status b \<in> set BLOCKING_STATUSES
            \<and> (case exclude_booking_id of None \<Rightarrow> True | Some pk \<Rightarrow> b_pk b \<noteq> pk)) (bookings s))))"

definition room_has_blocker :: "st \<Rightarrow> nat \<Rightarrow> time \<Rightarrow> bool" where
  "room_has_blocker s room_pk slot_start = list_ex
     (\<lambda>b. b_room b = room_pk \<and> b_slot_start b = slot_start \<and> b_status b \<in> set BLOCKING_STATUSES) (bookings s)"

definition for_slot :: "st \<Rightarrow> time \<Rightarrow> time \<Rightarrow> user option \<Rightarrow> nat option \<Rightarrow> room list" where
  "for_slot s slot_start now user exclude_booking_id =
    (let viewer_category = category_for_user s user;
         viewer_member_rooms = member_room_ids s user;
         conflicts = viewer_conflicts s user exclude_booking_id;
         active = order_by (\<lambda>r. (r_position r, r_number r)) (filter r_is_active (rooms s));
         found = filter (\<lambda>room.
            if r_availability_only room \<or> \<not> admits s room viewer_category viewer_member_rooms then False
            else case assert_slot_open s slot_start room of
                Inl _ \<Rightarrow> False
              | Inr _ \<Rightarrow> if slot_start \<le> now then False
                  else if slot_start \<in> set conflicts then False
                  else if room_has_blocker s (r_pk room) slot_start then False
                  else True) active
     in order_by (\<lambda>r. (r_position r, r_number r)) found)"

definition free_now :: "st \<Rightarrow> date \<Rightarrow> time \<Rightarrow> user option \<Rightarrow> int option \<Rightarrow> string \<Rightarrow> string \<Rightarrow> free_now_card list" where
  "free_now s d now user capacity_min equipment_query room_number =
    (let today = local_date now in
     if d \<noteq> today then []
     else case day_hours s today of
       None \<Rightarrow> []
     | Some (open_hour, close_hour) \<Rightarrow>
       if \<not> (open_hour \<le> local_hour now \<and> local_hour now < close_hour) then []
       else let slot_start = floor_to_slot now in
         if slot_start \<in> set (viewer_conflicts s user None) then []
         else let slot_end = slot_end_for slot_start; remaining = remaining_minutes now slot_end in
           if remaining \<le> 0 then []
           else let occupied = map b_room (filter (\<lambda>b. b_slot_start b = slot_start
                      \<and> b_status b \<in> set BLOCKING_STATUSES) (bookings s));
                    forfeited = (case user of None \<Rightarrow> [] | Some u \<Rightarrow> map b_room (filter (\<lambda>b. b_user b = u_pk u
                      \<and> b_slot_start b = slot_start \<and> b_status b = NO_SHOW) (bookings s)));
                    open_rooms = filter (\<lambda>r. \<not> r_availability_only r \<and> \<not> r_requires_approval r
                      \<and> \<not> r_members_only r) (listed_rooms s capacity_min equipment_query room_number)
             in map (\<lambda>room. \<lparr>fn_room = room, fn_remaining_minutes = remaining, fn_slot_key = encode_slot slot_start\<rparr>)
                  (filter (\<lambda>room. \<not> (r_pk room \<in> set occupied \<or> r_pk room \<in> set forfeited)
                     \<and> \<not> is_slot_closed s slot_start (r_pk room)
                     \<and> weekly_block_for s slot_start (r_pk room) = None) open_rooms))"

definition hour_groups :: "st \<Rightarrow> date \<Rightarrow> time \<Rightarrow> user option \<Rightarrow> int option \<Rightarrow> string \<Rightarrow> string \<Rightarrow> nat \<Rightarrow> hour_group list" where
  "hour_groups s d now user capacity_min equipment_query room_number limit =
    (let viewer_category = category_for_user s user;
         viewer_member_rooms = member_room_ids s user;
         conflicts = viewer_conflicts s user None;
         page = public_grid s d now user capacity_min equipment_query room_number;
         by_slot = concat (map (\<lambda>(room, cells).
            if \<not> admits s room viewer_category viewer_member_rooms then []
            else map (\<lambda>cell. (sc_slot_start cell, room)) (filter (\<lambda>cell. \<not> (\<not> can_reserve cell \<or> sc_slot_start cell \<le> now)
               \<and> sc_slot_start cell \<notin> set conflicts) cells)) (gr_rows page))
     in map (\<lambda>slot_start. \<lparr>hg_slot_start = slot_start, hg_slot_key = encode_slot slot_start,
            hg_rooms = order_by (\<lambda>r. (r_position r, r_number r))
              (map snd (filter (\<lambda>p. fst p = slot_start) by_slot))\<rparr>)
          (take limit (sort (remdups (map fst by_slot)))))"

definition suggestions :: "st \<Rightarrow> date \<Rightarrow> time \<Rightarrow> user option \<Rightarrow> int option \<Rightarrow> string \<Rightarrow> string \<Rightarrow> suggestion_set" where
  "suggestions s d now user capacity_min equipment_query room_number =
    (let remaining_quota = map_option (\<lambda>u. quota_remaining s (u_pk u) d) user;
         upcoming_full = (case user of None \<Rightarrow> False | Some u \<Rightarrow> upcoming_remaining s (u_pk u) now \<le> 0);
         exhausted = ((case remaining_quota of None \<Rightarrow> False | Some n \<Rightarrow> n \<le> 0) \<or> upcoming_full)
     in \<lparr>sg_free_now = (if exhausted then [] else free_now s d now user capacity_min equipment_query room_number),
         sg_hours = (if exhausted then [] else hour_groups s d now user capacity_min equipment_query room_number 4),
         sg_can_act = viewer_can_act s user now,
         sg_quota_remaining = max 0 (case remaining_quota of None \<Rightarrow> 0 | Some n \<Rightarrow> n),
         sg_quota_exhausted = (exhausted \<and> \<not> upcoming_full),
         sg_upcoming_full = upcoming_full\<rparr>)"

section \<open>Lemmas\<close>

lemma room_has_blocker_held: "room_has_blocker s r t = room_hour_held s r t"
  by (simp add: room_has_blocker_def room_hour_held_def)

lemma viewer_conflicts_iff: "t \<in> set (viewer_conflicts s (Some u) None) \<longleftrightarrow> blocking_bookings s (u_pk u) t \<noteq> []"
  by (force simp: viewer_conflicts_def blocking_bookings_def filter_empty_conv)

lemma viewer_can_act_iff: "viewer_can_act s (Some u) now \<longleftrightarrow> account_ok u \<and> \<not> suspended_at s (u_pk u) now"
  by (simp add: viewer_can_act_def account_block_code_None is_suspended_iff)

text \<open>The account has room in its quota for one more hour of that day.\<close>

definition quota_left :: "st \<Rightarrow> user \<Rightarrow> date \<Rightarrow> time \<Rightarrow> bool" where
  "quota_left s u d now \<longleftrightarrow> quota_used s (u_pk u) d < daily_quota (current_policy s)
     \<and> upcoming_hours s (u_pk u) now < max_upcoming_hours (conf s) (current_policy s)"

lemma quota_left_exhausted:
  "\<not> (quota_remaining s (u_pk u) d \<le> 0 \<or> upcoming_remaining s (u_pk u) now \<le> 0) \<longleftrightarrow> quota_left s u d now"
  by (auto simp: quota_left_def quota_remaining_def upcoming_remaining_def)

lemma suggestions_Some:
  "sg_free_now (suggestions s d now (Some u) cap eq num) = (if quota_left s u d now then free_now s d now (Some u) cap eq num else [])"
  "sg_hours (suggestions s d now (Some u) cap eq num) = (if quota_left s u d now then hour_groups s d now (Some u) cap eq num 4 else [])"
  "sg_can_act (suggestions s d now (Some u) cap eq num) = viewer_can_act s (Some u) now"
  unfolding quota_left_exhausted [symmetric] by (auto simp: suggestions_def Let_def)

lemma quota_ok_left:
  "quota_ok s (u_pk u) r t now \<longleftrightarrow> blocking_bookings s (u_pk u) t = [] \<and> quota_left s u (local_date t) now
     \<and> \<not> no_show_reclaim s (u_pk u) r t"
  by (auto simp: quota_ok_def quota_left_def)

lemma advance_accepts:
  assumes "ctx_actor cx = Some u"
  shows "(\<exists>r s'. create_advance_booking room t cx s = Inr (r, s'))
    \<longleftrightarrow> advance_ok u room t (ctx_now cx) s \<and> \<not> room_hour_held s (r_pk room) t"
  using create_advance_booking_cases [OF assms, of room t s] by (auto split: if_splits)

lemma walk_in_accepts:
  assumes "ctx_actor cx = Some u"
  shows "(\<exists>r s'. use_now room cx s = Inr (r, s')) \<longleftrightarrow> walk_in_ok u room (ctx_now cx) s"
  using use_now_cases [OF assms, of room s] by (auto split: if_splits)

lemma listed_room: "room \<in> set (listed_rooms s cap eq num) \<Longrightarrow> room \<in> set (rooms s) \<and> r_is_active room"
  by (simp add: listed_rooms_def)

lemma free_now_card:
  assumes "crd \<in> set (free_now s d now (Some u) cap eq num)"
  shows "d = local_date now" "\<exists>op cl. day_hours s (local_date now) = Some (op, cl) \<and> op \<le> local_hour now \<and> local_hour now < cl"
    "floor_to_slot now \<notin> set (viewer_conflicts s (Some u) None)" "fn_room crd \<in> set (listed_rooms s cap eq num)"
    "\<not> r_availability_only (fn_room crd)" "\<not> r_requires_approval (fn_room crd)" "\<not> r_members_only (fn_room crd)"
    "\<not> is_slot_closed s (floor_to_slot now) (r_pk (fn_room crd))" "weekly_block_for s (floor_to_slot now) (r_pk (fn_room crd)) = None"
    "r_pk (fn_room crd) \<notin> b_room ` {b \<in> set (bookings s). b_slot_start b = floor_to_slot now \<and> b_status b \<in> set BLOCKING_STATUSES}"
    "r_pk (fn_room crd) \<notin> b_room ` {b \<in> set (bookings s). b_user b = u_pk u \<and> b_slot_start b = floor_to_slot now \<and> b_status b = NO_SHOW}"
  using assms unfolding free_now_def Let_def option.case set_map set_filter
  by (auto split: option.splits if_splits)

section \<open>Properties\<close>

text \<open>C26: The alternatives after a refusal are exact. For an account that may operate and has quota, and an hour
  inside the horizon that it has not forfeited, \<open>for_slot\<close> lists exactly the rooms for which
  \<open>create_advance_booking\<close> accepts that hour. The room that was just refused is among them if it would be accepted
  by now: the code, unlike its docstring, does not know which room that was.\<close>

theorem for_slot_exact:
  assumes "ctx_actor cx = Some u" "assert_can_operate s (Some u) (ctx_now cx) = Inr ()" "is_hour_aligned t"
    and "local_date t \<le> local_date (ctx_now cx) + horizon_days (current_policy s)"
    and "quota_left s u (local_date t) (ctx_now cx)" "\<And>r. \<not> no_show_reclaim s (u_pk u) r t"
  shows "set (for_slot s t (ctx_now cx) (Some u) None)
    = {room \<in> set (rooms s). \<exists>r s'. create_advance_booking room t cx s = Inr (r, s')}"
proof -
  have "room \<in> set (for_slot s t (ctx_now cx) (Some u) None) \<longleftrightarrow>
      room \<in> set (rooms s) \<and> advance_ok u room t (ctx_now cx) s \<and> \<not> room_hour_held s (r_pk room) t" for room
  proof -
    have op: "(case assert_slot_open s t room of Inl _ \<Rightarrow> False | Inr _ \<Rightarrow> P) \<longleftrightarrow> slot_open s t room \<and> P" for P
      using assert_slot_open_Inr [of s t room] by (cases "assert_slot_open s t room") auto
    have "room \<in> set (for_slot s t (ctx_now cx) (Some u) None) \<longleftrightarrow> room \<in> set (rooms s) \<and> r_is_active room
        \<and> \<not> r_availability_only room \<and> admits s room (category_for_user s (Some u)) (member_room_ids s (Some u))
        \<and> slot_open s t room \<and> ctx_now cx < t \<and> blocking_bookings s (u_pk u) t = [] \<and> \<not> room_hour_held s (r_pk room) t"
      by (auto simp: for_slot_def Let_def op viewer_conflicts_iff room_has_blocker_held)
    also have "\<dots> \<longleftrightarrow> room \<in> set (rooms s) \<and> advance_ok u room t (ctx_now cx) s \<and> \<not> room_hour_held s (r_pk room) t"
      using assms(2-6) by (auto simp: advance_ok_def may_reserve_def assert_can_operate_Inr is_within_horizon_def quota_ok_left)
    finally show ?thesis .
  qed
  then show ?thesis unfolding advance_accepts [OF assms(1)] by blast
qed

text \<open>C25: What the page suggests can be done. For a signed-in account that the page says can act, every
  walk-in card names a room whose running hour \<open>use_now\<close> accepts, and every suggested hour names only
  rooms for which \<open>create_advance_booking\<close> accepts it, as long as the active policy keeps the horizon of
  the settings and no hour ahead has been forfeited.\<close>

theorem suggestions_are_accepted:
  assumes "hours_ok s" "reasons_given s" "dates_derived s" "horizon_days (current_policy s) = HORIZON_DAYS (conf s)"
    and "\<And>b. b \<in> set (bookings s) \<Longrightarrow> b_status b = NO_SHOW \<Longrightarrow> b_slot_start b \<le> ctx_now cx"
    and "ctx_actor cx = Some u" "sg = suggestions s d (ctx_now cx) (Some u) cap eq num" "sg_can_act sg"
  shows "(\<forall>crd \<in> set (sg_free_now sg). \<exists>r s'. use_now (fn_room crd) cx s = Inr (r, s'))
    \<and> (\<forall>g \<in> set (sg_hours sg). \<forall>room \<in> set (hg_rooms g).
          \<exists>r s'. create_advance_booking room (hg_slot_start g) cx s = Inr (r, s'))"
proof (intro conjI ballI)
  let ?now = "ctx_now cx"
  have act: "account_ok u" "\<not> suspended_at s (u_pk u) ?now"
    using assms(8) by (simp_all add: assms(7) suggestions_Some viewer_can_act_iff)
  fix crd assume "crd \<in> set (sg_free_now sg)"
  then have left: "quota_left s u d ?now" and c: "crd \<in> set (free_now s d ?now (Some u) cap eq num)"
    by (auto simp: assms(7) suggestions_Some split: if_splits)
  let ?t = "floor_to_slot ?now" and ?room = "fn_room crd"
  note card = free_now_card [OF c]
  have free: "blocking_bookings s (u_pk u) ?t = []" "\<not> room_hour_held s (r_pk ?room) ?t"
      "\<not> no_show_reclaim s (u_pk u) (r_pk ?room) ?t" "r_is_active ?room"
    using card(3,4,10,11) listed_room
    by (auto simp: viewer_conflicts_iff room_hour_held_iff no_show_reclaim_def list_ex_iff occupies_slot_def image_iff)
  have "slot_open s ?t ?room"
    using card(2,8,9) free(4) by (auto simp: slot_open_def floor_to_slot_date local_hour_floor is_slot_closed_iff weekly_block_for_None)
  then show "\<exists>r s'. use_now ?room cx s = Inr (r, s')"
    unfolding walk_in_accepts [OF assms(6)] walk_in_ok_def assert_may_use_room_Inr quota_ok_left
    using act free left card(1,5-7) by (simp add: floor_to_slot_date)
next
  let ?now = "ctx_now cx"
  have act: "account_ok u" "\<not> suspended_at s (u_pk u) ?now"
    using assms(8) by (simp_all add: assms(7) suggestions_Some viewer_can_act_iff)
  fix g room assume "g \<in> set (sg_hours sg)" "room \<in> set (hg_rooms g)"
  then have left: "quota_left s u d ?now" and g: "g \<in> set (hour_groups s d ?now (Some u) cap eq num 4)" "room \<in> set (hg_rooms g)"
    by (auto simp: assms(7) suggestions_Some split: if_splits)
  let ?t = "hg_slot_start g"
  from g obtain cells c where row: "(room, cells) \<in> set (gr_rows (public_grid s d ?now (Some u) cap eq num))"
    and c: "c \<in> set cells" "sc_slot_start c = ?t" "can_reserve c" "blocking_bookings s (u_pk u) ?t = []"
    by (auto simp: hour_groups_def Let_def viewer_conflicts_iff split: if_splits)
  note r = grid_row [OF assms(1) row]
  have ids: "r_pk room \<in> set (map r_pk (listed_rooms s cap eq num))" using r(2) by simp
  note cell = cell_state [OF assms(1-3) ids c(1) [unfolded r(1)]]
  note f = column_start_facts [OF assms(1) cell(2)]
  have ok: "?now < ?t" "slot_open s ?t room" "\<not> r_availability_only room" "\<not> room_hour_held s (r_pk room) ?t"
    "local_date ?t \<le> local_date ?now + HORIZON_DAYS (conf s)" "admits s room (category_for_user s (Some u)) (member_room_ids s (Some u))"
    using cell(4) c(2,3) by (auto simp: can_reserve_def)
  have "\<not> no_show_reclaim s (u_pk u) (r_pk room) ?t" using assms(5) ok(1) by (fastforce simp: no_show_reclaim_def list_ex_iff)
  moreover have "r_is_active room" using ok(2) by (simp add: slot_open_def)
  ultimately show "\<exists>r s'. create_advance_booking room ?t cx s = Inr (r, s')"
    unfolding advance_accepts [OF assms(6)] advance_ok_def quota_ok_left may_reserve_def is_within_horizon_def assms(4)
    using act ok c(4) left f(1,2) by (simp add: c(2))
qed

section \<open>A morning\<close>

lemma sample_quota_left: "quota_left (sample_st t) alice d now"
  by (simp add: quota_left_def quota_used_def upcoming_hours_def sample_policy sample_tables(1))

theorem for_slot_exact_witness:
  "room_a \<in> set (for_slot (sample_st (at 9 0)) (at 10 0) (at 9 0) (Some alice) None)"
proof -
  let ?s = "sample_st (at 9 0)" and ?cx = "sample_ctx (at 9 0) alice"
  have cx: "ctx_actor ?cx = Some alice" "ctx_now ?cx = at 9 0" by (simp_all add: sample_ctx_def)
  have h: "local_date (at 10 0) \<le> local_date (ctx_now ?cx) + horizon_days (current_policy ?s)"
    by (simp add: cx sample_times(2,3) sample_policy)
  have n: "\<not> no_show_reclaim ?s (u_pk alice) r (at 10 0)" for r by (simp add: no_show_reclaim_def sample_tables)
  have "\<exists>r s'. create_advance_booking room_a (at 10 0) ?cx ?s = Inr (r, s')"
    unfolding advance_accepts [OF cx(1)] cx(2) using sample_advance_ok by (simp add: room_hour_held_def sample_tables)
  moreover have "room_a \<in> set (rooms ?s)" by (simp add: sample_st_def)
  ultimately show ?thesis
    using for_slot_exact [OF cx(1) sample_may_operate sample_times(5) h sample_quota_left n] by (simp add: cx)
qed

lemma sample_walk_in_card:
  "\<exists>crd. crd \<in> set (free_now (sample_st (at 10 5)) monday (at 10 5) (Some alice) None [] []) \<and> fn_room crd = room_a"
proof -
  let ?s = "sample_st (at 10 5)"
  have now: "floor_to_slot (at 10 5) = at 10 0"
    by (rule floor_to_slot_unique [OF sample_times(5)]) (simp_all add: at_def slot_end_for_def SLOT_DELTA_def us_defs)
  have t: "local_date (at 10 5) = monday" "local_hour (at 10 5) = 10"
    using floor_to_slot_date [of "at 10 5"] local_hour_floor [of "at 10 5"] sample_times(2,4) by (simp_all add: now)
  have rem: "\<not> remaining_minutes (at 10 5) (slot_end_for (at 10 0)) \<le> 0"
    by (simp add: remaining_minutes_def at_def slot_end_for_def SLOT_DELTA_def us_defs)
  have listed: "room_a \<in> set (listed_rooms ?s None [] [])"
    by (simp add: listed_rooms_def sample_st_def) (simp add: room_a_def sample_room_def blank_room_def)
  have kind: "\<not> r_availability_only room_a" "\<not> r_requires_approval room_a" "\<not> r_members_only room_a"
    by (simp_all add: room_a_def sample_room_def blank_room_def)
  have "\<not> is_slot_closed ?s x r" "weekly_block_for ?s x r = None" for x r
    by (simp_all add: is_slot_closed_iff weekly_block_for_None sample_tables)
  with rem listed kind show ?thesis
    by (force simp: free_now_def Let_def t now sample_calendar(4) viewer_conflicts_def sample_tables)
qed

theorem suggestions_are_accepted_witness:
  "\<exists>crd r s'. crd \<in> set (sg_free_now (suggestions (sample_st (at 10 5)) monday (at 10 5) (Some alice) None [] []))
    \<and> use_now (fn_room crd) (sample_ctx (at 10 5) alice) (sample_st (at 10 5)) = Inr (r, s')"
proof -
  let ?s = "sample_st (at 10 5)" and ?cx = "sample_ctx (at 10 5) alice"
  let ?sg = "suggestions ?s monday (at 10 5) (Some alice) None [] []"
  have cx: "ctx_actor ?cx = Some alice" "ctx_now ?cx = at 10 5" by (simp_all add: sample_ctx_def)
  have h: "horizon_days (current_policy ?s) = HORIZON_DAYS (conf ?s)"
    by (simp add: sample_policy sample_tables default_settings_def)
  have "sg_can_act ?sg"
    using sample_may_operate [of "at 10 5" "at 10 5"] by (simp add: suggestions_Some viewer_can_act_iff assert_can_operate_Inr)
  note acc = suggestions_are_accepted [OF sample_calendar(1-3) h _ cx(1) refl, unfolded cx(2), OF _ this]
  from sample_walk_in_card obtain crd where "crd \<in> set (free_now ?s monday (at 10 5) (Some alice) None [] [])" by blast
  then have crd: "crd \<in> set (sg_free_now ?sg)" by (simp add: suggestions_Some sample_quota_left)
  with acc obtain r s' where "use_now (fn_room crd) ?cx ?s = Inr (r, s')" by (auto simp: sample_tables)
  with crd show ?thesis by blast
qed

end
