(* ===== verification/Timeline.thy ===== *)
theory Timeline
  imports Availability "HOL-Library.AList"
begin

text \<open>
  The staff timeline of one day (\<open>core/services/timeline.py\<close>): every room's classes, closures and
  bookings as bars on the day's hours, and the gaps that open the booking form. The loops over all rooms
  fill one row per room and never look at another room's row, so the model builds the rows one by one.
  Then: a gap is an hour that the staff booking accepts.
\<close>

section \<open>Bars\<close>

datatype bar_kind = Bar_pending | Bar_booked | Bar_staff | Bar_inuse | Bar_done | Bar_noshow | Bar_class | Bar_closed

fun BOOKING_KIND :: "status \<Rightarrow> bar_kind option" where
  "BOOKING_KIND PENDING_APPROVAL = Some Bar_pending"
| "BOOKING_KIND SCHEDULED = Some Bar_booked"
| "BOOKING_KIND IN_USE = Some Bar_inuse"
| "BOOKING_KIND COMPLETED = Some Bar_done"
| "BOOKING_KIND NO_SHOW = Some Bar_noshow"
| "BOOKING_KIND CANCELLED = None"
| "BOOKING_KIND REJECTED = None"

record bar =
  br_kind :: bar_kind
  br_start_hour :: int
  br_end_hour :: int
  br_label :: string
  br_booking :: "booking option"
  br_col_start :: int
  br_col_end :: int
  br_lane :: nat

definition mk_bar :: "bar_kind \<Rightarrow> int \<Rightarrow> int \<Rightarrow> string \<Rightarrow> booking option \<Rightarrow> bar" where
  "mk_bar kind start_hour end_hour label booking = \<lparr>br_kind = kind, br_start_hour = start_hour, br_end_hour = end_hour,
     br_label = label, br_booking = booking, br_col_start = 0, br_col_end = 0, br_lane = 1\<rparr>"

record timeline_row =
  tr_room :: room
  tr_bars :: "bar list"
  tr_gaps :: "(int \<times> int) list"
  tr_has_lanes :: bool

definition display_name :: "user \<Rightarrow> string" where
  "display_name u = (if u_locale u = ''en'' \<and> u_name_en u \<noteq> '''' then u_name_en u
     else or_text (u_name_th u) (or_text (u_name_en u) (u_username u)))"

section \<open>The day\<close>

definition place :: "int \<Rightarrow> int \<Rightarrow> bar \<Rightarrow> bar option" where
  "place open_hour close_hour bar =
    (let start = max (br_start_hour bar) open_hour; fin = min (br_end_hour bar) close_hour in
     if start \<ge> fin then None
     else Some (bar\<lparr>br_start_hour := start, br_end_hour := fin,
       br_col_start := start - open_hour + 1, br_col_end := fin - open_hour + 1\<rparr>))"

definition add_bar :: "int \<Rightarrow> int \<Rightarrow> bar \<Rightarrow> bar list \<times> int list \<Rightarrow> bar list \<times> int list" where
  "add_bar open_hour close_hour bar acc = (let (bars, taken) = acc in
     case place open_hour close_hour bar of
       None \<Rightarrow> (bars, taken)
     | Some bar \<Rightarrow> (bars @ [bar], taken @ [br_start_hour bar..br_end_hour bar - 1]))"

definition closure_hours :: "date \<Rightarrow> closure \<Rightarrow> int \<times> int" where
  "closure_hours d c =
    (if local_date (c_starts_at c) = d then local_hour (c_starts_at c) else 0,
     if local_date (c_ends_at c) = d
     then local_hour (c_ends_at c) + (if local_minute (c_ends_at c) \<noteq> 0 then 1 else 0) else 24)"

text \<open>A no-show releases its hour: a later booking of the hour takes its place in the dictionary.\<close>

definition hold_hour :: "booking \<Rightarrow> ((nat \<times> time) \<times> booking) list \<Rightarrow> ((nat \<times> time) \<times> booking) list" where
  "hold_hour b m = (let key = (b_room b, b_slot_start b) in
     case map_of m key of
       None \<Rightarrow> AList.update key b m
     | Some x \<Rightarrow> if b_status x = NO_SHOW then AList.update key b m else m)"

definition drawn_bookings :: "st \<Rightarrow> date \<Rightarrow> nat list \<Rightarrow> booking list" where
  "drawn_bookings s d room_ids = map snd (fold hold_hour (order_by b_slot_start (filter
     (\<lambda>b. b_slot_date b = d \<and> b_room b \<in> set room_ids \<and> BOOKING_KIND (b_status b) \<noteq> None) (bookings s))) [])"

definition booking_bar :: "st \<Rightarrow> booking \<Rightarrow> bar" where
  "booking_bar s b =
    (let hour = local_hour (b_slot_start b);
         kind = (case BOOKING_KIND (b_status b) of Some k \<Rightarrow> k | None \<Rightarrow> Bar_closed);
         kind = (if kind \<in> {Bar_booked, Bar_inuse} \<and> b_is_staff_booking b then Bar_staff else kind);
         name = display_name (user_of s (b_user b));
         label = (if kind = Bar_staff then or_text (b_title b) name
           else name @ (if b_title b \<noteq> '''' then '' '' @ [CHR 0xB7] @ '' '' @ b_title b else ''''))
     in mk_bar kind hour (hour + 1) label (Some b))"

definition add_booking :: "st \<Rightarrow> int \<Rightarrow> int \<Rightarrow> booking \<Rightarrow> bar list \<times> int list \<times> bool \<Rightarrow> bar list \<times> int list \<times> bool" where
  "add_booking s open_hour close_hour b acc = (let (bars, taken, lanes) = acc; hour = local_hour (b_slot_start b) in
     case place open_hour close_hour (booking_bar s b) of
       None \<Rightarrow> (bars, taken, lanes)
     | Some bar \<Rightarrow> if hour \<in> set taken then (bars @ [bar\<lparr>br_lane := 2\<rparr>], taken @ [hour], True)
         else (bars @ [bar], taken @ [hour], lanes))"

definition row_of_room :: "st \<Rightarrow> date \<Rightarrow> time \<Rightarrow> int \<Rightarrow> int \<Rightarrow> (nat \<Rightarrow> weekly_block list)
    \<Rightarrow> (nat option \<Rightarrow> closure list) \<Rightarrow> booking list \<Rightarrow> room \<Rightarrow> timeline_row" where
  "row_of_room s d now open_hour close_hour blocks closed_by drawn room =
    (let class_bars = map (\<lambda>w. mk_bar Bar_class (wb_start_hour w) (wb_end_hour w) (wb_reason w) None) (blocks (r_pk room));
         closed_bars = map (\<lambda>c. let (start_hour, end_hour) = closure_hours d c
             in mk_bar Bar_closed start_hour end_hour (c_reason c) None) (closed_by None @ closed_by (Some (r_pk room)));
         (bars, taken) = fold (add_bar open_hour close_hour) (class_bars @ closed_bars) ([], []);
         (bars, taken, lanes) = fold (add_booking s open_hour close_hour)
           (filter (\<lambda>b. b_room b = r_pk room) drawn) (bars, taken, False);
         current = (if local_date now = d then Some (local_hour (floor_to_slot now)) else None);
         future_day = (d > local_date now);
         gaps = map (\<lambda>hour. (hour, hour - open_hour + 1))
           (filter (\<lambda>hour. hour \<notin> set taken
              \<and> (future_day \<or> (case current of None \<Rightarrow> False | Some h \<Rightarrow> hour > h))) [open_hour..close_hour - 1])
     in \<lparr>tr_room = room, tr_bars = bars, tr_gaps = gaps, tr_has_lanes = lanes\<rparr>)"

record timeline_view =
  tl_hours :: "(int \<times> int) option"
  tl_columns :: "int list"
  tl_groups :: "(room_kind \<times> timeline_row list) list"
  tl_now_percent :: "int option"

definition day_timeline :: "st \<Rightarrow> date \<Rightarrow> time \<Rightarrow> timeline_view" where
  "day_timeline s d now =
    (let shown = order_by (\<lambda>r. (r_position r, r_number r)) (filter r_is_active (rooms s)) in
     case day_hours s d of
       None \<Rightarrow> \<lparr>tl_hours = None, tl_columns = [], tl_groups = [], tl_now_percent = None\<rparr>
     | Some (open_hour, close_hour) \<Rightarrow>
       let room_ids = map r_pk shown;
           row = row_of_room s d now open_hour close_hour (weekly_blocks_for_date s d room_ids) (closures_for s d)
             (drawn_bookings s d room_ids);
           now_percent = (if local_date now = d
             then Some (max 0 (min 100 (round_half_even ((now - slot_start_for d open_hour) * 100)
               ((close_hour - open_hour) * us_hour))))
             else None)
       in \<lparr>tl_hours = Some (open_hour, close_hour), tl_columns = [open_hour..close_hour - 1],
           tl_groups = filter (\<lambda>(kind, members). members \<noteq> [])
             (map (\<lambda>kind. (kind, map row (filter (\<lambda>r. room_kind r = kind) shown)))
               [Kind_teaching, Kind_meeting, Kind_practice]),
           tl_now_percent = now_percent\<rparr>)"

section \<open>Lemmas\<close>

text \<open>The hours a bar takes.\<close>

definition bar_hours :: "int \<Rightarrow> int \<Rightarrow> bar \<Rightarrow> int set" where
  "bar_hours op cl b = {h. op \<le> h \<and> h < cl \<and> br_start_hour b \<le> h \<and> h < br_end_hour b}"

lemma add_bar_taken: "set (snd (add_bar op cl b acc)) = set (snd acc) \<union> bar_hours op cl b"
  by (cases acc) (auto simp: add_bar_def place_def bar_hours_def Let_def)

lemma fold_add_bar_taken:
  "set (snd (fold (add_bar op cl) bs acc)) = set (snd acc) \<union> (\<Union>b \<in> set bs. bar_hours op cl b)"
  by (induction bs arbitrary: acc) (auto simp: add_bar_taken)

lemma add_booking_taken:
  "set (fst (snd (add_booking s op cl b acc))) = set (fst (snd acc)) \<union> ({local_hour (b_slot_start b)} \<inter> {op..<cl})"
  by (cases acc) (auto simp: add_booking_def place_def booking_bar_def mk_bar_def Let_def split: if_splits)

lemma fold_add_booking_taken:
  "set (fst (snd (fold (add_booking s op cl) bs acc)))
     = set (fst (snd acc)) \<union> ((\<lambda>b. local_hour (b_slot_start b)) ` set bs \<inter> {op..<cl})"
  by (induction bs arbitrary: acc) (auto simp: add_booking_taken)

lemma hold_hour_keys:
  "map_of m k \<noteq> None \<Longrightarrow> map_of (hold_hour b m) k \<noteq> None"
  "map_of (hold_hour b m) (b_room b, b_slot_start b) \<noteq> None"
  by (auto simp: hold_hour_def Let_def update_conv' split: option.splits)

lemma fold_hold_hour_keys:
  "b \<in> set bs \<or> map_of m (b_room b, b_slot_start b) \<noteq> None \<Longrightarrow> map_of (fold hold_hour bs m) (b_room b, b_slot_start b) \<noteq> None"
proof (induction bs arbitrary: m)
  case (Cons x bs)
  then show ?case using hold_hour_keys by (auto intro!: Cons.IH)
qed simp

lemma in_update: "(k, x) \<in> set (AList.update k' y m) \<Longrightarrow> (k, x) = (k', y) \<or> (k, x) \<in> set m"
  by (induction m) (auto split: if_splits)

lemma fold_hold_hour_rows:
  assumes "\<And>k x. (k, x) \<in> set m \<Longrightarrow> k = (b_room x, b_slot_start x)"
  shows "(k, x) \<in> set (fold hold_hour bs m) \<Longrightarrow> k = (b_room x, b_slot_start x)"
  using assms
proof (induction bs arbitrary: m)
  case (Cons y bs)
  have "k = (b_room x, b_slot_start x)" if "(k, x) \<in> set (hold_hour y m)" for k x
    using that Cons.prems(2)
    by (cases k) (auto simp: hold_hour_def Let_def dest!: in_update split: option.splits if_splits)
  with Cons.IH Cons.prems(1) show ?case by simp
qed simp

text \<open>Every row of the day that a status colours has its hour drawn, by itself or by the row that replaced it.\<close>

lemma drawn_hour:
  assumes "b \<in> set (bookings s)" "b_slot_date b = d" "b_room b \<in> set ids" "BOOKING_KIND (b_status b) \<noteq> None"
  shows "\<exists>x \<in> set (drawn_bookings s d ids). b_room x = b_room b \<and> b_slot_start x = b_slot_start b"
proof -
  let ?bs = "order_by b_slot_start (filter (\<lambda>b. b_slot_date b = d \<and> b_room b \<in> set ids
      \<and> BOOKING_KIND (b_status b) \<noteq> None) (bookings s))"
  have "b \<in> set ?bs" using assms by simp
  then obtain x where x: "map_of (fold hold_hour ?bs []) (b_room b, b_slot_start b) = Some x"
    using fold_hold_hour_keys [of b ?bs "[]"] by blast
  have "(b_room b, b_slot_start b) = (b_room x, b_slot_start x)"
    by (rule fold_hold_hour_rows [OF _ map_of_SomeD [OF x]]) simp
  with map_of_SomeD [OF x] show ?thesis unfolding drawn_bookings_def set_map by force
qed

lemma blocking_drawn: "occupies_slot b \<Longrightarrow> BOOKING_KIND (b_status b) \<noteq> None"
  by (cases "b_status b") (auto simp: occupies_slot_def)

lemma local_parts: "(t + BANGKOK) = local_date t * us_day + local_hour t * us_hour + (t + BANGKOK) mod us_hour"
proof -
  have "(t + BANGKOK) mod us_day mod us_hour = (t + BANGKOK) mod us_hour" by (simp add: mod_mod_cancel)
  then show ?thesis
    using div_mult_mod_eq [of "t + BANGKOK" us_day] div_mult_mod_eq [of "(t + BANGKOK) mod us_day" us_hour]
    unfolding local_date_def local_hour_def by linarith
qed

lemma before_slot:
  "local_date t = d \<Longrightarrow> t < slot_start_for d (h + 1) \<Longrightarrow> local_hour t \<le> h"
  "local_date t = d \<Longrightarrow> slot_start_for d h \<le> t \<Longrightarrow> h \<le> local_hour t"
proof -
  note p = local_parts [of t] pos_mod_bound [OF us_pos(3), of "t + BANGKOK"] pos_mod_sign [OF us_pos(3), of "t + BANGKOK"]
  assume d: "local_date t = d"
  show "local_hour t \<le> h" if "t < slot_start_for d (h + 1)"
  proof -
    have "local_hour t * us_hour < (h + 1) * us_hour" using that p unfolding slot_start_for_def d by linarith
    then show ?thesis by simp
  qed
  show "h \<le> local_hour t" if "slot_start_for d h \<le> t"
  proof -
    have "h * us_hour < (local_hour t + 1) * us_hour" using that p unfolding slot_start_for_def d distrib_right by linarith
    then show ?thesis by simp
  qed
qed

lemma closure_covers_hour:
  assumes "0 \<le> h" "h < 24" "slot_start_for d h + us_minute \<le> c_ends_at c"
    and "c_starts_at c < slot_start_for d (h + 1)" "slot_start_for d h < c_ends_at c"
  shows "fst (closure_hours d c) \<le> h \<and> h < snd (closure_hours d c)"
proof -
  have "fst (closure_hours d c) \<le> h" using assms before_slot(1) by (simp add: closure_hours_def)
  moreover have "h < snd (closure_hours d c)"
  proof (cases "local_date (c_ends_at c) = d")
    case True
    then have le: "h \<le> local_hour (c_ends_at c)" using before_slot(2) assms(5) by simp
    show ?thesis
    proof (cases "h = local_hour (c_ends_at c)")
      case hour: True
      have "local_minute (c_ends_at c) \<noteq> 0"
      proof
        assume z: "local_minute (c_ends_at c) = 0"
        then have "(c_ends_at c + BANGKOK) mod us_hour < us_minute"
          using div_mult_mod_eq [of "(c_ends_at c + BANGKOK) mod us_hour" us_minute]
            pos_mod_bound [OF us_pos(2), of "(c_ends_at c + BANGKOK) mod us_hour"] by (simp add: local_minute_def)
        then have "c_ends_at c < slot_start_for d h + us_minute"
          using local_parts [of "c_ends_at c"] unfolding True hour [symmetric] slot_start_for_def by linarith
        with assms(3) show False by simp
      qed
      with True hour show ?thesis by (simp add: closure_hours_def)
    qed (use True le in \<open>simp add: closure_hours_def\<close>)
  qed (use assms(2) in \<open>simp add: closure_hours_def\<close>)
  ultimately show ?thesis ..
qed

lemma later_date: "local_date now < local_date t \<Longrightarrow> now < t"
  unfolding local_date_def by (metis add_less_cancel_right not_less us_pos(4) zdiv_mono1)

text \<open>A closure that reaches only into the first minute of an hour of a room: the drawing loses it, the services do not.\<close>

definition closed_first_minute :: "st \<Rightarrow> room \<Rightarrow> date \<Rightarrow> int \<Rightarrow> bool" where
  "closed_first_minute s room d h \<longleftrightarrow> (\<exists>c \<in> set (closures s). c_revoked_at c = None \<and> (c_room c = None \<or> c_room c = Some (r_pk room))
     \<and> c_starts_at c < slot_start_for d (h + 1) \<and> slot_start_for d h < c_ends_at c \<and> c_ends_at c < slot_start_for d h + us_minute)"

lemma first_minute_not_open:
  assumes "closed_first_minute s room d h"
  shows "\<not> slot_open s (slot_start_for d h) room"
  using assms by (auto simp: closed_first_minute_def slot_open_def closure_hits_def slot_end_for_slot_start)

text \<open>What a gap of a row says.\<close>

lemma gap_facts:
  assumes "hours_ok s" "day_hours s d = Some (op, cl)" "dates_derived s" "room \<in> set shown"
    and "(h, col) \<in> set (tr_gaps (row_of_room s d now op cl (weekly_blocks_for_date s d (map r_pk shown)) (closures_for s d)
       (drawn_bookings s d (map r_pk shown)) room))" "r_is_active room"
  shows "op \<le> h" "h < cl" "slot_open s (slot_start_for d h) room \<longleftrightarrow> \<not> closed_first_minute s room d h" "\<not> room_hour_held s (r_pk room) (slot_start_for d h)"
    "now < slot_start_for d h"
proof -
  note range = day_hours_range [OF assms(1,2)]
  let ?lessons = "map (\<lambda>w. mk_bar Bar_class (wb_start_hour w) (wb_end_hour w) (wb_reason w) None)
      (weekly_blocks_for_date s d (map r_pk shown) (r_pk room))"
  let ?closed = "map (\<lambda>c. let (start_hour, end_hour) = closure_hours d c
      in mk_bar Bar_closed start_hour end_hour (c_reason c) None) (closures_for s d None @ closures_for s d (Some (r_pk room)))"
  let ?mine = "filter (\<lambda>b. b_room b = r_pk room) (drawn_bookings s d (map r_pk shown))"
  let ?acc = "fold (add_bar op cl) (?lessons @ ?closed) ([], [])"
  let ?taken = "fst (snd (fold (add_booking s op cl) ?mine (fst ?acc, snd ?acc, False)))"
  from assms(5) have gap: "op \<le> h" "h < cl" "h \<notin> set ?taken"
    and time: "d > local_date now \<or> (local_date now = d \<and> local_hour (floor_to_slot now) < h)"
    by (auto simp: row_of_room_def Let_def split_beta split: if_splits)
  show "op \<le> h" "h < cl" using gap by simp_all
  from gap(3) have free: "\<And>b. b \<in> set (?lessons @ ?closed) \<Longrightarrow> h \<notin> bar_hours op cl b"
    "\<And>b. b \<in> set ?mine \<Longrightarrow> local_hour (b_slot_start b) \<noteq> h"
    unfolding fold_add_booking_taken fst_conv snd_conv fold_add_bar_taken using gap(1,2) by auto
  have t: "local_date (slot_start_for d h) = d" "local_hour (slot_start_for d h) = h" using gap range by simp_all
  have "\<not> block_covers (slot_start_for d h) (r_pk room) w" if w: "w \<in> set (weekly_blocks s)" for w
  proof
    assume cov: "block_covers (slot_start_for d h) (r_pk room) w"
    with w assms(4) have "w \<in> set (weekly_blocks_for_date s d (map r_pk shown) (r_pk room))"
      by (auto simp: weekly_blocks_for_date_def block_covers_def t)
    then have "h \<notin> bar_hours op cl (mk_bar Bar_class (wb_start_hour w) (wb_end_hour w) (wb_reason w) None)"
      by (intro free(1)) auto
    with cov gap show False by (simp add: bar_hours_def mk_bar_def block_covers_def t)
  qed
  moreover have "\<not> closure_hits (slot_start_for d h) (slot_end_for (slot_start_for d h)) (r_pk room) c"
    if c: "c \<in> set (closures s)" and whole: "\<not> closed_first_minute s room d h" for c
  proof
    assume hit: "closure_hits (slot_start_for d h) (slot_end_for (slot_start_for d h)) (r_pk room) c"
    then have o': "c_starts_at c < slot_start_for d (h + 1)" "slot_start_for d h < c_ends_at c" "c_revoked_at c = None"
      "c_room c = None \<or> c_room c = Some (r_pk room)" by (auto simp: closure_hits_def slot_end_for_slot_start)
    have "slot_start_for d 0 + 24 * us_hour = slot_start_for d 24" by (simp add: slot_start_for_def)
    then have "slot_start_for d (h + 1) \<le> slot_start_for d 0 + 24 * us_hour" "slot_start_for d 0 \<le> slot_start_for d h"
      using gap(1,2) range by simp_all
    with o'(1,2) have "c_starts_at c < slot_start_for d 0 + 24 * us_hour \<and> slot_start_for d 0 < c_ends_at c" by linarith
    with o'(3) c have m: "c \<in> set (closures_for s d (c_room c))" by (auto simp: closures_for_def Let_def)
    have "h \<notin> bar_hours op cl (mk_bar Bar_closed (fst (closure_hours d c)) (snd (closure_hours d c)) (c_reason c) None)"
    proof (rule free(1))
      have "c \<in> set (closures_for s d None @ closures_for s d (Some (r_pk room)))" using m o'(4) by auto
      then have "mk_bar Bar_closed (fst (closure_hours d c)) (snd (closure_hours d c)) (c_reason c) None \<in> set ?closed"
        unfolding set_map by (rule image_eqI [rotated]) (simp add: split_beta)
      then show "mk_bar Bar_closed (fst (closure_hours d c)) (snd (closure_hours d c)) (c_reason c) None \<in> set (?lessons @ ?closed)"
        unfolding set_append by (rule UnI2)
    qed
    moreover have "fst (closure_hours d c) \<le> h \<and> h < snd (closure_hours d c)"
    proof (rule closure_covers_hour)
      show "slot_start_for d h + us_minute \<le> c_ends_at c"
        using whole c o' unfolding closed_first_minute_def by (meson not_le)
    qed (use o' gap range in auto)
    ultimately show False using gap by (simp add: bar_hours_def mk_bar_def)
  qed
  ultimately show "slot_open s (slot_start_for d h) room \<longleftrightarrow> \<not> closed_first_minute s room d h"
    using assms(2,6) gap first_minute_not_open [of s room d h] by (auto simp: slot_open_def t)
  show "\<not> room_hour_held s (r_pk room) (slot_start_for d h)"
  proof
    assume "room_hour_held s (r_pk room) (slot_start_for d h)"
    then obtain b where b: "b \<in> set (bookings s)" "b_room b = r_pk room" "b_slot_start b = slot_start_for d h" "occupies_slot b"
      by (auto simp: room_hour_held_iff)
    have "b_slot_date b = d" using assms(3) b t by (simp add: dates_derived_def)
    with drawn_hour [OF b(1) _ _ blocking_drawn [OF b(4)], of d "map r_pk shown"] b(2,3) assms(4)
    obtain x where "x \<in> set ?mine" "b_slot_start x = slot_start_for d h" by auto
    with free(2) t(2) show False by fastforce
  qed
  show "now < slot_start_for d h"
  proof (cases "local_date now = d")
    case True
    then have "\<not> slot_start_for d h \<le> now"
      using time before_slot(2) [OF True, of h] local_hour_floor [of now] by auto
    then show ?thesis by simp
  qed (use time later_date [of now "slot_start_for d h"] t in simp)
qed

section \<open>Properties\<close>

text \<open>C29: A gap of the staff timeline opens the booking form on an hour that can be booked: for every room and
  gap shown, a member of staff who books that room for that hour is accepted, on any day of the staff
  horizon; no class and no booking is in the way, and the hour has not begun. There is exactly one exception, an hour the
  timeline shows as a gap and the service refuses with a code: one into whose first minute a closure of the room, or of
  all rooms, still reaches, because the timeline reads the end of a closure without its seconds.\<close>

theorem timeline_gaps_are_bookable:
  assumes "hours_ok s" "dates_derived s"
    and "(kind, members) \<in> set (tl_groups (day_timeline s d (ctx_now cx)))" "row \<in> set members" "(h, col) \<in> set (tr_gaps row)"
    and "ctx_actor cx = Some u" "is_booking_staff (Some u)"
    and "d \<le> local_date (ctx_now cx) + STAFF_BOOKING_HORIZON_DAYS (conf s)"
  shows "if \<exists>c \<in> set (closures s). c_revoked_at c = None \<and> (c_room c = None \<or> c_room c = Some (r_pk (tr_room row)))
      \<and> c_starts_at c < slot_start_for d (h + 1) \<and> slot_start_for d h < c_ends_at c \<and> c_ends_at c < slot_start_for d h + us_minute
    then \<exists>c x. create_staff_booking (tr_room row) d h (h + 1) cx s = Inl (rejected c x)
    else \<exists>r s'. create_staff_booking (tr_room row) d h (h + 1) cx s = Inr (r, s')"
proof -
  from assms(3) obtain op cl where hrs: "day_hours s d = Some (op, cl)"
    by (cases "day_hours s d") (auto simp: day_timeline_def Let_def)
  let ?shown = "order_by (\<lambda>r. (r_position r, r_number r)) (filter r_is_active (rooms s))"
  from assms(3,4) obtain room where room: "room \<in> set ?shown" "r_is_active room"
    and row: "row = row_of_room s d (ctx_now cx) op cl (weekly_blocks_for_date s d (map r_pk ?shown)) (closures_for s d)
       (drawn_bookings s d (map r_pk ?shown)) room"
    by (auto simp: day_timeline_def hrs Let_def split: if_splits)
  note gap = gap_facts [OF assms(1) hrs assms(2) room(1) assms(5) [unfolded row] room(2)]
  note range = day_hours_range [OF assms(1) hrs]
  have hour: "[h..h + 1 - 1] = [h]" by simp
  let ?run = "create_staff_booking room d h (h + 1) cx s"
  have "if closed_first_minute s room d h then clean ?run \<and> (\<nexists>r s'. ?run = Inr (r, s')) else \<exists>r s'. ?run = Inr (r, s')"
    using create_staff_booking_all_or_nothing [OF assms(6), of h "h + 1" d s room] gap range assms(7,8)
    unfolding hour by (auto simp: assert_slot_open_Inr split: if_splits)
  then have "if closed_first_minute s room d h then \<exists>c x. ?run = Inl (rejected c x) else \<exists>r s'. ?run = Inr (r, s')"
    unfolding clean_def by (metis obj_sumE surj_pair)
  moreover have "tr_room row = room" by (simp add: row row_of_room_def Let_def split_beta)
  ultimately show ?thesis unfolding closed_first_minute_def by simp
qed

theorem timeline_gaps_are_bookable_witness:
  "\<exists>(row :: timeline_row) r s'. (12, 5) \<in> set (tr_gaps row)
    \<and> create_staff_booking (tr_room row) monday 12 13 (sample_ctx (at 9 0) staff_member) (sample_st (at 9 0)) = Inr (r, s')"
proof -
  let ?s = "sample_st (at 9 0)" and ?cx = "sample_ctx (at 9 0) staff_member"
  let ?shown = "order_by (\<lambda>r. (r_position r, r_number r)) (filter r_is_active (rooms ?s))"
  let ?row = "row_of_room ?s monday (at 9 0) 8 20 (weekly_blocks_for_date ?s monday (map r_pk ?shown))
    (closures_for ?s monday) (drawn_bookings ?s monday (map r_pk ?shown)) room_a"
  have cx: "ctx_actor ?cx = Some staff_member" "ctx_now ?cx = at 9 0" by (simp_all add: sample_ctx_def)
  have a: "room_a \<in> set ?shown" "room_kind room_a = Kind_practice"
    by (simp_all add: sample_st_def) (simp_all add: room_a_def sample_room_def blank_room_def room_kind_def)
  then have "\<exists>members. (Kind_practice, members) \<in> set (tl_groups (day_timeline ?s monday (at 9 0))) \<and> ?row \<in> set members"
    by (auto simp: day_timeline_def sample_calendar(4) Let_def filter_empty_conv)
  then obtain members where m: "(Kind_practice, members) \<in> set (tl_groups (day_timeline ?s monday (ctx_now ?cx)))"
    "?row \<in> set members" unfolding cx(2) by blast
  have "local_hour (floor_to_slot (at 9 0)) = 9" by (simp add: local_hour_floor at_def)
  then have gap: "(12, 5) \<in> set (tr_gaps ?row)"
    by (simp add: row_of_room_def Let_def split_beta drawn_bookings_def weekly_blocks_for_date_def closures_for_def
        sample_tables sample_times(3) order_by_def order_by_desc_def image_iff)
  have "closures ?s = []" by (simp add: sample_tables)
  moreover have "is_booking_staff (Some staff_member)"
    by (simp add: is_booking_staff_def staff_member_def sample_user_def blank_user_def)
  moreover have "monday \<le> local_date (ctx_now ?cx) + STAFF_BOOKING_HORIZON_DAYS (conf ?s)"
    by (simp add: cx sample_times(3) sample_tables default_settings_def)
  ultimately obtain r s' where "create_staff_booking (tr_room ?row) monday 12 (12 + 1) ?cx ?s = Inr (r, s')"
    using timeline_gaps_are_bookable [OF sample_calendar(1,3) m gap cx(1)] by auto
  then have run: "create_staff_booking (tr_room ?row) monday 12 13 ?cx ?s = Inr (r, s')" by simp
  show ?thesis by (intro exI [of _ ?row] exI [of _ r] exI [of _ s'] conjI) (rule gap, rule run)
qed


text \<open>Such an hour: a closure that ends half a minute past noon.\<close>

definition half_minute_st :: st where
  "half_minute_st = (sample_st (at 9 0))\<lparr>closures := [\<lparr>c_pk = 1, c_room = None, c_starts_at = at 10 0,
     c_ends_at = at 12 0 + 30 * us_second, c_reason = ''R'', c_created_by = None, c_revoked_at = None, c_revoked_by = None,
     c_revoked_reason = '''', c_acknowledged_in_use = False\<rparr>]\<rparr>"

lemma half_minute_gap:
  "list_ex (\<lambda>(k, members). list_ex (\<lambda>row. r_pk (tr_room row) = r_pk room_a \<and> (12, 5) \<in> set (tr_gaps row)) members)
     (tl_groups (day_timeline half_minute_st monday (at 9 0)))"
  by code_simp

lemma half_minute_refused:
  "(case create_staff_booking room_a monday 12 13 (sample_ctx (at 9 0) staff_member) half_minute_st of
      Inl (OperationRejected x) \<Rightarrow> \<not> ok x | _ \<Rightarrow> False)"
  by code_simp

end
