(* ===== verification/SignIn.thy ===== *)
theory SignIn
  imports Identity Timeline
begin

text \<open>
  Signing in and what throttles it: \<open>services/ratelimit.py\<close>, the backend of \<open>auth.py\<close>, the POST of \<open>login_view\<close>
  (\<open>views/identity.py\<close>) and of the complaint form (\<open>views/complaints.py\<close>). Django's cache is a parameter, \<open>cache_ops\<close> over a
  cache of any type, and \<open>counting\<close> is the documented behaviour the limit rests on while an entry lives; SHA-256, the
  password checker and the verified form are parameters too. Pages and messages are not modelled.
\<close>

section \<open>The rate limit\<close>

text \<open>\<open>add\<close> answers whether it created the entry; \<open>incr\<close> answers \<open>None\<close> where it raises \<open>ValueError\<close>.\<close>

record 'c cache_ops =
  ca_add :: "string \<Rightarrow> int \<Rightarrow> int \<Rightarrow> 'c \<Rightarrow> bool \<times> 'c"
  ca_incr :: "string \<Rightarrow> 'c \<Rightarrow> int option \<times> 'c"
  ca_set :: "string \<Rightarrow> int \<Rightarrow> int \<Rightarrow> 'c \<Rightarrow> 'c"

definition ADDRESS_LIMIT :: int where "ADDRESS_LIMIT = 400"
definition ADDRESS_WINDOW :: int where "ADDRESS_WINDOW = 300"
definition IDENTIFIER_LIMIT :: int where "IDENTIFIER_LIMIT = 8"
definition IDENTIFIER_WINDOW :: int where "IDENTIFIER_WINDOW = 900"
definition REGISTRATION_LIMIT :: int where "REGISTRATION_LIMIT = 5"
definition REGISTRATION_WINDOW :: int where "REGISTRATION_WINDOW = 3600"

definition cache_key :: "(string \<Rightarrow> string) \<Rightarrow> string \<Rightarrow> string \<Rightarrow> string" where
  "cache_key digest scope value = ''ratelimit:'' @ scope @ '':'' @ digest value"

definition hit :: "'c cache_ops \<Rightarrow> (string \<Rightarrow> string) \<Rightarrow> string \<Rightarrow> string \<Rightarrow> int \<Rightarrow> int \<Rightarrow> 'c \<Rightarrow> bool \<times> 'c" where
  "hit ops digest scope value limit window c =
    (let key = cache_key digest scope value; (created, c) = ca_add ops key 1 window c
     in if created then (True, c)
        else case ca_incr ops key c of
          (Some count, c) \<Rightarrow> (count \<le> limit, c)
        | (None, c) \<Rightarrow> (1 \<le> limit, ca_set ops key 1 window c))"

text \<open>What the request says of its sender.\<close>

record request =
  rq_real_ip :: "string option"
  rq_remote_addr :: "string option"

definition client_address :: "request \<Rightarrow> string" where
  "client_address request = (let text_of = (\<lambda>x. case x of None \<Rightarrow> '''' | Some v \<Rightarrow> v)
     in strip (or_text (text_of (rq_real_ip request)) (or_text (text_of (rq_remote_addr request)) ''unknown'')))"

definition guard_login :: "'c cache_ops \<Rightarrow> (string \<Rightarrow> string) \<Rightarrow> request \<Rightarrow> string \<Rightarrow> int \<Rightarrow> 'c \<Rightarrow> (exn + unit) \<times> 'c" where
  "guard_login ops digest request identifier identifier_limit c =
    (let (address_ok, c) = hit ops digest ''addr'' (client_address request) ADDRESS_LIMIT ADDRESS_WINDOW c;
         (identifier_ok, c) = hit ops digest ''ident'' (lower (strip (or_text identifier ''anonymous''))) identifier_limit IDENTIFIER_WINDOW c
     in (if address_ok \<and> identifier_ok then Inr ()
         else Inl (rejected Code_RATE_LIMITED [(''retry_after'', PInt IDENTIFIER_WINDOW)]), c))"

text \<open>An absent or empty identifier or address is not counted.\<close>

definition hit_given :: "'c cache_ops \<Rightarrow> (string \<Rightarrow> string) \<Rightarrow> string \<Rightarrow> string \<Rightarrow> 'c \<Rightarrow> bool \<times> 'c" where
  "hit_given ops digest scope value c =
    (if value = '''' then (True, c) else hit ops digest scope (lower (strip value)) REGISTRATION_LIMIT REGISTRATION_WINDOW c)"

definition guard_registration :: "'c cache_ops \<Rightarrow> (string \<Rightarrow> string) \<Rightarrow> request \<Rightarrow> string \<Rightarrow> string \<Rightarrow> 'c \<Rightarrow> (exn + unit) \<times> 'c" where
  "guard_registration ops digest request identifier email c =
    (let (address_ok, c) = hit ops digest ''reghost'' (client_address request) ADDRESS_LIMIT ADDRESS_WINDOW c;
         (identifier_ok, c) = hit_given ops digest ''regid'' identifier c;
         (email_ok, c) = hit_given ops digest ''regemail'' email c
     in (if address_ok \<and> identifier_ok \<and> email_ok then Inr ()
         else Inl (rejected Code_RATE_LIMITED [(''retry_after'', PInt REGISTRATION_WINDOW)]), c))"

section \<open>Signing in\<close>

definition authenticate :: "(string \<Rightarrow> string \<Rightarrow> bool) \<Rightarrow> string \<Rightarrow> string \<Rightarrow> st \<Rightarrow> user option" where
  "authenticate checker username password s =
    (case List.find (\<lambda>u. u_username u = strip username) (users s) of
       None \<Rightarrow> None
     | Some u \<Rightarrow> (case u_password u of
         None \<Rightarrow> None
       | Some stored \<Rightarrow> if checker password stored \<and> u_is_active u then Some u else None))"

definition username_for_auth :: "string \<Rightarrow> st \<Rightarrow> string" where
  "username_for_auth institutional_id s =
    (if CHR 0x40 \<in> set institutional_id
     then (case List.find (\<lambda>u. same_text (u_email u) institutional_id) (users s) of
         None \<Rightarrow> institutional_id | Some u \<Rightarrow> u_username u)
     else institutional_id)"

datatype login_answer = Throttled | WrongCredentials | SignedIn user

definition login_post :: "'c cache_ops \<Rightarrow> (string \<Rightarrow> string) \<Rightarrow> (string \<Rightarrow> string \<Rightarrow> bool) \<Rightarrow> request \<Rightarrow> string \<Rightarrow> string \<Rightarrow> st \<Rightarrow> 'c
    \<Rightarrow> login_answer \<times> 'c" where
  "login_post ops digest checker request institutional_id password s c =
    (let institutional_id = strip institutional_id in
     case guard_login ops digest request institutional_id IDENTIFIER_LIMIT c of
       (Inl e, c) \<Rightarrow> (Throttled, c)
     | (Inr _, c) \<Rightarrow> (case authenticate checker (username_for_auth institutional_id s) password s of
         None \<Rightarrow> (WrongCredentials, c) | Some u \<Rightarrow> (SignedIn u, c)))"

section \<open>Complaints\<close>

text \<open>
  The POST of the complaint form. \<open>cleaned\<close> is what Django's form makes of the input (\<open>None\<close>: invalid), \<open>opened\<close> what the
  signature of the hidden field vouches for (\<open>None\<close>: forged, or older than a day), \<open>no_room\<close> the dash for no room.
\<close>

record complaint_form =
  cf_subject :: string
  cf_room :: "room option"
  cf_message :: string

datatype complaint_answer = InvalidForm | StaleForm | AlreadyReceived | TooManyComplaints | ComplaintQueued string

definition complaint_key :: "nat \<Rightarrow> string \<Rightarrow> string" where
  "complaint_key user_pk reference = ''complaint:'' @ show_nat user_pk @ '':'' @ reference"

definition complaint_post :: "'c cache_ops \<Rightarrow> (string \<Rightarrow> string) \<Rightarrow> (string \<Rightarrow> bool) \<Rightarrow> string \<Rightarrow> string \<Rightarrow> user
    \<Rightarrow> complaint_form option \<Rightarrow> (nat \<times> string) option \<Rightarrow> st \<Rightarrow> 'c \<Rightarrow> (exn + complaint_answer) \<times> st \<times> 'c" where
  "complaint_post ops digest valid_email recipient_email no_room user cleaned opened s c =
    (case cleaned of None \<Rightarrow> (Inr InvalidForm, s, c)
     | Some form \<Rightarrow>
       case opened of None \<Rightarrow> (Inr StaleForm, s, c)
       | Some (owner, reference) \<Rightarrow>
         if owner \<noteq> u_pk user then (Inr StaleForm, s, c)
         else let key = complaint_key (u_pk user) reference in
           if \<exists>n \<in> set (notifications s). n_dedupe_key n = key then (Inr AlreadyReceived, s, c)
           else let (passed, c) = hit ops digest ''complaint'' (show_nat (u_pk user)) 3 3600 c in
             if \<not> passed then (Inr TooManyComplaints, s, c)
             else if \<not> valid_email recipient_email \<or> \<not> valid_email (u_email user) then (Inl ValidationError, s, c)
             else (Inr (ComplaintQueued reference),
               snd (snd (enqueue_full ''complaint'' None key
                 [(''reference'', PStr reference), (''sender_name'', PStr (display_name user)), (''reply_email'', PStr (u_email user)),
                  (''email_verified'', PBool (email_is_verified user)), (''subject'', PStr (cf_subject form)),
                  (''room'', PStr (case cf_room form of None \<Rightarrow> no_room | Some r \<Rightarrow> room_str r)), (''message'', PStr (cf_message form))]
                 None (Some ''th'') recipient_email s)), c))"

section \<open>What the limit promises\<close>

text \<open>
  A cache that counts: \<open>live\<close> is what \<open>get\<close> answers. \<open>add\<close> creates an absent entry and leaves another alone, \<open>incr\<close> adds one to
  an entry and raises without one, \<open>set\<close> writes. No entry expires between the attempts considered.
\<close>

definition counting :: "'c cache_ops \<Rightarrow> ('c \<Rightarrow> string \<Rightarrow> int option) \<Rightarrow> bool" where
  "counting ops live \<longleftrightarrow>
    (\<forall>key v w c. fst (ca_add ops key v w c) = (live c key = None)
       \<and> live (snd (ca_add ops key v w c)) = (if live c key = None then (live c)(key \<mapsto> v) else live c))
    \<and> (\<forall>key c. fst (ca_incr ops key c) = map_option (\<lambda>n. n + 1) (live c key)
       \<and> live (snd (ca_incr ops key c)) = (case live c key of None \<Rightarrow> live c | Some n \<Rightarrow> (live c)(key \<mapsto> n + 1)))
    \<and> (\<forall>key v w c. live (ca_set ops key v w c) = (live c)(key \<mapsto> v))"

lemma hit_counts:
  assumes "counting ops live" "key = cache_key digest scope value"
  shows "fst (hit ops digest scope value limit window c) = (case live c key of None \<Rightarrow> True | Some n \<Rightarrow> n + 1 \<le> limit)"
    and "live (snd (hit ops digest scope value limit window c)) = (live c)(key \<mapsto> (case live c key of None \<Rightarrow> 1 | Some n \<Rightarrow> n + 1))"
proof -
  obtain created c1 where add: "ca_add ops key 1 window c = (created, c1)" by fastforce
  with assms(1) have add_law: "created = (live c key = None)" "live c1 = (if live c key = None then (live c)(key \<mapsto> 1) else live c)"
    unfolding counting_def by (metis fst_conv snd_conv)+
  obtain count c2 where incr: "ca_incr ops key c1 = (count, c2)" by fastforce
  with assms(1) have incr_law: "count = map_option (\<lambda>n. n + 1) (live c1 key)"
    "live c2 = (case live c1 key of None \<Rightarrow> live c1 | Some n \<Rightarrow> (live c1)(key \<mapsto> n + 1))"
    unfolding counting_def by (metis fst_conv snd_conv)+
  note h = hit_def assms(2) [symmetric] add Let_def incr
  show "fst (hit ops digest scope value limit window c) = (case live c key of None \<Rightarrow> True | Some n \<Rightarrow> n + 1 \<le> limit)"
    using add_law incr_law by (cases "live c key") (auto simp: h)
  show "live (snd (hit ops digest scope value limit window c)) = (live c)(key \<mapsto> (case live c key of None \<Rightarrow> 1 | Some n \<Rightarrow> n + 1))"
    using add_law incr_law by (cases "live c key") (auto simp: h)
qed

fun attempts :: "'c cache_ops \<Rightarrow> (string \<Rightarrow> string) \<Rightarrow> string \<Rightarrow> string \<Rightarrow> int \<Rightarrow> int \<Rightarrow> nat \<Rightarrow> 'c \<Rightarrow> bool list" where
  "attempts ops digest scope value limit window 0 c = []"
| "attempts ops digest scope value limit window (Suc n) c = (case hit ops digest scope value limit window c of
     (passed, c) \<Rightarrow> passed # attempts ops digest scope value limit window n c)"

text \<open>However often one identifier is tried while its entry lives, exactly the first \<open>limit\<close> attempts go through.\<close>

lemma attempts_limited:
  assumes "counting ops live" "live c (cache_key digest scope value) = None" "1 \<le> limit"
  shows "attempts ops digest scope value limit window n c = map (\<lambda>i. int i < limit) [0..<n]"
proof -
  have rest: "attempts ops digest scope value limit window n c = map (\<lambda>i. int i + k < limit) [0..<n]"
    if "live c (cache_key digest scope value) = Some k" for n c k
    using that
  proof (induction n arbitrary: c k)
    case (Suc n)
    obtain passed c' where h: "hit ops digest scope value limit window c = (passed, c')" by fastforce
    with hit_counts [OF assms(1) refl, of digest scope "value" limit window c] Suc.prems
    have passed: "passed = (k + 1 \<le> limit)" and live: "live c' (cache_key digest scope value) = Some (k + 1)" by simp_all
    have "[0..<Suc n] = 0 # map Suc [0..<n]" by (simp add: map_Suc_upt upt_conv_Cons)
    then show ?case using Suc.IH [OF live] by (auto simp: h passed)
  qed simp
  show ?thesis
  proof (cases n)
    case (Suc n')
    obtain passed c' where h: "hit ops digest scope value limit window c = (passed, c')" by fastforce
    with hit_counts [OF assms(1) refl, of digest scope "value" limit window c] assms(2)
    have passed: passed and live: "live c' (cache_key digest scope value) = Some 1" by simp_all
    have "[0..<Suc n'] = 0 # map Suc [0..<n']" by (simp add: map_Suc_upt upt_conv_Cons)
    with rest [OF live] passed assms(3) show ?thesis by (auto simp: Suc h)
  qed simp
qed

text \<open>Both dimensions are counted by every attempt, refused ones included, and no other entry is touched.\<close>

lemma guard_login_counts:
  assumes "counting ops live" "guard_login ops digest request identifier limit c = (r, c')"
    and "a = cache_key digest ''addr'' (client_address request)"
    and "i = cache_key digest ''ident'' (lower (strip (or_text identifier ''anonymous'')))"
  shows "live c' a \<noteq> None \<and> live c' i \<noteq> None \<and> (\<forall>key. key \<noteq> a \<longrightarrow> key \<noteq> i \<longrightarrow> live c' key = live c key)"
proof -
  obtain ok1 c1 where h1: "hit ops digest ''addr'' (client_address request) ADDRESS_LIMIT ADDRESS_WINDOW c = (ok1, c1)" by fastforce
  obtain ok2 c2 where h2: "hit ops digest ''ident'' (lower (strip (or_text identifier ''anonymous''))) limit IDENTIFIER_WINDOW c1 = (ok2, c2)"
    by fastforce
  have "c' = c2" using assms(2) by (simp add: guard_login_def h1 h2)
  with hit_counts(2) [OF assms(1,3), of ADDRESS_LIMIT ADDRESS_WINDOW c] hit_counts(2) [OF assms(1,4), of limit IDENTIFIER_WINDOW c1]
  show ?thesis by (simp add: h1 h2)
qed

text \<open>
  Who is signed in is an active account whose stored password the given one matches, named by its ID or by its address in any
  case, and the attempt was within both limits.
\<close>

lemma signed_in_is_genuine:
  assumes "login_post ops digest checker request institutional_id password s c = (SignedIn u, c')"
  shows "u \<in> set (users s) \<and> u_is_active u \<and> (\<exists>stored. u_password u = Some stored \<and> checker password stored)
    \<and> u_username u = strip (username_for_auth (strip institutional_id) s)
    \<and> guard_login ops digest request (strip institutional_id) IDENTIFIER_LIMIT c = (Inr (), c')"
proof -
  obtain r c1 where g: "guard_login ops digest request (strip institutional_id) IDENTIFIER_LIMIT c = (r, c1)" by fastforce
  with assms have r: "r = Inr ()" "c1 = c'" "authenticate checker (username_for_auth (strip institutional_id) s) password s = Some u"
    by (auto simp: login_post_def Let_def split: sum.splits option.splits)
  from r(3) have "List.find (\<lambda>u. u_username u = strip (username_for_auth (strip institutional_id) s)) (users s) = Some u"
    "u_is_active u" "\<exists>stored. u_password u = Some stored \<and> checker password stored"
    by (auto simp: authenticate_def split: option.splits if_splits)
  then show ?thesis using g r by (auto simp: find_Some_iff)
qed

text \<open>A complaint form is taken once: sending it again changes nothing and costs no attempt.\<close>

lemma complaint_once:
  assumes "complaint_post ops digest valid_email recipient_email no_room user cleaned opened s c = (Inr (ComplaintQueued reference), s', c')"
  shows "complaint_post ops digest valid_email recipient_email no_room user cleaned opened s' c' = (Inr AlreadyReceived, s', c')"
    and "\<exists>n. notifications s' = notifications s @ [n] \<and> n_kind n = ''complaint'' \<and> n_recipient_email n = recipient_email
      \<and> map_of (n_payload n) ''reply_email'' = Some (PStr (u_email user))"
proof -
  obtain form where f: "cleaned = Some form" "opened = Some (u_pk user, reference)"
    "\<not> (\<exists>n \<in> set (notifications s). n_dedupe_key n = complaint_key (u_pk user) reference)"
    using assms by (auto simp: complaint_post_def Let_def split_beta split: option.splits if_splits)
  then have none: "List.find (\<lambda>n. n_dedupe_key n = complaint_key (u_pk user) reference) (notifications s) = None"
    by (auto simp: find_None_iff)
  from assms f none have "\<exists>n. notifications s' = notifications s @ [n] \<and> n_kind n = ''complaint'' \<and> n_recipient_email n = recipient_email
      \<and> map_of (n_payload n) ''reply_email'' = Some (PStr (u_email user)) \<and> n_dedupe_key n = complaint_key (u_pk user) reference"
    by (auto simp: complaint_post_def enqueue_full_def Let_def split_beta split: if_splits)
  then show "\<exists>n. notifications s' = notifications s @ [n] \<and> n_kind n = ''complaint'' \<and> n_recipient_email n = recipient_email
      \<and> map_of (n_payload n) ''reply_email'' = Some (PStr (u_email user))"
    "complaint_post ops digest valid_email recipient_email no_room user cleaned opened s' c' = (Inr AlreadyReceived, s', c')"
    using f by (auto simp: complaint_post_def Let_def)
qed

text \<open>The laws are those of a dictionary.\<close>

definition dict_cache :: "(string \<Rightarrow> int option) cache_ops" where
  "dict_cache = \<lparr>ca_add = (\<lambda>key v w c. if c key = None then (True, c(key \<mapsto> v)) else (False, c)),
     ca_incr = (\<lambda>key c. case c key of None \<Rightarrow> (None, c) | Some n \<Rightarrow> (Some (n + 1), c(key \<mapsto> n + 1))),
     ca_set = (\<lambda>key v w c. c(key \<mapsto> v))\<rparr>"

lemma dict_cache_counts: "counting dict_cache (\<lambda>c. c)"
  by (simp add: counting_def dict_cache_def split: option.split)

lemma ninth_login_is_throttled:
  "attempts dict_cache id ''ident'' ''6530000021'' IDENTIFIER_LIMIT IDENTIFIER_WINDOW 9 (\<lambda>_. None)
    = [True, True, True, True, True, True, True, True, False]"
  using attempts_limited [OF dict_cache_counts, of "\<lambda>_. None"] by (simp add: IDENTIFIER_LIMIT_def upt_rec)

end
