(* ===== verification/Clock.thy ===== *)
theory Clock
  imports Slots
begin

text \<open>
  The authoritative clock (\<open>services/clock.py\<close>): the real time, or a time frozen for one thread or for the whole process by
  test infrastructure. \<open>allow\<close> is the setting \<open>ALLOW_TEST_CLOCK\<close>, which production turns off; \<open>wall\<close> is what
  \<open>timezone.now()\<close> answers, and \<open>parse\<close> is \<open>datetime.fromisoformat\<close>, \<open>None\<close> its \<open>ValueError\<close>. The other theories take the
  answer of \<open>now\<close> as \<open>clock_now\<close> of the database.
\<close>

section \<open>State and operations\<close>

text \<open>\<open>_state.frozen\<close>, one slot for each thread, and \<open>_process_frozen\<close>.\<close>

record clock_state =
  ck_thread :: "nat \<Rightarrow> time option"
  ck_process :: "time option"

datatype moment = Aware time | Naive time

datatype clock_failure = TestClockDisabled | NoFrozenClock

definition as_utc :: "moment \<Rightarrow> time" where
  "as_utc m = (case m of Aware t \<Rightarrow> t | Naive local \<Rightarrow> local - BANGKOK)"

definition now_of :: "bool \<Rightarrow> time \<Rightarrow> nat \<Rightarrow> clock_state \<Rightarrow> time" where
  "now_of allow wall thread ck =
     (let frozen = (case ck_thread ck thread of None \<Rightarrow> ck_process ck | Some t \<Rightarrow> Some t)
      in case frozen of Some t \<Rightarrow> if allow then t else wall | None \<Rightarrow> wall)"

text \<open>The context manager around a block: what the block leaves, with the slot of the thread put back in every case.\<close>

definition frozen_clock :: "bool \<Rightarrow> moment \<Rightarrow> nat \<Rightarrow> (clock_state \<Rightarrow> 'a \<times> clock_state) \<Rightarrow> clock_state
    \<Rightarrow> (clock_failure + 'a) \<times> clock_state" where
  "frozen_clock allow m thread block ck =
    (if \<not> allow then (Inl TestClockDisabled, ck)
     else let previous = ck_thread ck thread;
              (result, after) = block (ck\<lparr>ck_thread := (ck_thread ck)(thread := Some (as_utc m))\<rparr>)
          in (Inr result, after\<lparr>ck_thread := (ck_thread after)(thread := previous)\<rparr>))"

definition advance_process_clock :: "time \<Rightarrow> clock_state \<Rightarrow> clock_failure + clock_state" where
  "advance_process_clock delta ck = (case ck_process ck of
     None \<Rightarrow> Inl NoFrozenClock | Some t \<Rightarrow> Inr (ck\<lparr>ck_process := Some (t + delta)\<rparr>))"

definition advance :: "bool \<Rightarrow> time \<Rightarrow> nat \<Rightarrow> clock_state \<Rightarrow> clock_failure + clock_state" where
  "advance allow delta thread ck =
    (if \<not> allow then Inl TestClockDisabled
     else case ck_thread ck thread of
       None \<Rightarrow> advance_process_clock delta ck
     | Some t \<Rightarrow> Inr (ck\<lparr>ck_thread := (ck_thread ck)(thread := Some (t + delta))\<rparr>))"

definition freeze_process_clock :: "bool \<Rightarrow> moment option \<Rightarrow> clock_state \<Rightarrow> clock_failure + (time option \<times> clock_state)" where
  "freeze_process_clock allow m ck =
    (if \<not> allow then Inl TestClockDisabled
     else case m of None \<Rightarrow> Inr (None, ck\<lparr>ck_process := None\<rparr>)
        | Some m \<Rightarrow> Inr (Some (as_utc m), ck\<lparr>ck_process := Some (as_utc m)\<rparr>))"

definition is_frozen :: "bool \<Rightarrow> nat \<Rightarrow> clock_state \<Rightarrow> bool" where
  "is_frozen allow thread ck = (if \<not> allow then False else ck_thread ck thread \<noteq> None \<or> ck_process ck \<noteq> None)"

definition freeze_from_environment :: "(string \<Rightarrow> moment option) \<Rightarrow> bool \<Rightarrow> string option \<Rightarrow> clock_state
    \<Rightarrow> clock_failure + (time option \<times> clock_state)" where
  "freeze_from_environment parse allow variable ck =
    (if \<not> allow then Inr (None, ck)
     else let raw = (case variable of None \<Rightarrow> '''' | Some v \<Rightarrow> strip v)
       in if raw = '''' then Inr (None, ck)
          else case parse raw of None \<Rightarrow> Inr (None, ck) | Some m \<Rightarrow> freeze_process_clock allow (Some m) ck)"

section \<open>The clock as a state machine\<close>

text \<open>What any thread can do to the clock; a block is any change its body makes by these steps.\<close>

inductive clock_step :: "bool \<Rightarrow> clock_state \<Rightarrow> clock_state \<Rightarrow> bool" for allow where
  advanced: "advance allow delta thread ck = Inr ck' \<Longrightarrow> clock_step allow ck ck'"
| pinned: "freeze_process_clock allow m ck = Inr (t, ck') \<Longrightarrow> clock_step allow ck ck'"
| started: "freeze_from_environment parse allow variable ck = Inr (t, ck') \<Longrightarrow> clock_step allow ck ck'"
| blocked: "frozen_clock allow m thread block ck = (r :: clock_failure + unit, ck') \<Longrightarrow> clock_step allow ck ck'"

text \<open>
  A production clock cannot be moved: with the setting off no sequence of these operations changes it, and it answers the
  real time even if a freeze were left in the state.
\<close>

lemma production_clock_is_real:
  assumes "(clock_step False)\<^sup>*\<^sup>* ck ck'"
  shows "ck' = ck \<and> now_of False wall thread ck' = wall \<and> \<not> is_frozen False thread ck'"
proof -
  have "ck' = ck"
    using assms
  proof (induction rule: rtranclp_induct)
    case (step y z)
    from step.hyps(2) have "z = y"
      by cases (auto simp: advance_def freeze_process_clock_def freeze_from_environment_def frozen_clock_def)
    with step.IH show ?case by simp
  qed simp
  then show ?thesis by (simp add: now_of_def is_frozen_def Let_def split: option.split)
qed

text \<open>
  A block that does not touch the clock leaves it as it was; inside it the thread sees the frozen moment and every other thread
  what it saw before.
\<close>

lemma frozen_clock_scoped:
  assumes "\<And>ck. snd (block ck) = ck"
  shows "snd (frozen_clock allow m thread block ck) = ck"
    and "frozen_clock True m thread (\<lambda>ck. (\<lambda>t. now_of True wall t ck, ck)) ck
      = (Inr (\<lambda>t. if t = thread then as_utc m else now_of True wall t ck), ck)"
proof -
  have same: "ck\<lparr>ck_thread := (ck_thread ck)(thread := ck_thread ck thread)\<rparr> = ck" by simp
  show "snd (frozen_clock allow m thread block ck) = ck"
    using assms by (simp add: frozen_clock_def Let_def split_beta)
  show "frozen_clock True m thread (\<lambda>ck. (\<lambda>t. now_of True wall t ck, ck)) ck
      = (Inr (\<lambda>t. if t = thread then as_utc m else now_of True wall t ck), ck)"
    by (auto simp: frozen_clock_def now_of_def Let_def fun_eq_iff split: option.split)
qed

text \<open>Advancing moves what the thread reads by exactly the given time, whichever freeze it reads.\<close>

lemma advance_moves:
  assumes "advance True delta thread ck = Inr ck'"
  shows "now_of True wall thread ck' = now_of True wall thread ck + delta"
  using assms by (auto simp: advance_def advance_process_clock_def now_of_def Let_def split: option.splits)

end
