(* ===== verification/Spec2Isabelle.thy ===== *)
theory Spec2Isabelle
  imports System Suggest SignIn Clock
begin

text \<open>
  Room Reserve: the booking rules of a Django application for practice rooms, \<open>src/core\<close>.

  The program is a set of service functions over a relational database. Every mutating service
  runs inside one transaction under a global lock (\<open>services/protocol.py\<close>), so the model is
  sequential: a database is a value of the record \<open>st\<close> (theory Schema), one list of rows per
  table of \<open>src/core/models\<close>, in primary-key order, and a service is a function
  \<open>ctx \<Rightarrow> st \<Rightarrow> exn + (dict \<times> st)\<close>, where \<open>Inl\<close> is the exception that rolls the transaction
  back and \<open>Inr\<close> the result data with the committed state.

  Time is an \<open>int\<close> of microseconds since the epoch, a local date an \<open>int\<close> of days since the epoch in
  Asia/Bangkok (a fixed offset of seven hours). Python's integers are unbounded, so \<open>int\<close> is exact.
  Primary keys are \<open>nat\<close>; \<open>fresh_pk\<close> is the next value of the sequence, larger than every key of the
  table.

  \<^item> Prelude: the result monad, loops with an early exit, ordered queries, rows by key.
  \<^item> PyVal, Slots, Errors: JSON-like values and redaction (\<open>services/audit.py\<close>), the hour slots
    (\<open>services/slots.py\<close>, \<open>services/clock.py\<close>), codes, outcomes and exceptions (\<open>services/errors.py\<close>).
  \<^item> Schema, Tables: the tables of \<open>models/*.py\<close>, their properties and the constraints of \<open>Booking\<close>,
    which \<open>create_booking\<close> and \<open>update_booking\<close> enforce. \<open>bookings_ok\<close> is what they maintain.
  \<^item> Samples: a small installation for the witnesses.
  \<^item> Outbox, Policy, Calendar, Eligibility, Quota: the service of the same name.
  \<^item> Lifecycle: the state machine of a booking and the invariant \<open>well_formed\<close>; the locale
    \<open>booking_body\<close> is the contract every operation meets (no failure other than a rejection, the
    invariant kept, every row moved only along the state machine).
  \<^item> Cancel, Reservations, Amendments, Attendance: \<open>cancel.py\<close>, \<open>booking.py\<close>, \<open>checkin.py\<close> and
    \<open>walkin.py\<close>, one definition per operation, an interpretation of \<open>booking_body\<close> each, and what each
    operation accepts and writes.
  \<^item> Strikes, Sweep: the tables of violations and suspensions with their constraints, and the locale
    \<open>row_sweep\<close>, the contract of one round of a loop that moves a batch of bookings.
  \<^item> Reconcile, Reconciled: \<open>reconcile.py\<close>, its loops as interpretations of \<open>row_sweep\<close>, and what a run
    achieves against the row-wise specification \<open>settle\<close>.
  \<^item> Protocol: \<open>services/protocol.py\<close>. The locale \<open>service_body\<close> is what the protocol needs of a service;
    SHA-256 and what the database answers to the lock are parameters.
  \<^item> Sanctions, Maintenance, Incidents: \<open>sanctions.py\<close>, \<open>maintenance.py\<close> and \<open>incidents.py\<close>, with the bodies the staff views run:
    what each writes on every branch, its loops as interpretations of \<open>row_sweep\<close>, each body an
    interpretation of \<open>service_body\<close>.
  \<^item> Availability, Suggest, Timeline: the read models of the pages, \<open>availability.py\<close>, \<open>suggest.py\<close> and
    \<open>timeline.py\<close>. Their theorems tie what a page shows to what the operations accept: the cells of the
    grid, the walk-in button, the suggestions and the gaps of the staff timeline.
  \<^item> Accounts: \<open>identity.py\<close>, who may register, approval without staff and what staff decide about an account.
  \<^item> Identity: registration, links with generations, passwords, changes of address and invitations; \<open>accounts_ok\<close>
    is what every account service keeps (\<open>account_safe\<close>), \<open>registered\<close> the row a completed registration leaves.
  \<^item> Rooms, Seed: \<open>room_access.py\<close> and \<open>rooms.py\<close>, the lists of members-only rooms, the profile and the administrators
    of a room, and \<open>ensure_rooms\<close>; \<open>service_view\<close> is what seeding does to the rooms in service, row by row.
  \<^item> Csv, Instruments, Roster: \<open>csvio.py\<close> with the reader and the writer of Python's \<open>csv\<close> module, \<open>instruments.py\<close>,
    and \<open>roster.py\<close>, the import of a file: \<open>follows_file\<close> and \<open>entered_from\<close> are its specification, cell by cell, its dry run is
    compared with the import itself, and \<open>upload_of_written\<close> with what the writer of a file put in it.
  \<^item> Dates, Clock: the rest of \<open>slots.py\<close> and \<open>clock.py\<close>: year, month and day, the identifier of a slot in a URL and how
    \<open>strptime\<close> reads it back, \<open>fromisoformat\<close>, the pages of the calendar; the frozen clock of the tests.
  \<^item> Delivery: \<open>notifications.py\<close> and \<open>scheduler.py\<close>. \<open>settle_message\<close> is the specification of one row of a batch,
    \<open>current_row\<close> what must hold, kind by kind, for a mail to go out and which row it is made of; \<open>run_tick\<close> is the scheduled job with its heartbeat, and
    \<open>run_tick_reachable\<close> (System) shows it is a run of the steps of the state machine.
  \<^item> SignIn: \<open>ratelimit.py\<close>, \<open>auth.py\<close> and the POST of the login and the complaint form, over a cache that is a parameter
    (\<open>counting\<close> is what is assumed of it).
  \<^item> System: the program as a state machine. Each service of \<open>mutation\<close> is an interpretation of
    \<open>service_body\<close>; a step is one committed transaction, the scheduler's reconciliation, the clock, or a
    write of the outbox worker, and the invariants of the reachable databases are proved by rule induction.

  Bounds. No definition takes fuel: the loops of the code run over the rows of a query, and the retries of the
  protocol over a budget counted down (\<open>MAX_TRANSIENT_RETRIES\<close>), so every definition is total. The budget of the
  reconciler is a setting; what happens above it is a property of its own (\<open>reconcile_outcome\<close>, \<open>backlog_is_permanent\<close>).

  Parameters. SHA-256, random tokens, the password hasher and Django's validators, the template engine, the message
  catalogue and the mail provider, the cache, the answer of the database to a lock, the dialect \<open>csv.Sniffer\<close> guesses, and the
  locale's first weekday are arguments of the definitions that use them.

  Not modelled. The views, forms, the admin site and the middleware, which route requests, render pages and keep sessions
  (the views with logic of their own are modelled beside the service they call); the posters and QR
  codes; the migrations; the load test; the templates and their translations, among them the Thai
  spellings of the table of instruments, whose characters the model's strings do not have. Real concurrency inside one
  transaction is the database's: the global lock of the protocol is what makes the sequential model the right one.
\<close>

end
